(* ===== verification/Prelude.thy ===== *)
theory Prelude
  imports Main "HOL-Library.Word" "HOL-Library.AList"
begin

text \<open>
  The vocabulary every component shares: the gateway's machine integers as
  words of their own width, Rust's saturating, checked and wrapping
  arithmetic, big- and little-endian byte codecs, finite maps as association
  lists (Rust's \<open>HashMap\<close> and \<open>BTreeMap\<close>), and the generic facts about them
  that the component proofs use.
\<close>

unbundle bit_operations_syntax

section \<open>Types\<close>

type_synonym u8 = "8 word"
type_synonym u16 = "16 word"
type_synonym u32 = "32 word"
type_synonym u64 = "64 word"
type_synonym u128 = "128 word"
type_synonym u256 = "256 word"
type_synonym h160 = "160 word"
type_synonym h256 = "256 word"
type_synonym bytes = "u8 list"

named_theorems arith_word \<open>readings of the machine arithmetic on natural numbers\<close>
named_theorems alist_simps \<open>lookup after an update of a finite map\<close>

section \<open>Arithmetic of the machine integers\<close>

text \<open>Rust's \<open>saturating_add\<close>, \<open>saturating_sub\<close>, \<open>saturating_mul\<close>.\<close>

definition sat_add :: "'a::len word \<Rightarrow> 'a word \<Rightarrow> 'a word" where
  "sat_add a b = (if unat a + unat b < 2 ^ LENGTH('a) then a + b else - 1)"

definition sat_sub :: "'a::len word \<Rightarrow> 'a word \<Rightarrow> 'a word" where
  "sat_sub a b = (if b \<le> a then a - b else 0)"

definition sat_mul :: "'a::len word \<Rightarrow> 'a word \<Rightarrow> 'a word" where
  "sat_mul a b = (if unat a * unat b < 2 ^ LENGTH('a) then a * b else - 1)"

text \<open>Rust's \<open>checked_add\<close>, \<open>checked_sub\<close>, \<open>checked_mul\<close>: \<open>None\<close> on overflow.\<close>

definition checked_add :: "'a::len word \<Rightarrow> 'a word \<Rightarrow> 'a word option" where
  "checked_add a b = (if unat a + unat b < 2 ^ LENGTH('a) then Some (a + b) else None)"

definition checked_sub :: "'a::len word \<Rightarrow> 'a word \<Rightarrow> 'a word option" where
  "checked_sub a b = (if b \<le> a then Some (a - b) else None)"

definition checked_mul :: "'a::len word \<Rightarrow> 'a word \<Rightarrow> 'a word option" where
  "checked_mul a b = (if unat a * unat b < 2 ^ LENGTH('a) then Some (a * b) else None)"

lemma unat_minus_one_word_nat: "unat (- 1 :: 'a::len word) = 2 ^ LENGTH('a) - 1"
  by (simp add: unsigned_minus_1_eq_mask mask_eq_exp_minus_1)

lemma unat_less_length: "unat (a :: 'a::len word) < 2 ^ LENGTH('a)"
  by (rule unsigned_less)

lemma unat_le_max: "unat (a :: 'a::len word) \<le> 2 ^ LENGTH('a) - Suc 0"
  using unat_less_length [of a] by linarith

lemma unat_sat_add [arith_word]:
  "unat (sat_add a (b :: 'a::len word)) = min (unat a + unat b) (2 ^ LENGTH('a) - 1)"
proof (cases "unat a + unat b < 2 ^ LENGTH('a)")
  case True
  then show ?thesis
    by (simp add: sat_add_def unat_word_ariths)
next
  case False
  then show ?thesis
    by (simp add: sat_add_def unat_minus_one_word_nat)
qed

lemma unat_sat_sub [arith_word]: "unat (sat_sub a b) = unat a - unat b"
  by (simp add: sat_sub_def unat_sub word_le_nat_alt)

lemma unat_sat_mul [arith_word]:
  "unat (sat_mul a (b :: 'a::len word)) = min (unat a * unat b) (2 ^ LENGTH('a) - 1)"
proof (cases "unat a * unat b < 2 ^ LENGTH('a)")
  case True
  then show ?thesis
    by (simp add: sat_mul_def unat_word_ariths)
next
  case False
  then show ?thesis
    by (simp add: sat_mul_def unat_minus_one_word_nat)
qed

lemma checked_add_Some [arith_word]:
  "checked_add a b = Some c \<longleftrightarrow> unat c = unat a + unat b" for a b :: "'a::len word"
proof
  assume "checked_add a b = Some c"
  then show "unat c = unat a + unat b"
    by (auto simp: checked_add_def unat_word_ariths split: if_splits)
next
  assume c: "unat c = unat a + unat b"
  then have "unat a + unat b < 2 ^ LENGTH('a)"
    by (metis unat_less_length)
  with c show "checked_add a b = Some c"
    by (auto simp: checked_add_def unat_word_ariths intro: word_unat_eq_iff [THEN iffD2])
qed

lemma checked_sub_Some [arith_word]:
  "checked_sub a b = Some c \<longleftrightarrow> unat b \<le> unat a \<and> unat c = unat a - unat b"
  by (auto simp: checked_sub_def word_le_nat_alt unat_sub
      intro: word_unat_eq_iff [THEN iffD2])

lemma checked_sub_None [arith_word]: "checked_sub a b = None \<longleftrightarrow> unat a < unat b"
  by (auto simp: checked_sub_def word_le_nat_alt)

lemma checked_mul_Some [arith_word]:
  "checked_mul a b = Some c \<longleftrightarrow> unat c = unat a * unat b" for a b :: "'a::len word"
proof
  assume "checked_mul a b = Some c"
  then show "unat c = unat a * unat b"
    by (auto simp: checked_mul_def unat_word_ariths split: if_splits)
next
  assume c: "unat c = unat a * unat b"
  then have "unat a * unat b < 2 ^ LENGTH('a)"
    by (metis unat_less_length)
  with c show "checked_mul a b = Some c"
    by (auto simp: checked_mul_def unat_word_ariths intro: word_unat_eq_iff [THEN iffD2])
qed

lemma sat_add_ge: "a \<le> sat_add a b" for a b :: "'a::len word"
  using unat_le_max [of a] by (simp add: word_le_nat_alt unat_sat_add)

lemma sat_add_exact:
  "unat a + unat b < 2 ^ LENGTH('a) \<Longrightarrow> unat (sat_add a b) = unat a + unat b"
  for a b :: "'a::len word"
  by (simp add: unat_sat_add)

lemma sat_sub_le: "sat_sub a b \<le> a"
  by (simp add: word_le_nat_alt unat_sat_sub)

section \<open>Byte codecs\<close>

text \<open>\<open>to_be_bytes\<close> / \<open>from_be_bytes\<close> at a width of \<open>n\<close> bytes, and the
  little-endian pair as their reversals.\<close>

fun be_bytes :: "nat \<Rightarrow> nat \<Rightarrow> bytes" where
  "be_bytes 0 v = []"
| "be_bytes (Suc n) v = be_bytes n (v div 256) @ [of_nat (v mod 256)]"

definition be_val :: "bytes \<Rightarrow> nat" where
  "be_val bs = foldl (\<lambda>a b. a * 256 + unat b) 0 bs"

definition le_bytes :: "nat \<Rightarrow> nat \<Rightarrow> bytes" where
  "le_bytes n v = rev (be_bytes n v)"

definition le_val :: "bytes \<Rightarrow> nat" where
  "le_val bs = be_val (rev bs)"

lemma length_be_bytes [simp]: "length (be_bytes n v) = n"
  by (induction n arbitrary: v) simp_all

lemma length_le_bytes [simp]: "length (le_bytes n v) = n"
  by (simp add: le_bytes_def)

lemma be_val_Nil [simp]: "be_val [] = 0"
  by (simp add: be_val_def)

lemma be_val_snoc [simp]: "be_val (bs @ [b]) = be_val bs * 256 + unat b"
  by (simp add: be_val_def)

lemma unat_u8_of_nat_mod [simp]: "unat (of_nat (v mod 256) :: u8) = v mod 256"
  by (simp add: unat_of_nat take_bit_eq_mod)

lemma unat_u8_less: "unat (b :: u8) < 256"
  using unat_less_length [of b] by simp

lemma be_val_bytes: "be_val (be_bytes n v) = v mod 256 ^ n"
proof (induction n arbitrary: v)
  case (Suc n)
  have "v div 256 mod 256 ^ n * 256 + v mod 256 = v mod (256 * 256 ^ n)"
    by (subst mod_mult2_eq) simp
  then show ?case by (simp add: Suc.IH)
qed simp

lemma be_bytes_val: "be_bytes (length bs) (be_val bs) = bs"
proof (induction bs rule: rev_induct)
  case (snoc b bs)
  have "(be_val bs * 256 + unat b) div 256 = be_val bs"
    and "(be_val bs * 256 + unat b) mod 256 = unat b"
    using unat_u8_less [of b] by simp_all
  then show ?case using snoc.IH by simp
qed simp

lemma be_val_less: "be_val bs < 256 ^ length bs"
proof (induction bs rule: rev_induct)
  case (snoc b bs)
  then show ?case using unat_u8_less [of b] by simp
qed simp

lemma le_val_bytes: "le_val (le_bytes n v) = v mod 256 ^ n"
  by (simp add: le_val_def le_bytes_def be_val_bytes)

lemma le_bytes_val: "le_bytes (length bs) (le_val bs) = bs"
  using be_bytes_val [of "rev bs"] by (simp add: le_val_def le_bytes_def)

text \<open>A 256-bit number as 32 bytes, and a word read from a slice.\<close>

definition u256_to_be_bytes :: "u256 \<Rightarrow> bytes" where
  "u256_to_be_bytes n = be_bytes 32 (unat n)"

definition word_from_slice :: "bytes \<Rightarrow> 'a::len word" where
  "word_from_slice bs = of_nat (be_val bs)"

lemma length_u256_bytes [simp]: "length (u256_to_be_bytes n) = 32"
  by (simp add: u256_to_be_bytes_def)

lemma word_from_be_bytes:
  "unat (a :: 'a::len word) < 256 ^ n \<Longrightarrow> word_from_slice (be_bytes n (unat a)) = a"
  by (simp add: word_from_slice_def be_val_bytes)

lemma from_slice_u256 [simp]: "word_from_slice (u256_to_be_bytes a) = a"
  unfolding u256_to_be_bytes_def
  by (rule word_from_be_bytes) (use unat_less_length [of a] in simp)

lemma unat_from_slice:
  assumes "256 ^ length bs \<le> (2 :: nat) ^ LENGTH('a)"
  shows "unat (word_from_slice bs :: 'a::len word) = be_val bs"
  using be_val_less [of bs] assms
  by (simp add: word_from_slice_def unat_of_nat take_bit_eq_mod)

lemma u256_bytes_from_slice: "length bs = 32 \<Longrightarrow> u256_to_be_bytes (word_from_slice bs) = bs"
  using be_bytes_val [of bs] unat_from_slice [of bs, where 'a = 256]
  by (simp add: u256_to_be_bytes_def)

section \<open>Finite maps\<close>

text \<open>A \<open>HashMap\<close> or \<open>BTreeMap\<close> is an association list with distinct keys:
  \<open>map_of\<close> looks up, \<open>AList.update\<close> inserts (overwriting in place),
  \<open>AList.delete\<close> removes, \<open>filter\<close> retains; \<open>length\<close> is \<open>len()\<close>.\<close>

abbreviation keys_distinct :: "('k \<times> 'v) list \<Rightarrow> bool" where
  "keys_distinct m \<equiv> distinct (map fst m)"

lemma lookup_update [alist_simps]:
  "map_of (AList.update k v m) = (map_of m)(k \<mapsto> v)"
  by (rule update_conv')

lemma lookup_delete [alist_simps]:
  "map_of (AList.delete k m) = (map_of m)(k := None)"
  by (rule delete_conv')

lemma lookup_filter:
  "keys_distinct m \<Longrightarrow>
   map_of (filter P m) k = (case map_of m k of None \<Rightarrow> None
      | Some v \<Rightarrow> if P (k, v) then Some v else None)"
proof (induction m)
  case (Cons kv m)
  then show ?case
    by (cases kv) (auto simp: map_of_eq_None_iff [symmetric] image_iff split: option.splits
      dest: map_of_SomeD)
qed simp

lemma keys_distinct_filter: "keys_distinct m \<Longrightarrow> keys_distinct (filter P m)"
  by (induction m) auto

lemma keys_distinct_update: "keys_distinct m \<Longrightarrow> keys_distinct (AList.update k v m)"
  by (rule distinct_update)

lemma keys_distinct_delete: "keys_distinct m \<Longrightarrow> keys_distinct (AList.delete k m)"
  by (rule distinct_delete)

lemma length_update_absent:
  "map_of m k = None \<Longrightarrow> length (AList.update k v m) = Suc (length m)"
  by (induction m) (auto split: if_splits)

lemma length_update_le: "length (AList.update k v m) \<le> Suc (length m)"
  by (induction m) auto

lemma length_delete_le: "length (AList.delete k m) \<le> length m"
  by (simp add: AList.delete_eq)

lemma length_delete_less:
  "map_of m k = Some v \<Longrightarrow> length (AList.delete k m) < length m"
  by (induction m) (auto simp: AList.delete_eq le_imp_less_Suc split: if_splits)

lemma delete_shortens:
  "(k, v) \<in> set m \<Longrightarrow> length (AList.delete k m) < length m"
  by (induction m) (auto simp: AList.delete_eq le_imp_less_Suc less_SucI split: if_splits)

lemma map_leD: "m \<subseteq>\<^sub>m m' \<Longrightarrow> m k = Some v \<Longrightarrow> m' k = Some v"
  by (metis domI map_le_def)

lemma map_leI: "(\<And>k v. m k = Some v \<Longrightarrow> m' k = Some v) \<Longrightarrow> m \<subseteq>\<^sub>m m'"
  by (metis domIff map_le_def not_Some_eq)

lemma map_le_deleteD:
  assumes le: "m \<subseteq>\<^sub>m map_of (AList.delete k al)"
  shows "m \<subseteq>\<^sub>m map_of al" and "m k = None"
proof -
  have "map_of al k' = Some v \<and> k' \<noteq> k" if "m k' = Some v" for k' v
    using map_leD [OF le that] by (simp add: alist_simps split: if_splits)
  then show "m \<subseteq>\<^sub>m map_of al" and "m k = None"
    by (auto intro!: map_leI) (metis not_None_eq)
qed

text \<open>The entry with the greatest key: \<open>BTreeMap::iter().next_back()\<close>.\<close>

fun btree_last :: "('k::linorder \<times> 'v) list \<Rightarrow> ('k \<times> 'v) option" where
  "btree_last [] = None"
| "btree_last (kv # m) =
     (case btree_last m of
        None \<Rightarrow> Some kv
      | Some kv' \<Rightarrow> if fst kv < fst kv' then Some kv' else Some kv)"

lemma btree_last_None [simp]: "btree_last m = None \<longleftrightarrow> m = []"
  by (cases m) (auto split: option.splits)

lemma btree_last_mem: "btree_last m = Some kv \<Longrightarrow> kv \<in> set m"
  by (induction m arbitrary: kv) (auto split: option.splits if_splits)

lemma btree_last_greatest:
  "btree_last m = Some kv \<Longrightarrow> kv' \<in> set m \<Longrightarrow> fst kv' \<le> fst kv"
proof (induction m arbitrary: kv)
  case (Cons a m)
  then show ?case
    by (cases "btree_last m") (force split: if_splits)+
qed simp

lemma list_all2_mem1: "list_all2 R xs ys \<Longrightarrow> x \<in> set xs \<Longrightarrow> \<exists>y \<in> set ys. R x y"
  by (induction rule: list_all2_induct) auto

lemma list_all2_mem2: "list_all2 R xs ys \<Longrightarrow> y \<in> set ys \<Longrightarrow> \<exists>x \<in> set xs. R x y"
  by (induction rule: list_all2_induct) auto

section \<open>Text and JSON\<close>

text \<open>A Rust string is the list of its UTF-8 bytes; \<open>char\<close> is an 8-bit unit.\<close>

abbreviation char_nat :: "char \<Rightarrow> nat" where
  "char_nat c \<equiv> of_char c"

definition as_bytes :: "string \<Rightarrow> bytes" where
  "as_bytes s = map of_char s"

lemma length_as_bytes [simp]: "length (as_bytes s) = length s"
  by (simp add: as_bytes_def)

lemma unat_of_char_u8 [simp]: "unat (of_char c :: u8) = char_nat c"
proof -
  have "unat (of_char x :: u8) = of_char x" for x
    by (simp add: of_char_def of_nat_of_char unat_of_nat take_bit_eq_mod
        flip: of_nat_of_char)
  then show ?thesis by simp
qed

lemma as_bytes_inject [simp]: "as_bytes s = as_bytes t \<longleftrightarrow> s = t"
proof -
  have "inj (of_char :: char \<Rightarrow> u8)"
  proof (rule injI)
    fix c d :: char assume "(of_char c :: u8) = of_char d"
    then have "unat (of_char c :: u8) = unat (of_char d :: u8)" by simp
    then have "char_nat c = char_nat d" by (simp del: of_char_eq_iff)
    then show "c = d" by simp
  qed
  then show ?thesis by (simp add: as_bytes_def inj_map_eq_map)
qed

text \<open>The string with the given bytes, and the check of \<open>String::from_utf8\<close>.\<close>

definition chars_of :: "bytes \<Rightarrow> string" where
  "chars_of bs = map (\<lambda>b. char_of (unat b)) bs"

lemma chars_of_bytes [simp]: "chars_of (as_bytes s) = s"
  by (simp add: chars_of_def as_bytes_def map_idI)

lemma bytes_chars_of [simp]: "as_bytes (chars_of bs) = bs"
proof -
  have "(of_char (char_of (unat b)) :: u8) = b" for b :: u8
    using unat_less_length [of b] by (simp flip: word_unat_eq_iff add: word_unat_eq_iff)
  then show ?thesis by (simp add: chars_of_def as_bytes_def map_idI)
qed

fun utf8_ok :: "nat list \<Rightarrow> bool" where
  "utf8_ok [] = True"
| "utf8_ok (a # r) =
     (let cont = (\<lambda>b. 128 \<le> b \<and> b < 192)
      in if a < 128 then utf8_ok r
         else if 194 \<le> a \<and> a < 224 then
           (case r of b # r' \<Rightarrow> cont b \<and> utf8_ok r' | _ \<Rightarrow> False)
         else if 224 \<le> a \<and> a < 240 then
           (case r of b # c # r' \<Rightarrow> cont b \<and> cont c \<and> (a = 224 \<longrightarrow> 160 \<le> b) \<and> (a = 237 \<longrightarrow> b < 160)
              \<and> utf8_ok r' | _ \<Rightarrow> False)
         else if 240 \<le> a \<and> a < 245 then
           (case r of b # c # d # r' \<Rightarrow> cont b \<and> cont c \<and> cont d \<and> (a = 240 \<longrightarrow> 144 \<le> b)
              \<and> (a = 244 \<longrightarrow> b < 144) \<and> utf8_ok r' | _ \<Rightarrow> False)
         else False)"

declare utf8_ok.simps(2) [simp del]

definition from_utf8 :: "bytes \<Rightarrow> string option" where
  "from_utf8 bs = (if utf8_ok (map unat bs) then Some (chars_of bs) else None)"

lemma utf8_ok_ascii: "(\<And>n. n \<in> set ns \<Longrightarrow> n < 128) \<Longrightarrow> utf8_ok ns"
  by (induction ns) (auto simp: utf8_ok.simps(2))

text \<open>Rust's \<open>Display\<close> of an unsigned integer.\<close>

definition digit_char :: "nat \<Rightarrow> char" where
  "digit_char d = char_of (48 + d)"

fun dec_string :: "nat \<Rightarrow> string" where
  "dec_string n =
     (if n < 10 then [digit_char n] else dec_string (n div 10) @ [digit_char (n mod 10)])"

declare dec_string.simps [simp del]

text \<open>\<open>serde_json::Value\<close>. Objects are association lists; numbers are kept by
  kind (a \<open>u64\<close>, a negative integer, or an opaque float).\<close>

datatype json =
    JNull
  | JBool bool
  | JUint nat
  | JNeg int
  | JFloat string
  | JStr string
  | JArr "json list"
  | JObj "(string \<times> json) list"

fun json_get :: "string \<Rightarrow> json \<Rightarrow> json option" where
  "json_get k (JObj m) = map_of m k"
| "json_get k v = None"

fun json_str :: "json \<Rightarrow> string option" where
  "json_str (JStr s) = Some s"
| "json_str v = None"

fun json_u64 :: "json \<Rightarrow> nat option" where
  "json_u64 (JUint n) = Some n"
| "json_u64 v = None"

fun json_arr :: "json \<Rightarrow> json list option" where
  "json_arr (JArr vs) = Some vs"
| "json_arr v = None"

text \<open>What the balance of a bearer key is denominated in.\<close>

datatype key_backing = Salt | Credits

section \<open>Codecs\<close>

text \<open>An encoder and a decoder that reports an error: what a client of a wire
  format relies on.\<close>

locale codec =
  fixes enc :: "'a \<Rightarrow> 'b" and dec :: "'b \<Rightarrow> 'e + 'a"
  assumes dec_enc: "dec (enc x) = Inr x"
    and enc_dec: "dec y = Inr x \<Longrightarrow> enc x = y"
begin

lemma enc_eq_iff: "enc x = enc y \<longleftrightarrow> x = y"
  by (metis dec_enc sum.inject(2))

lemma dec_eq_iff: "dec y = Inr x \<longleftrightarrow> y = enc x"
  using dec_enc enc_dec by blast

lemma dec_error_iff: "(\<exists>e. dec y = Inl e) \<longleftrightarrow> y \<notin> range enc"
  by (metis dec_enc dec_eq_iff old.sum.exhaust rangeE rangeI sum.distinct(1))

end

section \<open>Fallible steps on a state\<close>

text \<open>Rust's \<open>?\<close>: run a step, convert its error and return, or go on with its
  value in the state the step left.\<close>

definition try_then ::
  "('e \<Rightarrow> 'f) \<Rightarrow> ('e + 'a) \<times> 'w \<Rightarrow> ('a \<Rightarrow> 'w \<Rightarrow> ('f + 'b) \<times> 'w) \<Rightarrow> ('f + 'b) \<times> 'w" where
  "try_then conv r k =
     (case r of (Inl e, w) \<Rightarrow> (Inl (conv e), w) | (Inr a, w) \<Rightarrow> k a w)"

lemma try_then_simps [simp]:
  "try_then conv (Inl e, w) k = (Inl (conv e), w)"
  "try_then conv (Inr a, w) k = k a w"
  by (simp_all add: try_then_def)

lemma try_then_split:
  "P (try_then conv r k) \<longleftrightarrow>
     (\<forall>e w. r = (Inl e, w) \<longrightarrow> P (Inl (conv e), w)) \<and> (\<forall>a w. r = (Inr a, w) \<longrightarrow> P (k a w))"
  by (cases r, cases "fst r") auto

lemma try_then_InrE:
  assumes "try_then conv r k = (Inr b, w')"
  obtains a w where "r = (Inr a, w)" and "k a w = (Inr b, w')"
  using assms by (auto simp: try_then_def split: prod.splits sum.splits)

lemma try_then_cases:
  assumes "try_then conv r k = (x, w')"
  obtains (err) e where "r = (Inl e, w')" and "x = Inl (conv e)"
  | (ok) a w where "r = (Inr a, w)" and "k a w = (x, w')"
  using assms by (auto simp: try_then_def split: prod.splits sum.splits)

end
