(* ===== verification/Ledger.thy ===== *)
theory Ledger
  imports Prelude
begin

text \<open>
  The server-issued challenge nonces of \<open>crates/x402-axum/src/ledger.rs\<close>: the
  table of outstanding nonces, the ordered index of their insertion, and the
  operations \<open>record_bound\<close> and \<open>consume_bound\<close>. The first section states, as
  a locale, what a paid path relies on when it spends nonces; the last
  interprets it on the code's ledger.
\<close>

section \<open>The ledger\<close>

datatype nonce_ledger_error = NonceUnknown | NonceExpired | NonceRequestMismatch

record ledger_entry =
  le_expires_at :: u64
  le_sequence :: u64
  le_commitment :: h256

record nonce_ledger =
  entries :: "(h256 \<times> ledger_entry) list"
  insertion_order :: "(u64 \<times> h256) list"
  next_sequence :: u64
  max_outstanding :: nat

definition ledger_new :: "nat \<Rightarrow> nonce_ledger" where
  "ledger_new mx =
     \<lparr> entries = [], insertion_order = [], next_sequence = 0, max_outstanding = mx \<rparr>"

definition default_max_outstanding :: nat where
  "default_max_outstanding = 100000"

text \<open>The \<open>while\<close> loop of \<open>record_bound\<close>: drop the greatest sequence until
  there is room, or the index has no entry left.\<close>

function evict_newest ::
  "nat \<Rightarrow> (h256 \<times> ledger_entry) list \<Rightarrow> (u64 \<times> h256) list
    \<Rightarrow> (h256 \<times> ledger_entry) list \<times> (u64 \<times> h256) list" where
  "evict_newest mx es ord =
     (if mx \<le> length es
      then (case btree_last ord of
              None \<Rightarrow> (es, ord)
            | Some (s, candidate) \<Rightarrow>
                evict_newest mx (AList.delete candidate es) (AList.delete s ord))
      else (es, ord))"
  by pat_completeness auto
termination
  by (relation "measure (\<lambda>(mx, es, ord). length ord)")
    (auto dest!: btree_last_mem simp: delete_shortens)

declare evict_newest.simps [simp del]

definition forget_nonce ::
  "h256 \<Rightarrow> (h256 \<times> ledger_entry) list \<Rightarrow> (u64 \<times> h256) list
    \<Rightarrow> (h256 \<times> ledger_entry) list \<times> (u64 \<times> h256) list" where
  "forget_nonce nonce es ord =
     (case map_of es nonce of
        None \<Rightarrow> (es, ord)
      | Some previous \<Rightarrow>
          (AList.delete nonce es, AList.delete (le_sequence previous) ord))"

definition prune_expired ::
  "u64 \<Rightarrow> (h256 \<times> ledger_entry) list \<Rightarrow> (u64 \<times> h256) list
    \<Rightarrow> (h256 \<times> ledger_entry) list \<times> (u64 \<times> h256) list" where
  "prune_expired now es ord =
     (let expired = map (le_sequence \<circ> snd) (filter (\<lambda>(n, e). le_expires_at e \<le> now) es)
      in (filter (\<lambda>(n, e). now < le_expires_at e) es, fold AList.delete expired ord))"

definition insert_nonce ::
  "nonce_ledger \<Rightarrow> h256 \<Rightarrow> h256 \<Rightarrow> u64 \<Rightarrow> (h256 \<times> ledger_entry) list \<Rightarrow> (u64 \<times> h256) list
    \<Rightarrow> nonce_ledger" where
  "insert_nonce L nonce commitment expires_at es ord =
     L\<lparr> entries := AList.update nonce
          \<lparr> le_expires_at = expires_at, le_sequence = next_sequence L,
            le_commitment = commitment \<rparr> es,
        insertion_order := AList.update (next_sequence L) nonce ord,
        next_sequence := sat_add (next_sequence L) 1 \<rparr>"

definition record_bound :: "nonce_ledger \<Rightarrow> h256 \<Rightarrow> h256 \<Rightarrow> u64 \<Rightarrow> u64 \<Rightarrow> nonce_ledger" where
  "record_bound L nonce commitment expires_at now =
     (if max_outstanding L = 0 then L
      else
        let mx = max_outstanding L;
            (es1, ord1) = forget_nonce nonce (entries L) (insertion_order L);
            (es2, ord2) = (if mx \<le> length es1 then prune_expired now es1 ord1 else (es1, ord1));
            (es3, ord3) = evict_newest mx es2 ord2
        in insert_nonce L nonce commitment expires_at es3 ord3)"

definition record_plain :: "nonce_ledger \<Rightarrow> h256 \<Rightarrow> u64 \<Rightarrow> u64 \<Rightarrow> nonce_ledger" where
  "record_plain L nonce expires_at now = record_bound L nonce 0 expires_at now"

definition drop_entry :: "nonce_ledger \<Rightarrow> h256 \<Rightarrow> ledger_entry \<Rightarrow> nonce_ledger" where
  "drop_entry L nonce e =
     L\<lparr> entries := AList.delete nonce (entries L),
        insertion_order := AList.delete (le_sequence e) (insertion_order L) \<rparr>"

definition consume_bound ::
  "nonce_ledger \<Rightarrow> h256 \<Rightarrow> h256 \<Rightarrow> u64 \<Rightarrow> (nonce_ledger_error + unit) \<times> nonce_ledger" where
  "consume_bound L nonce commitment now =
     (case map_of (entries L) nonce of
        None \<Rightarrow> (Inl NonceUnknown, L)
      | Some e \<Rightarrow>
          if le_expires_at e \<le> now then (Inl NonceExpired, drop_entry L nonce e)
          else if le_commitment e \<noteq> commitment then (Inl NonceRequestMismatch, L)
          else (Inr (), drop_entry L nonce e))"

definition consume_plain ::
  "nonce_ledger \<Rightarrow> h256 \<Rightarrow> u64 \<Rightarrow> (nonce_ledger_error + unit) \<times> nonce_ledger" where
  "consume_plain L nonce now = consume_bound L nonce 0 now"

definition outstanding :: "nonce_ledger \<Rightarrow> nat" where
  "outstanding L = length (entries L)"

section \<open>The two indexes agree\<close>

definition index_ok :: "(h256 \<times> ledger_entry) list \<Rightarrow> (u64 \<times> h256) list \<Rightarrow> bool" where
  "index_ok es ord \<longleftrightarrow>
     keys_distinct es \<and> keys_distinct ord \<and>
     (\<forall>n e. map_of es n = Some e \<longrightarrow> map_of ord (le_sequence e) = Some n) \<and>
     (\<forall>s n. map_of ord s = Some n \<longrightarrow> (\<exists>e. map_of es n = Some e \<and> le_sequence e = s))"

lemma index_okI:
  assumes "keys_distinct es" "keys_distinct ord"
    and "\<And>n e. map_of es n = Some e \<Longrightarrow> map_of ord (le_sequence e) = Some n"
    and "\<And>s n. map_of ord s = Some n \<Longrightarrow> \<exists>e. map_of es n = Some e \<and> le_sequence e = s"
  shows "index_ok es ord"
  using assms by (simp add: index_ok_def)

lemma index_ok_Nil [simp]: "index_ok [] []"
  by (simp add: index_ok_def)

lemma index_ok_distinct:
  assumes "index_ok es ord"
  shows "keys_distinct es" and "keys_distinct ord"
  using assms by (auto simp: index_ok_def)

lemma index_ok_order:
  "index_ok es ord \<Longrightarrow> map_of es n = Some e \<Longrightarrow> map_of ord (le_sequence e) = Some n"
  by (auto simp: index_ok_def)

lemma index_ok_entry:
  "index_ok es ord \<Longrightarrow> map_of ord s = Some n \<Longrightarrow> \<exists>e. map_of es n = Some e \<and> le_sequence e = s"
  by (auto simp: index_ok_def)

lemma index_ok_sequence_inj:
  "index_ok es ord \<Longrightarrow> map_of es n = Some e \<Longrightarrow> map_of es n' = Some e'
    \<Longrightarrow> le_sequence e = le_sequence e' \<Longrightarrow> n = n'"
  by (metis index_ok_order option.inject)

lemma index_ok_delete:
  assumes ok: "index_ok es ord" and e: "map_of es n = Some e"
  shows "index_ok (AList.delete n es) (AList.delete (le_sequence e) ord)"
proof (rule index_okI)
  show "keys_distinct (AList.delete n es)" and "keys_distinct (AList.delete (le_sequence e) ord)"
    using ok by (auto intro: keys_distinct_delete dest: index_ok_distinct)
next
  fix m e' assume "map_of (AList.delete n es) m = Some e'"
  then have m: "m \<noteq> n" "map_of es m = Some e'"
    by (auto simp: alist_simps split: if_splits)
  then have "le_sequence e' \<noteq> le_sequence e"
    using index_ok_sequence_inj [OF ok] e by metis
  with m show "map_of (AList.delete (le_sequence e) ord) (le_sequence e') = Some m"
    using index_ok_order [OF ok] by (simp add: alist_simps)
next
  fix s m assume "map_of (AList.delete (le_sequence e) ord) s = Some m"
  then have s: "s \<noteq> le_sequence e" "map_of ord s = Some m"
    by (auto simp: alist_simps split: if_splits)
  then obtain e' where e': "map_of es m = Some e'" "le_sequence e' = s"
    using index_ok_entry [OF ok] by blast
  with s e have "m \<noteq> n" by auto
  with e' show "\<exists>e'. map_of (AList.delete n es) m = Some e' \<and> le_sequence e' = s"
    by (simp add: alist_simps)
qed

lemma index_ok_insert:
  assumes ok: "index_ok es ord" and new: "map_of es n = None" and s: "map_of ord (le_sequence e) = None"
  shows "index_ok (AList.update n e es) (AList.update (le_sequence e) n ord)"
proof (rule index_okI)
  show "keys_distinct (AList.update n e es)" and "keys_distinct (AList.update (le_sequence e) n ord)"
    using ok by (auto intro: keys_distinct_update dest: index_ok_distinct)
next
  fix m e' assume "map_of (AList.update n e es) m = Some e'"
  then show "map_of (AList.update (le_sequence e) n ord) (le_sequence e') = Some m"
    using index_ok_order [OF ok, of m e'] s by (auto simp: alist_simps split: if_splits)
next
  fix t m assume "map_of (AList.update (le_sequence e) n ord) t = Some m"
  then show "\<exists>e'. map_of (AList.update n e es) m = Some e' \<and> le_sequence e' = t"
    using index_ok_entry [OF ok] new by (fastforce simp: alist_simps split: if_splits)
qed

lemma forget_nonce_ok:
  assumes ok: "index_ok es ord" and f: "forget_nonce n es ord = (es', ord')"
  shows "index_ok es' ord'" and "map_of es' = (map_of es)(n := None)"
    and "length es' \<le> length es" and "map_of ord' \<subseteq>\<^sub>m map_of ord"
  using assms index_ok_delete [OF ok]
  by (auto simp: forget_nonce_def alist_simps length_delete_le fun_upd_idem map_le_def
      split: option.splits if_splits)

lemma lookup_delete_all:
  "map_of (fold AList.delete ks m) k = (if k \<in> set ks then None else map_of m k)"
  by (induction ks arbitrary: m) (auto simp: alist_simps)

lemma keys_distinct_delete_all:
  "keys_distinct m \<Longrightarrow> keys_distinct (fold AList.delete ks m)"
  by (induction ks arbitrary: m) (auto intro: keys_distinct_delete)

lemma prune_expired_lookup:
  assumes ok: "index_ok es ord" and p: "prune_expired now es ord = (es', ord')"
  shows "map_of es' n = Some e \<longleftrightarrow> map_of es n = Some e \<and> now < le_expires_at e"
  using p index_ok_distinct [OF ok]
  by (auto simp: prune_expired_def Let_def lookup_filter split: option.splits if_splits)

lemma prune_expired_order:
  assumes ok: "index_ok es ord" and p: "prune_expired now es ord = (es', ord')"
  shows "map_of ord' s = Some n \<longleftrightarrow>
    map_of ord s = Some n \<and> (\<exists>e. map_of es n = Some e \<and> le_sequence e = s \<and> now < le_expires_at e)"
proof -
  define ex where "ex = map (le_sequence \<circ> snd) (filter (\<lambda>(n, e). le_expires_at e \<le> now) es)"
  have mem: "s \<in> set ex \<longleftrightarrow> (\<exists>n e. map_of es n = Some e \<and> le_expires_at e \<le> now \<and> le_sequence e = s)"
    using index_ok_distinct [OF ok] by (force simp: image_iff ex_def)
  have "ord' = fold AList.delete ex ord"
    using p by (simp add: prune_expired_def Let_def ex_def)
  then have "map_of ord' s = (if s \<in> set ex then None else map_of ord s)"
    by (simp add: lookup_delete_all)
  then show ?thesis
    unfolding mem using index_ok_entry [OF ok] index_ok_sequence_inj [OF ok]
    by (smt (verit) linorder_not_le option.discI option.inject)
qed

lemma prune_expired_ok:
  assumes ok: "index_ok es ord" and p: "prune_expired now es ord = (es', ord')"
  shows "index_ok es' ord'"
proof (rule index_okI)
  show "keys_distinct es'" and "keys_distinct ord'"
    using p index_ok_distinct [OF ok]
    by (auto simp: prune_expired_def Let_def keys_distinct_delete_all keys_distinct_filter)
qed (use prune_expired_lookup [OF ok p] prune_expired_order [OF ok p] index_ok_order [OF ok]
     index_ok_entry [OF ok] in blast)+

lemma evict_newest_room: "length es < mx \<Longrightarrow> evict_newest mx es ord = (es, ord)"
  by (simp add: evict_newest.simps)

lemma evict_newest_empty:
  "index_ok [] ord \<Longrightarrow> evict_newest mx [] ord = ([], ord)"
proof -
  assume ok: "index_ok [] ord"
  have "btree_last ord = None"
  proof (cases ord)
    case (Cons kv ord')
    then have "map_of ord (fst kv) \<noteq> None" by simp
    then show ?thesis using ok by (auto simp: index_ok_def)
  qed simp
  then show ?thesis by (simp add: evict_newest.simps)
qed

lemma evict_newest_stepE:
  assumes ok: "index_ok es ord" and full: "mx \<le> length es" and ne: "es \<noteq> []"
  obtains c ec where "map_of es c = Some ec"
    and "btree_last ord = Some (le_sequence ec, c)"
    and "index_ok (AList.delete c es) (AList.delete (le_sequence ec) ord)"
    and "evict_newest mx es ord =
      evict_newest mx (AList.delete c es) (AList.delete (le_sequence ec) ord)"
proof -
  from ne obtain n e es' where "es = (n, e) # es'"
    by (cases es) auto
  then have "map_of es n = Some e" by simp
  then have "ord \<noteq> []"
    using index_ok_order [OF ok] by force
  then obtain s c where last: "btree_last ord = Some (s, c)"
    by (metis btree_last_None not_None_eq surj_pair)
  then have "map_of ord s = Some c"
    using index_ok_distinct [OF ok] btree_last_mem by force
  then obtain ec where ec: "map_of es c = Some ec" "le_sequence ec = s"
    using index_ok_entry [OF ok] by blast
  show thesis
    by (rule that [OF ec(1)])
      (use last ec full index_ok_delete [OF ok ec(1)] in \<open>simp_all add: evict_newest.simps [of mx es ord]\<close>)
qed

text \<open>The loop keeps the indexes in step, makes room, and loses only entries
  that are newer than every entry it keeps.\<close>

definition evicts :: "(h256 \<times> ledger_entry) list \<Rightarrow> (h256 \<times> ledger_entry) list \<Rightarrow> bool" where
  "evicts es es' \<longleftrightarrow>
     map_of es' \<subseteq>\<^sub>m map_of es \<and>
     (\<forall>n e m e'. map_of es n = Some e \<longrightarrow> map_of es' n = None \<longrightarrow> map_of es' m = Some e'
        \<longrightarrow> le_sequence e' < le_sequence e)"

lemma evicts_refl [simp]: "evicts es es"
  by (simp add: evicts_def)

lemma evictsD:
  assumes "evicts es es'"
  shows "map_of es' \<subseteq>\<^sub>m map_of es"
    and "map_of es n = Some e \<Longrightarrow> map_of es' n = None \<Longrightarrow> map_of es' m = Some e'
      \<Longrightarrow> le_sequence e' < le_sequence e"
  using assms by (auto simp: evicts_def)

lemma evicts_delete:
  assumes ok: "index_ok es ord" and c: "map_of es c = Some ec"
    and last: "btree_last ord = Some (le_sequence ec, c)"
    and ev: "evicts (AList.delete c es) es'"
  shows "evicts es es'"
  unfolding evicts_def
proof (intro conjI allI impI)
  note sub = map_le_deleteD [OF evictsD(1) [OF ev]]
  show "map_of es' \<subseteq>\<^sub>m map_of es" by (rule sub)
  fix n e m e'
  assume n: "map_of es n = Some e" "map_of es' n = None" and m: "map_of es' m = Some e'"
  show "le_sequence e' < le_sequence e"
  proof (cases "n = c")
    case False
    with n(1) have "map_of (AList.delete c es) n = Some e"
      by (simp add: alist_simps)
    from evictsD(2) [OF ev this n(2) m] show ?thesis .
  next
    case True
    have m': "map_of es m = Some e'" "m \<noteq> c"
      using map_leD [OF sub(1) m] m sub(2) by auto
    then have "(le_sequence e', m) \<in> set ord"
      using index_ok_order [OF ok] by (auto dest: map_of_SomeD)
    then have "le_sequence e' \<le> le_sequence ec"
      using btree_last_greatest [OF last] by force
    moreover have "le_sequence e' \<noteq> le_sequence ec"
      using m' c index_ok_sequence_inj [OF ok] by blast
    ultimately show ?thesis using True n(1) c by simp
  qed
qed

lemma evict_newest_ok:
  assumes "index_ok es ord" and "evict_newest mx es ord = (es', ord')" and "0 < mx"
  shows "index_ok es' ord' \<and> length es' < mx \<and> map_of ord' \<subseteq>\<^sub>m map_of ord \<and> evicts es es'"
  using assms
proof (induction "length es" arbitrary: es ord rule: less_induct)
  case less
  show ?case
  proof (cases "length es < mx")
    case True
    with less(2-) show ?thesis by (simp add: evict_newest_room)
  next
    case False
    with \<open>0 < mx\<close> have "es \<noteq> []" "mx \<le> length es" by auto
    then obtain c ec where c: "map_of es c = Some ec"
      and last: "btree_last ord = Some (le_sequence ec, c)"
      and ok: "index_ok (AList.delete c es) (AList.delete (le_sequence ec) ord)"
      and step: "evict_newest mx es ord =
        evict_newest mx (AList.delete c es) (AList.delete (le_sequence ec) ord)"
      using evict_newest_stepE [OF \<open>index_ok es ord\<close>] by metis
    have ih: "index_ok es' ord' \<and> length es' < mx
      \<and> map_of ord' \<subseteq>\<^sub>m map_of (AList.delete (le_sequence ec) ord) \<and> evicts (AList.delete c es) es'"
      by (rule less(1) [OF length_delete_less [OF c] ok]) (use step less(3,4) in simp_all)
    have "map_of ord' \<subseteq>\<^sub>m map_of ord"
      by (rule map_le_deleteD(1)) (use ih in blast)
    moreover have "evicts es es'"
      by (rule evicts_delete [OF \<open>index_ok es ord\<close> c last]) (use ih in blast)
    ultimately show ?thesis using ih by simp
  qed
qed

text \<open>Of a table that is not over its bound, at most one entry goes.\<close>

lemma evict_newest_one:
  assumes ok: "index_ok es ord" and ev: "evict_newest mx es ord = (es', ord')"
    and mx: "0 < mx" "length es \<le> mx" and "n \<noteq> n'"
    and n: "map_of es n = Some e" and n': "map_of es n' = Some e'"
  shows "map_of es' n = Some e \<or> map_of es' n' = Some e'"
proof (cases "length es < mx")
  case True
  with ev n show ?thesis by (simp add: evict_newest_room)
next
  case False
  with mx have "es \<noteq> []" "mx \<le> length es" by auto
  then obtain c ec where c: "map_of es c = Some ec"
    and step: "evict_newest mx es ord =
      evict_newest mx (AList.delete c es) (AList.delete (le_sequence ec) ord)"
    using evict_newest_stepE [OF ok] by metis
  have "length (AList.delete c es) < mx"
    using length_delete_less [OF c] mx by simp
  with step ev have "es' = AList.delete c es"
    by (simp add: evict_newest_room)
  with n n' \<open>n \<noteq> n'\<close> show ?thesis by (auto simp: alist_simps)
qed

section \<open>Every operation keeps the ledger well formed\<close>

text \<open>Well formed with room for \<open>k\<close> more sequence numbers: the counter
  saturates at \<open>2 ^ 64 - 1\<close>, after which two entries could share a number.\<close>

definition ledger_good :: "nat \<Rightarrow> nonce_ledger \<Rightarrow> bool" where
  "ledger_good k L \<longleftrightarrow>
     index_ok (entries L) (insertion_order L) \<and>
     (\<forall>s n. map_of (insertion_order L) s = Some n \<longrightarrow> s < next_sequence L) \<and>
     length (entries L) \<le> max_outstanding L \<and>
     unat (next_sequence L) + k < 2 ^ 64"

lemma ledger_good_new: "k < 2 ^ 64 \<Longrightarrow> ledger_good k (ledger_new mx)"
  by (simp add: ledger_good_def ledger_new_def)

lemma ledger_good_mono: "ledger_good k L \<Longrightarrow> j \<le> k \<Longrightarrow> ledger_good j L"
  by (auto simp: ledger_good_def)

lemma ledger_goodD:
  assumes "ledger_good k L"
  shows "index_ok (entries L) (insertion_order L)"
    and "map_of (insertion_order L) s = Some n \<Longrightarrow> s < next_sequence L"
    and "length (entries L) \<le> max_outstanding L"
    and "unat (next_sequence L) + k < 2 ^ 64"
  using assms by (auto simp: ledger_good_def)

lemma ledger_good_le_sequence:
  "ledger_good k L \<Longrightarrow> map_of (entries L) n = Some e \<Longrightarrow> le_sequence e < next_sequence L"
  by (meson index_ok_order ledger_goodD(1,2))

text \<open>The state of the three steps before the insertion.\<close>

lemma record_bound_stages:
  assumes good: "ledger_good (Suc k) L" and mx: "0 < max_outstanding L"
  obtains es2 ord2 es3 ord3 where
    "\<forall>m e. map_of es2 m = Some e \<longrightarrow> m \<noteq> n \<and> map_of (entries L) m = Some e"
    "\<forall>m e. m \<noteq> n \<longrightarrow> map_of (entries L) m = Some e \<longrightarrow> now < le_expires_at e
       \<longrightarrow> map_of es2 m = Some e"
    "index_ok es2 ord2" "length es2 \<le> max_outstanding L"
    "evict_newest (max_outstanding L) es2 ord2 = (es3, ord3)"
    "map_of ord3 \<subseteq>\<^sub>m map_of (insertion_order L)"
    "record_bound L n c ex now = insert_nonce L n c ex es3 ord3"
proof -
  let ?mx = "max_outstanding L"
  obtain es1 ord1 where 1: "forget_nonce n (entries L) (insertion_order L) = (es1, ord1)"
    by (metis surj_pair)
  define q where "q = (if ?mx \<le> length es1 then prune_expired now es1 ord1 else (es1, ord1))"
  obtain es2 ord2 where 2: "q = (es2, ord2)" by (metis surj_pair)
  obtain es3 ord3 where 3: "evict_newest ?mx es2 ord2 = (es3, ord3)" by (metis surj_pair)
  note f = forget_nonce_ok [OF ledger_goodD(1) [OF good] 1]
  have ok2: "index_ok es2 ord2"
    using 2 f(1) by (auto simp: q_def intro: prune_expired_ok split: if_splits)
  have "length es2 \<le> length es1"
    using 2 by (auto simp: q_def prune_expired_def split: if_splits)
  then have len2: "length es2 \<le> ?mx"
    using f(3) ledger_goodD(3) [OF good] by linarith
  have sub2: "m \<noteq> n \<and> map_of (entries L) m = Some e" if "map_of es2 m = Some e" for m e
    using that 2 f(2) prune_expired_lookup [OF f(1)]
    by (cases "m = n") (auto simp: q_def split: if_splits)
  have live2: "map_of es2 m = Some e"
    if "m \<noteq> n" "map_of (entries L) m = Some e" "now < le_expires_at e" for m e
    using that 2 f(2) prune_expired_lookup [OF f(1)] by (auto simp: q_def split: if_splits)
  have le2: "map_of ord2 \<subseteq>\<^sub>m map_of ord1"
    using 2 prune_expired_order [OF f(1)] by (auto simp: q_def intro!: map_leI split: if_splits)
  have "map_of ord3 \<subseteq>\<^sub>m map_of ord2"
    using evict_newest_ok [OF ok2 3 mx] by simp
  then have le3: "map_of ord3 \<subseteq>\<^sub>m map_of (insertion_order L)"
    using map_le_trans [OF _ map_le_trans [OF le2 f(4)]] by simp
  have "record_bound L n c ex now = insert_nonce L n c ex es3 ord3"
    using mx 1 2 [unfolded q_def] 3 by (simp add: record_bound_def Let_def)
  note rb = this
  have "\<forall>m e. map_of es2 m = Some e \<longrightarrow> m \<noteq> n \<and> map_of (entries L) m = Some e"
    using sub2 by blast
  moreover have "\<forall>m e. m \<noteq> n \<longrightarrow> map_of (entries L) m = Some e \<longrightarrow> now < le_expires_at e
      \<longrightarrow> map_of es2 m = Some e"
    using live2 by blast
  ultimately show thesis by (rule that [OF _ _ ok2 len2 3 le3 rb])
qed

lemma record_bound_zero: "max_outstanding L = 0 \<Longrightarrow> record_bound L n c ex now = L"
  by (simp add: record_bound_def)

lemma record_bound_max [simp]:
  "max_outstanding (record_bound L n c ex now) = max_outstanding L"
  by (simp add: record_bound_def insert_nonce_def Let_def case_prod_beta)

lemma unat_succ_sequence:
  "unat s + Suc k < 2 ^ 64 \<Longrightarrow> unat (sat_add s 1) = Suc (unat (s :: u64))"
  by (simp add: unat_sat_add)

lemma record_bound_good:
  assumes good: "ledger_good (Suc k) L"
  shows "ledger_good k (record_bound L n c ex now)"
proof (cases "max_outstanding L = 0")
  case True
  then show ?thesis using good ledger_good_mono [OF good, of k] by (simp add: record_bound_zero)
next
  case False
  then have mx: "0 < max_outstanding L" by simp
  obtain es2 ord2 es3 ord3 where
    sub: "\<forall>m e. map_of es2 m = Some e \<longrightarrow> m \<noteq> n \<and> map_of (entries L) m = Some e"
    and "\<forall>m e. m \<noteq> n \<longrightarrow> map_of (entries L) m = Some e \<longrightarrow> now < le_expires_at e
       \<longrightarrow> map_of es2 m = Some e"
    and ok2: "index_ok es2 ord2" and "length es2 \<le> max_outstanding L"
    and ev: "evict_newest (max_outstanding L) es2 ord2 = (es3, ord3)"
    and le: "map_of ord3 \<subseteq>\<^sub>m map_of (insertion_order L)"
    and rb: "record_bound L n c ex now = insert_nonce L n c ex es3 ord3"
    by (rule record_bound_stages [OF good mx, of n now c ex])
  note st = evict_newest_ok [OF ok2 ev mx]
  have "map_of es3 \<subseteq>\<^sub>m map_of es2" using st evictsD(1) by blast
  then have new: "map_of es3 n = None"
    using sub map_leD by (metis not_None_eq)
  have seq: "s < next_sequence L" if "map_of ord3 s = Some m" for s m
    using map_leD [OF le that] ledger_goodD(2) [OF good] by blast
  then have fresh: "map_of ord3 (next_sequence L) = None"
    by (metis less_irrefl not_None_eq)
  note u = unat_succ_sequence [OF ledger_goodD(4) [OF good]]
  let ?e = "\<lparr> le_expires_at = ex, le_sequence = next_sequence L, le_commitment = c \<rparr>"
  have "index_ok (AList.update n ?e es3) (AList.update (next_sequence L) n ord3)"
    using index_ok_insert [OF _ new, of ord3 ?e] st fresh by simp
  moreover have "s < sat_add (next_sequence L) 1"
    if "map_of (AList.update (next_sequence L) n ord3) s = Some m" for s m
    using that seq [of s m] u by (auto simp: alist_simps word_less_nat_alt split: if_splits)
  moreover have "length (AList.update n ?e es3) \<le> max_outstanding L"
    using length_update_le [of n ?e es3] st by linarith
  ultimately show ?thesis
    using u ledger_goodD(4) [OF good] by (simp add: rb ledger_good_def insert_nonce_def)
qed

lemma record_bound_lookup:
  assumes good: "ledger_good (Suc k) L"
    and m: "map_of (entries (record_bound L n c ex now)) m = Some e"
  shows "if m = n \<and> max_outstanding L \<noteq> 0 then le_expires_at e = ex \<and> le_commitment e = c
    else map_of (entries L) m = Some e"
proof (cases "max_outstanding L = 0")
  case True
  with m show ?thesis by (simp add: record_bound_zero)
next
  case False
  then have mx: "0 < max_outstanding L" by simp
  obtain es2 ord2 es3 ord3 where
    sub: "\<forall>m e. map_of es2 m = Some e \<longrightarrow> m \<noteq> n \<and> map_of (entries L) m = Some e"
    and "\<forall>m e. m \<noteq> n \<longrightarrow> map_of (entries L) m = Some e \<longrightarrow> now < le_expires_at e
       \<longrightarrow> map_of es2 m = Some e"
    and ok2: "index_ok es2 ord2" and "length es2 \<le> max_outstanding L"
    and ev: "evict_newest (max_outstanding L) es2 ord2 = (es3, ord3)"
    and "map_of ord3 \<subseteq>\<^sub>m map_of (insertion_order L)"
    and rb: "record_bound L n c ex now = insert_nonce L n c ex es3 ord3"
    by (rule record_bound_stages [OF good mx, of n now c ex])
  have le: "map_of es3 \<subseteq>\<^sub>m map_of es2"
    using evict_newest_ok [OF ok2 ev mx] evictsD(1) by blast
  show ?thesis
  proof (cases "m = n")
    case True
    with m rb mx show ?thesis by (auto simp: insert_nonce_def alist_simps)
  next
    case False
    with m rb have "map_of es3 m = Some e" by (simp add: insert_nonce_def alist_simps)
    from map_leD [OF le this] sub False show ?thesis by simp
  qed
qed

text \<open>A full table gives up the newest live nonce only: a nonce with a newer
  live one beside it survives any issue.\<close>

lemma record_bound_keeps:
  assumes good: "ledger_good (Suc k) L"
    and m: "map_of (entries L) m = Some e" "now < le_expires_at e" "m \<noteq> n"
    and m': "map_of (entries L) m' = Some e'" "now < le_expires_at e'" "m' \<noteq> n"
    and newer: "le_sequence e < le_sequence e'"
  shows "map_of (entries (record_bound L n c ex now)) m = Some e"
proof (cases "max_outstanding L = 0")
  case True
  with m show ?thesis by (simp add: record_bound_zero)
next
  case False
  then have mx: "0 < max_outstanding L" by simp
  obtain es2 ord2 es3 ord3 where
    "\<forall>m e. map_of es2 m = Some e \<longrightarrow> m \<noteq> n \<and> map_of (entries L) m = Some e"
    and live: "\<forall>m e. m \<noteq> n \<longrightarrow> map_of (entries L) m = Some e \<longrightarrow> now < le_expires_at e
       \<longrightarrow> map_of es2 m = Some e"
    and ok2: "index_ok es2 ord2" and len: "length es2 \<le> max_outstanding L"
    and ev: "evict_newest (max_outstanding L) es2 ord2 = (es3, ord3)"
    and "map_of ord3 \<subseteq>\<^sub>m map_of (insertion_order L)"
    and rb: "record_bound L n c ex now = insert_nonce L n c ex es3 ord3"
    by (rule record_bound_stages [OF good mx, of n now c ex])
  have es2: "map_of es2 m = Some e" "map_of es2 m' = Some e'"
    using live m m' by blast+
  have "m \<noteq> m'" using m m' newer by auto
  from evict_newest_one [OF ok2 ev mx len this es2]
  have "map_of es3 m = Some e"
  proof
    assume kept: "map_of es3 m' = Some e'"
    have "evicts es2 es3" using evict_newest_ok [OF ok2 ev mx] by simp
    note ev3 = evictsD [OF this]
    show ?thesis
    proof (cases "map_of es3 m")
      case None
      from ev3(2) [OF es2(1) None kept] newer show ?thesis by simp
    next
      case (Some x)
      from map_leD [OF ev3(1) Some] es2(1) Some show ?thesis by simp
    qed
  qed
  then show ?thesis using \<open>m \<noteq> n\<close> by (simp add: rb insert_nonce_def alist_simps)
qed

lemma drop_entry_good:
  assumes good: "ledger_good k L" and e: "map_of (entries L) n = Some e"
  shows "ledger_good k (drop_entry L n e)"
  using index_ok_delete [OF ledger_goodD(1) [OF good] e] ledger_goodD(2-4) [OF good]
    length_delete_le [of n "entries L"]
  by (auto simp: ledger_good_def drop_entry_def alist_simps split: if_splits)

lemma consume_bound_good:
  "ledger_good k L \<Longrightarrow> ledger_good k (snd (consume_bound L n c now))"
  by (auto simp: consume_bound_def drop_entry_good split: option.splits)

lemma consume_bound_lookup:
  "map_of (entries (snd (consume_bound L n c now))) m =
     (if m = n \<and> (\<exists>e. map_of (entries L) n = Some e \<and>
          (le_expires_at e \<le> now \<or> le_commitment e = c))
      then None else map_of (entries L) m)"
  by (auto simp: consume_bound_def drop_entry_def alist_simps split: option.splits)

lemma consume_bound_accepts:
  "fst (consume_bound L n c now) = Inr () \<longleftrightarrow>
     (\<exists>e. map_of (entries L) n = Some e \<and> now < le_expires_at e \<and> le_commitment e = c)"
  by (auto simp: consume_bound_def not_le split: option.splits)

section \<open>What a paid path relies on\<close>

text \<open>A server that issues nonces and spends them, and the laws a client may
  use: an issue makes nothing else live, a spend needs a live nonce issued for
  the same commitment, and takes it away. \<open>good k\<close> says that \<open>k\<close> more issues
  are safe.\<close>

datatype nonce_op =
    NIssue h256 h256 u64 u64
  | NSpend h256 h256 u64

fun run_nonces ::
  "('s \<Rightarrow> h256 \<Rightarrow> h256 \<Rightarrow> u64 \<Rightarrow> u64 \<Rightarrow> 's)
    \<Rightarrow> ('s \<Rightarrow> h256 \<Rightarrow> h256 \<Rightarrow> u64 \<Rightarrow> (nonce_ledger_error + unit) \<times> 's)
    \<Rightarrow> nonce_op list \<Rightarrow> 's \<Rightarrow> (h256 \<times> h256) list \<times> 's" where
  "run_nonces issue spend [] s = ([], s)"
| "run_nonces issue spend (NIssue n c ex now # ops) s =
     run_nonces issue spend ops (issue s n c ex now)"
| "run_nonces issue spend (NSpend n c now # ops) s =
     (case spend s n c now of
        (Inl e, s') \<Rightarrow> run_nonces issue spend ops s'
      | (Inr u, s') \<Rightarrow>
          (case run_nonces issue spend ops s' of (acc, s'') \<Rightarrow> ((n, c) # acc, s'')))"

fun issued :: "nonce_op list \<Rightarrow> (h256 \<times> h256) list" where
  "issued [] = []"
| "issued (NIssue n c ex now # ops) = (n, c) # issued ops"
| "issued (NSpend n c now # ops) = issued ops"

locale nonce_store =
  fixes issue :: "'s \<Rightarrow> h256 \<Rightarrow> h256 \<Rightarrow> u64 \<Rightarrow> u64 \<Rightarrow> 's"
    and spend :: "'s \<Rightarrow> h256 \<Rightarrow> h256 \<Rightarrow> u64 \<Rightarrow> (nonce_ledger_error + unit) \<times> 's"
    and live :: "'s \<Rightarrow> h256 \<Rightarrow> h256 option"
    and good :: "nat \<Rightarrow> 's \<Rightarrow> bool"
  assumes good_issue: "good (Suc k) s \<Longrightarrow> good k (issue s n c ex now)"
    and good_spend: "good (Suc k) s \<Longrightarrow> good k (snd (spend s n c now))"
    and live_issue: "good (Suc k) s \<Longrightarrow> live (issue s n c ex now) m = Some d
      \<Longrightarrow> live s m = Some d \<or> (m = n \<and> d = c)"
    and live_spend: "good (Suc k) s \<Longrightarrow> live (snd (spend s n c now)) m = Some d
      \<Longrightarrow> live s m = Some d"
    and spend_accepts: "good (Suc k) s \<Longrightarrow> spend s n c now = (Inr u, s')
      \<Longrightarrow> live s n = Some c \<and> live s' n = None"
begin

lemma issue_live_le:
  "good (Suc k) s \<Longrightarrow>
   of_bool (live (issue s n c ex now) m = Some d)
     \<le> of_bool (live s m = Some d) + (of_bool ((m, d) = (n, c)) :: nat)"
  using live_issue [of k s n c ex now m d] by (auto simp: of_bool_def)

lemma spend_live_le:
  assumes "good (Suc k) s" and "spend s n c now = (r, s')"
  shows "of_bool (live s' m = Some d) \<le> (of_bool (live s m = Some d) :: nat)"
  using live_spend [of k s n c now m d] assms by (auto simp: of_bool_def)

text \<open>However issues and spends interleave, a nonce is spent for a commitment
  at most as often as it was issued for it.\<close>

lemma spent_le_issued:
  "good (length ops) s \<Longrightarrow>
   count_list (fst (run_nonces issue spend ops s)) (m, d)
     \<le> count_list (issued ops) (m, d) + of_bool (live s m = Some d)"
proof (induction ops arbitrary: s)
  case (Cons op ops)
  then have good: "good (Suc (length ops)) s" by simp
  show ?case
  proof (cases op)
    case (NIssue n c ex now)
    have "count_list (fst (run_nonces issue spend ops (issue s n c ex now))) (m, d)
      \<le> count_list (issued ops) (m, d) + of_bool (live (issue s n c ex now) m = Some d)"
      by (rule Cons.IH [OF good_issue [OF good]])
    then show ?thesis
      using issue_live_le [OF good, of n c ex now m d] NIssue
      by (cases "(m, d) = (n, c)") (auto simp: of_bool_def split: if_splits)
  next
    case (NSpend n c now)
    obtain r s' where sp: "spend s n c now = (r, s')" by (metis surj_pair)
    then have good': "good (length ops) s'"
      using good_spend [OF good, of n c now] by simp
    note ih = Cons.IH [OF good']
    note le = spend_live_le [OF good sp, of m d]
    show ?thesis
    proof (cases r)
      case (Inl e)
      with NSpend sp show ?thesis using order_trans [OF ih add_left_mono [OF le]] by simp
    next
      case (Inr u)
      with sp have acc: "live s n = Some c \<and> live s' n = None"
        using spend_accepts [OF good, of n c now u s'] by simp
      with NSpend sp Inr show ?thesis
        using order_trans [OF ih add_left_mono [OF le]]
        by (cases "(m, d) = (n, c)") (use ih in \<open>auto split: prod.split\<close>)
    qed
  qed
qed simp

end

section \<open>The code's ledger is such a server\<close>

definition ledger_live :: "nonce_ledger \<Rightarrow> h256 \<Rightarrow> h256 option" where
  "ledger_live L n = map_option le_commitment (map_of (entries L) n)"

interpretation ledger: nonce_store record_bound consume_bound ledger_live ledger_good
proof
  fix k L n c ex now m d u L'
  assume good: "ledger_good (Suc k) L"
  show "ledger_good k (record_bound L n c ex now)"
    by (rule record_bound_good [OF good])
  show "ledger_good k (snd (consume_bound L n c now))"
    by (rule ledger_good_mono [OF consume_bound_good [OF good]]) simp
  {
    assume "ledger_live (record_bound L n c ex now) m = Some d"
    then show "ledger_live L m = Some d \<or> (m = n \<and> d = c)"
      using record_bound_lookup [OF good, of n c ex now m]
      by (auto simp: ledger_live_def split: if_splits)
  }
  {
    assume "ledger_live (snd (consume_bound L n c now)) m = Some d"
    then show "ledger_live L m = Some d"
      by (auto simp: ledger_live_def consume_bound_lookup split: if_splits)
  }
  {
    assume "consume_bound L n c now = (Inr u, L')"
    then show "ledger_live L n = Some c \<and> ledger_live L' n = None"
      using consume_bound_accepts [of L n c now] consume_bound_lookup [of L n c now n]
      by (auto simp: ledger_live_def split: if_splits)
  }
qed

text \<open>C2. Single use. Start from an empty ledger of any bound and let issues
  and spends of nonces come in any order (fewer than \<open>2 ^ 64\<close> of them). A
  nonce is accepted for a request commitment at most as many times as the
  server issued that nonce for that commitment: a replayed, self-minted or
  re-targeted nonce is never accepted.\<close>

theorem nonce_single_use:
  assumes "length ops < 2 ^ 64"
  shows "count_list (fst (run_nonces record_bound consume_bound ops (ledger_new mx))) (n, c)
    \<le> count_list (issued ops) (n, c)"
  using ledger.spent_le_issued [OF ledger_good_new [OF assms], of mx n c]
  by (simp add: ledger_live_def ledger_new_def)

theorem nonce_single_use_witness:
  "count_list (fst (run_nonces record_bound consume_bound
      [NIssue 7 9 100 10, NSpend 7 8 20, NSpend 7 9 30, NSpend 7 9 40] (ledger_new 2))) (7, 9)
    \<le> count_list (issued [NIssue 7 9 100 10, NSpend 7 8 20, NSpend 7 9 30, NSpend 7 9 40]) (7, 9)"
  by (rule nonce_single_use) simp

end
