(* ===== verification/X402_Wire.thy ===== *)
theory X402_Wire
  imports Prelude
begin

text \<open>
  The wire formats of \<open>crates/x402-axum/src\<close>: the error type (\<open>error.rs\<close>), the
  233-byte payment payload (\<open>types.rs\<close>) and its header (\<open>header.rs\<close>), the
  EIP-712 digest (\<open>digest.rs\<close>), the settlement calldata (\<open>calldata.rs\<close>), the
  receipt scanner (\<open>receipt.rs\<close>) and the challenge (\<open>challenge.rs\<close>). Hashing,
  hexadecimal, base64, RLP, JSON text and the decimal form of a \<open>U256\<close> come
  from crates outside the repository: they are the fields of \<open>x402_lib\<close>, the
  first argument of every definition that uses one.
\<close>

section \<open>Code of other crates\<close>

record x402_lib =
  keccak :: "bytes \<Rightarrow> h256"
  hex_encode :: "bytes \<Rightarrow> string"
  hex_decode :: "string \<Rightarrow> string + bytes"
  b64_encode :: "bytes \<Rightarrow> string"
  b64_decode :: "string \<Rightarrow> string + bytes"
  u256_to_dec :: "u256 \<Rightarrow> string"
  u256_of_dec :: "string \<Rightarrow> string + u256"
  json_text :: "json \<Rightarrow> string"
  rlp_list :: "bytes list \<Rightarrow> bytes"
  signing_key_error :: "bytes \<Rightarrow> string option"
  public_point :: "bytes \<Rightarrow> bytes"
  sign_prehash :: "bytes \<Rightarrow> bytes \<Rightarrow> string + (u8 \<times> bytes \<times> bytes)"
  debug_h160 :: "h160 \<Rightarrow> string"
  body_limit_error :: string

text \<open>Documented behaviour of the text codecs: what was encoded decodes.\<close>

definition text_codecs_ok :: "x402_lib \<Rightarrow> bool" where
  "text_codecs_ok X \<longleftrightarrow>
     (\<forall>b. hex_decode X (hex_encode X b) = Inr b) \<and>
     (\<forall>b. b64_decode X (b64_encode X b) = Inr b) \<and>
     (\<forall>b c. c \<in> set (b64_encode X b) \<longrightarrow> 32 < char_nat c) \<and>
     (\<forall>n. u256_of_dec X (u256_to_dec X n) = Inr n)"

section \<open>Errors\<close>

datatype x402_error =
    MissingPaymentHeader
  | MalformedPaymentHeader string
  | InvalidSignature
  | NonceReplayed
  | SettleReverted string
  | ChallengeNotIssued
  | PayloadExpired
  | RecipientNotTreasury
  | InsufficientBalance
  | BudgetExceeded string string
  | UnsupportedKeyType
  | RpcTransport string
  | RpcError string
  | SettlePendingTimeout
  | FacilitatorReverted string
  | PolicyDenied
  | PricingFailed string
  | InternalError string

fun http_status :: "x402_error \<Rightarrow> nat" where
  "http_status MissingPaymentHeader = 402"
| "http_status (MalformedPaymentHeader m) = 402"
| "http_status InvalidSignature = 402"
| "http_status NonceReplayed = 402"
| "http_status (SettleReverted h) = 402"
| "http_status ChallengeNotIssued = 402"
| "http_status PayloadExpired = 402"
| "http_status RecipientNotTreasury = 402"
| "http_status InsufficientBalance = 402"
| "http_status (BudgetExceeded a c) = 402"
| "http_status UnsupportedKeyType = 402"
| "http_status PolicyDenied = 403"
| "http_status (RpcTransport m) = 500"
| "http_status (RpcError m) = 500"
| "http_status SettlePendingTimeout = 500"
| "http_status (FacilitatorReverted m) = 500"
| "http_status (PricingFailed m) = 500"
| "http_status (InternalError m) = 500"

fun reason :: "x402_error \<Rightarrow> string" where
  "reason MissingPaymentHeader = ''payment required''"
| "reason (MalformedPaymentHeader m) = ''malformed payment header''"
| "reason InvalidSignature = ''signature invalid''"
| "reason NonceReplayed = ''nonce replayed''"
| "reason (SettleReverted h) = ''settle reverted''"
| "reason ChallengeNotIssued = ''challenge not issued''"
| "reason PayloadExpired = ''expired''"
| "reason RecipientNotTreasury = ''recipient not treasury''"
| "reason InsufficientBalance = ''insufficient balance''"
| "reason (BudgetExceeded a c) = ''budget cap exceeded''"
| "reason UnsupportedKeyType = ''unsupported key type''"
| "reason PolicyDenied = ''denied''"
| "reason (RpcTransport m) = ''rpc transport error''"
| "reason (RpcError m) = ''rpc error''"
| "reason SettlePendingTimeout = ''settle pending (timeout)''"
| "reason (FacilitatorReverted m) = ''on-chain settle failed''"
| "reason (PricingFailed m) = ''pricing error''"
| "reason (InternalError m) = ''internal error''"

fun error_display :: "x402_error \<Rightarrow> string" where
  "error_display MissingPaymentHeader = ''missing X-PAYMENT header''"
| "error_display (MalformedPaymentHeader m) = ''malformed X-PAYMENT header: '' @ m"
| "error_display InvalidSignature =
     ''signature invalid: recovered signer differs from claimed ''
       @ [CHR 0x27] @ ''from'' @ [CHR 0x27]"
| "error_display NonceReplayed = ''nonce replayed: already settled on-chain''"
| "error_display (SettleReverted h) = ''settle reverted on-chain (tx 0x'' @ h @ '')''"
| "error_display ChallengeNotIssued =
     ''payment nonce not issued by this gateway (or already used/expired)''"
| "error_display PayloadExpired = ''payload expired or not yet valid''"
| "error_display RecipientNotTreasury = ''recipient does not match gateway treasury''"
| "error_display InsufficientBalance = ''insufficient wSALT balance''"
| "error_display (BudgetExceeded a c) =
     ''budget cap exceeded: '' @ a @ '' wei > '' @ c @ '' wei''"
| "error_display UnsupportedKeyType = ''unsupported key type: EIP-3009 requires secp256k1''"
| "error_display (RpcTransport m) = ''rpc transport: '' @ m"
| "error_display (RpcError m) = ''rpc error: '' @ m"
| "error_display SettlePendingTimeout = ''settle pending (timeout)''"
| "error_display (FacilitatorReverted m) = ''facilitator reverted: '' @ m"
| "error_display PolicyDenied = ''payer denied by policy''"
| "error_display (PricingFailed m) = ''pricing error: '' @ m"
| "error_display (InternalError m) = ''internal: '' @ m"

section \<open>Fixed-width values\<close>

definition h160_bytes :: "h160 \<Rightarrow> bytes" where
  "h160_bytes a = be_bytes 20 (unat a)"

definition h256_bytes :: "h256 \<Rightarrow> bytes" where
  "h256_bytes a = be_bytes 32 (unat a)"

lemma length_h160_bytes [simp]: "length (h160_bytes a) = 20"
  and length_h256_bytes [simp]: "length (h256_bytes b) = 32"
  by (simp_all add: h160_bytes_def h256_bytes_def)

lemma from_slice_h160 [simp]: "word_from_slice (h160_bytes a) = a"
  unfolding h160_bytes_def
  by (rule word_from_be_bytes) (use unat_less_length [of a] in simp)

lemma from_slice_h256 [simp]: "word_from_slice (h256_bytes a) = a"
  unfolding h256_bytes_def
  by (rule word_from_be_bytes) (use unat_less_length [of a] in simp)

lemma h160_bytes_from_slice: "length bs = 20 \<Longrightarrow> h160_bytes (word_from_slice bs) = bs"
  using be_bytes_val [of bs] unat_from_slice [of bs, where 'a = 160] by (simp add: h160_bytes_def)

lemma h256_bytes_from_slice: "length bs = 32 \<Longrightarrow> h256_bytes (word_from_slice bs) = bs"
  using be_bytes_val [of bs] unat_from_slice [of bs, where 'a = 256] by (simp add: h256_bytes_def)

section \<open>The payment payload\<close>

record payment_payload =
  pp_from :: h160
  pp_to :: h160
  pp_value :: u256
  pp_valid_after :: u256
  pp_valid_before :: u256
  pp_nonce :: h256
  pp_v :: u8
  pp_r :: h256
  pp_s :: h256

definition payload_bytes :: nat where
  "payload_bytes = 20 + 20 + 32 + 32 + 32 + 32 + 1 + 32 + 32"

definition to_bytes :: "payment_payload \<Rightarrow> bytes" where
  "to_bytes p =
     h160_bytes (pp_from p) @ h160_bytes (pp_to p) @ u256_to_be_bytes (pp_value p)
     @ u256_to_be_bytes (pp_valid_after p) @ u256_to_be_bytes (pp_valid_before p)
     @ h256_bytes (pp_nonce p) @ [pp_v p] @ h256_bytes (pp_r p) @ h256_bytes (pp_s p)"

text \<open>The closure \<open>take\<close>: the next \<open>n\<close> bytes and the rest.\<close>

definition split_at :: "nat \<Rightarrow> bytes \<Rightarrow> bytes \<times> bytes" where
  "split_at n bs = (take n bs, drop n bs)"

definition parse_payload :: "bytes \<Rightarrow> x402_error + payment_payload" where
  "parse_payload bytes =
     (if length bytes \<noteq> payload_bytes
      then Inl (MalformedPaymentHeader
             (''expected '' @ dec_string payload_bytes @ '' bytes, got ''
              @ dec_string (length bytes)))
      else
        let (from, c) = split_at 20 bytes;
            (to, c) = split_at 20 c;
            (value, c) = split_at 32 c;
            (valid_after, c) = split_at 32 c;
            (valid_before, c) = split_at 32 c;
            (nonce, c) = split_at 32 c;
            (v, c) = split_at 1 c;
            (r, c) = split_at 32 c;
            (s, c) = split_at 32 c
        in Inr \<lparr> pp_from = word_from_slice from, pp_to = word_from_slice to,
                 pp_value = word_from_slice value,
                 pp_valid_after = word_from_slice valid_after,
                 pp_valid_before = word_from_slice valid_before,
                 pp_nonce = word_from_slice nonce, pp_v = hd v,
                 pp_r = word_from_slice r, pp_s = word_from_slice s \<rparr>)"

lemma length_to_bytes [simp]: "length (to_bytes p) = payload_bytes"
  by (simp add: to_bytes_def payload_bytes_def)

lemma split_at_append: "length a = n \<Longrightarrow> split_at n (a @ b) = (a, b)"
  by (simp add: split_at_def)

lemma parse_to_bytes: "parse_payload (to_bytes p) = Inr p"
  by (simp add: parse_payload_def) (simp add: to_bytes_def split_at_def)

lemma split_at_append_take:
  assumes "split_at n bs = (a, b)" and "n \<le> length bs"
  shows "length a = n" and "length b = length bs - n" and "bs = a @ b"
  using assms by (auto simp: split_at_def)

lemma to_bytes_parse:
  assumes "parse_payload bs = Inr p"
  shows "to_bytes p = bs"
proof -
  have len: "length bs = 233"
    using assms by (simp add: parse_payload_def payload_bytes_def split: if_splits)
  define c1 where "c1 = drop 20 bs"
  define c2 where "c2 = drop 20 c1"
  define c3 where "c3 = drop 32 c2"
  define c4 where "c4 = drop 32 c3"
  define c5 where "c5 = drop 32 c4"
  define c6 where "c6 = drop 32 c5"
  define c7 where "c7 = drop 1 c6"
  define c8 where "c8 = drop 32 c7"
  note defs = c1_def c2_def c3_def c4_def c5_def c6_def c7_def c8_def
  have lens: "length c1 = 213" "length c2 = 193" "length c3 = 161" "length c4 = 129"
    "length c5 = 97" "length c6 = 65" "length c7 = 64" "length c8 = 32"
    using len by (simp_all add: defs)
  have "p = \<lparr> pp_from = word_from_slice (take 20 bs), pp_to = word_from_slice (take 20 c1),
      pp_value = word_from_slice (take 32 c2), pp_valid_after = word_from_slice (take 32 c3),
      pp_valid_before = word_from_slice (take 32 c4), pp_nonce = word_from_slice (take 32 c5),
      pp_v = hd (take 1 c6), pp_r = word_from_slice (take 32 c7),
      pp_s = word_from_slice (take 32 c8) \<rparr>"
    using assms len by (simp add: parse_payload_def payload_bytes_def split_at_def Let_def defs)
  moreover have "take 1 c6 = [hd (take 1 c6)]"
    using lens by (cases c6) simp_all
  ultimately have "to_bytes p = take 20 bs @ take 20 c1 @ take 32 c2 @ take 32 c3 @ take 32 c4
      @ take 32 c5 @ take 1 c6 @ take 32 c7 @ take 32 c8"
    using len lens
    by (simp add: to_bytes_def h160_bytes_from_slice h256_bytes_from_slice u256_bytes_from_slice)
  also have "take 32 c8 = c8" using lens by simp
  finally show ?thesis
    by (simp only: append_take_drop_id c8_def) (simp add: defs append_take_drop_id del: drop_drop)
qed

interpretation payload: codec to_bytes parse_payload
  by unfold_locales (auto simp: parse_to_bytes to_bytes_parse)

section \<open>The \<open>X-PAYMENT\<close> header\<close>

text \<open>\<open>str::trim\<close> on a header value, which \<open>to_str\<close> has restricted to visible
  ASCII, spaces and tabs.\<close>

definition is_ascii_space :: "char \<Rightarrow> bool" where
  "is_ascii_space c \<longleftrightarrow> char_nat c \<in> {9, 10, 11, 12, 13, 32}"

definition trim_ascii :: "string \<Rightarrow> string" where
  "trim_ascii s = rev (dropWhile is_ascii_space (rev (dropWhile is_ascii_space s)))"

definition x_payment_header :: string where
  "x_payment_header = ''x-payment''"

definition encode_header :: "x402_lib \<Rightarrow> payment_payload \<Rightarrow> string" where
  "encode_header X p = b64_encode X (to_bytes p)"

definition decode_header :: "x402_lib \<Rightarrow> string \<Rightarrow> x402_error + payment_payload" where
  "decode_header X v =
     (case b64_decode X (trim_ascii v) of
        Inl e \<Rightarrow> Inl (MalformedPaymentHeader (''base64: '' @ e))
      | Inr bytes \<Rightarrow>
          if length bytes \<noteq> payload_bytes
          then Inl (MalformedPaymentHeader
                 (''expected '' @ dec_string payload_bytes
                  @ '' bytes after base64 decode, got '' @ dec_string (length bytes)))
          else parse_payload bytes)"

lemma dropWhile_none: "(\<And>c. c \<in> set s \<Longrightarrow> \<not> P c) \<Longrightarrow> dropWhile P s = s"
  by (cases s) auto

lemma trim_ascii_id: "(\<And>c. c \<in> set s \<Longrightarrow> \<not> is_ascii_space c) \<Longrightarrow> trim_ascii s = s"
  using dropWhile_none [of s is_ascii_space] dropWhile_none [of "rev s" is_ascii_space]
  by (simp add: trim_ascii_def)

lemma decode_encode_header:
  assumes "text_codecs_ok X"
  shows "decode_header X (encode_header X p) = Inr p"
proof -
  have "trim_ascii (b64_encode X (to_bytes p)) = b64_encode X (to_bytes p)"
    by (rule trim_ascii_id) (use assms in \<open>fastforce simp: text_codecs_ok_def is_ascii_space_def\<close>)
  then show ?thesis
    using assms
    by (simp add: decode_header_def encode_header_def text_codecs_ok_def parse_to_bytes)
qed

lemma decode_header_Inr:
  assumes "decode_header X v = Inr p"
  shows "b64_decode X (trim_ascii v) = Inr (to_bytes p)"
  using assms by (auto simp: decode_header_def to_bytes_parse split: sum.splits if_splits)

lemma decode_header_Inl:
  assumes "decode_header X v = Inl e"
  shows "\<exists>m. e = MalformedPaymentHeader m"
  using assms by (auto simp: decode_header_def parse_payload_def Let_def split: sum.splits if_splits prod.splits)

section \<open>The EIP-712 digest\<close>

definition domain_name :: string where
  "domain_name = ''Wrapped SALT''"

definition domain_version :: string where
  "domain_version = ''1''"

definition eip712_domain_type :: string where
  "eip712_domain_type =
     ''EIP712Domain(string name,string version,uint256 chainId,address verifyingContract)''"

definition transfer_with_authorization_type :: string where
  "transfer_with_authorization_type =
     ''TransferWithAuthorization(address from,address to,uint256 value,uint256 validAfter,uint256 validBefore,bytes32 nonce)''"

definition zero_bytes :: "nat \<Rightarrow> bytes" where
  "zero_bytes n = replicate n 0"

definition wsalt_domain_separator :: "x402_lib \<Rightarrow> u64 \<Rightarrow> h160 \<Rightarrow> h256" where
  "wsalt_domain_separator X chain_id verifying_contract =
     (let type_hash = keccak X (as_bytes eip712_domain_type);
          name_hash = keccak X (as_bytes domain_name);
          version_hash = keccak X (as_bytes domain_version)
      in keccak X (h256_bytes type_hash @ h256_bytes name_hash @ h256_bytes version_hash
           @ u256_to_be_bytes (ucast chain_id)
           @ zero_bytes 12 @ h160_bytes verifying_contract))"

definition transfer_struct_buffer ::
  "x402_lib \<Rightarrow> h160 \<Rightarrow> h160 \<Rightarrow> u256 \<Rightarrow> u256 \<Rightarrow> u256 \<Rightarrow> h256 \<Rightarrow> bytes" where
  "transfer_struct_buffer X from to value valid_after valid_before nonce =
     h256_bytes (keccak X (as_bytes transfer_with_authorization_type))
     @ zero_bytes 12 @ h160_bytes from @ zero_bytes 12 @ h160_bytes to
     @ u256_to_be_bytes value @ u256_to_be_bytes valid_after
     @ u256_to_be_bytes valid_before @ h256_bytes nonce"

definition transfer_with_authorization_struct_hash ::
  "x402_lib \<Rightarrow> h160 \<Rightarrow> h160 \<Rightarrow> u256 \<Rightarrow> u256 \<Rightarrow> u256 \<Rightarrow> h256 \<Rightarrow> h256" where
  "transfer_with_authorization_struct_hash X from to value valid_after valid_before nonce =
     keccak X (transfer_struct_buffer X from to value valid_after valid_before nonce)"

definition eip712_digest :: "x402_lib \<Rightarrow> h256 \<Rightarrow> h256 \<Rightarrow> h256" where
  "eip712_digest X domain_separator struct_hash =
     keccak X ([0x19, 0x01] @ h256_bytes domain_separator @ h256_bytes struct_hash)"

lemma h160_bytes_inject [simp]: "h160_bytes a = h160_bytes b \<longleftrightarrow> a = b"
  by (metis from_slice_h160)

lemma h256_bytes_inject [simp]: "h256_bytes a = h256_bytes b \<longleftrightarrow> a = b"
  by (metis from_slice_h256)

lemma u256_to_be_bytes_inject [simp]: "u256_to_be_bytes a = u256_to_be_bytes b \<longleftrightarrow> a = b"
  by (metis from_slice_u256)

lemma transfer_struct_buffer_inject:
  "transfer_struct_buffer X f t v a b n = transfer_struct_buffer X f' t' v' a' b' n'
   \<longleftrightarrow> f = f' \<and> t = t' \<and> v = v' \<and> a = a' \<and> b = b' \<and> n = n'"
  by (auto simp: transfer_struct_buffer_def)

section \<open>Settlement calldata\<close>

definition settle_payment_selector :: "x402_lib \<Rightarrow> bytes" where
  "settle_payment_selector X = take 4 (h256_bytes (keccak X (as_bytes
     ''settlePayment(address,address,uint256,uint256,uint256,bytes32,uint8,bytes32,bytes32)'')))"

definition pad_left_address :: "h160 \<Rightarrow> bytes" where
  "pad_left_address addr = zero_bytes 12 @ h160_bytes addr"

definition encode_settle_payment :: "x402_lib \<Rightarrow> payment_payload \<Rightarrow> bytes" where
  "encode_settle_payment X p =
     settle_payment_selector X
     @ pad_left_address (pp_from p) @ pad_left_address (pp_to p)
     @ u256_to_be_bytes (pp_value p) @ u256_to_be_bytes (pp_valid_after p)
     @ u256_to_be_bytes (pp_valid_before p) @ h256_bytes (pp_nonce p)
     @ (zero_bytes 31 @ [pp_v p]) @ h256_bytes (pp_r p) @ h256_bytes (pp_s p)"

definition payment_settled_topic :: "x402_lib \<Rightarrow> h256" where
  "payment_settled_topic X =
     keccak X (as_bytes ''PaymentSettled(address,address,uint256,uint256,bytes32)'')"

lemma length_zero_bytes [simp]: "length (zero_bytes n) = n"
  by (simp add: zero_bytes_def)

lemma length_pad_left [simp]: "length (pad_left_address a) = 32"
  by (simp add: pad_left_address_def)

lemma length_settle_selector [simp]: "length (settle_payment_selector X) = 4"
  by (simp add: settle_payment_selector_def)

lemma length_encode_settle_payment: "length (encode_settle_payment X p) = 4 + 9 * 32"
  by (simp add: encode_settle_payment_def)

section \<open>Receipts\<close>

record raw_log =
  log_address :: h160
  log_topics :: "h256 list"
  log_data :: bytes

record tx_receipt =
  rc_status :: bool
  rc_block_number :: u64
  rc_logs :: "raw_log list"

record payment_settled_event =
  ev_from :: h160
  ev_to :: h160
  ev_value :: u256
  ev_fee :: u256
  ev_nonce :: h256

definition h256_address :: "h256 \<Rightarrow> h160" where
  "h256_address h = word_from_slice (drop 12 (h256_bytes h))"

fun find_settled_in :: "x402_lib \<Rightarrow> h160 \<Rightarrow> raw_log list \<Rightarrow> payment_settled_event option" where
  "find_settled_in X facilitator [] = None"
| "find_settled_in X facilitator (log # logs) =
     (if log_address log \<noteq> facilitator then find_settled_in X facilitator logs
      else if length (log_topics log) < 3 then find_settled_in X facilitator logs
      else if log_topics log ! 0 \<noteq> payment_settled_topic X then find_settled_in X facilitator logs
      else if length (log_data log) < 96 then find_settled_in X facilitator logs
      else Some \<lparr> ev_from = h256_address (log_topics log ! 1),
                  ev_to = h256_address (log_topics log ! 2),
                  ev_value = word_from_slice (take 32 (log_data log)),
                  ev_fee = word_from_slice (take 32 (drop 32 (log_data log))),
                  ev_nonce = word_from_slice (take 32 (drop 64 (log_data log))) \<rparr>)"

definition find_payment_settled ::
  "x402_lib \<Rightarrow> tx_receipt \<Rightarrow> h160 \<Rightarrow> payment_settled_event option" where
  "find_payment_settled X receipt facilitator = find_settled_in X facilitator (rc_logs receipt)"

text \<open>The log the facilitator contract writes for an event.\<close>

definition settled_log :: "x402_lib \<Rightarrow> h160 \<Rightarrow> payment_settled_event \<Rightarrow> raw_log" where
  "settled_log X facilitator ev =
     \<lparr> log_address = facilitator,
       log_topics = [payment_settled_topic X, ucast (ev_from ev), ucast (ev_to ev)],
       log_data = u256_to_be_bytes (ev_value ev) @ u256_to_be_bytes (ev_fee ev)
         @ h256_bytes (ev_nonce ev) \<rparr>"

definition is_settled_log :: "x402_lib \<Rightarrow> h160 \<Rightarrow> raw_log \<Rightarrow> bool" where
  "is_settled_log X facilitator log \<longleftrightarrow>
     log_address log = facilitator \<and> 3 \<le> length (log_topics log)
     \<and> log_topics log ! 0 = payment_settled_topic X \<and> 96 \<le> length (log_data log)"

lemma be_bytes_add: "be_bytes (m + n) v = be_bytes m (v div 256 ^ n) @ be_bytes n v"
proof (induction n arbitrary: v)
  case (Suc n)
  then show ?case by (simp add: div_mult2_eq)
qed simp

lemma h256_address_ucast [simp]: "h256_address (ucast a) = (a :: h160)"
proof -
  have "unat (ucast a :: h256) = unat a"
    using unat_less_length [of a] by (simp add: unsigned_ucast_eq take_bit_eq_mod)
  then have "drop 12 (h256_bytes (ucast a)) = h160_bytes a"
    using be_bytes_add [of 12 20 "unat a"] by (simp add: h256_bytes_def h160_bytes_def)
  then show ?thesis by (simp add: h256_address_def)
qed

lemma find_settled_skip:
  "(\<And>l. l \<in> set ls \<Longrightarrow> \<not> is_settled_log X f l)
   \<Longrightarrow> find_settled_in X f (ls @ logs) = find_settled_in X f logs"
  by (induction ls) (auto simp: is_settled_log_def not_le)

lemma find_settled_None:
  "find_settled_in X f logs = None \<longleftrightarrow> (\<forall>l \<in> set logs. \<not> is_settled_log X f l)"
  by (induction logs) (auto simp: is_settled_log_def not_le)

lemma find_settled_log [simp]:
  "find_settled_in X f (settled_log X f ev # logs) = Some ev"
  by (simp add: settled_log_def)

section \<open>The challenge\<close>

record payment_challenge =
  pc_version :: u8
  pc_facilitator :: string
  pc_token :: string
  pc_chain_id :: u64
  pc_amount :: string
  pc_nonce :: string
  pc_valid_after :: u64
  pc_valid_before :: u64
  pc_recipient :: string
  pc_digest :: string
  pc_request_hash :: string

record challenge_inputs =
  ci_chain_id :: u64
  ci_facilitator :: h160
  ci_wsalt :: h160
  ci_recipient :: h160
  ci_amount_wei :: u256
  ci_payer :: h160
  ci_nonce :: h256
  ci_now_unix :: u64
  ci_ttl_secs :: u64
  ci_request_commitment :: h256

record built_challenge =
  bc_challenge :: payment_challenge
  bc_digest :: h256

definition hex_addr :: "x402_lib \<Rightarrow> h160 \<Rightarrow> string" where
  "hex_addr X addr = ''0x'' @ hex_encode X (h160_bytes addr)"

definition hex_bytes32 :: "x402_lib \<Rightarrow> h256 \<Rightarrow> string" where
  "hex_bytes32 X h = ''0x'' @ hex_encode X (h256_bytes h)"

definition build_challenge ::
  "x402_lib \<Rightarrow> challenge_inputs \<Rightarrow> x402_error + built_challenge" where
  "build_challenge X inputs =
     (if ci_amount_wei inputs = 0 then Inl (InternalError ''challenge amount must be > 0'')
      else if ci_ttl_secs inputs = 0 then Inl (InternalError ''ttl must be > 0'')
      else
        let valid_after = ucast (ci_now_unix inputs);
            valid_before = ucast (sat_add (ci_now_unix inputs) (ci_ttl_secs inputs));
            domain_separator = wsalt_domain_separator X (ci_chain_id inputs) (ci_wsalt inputs);
            struct_hash = transfer_with_authorization_struct_hash X (ci_payer inputs)
              (ci_recipient inputs) (ci_amount_wei inputs) valid_after valid_before (ci_nonce inputs);
            digest = eip712_digest X domain_separator struct_hash
        in Inr \<lparr> bc_challenge =
                   \<lparr> pc_version = 1,
                     pc_facilitator = hex_addr X (ci_facilitator inputs),
                     pc_token = hex_addr X (ci_wsalt inputs),
                     pc_chain_id = ci_chain_id inputs,
                     pc_amount = u256_to_dec X (ci_amount_wei inputs),
                     pc_nonce = hex_bytes32 X (ci_nonce inputs),
                     pc_valid_after = ci_now_unix inputs,
                     pc_valid_before = sat_add (ci_now_unix inputs) (ci_ttl_secs inputs),
                     pc_recipient = hex_addr X (ci_recipient inputs),
                     pc_digest = hex_bytes32 X digest,
                     pc_request_hash = hex_bytes32 X (ci_request_commitment inputs) \<rparr>,
                 bc_digest = digest \<rparr>)"

section \<open>An instance of the other crates\<close>

text \<open>Concrete functions with the documented behaviour, on which the examples
  below evaluate: a byte is written as two letters, a digest is a length, every
  32 bytes are a key, and a signature repeats what it signs.\<close>

definition letter_encode :: "bytes \<Rightarrow> string" where
  "letter_encode bs =
     concat (map (\<lambda>b. [char_of (65 + unat b div 16), char_of (65 + unat b mod 16)]) bs)"

fun letter_decode :: "string \<Rightarrow> bytes" where
  "letter_decode (c # d # cs) =
     of_nat ((char_nat c - 65) * 16 + (char_nat d - 65)) # letter_decode cs"
| "letter_decode cs = []"

definition sample_lib :: x402_lib where
  "sample_lib =
     \<lparr> keccak = (\<lambda>b. of_nat (length b)),
       hex_encode = letter_encode, hex_decode = (\<lambda>s. Inr (letter_decode s)),
       b64_encode = letter_encode, b64_decode = (\<lambda>s. Inr (letter_decode s)),
       u256_to_dec = (\<lambda>n. letter_encode (u256_to_be_bytes n)),
       u256_of_dec = (\<lambda>s. Inr (word_from_slice (letter_decode s))),
       json_text = (\<lambda>j. ''{}''), rlp_list = concat,
       signing_key_error = (\<lambda>s. if length s = 32 then None else Some ''length''),
       public_point = (\<lambda>s. 4 # s @ s),
       sign_prehash = (\<lambda>s d. Inr (0, d, s)),
       debug_h160 = (\<lambda>a. letter_encode (h160_bytes a)),
       body_limit_error = ''length limit exceeded'' \<rparr>"

lemma char_nat_of: "n < 256 \<Longrightarrow> char_nat (char_of n) = n"
  by simp

lemma unat_u8_div16: "unat (b :: u8) div 16 < 16"
  using unat_u8_less [of b] by simp

lemma letter_decode_encode: "letter_decode (letter_encode bs) = bs"
proof (induction bs)
  case (Cons b bs)
  have "unat b div 16 * 16 + unat b mod 16 = unat b" by simp
  moreover have "char_nat (char_of (65 + unat b div 16)) = 65 + unat b div 16"
    "char_nat (char_of (65 + unat b mod 16)) = 65 + unat b mod 16"
    using unat_u8_div16 [of b] by (intro char_nat_of; simp)+
  ultimately show ?case using Cons by (simp add: letter_encode_def)
qed (simp add: letter_encode_def)

lemma letter_encode_visible: "c \<in> set (letter_encode bs) \<Longrightarrow> 32 < char_nat c"
proof -
  assume "c \<in> set (letter_encode bs)"
  then obtain b where "c = char_of (65 + unat (b :: u8) div 16)
      \<or> c = char_of (65 + unat b mod 16)"
    by (auto simp: letter_encode_def)
  then obtain n :: nat where n: "c = char_of (65 + n)" "n < 16"
  proof
    assume "c = char_of (65 + unat b div 16)"
    then show thesis using that unat_u8_div16 [of b] by blast
  next
    assume "c = char_of (65 + unat b mod 16)"
    then show thesis using that [of "unat b mod 16"] by simp
  qed
  then show ?thesis using char_nat_of [of "65 + n"] by simp
qed

lemma sample_codecs_ok: "text_codecs_ok sample_lib"
  by (simp add: text_codecs_ok_def sample_lib_def letter_decode_encode letter_encode_visible)

text \<open>The payment header loses nothing: decoding what
  \<open>encode\<close> wrote gives the payload back, for every payload of the 233-byte
  format and every base64 codec that decodes its own output.\<close>

theorem header_roundtrip:
  assumes "text_codecs_ok X"
  shows "decode_header X (encode_header X p) = Inr p \<and> length (to_bytes p) = 233"
  using decode_encode_header [OF assms] by (simp add: payload_bytes_def)

theorem header_roundtrip_witness:
  "decode_header sample_lib (encode_header sample_lib
       \<lparr> pp_from = 1, pp_to = 2, pp_value = 3, pp_valid_after = 4, pp_valid_before = 5,
         pp_nonce = 6, pp_v = 27, pp_r = 8, pp_s = 9 \<rparr>)
     = Inr \<lparr> pp_from = 1, pp_to = 2, pp_value = 3, pp_valid_after = 4, pp_valid_before = 5,
         pp_nonce = 6, pp_v = 27, pp_r = 8, pp_s = 9 \<rparr>"
  using header_roundtrip [OF sample_codecs_ok] by blast

text \<open>The 233-byte format is canonical: the parser accepts exactly
  the serializations of payloads, rejects every other byte string, and two
  payloads with the same bytes are the same.\<close>

theorem payload_codec:
  "(parse_payload bs = Inr p) = (bs = to_bytes p)
   \<and> ((\<exists>e. parse_payload bs = Inl e) = (length bs \<noteq> 233))"
  unfolding payload.dec_eq_iff
  by (auto simp: parse_payload_def payload_bytes_def Let_def split: prod.splits)

end
