(* ===== verification/X402_Layer.thy ===== *)
theory X402_Layer
  imports Ledger X402_Wire
begin

text \<open>
  The payment middleware of \<open>crates/x402-axum/src\<close>: the nonce source
  (\<open>nonce.rs\<close>), the keys and the signed settlement transaction (\<open>keys.rs\<close>,
  \<open>sign_tx.rs\<close>), and the service of \<open>layer.rs\<close> with its two phases, validation
  before the inner handler runs and settlement after a 2xx response. The chain
  client, the pricing strategy, the clock, the entropy source and the inner
  handler are arguments that thread a world; the calls that matter to a
  payer - a transaction submitted, a settlement or a rejection reported - are
  kept in order in the \<open>trace\<close> of the layer's state.
\<close>

section \<open>Keys and settlement transactions\<close>

definition derive_secp256k1_address :: "x402_lib \<Rightarrow> bytes \<Rightarrow> h160 option" where
  "derive_secp256k1_address X secret =
     (case signing_key_error X secret of
        Some e \<Rightarrow> None
      | None \<Rightarrow>
          if length (public_point X secret) \<noteq> 65 then None
          else Some (word_from_slice
                 (drop 12 (h256_bytes (keccak X (drop 1 (public_point X secret)))))))"

definition sign_digest_secp256k1 ::
  "x402_lib \<Rightarrow> bytes \<Rightarrow> bytes \<Rightarrow> x402_error + (u8 \<times> bytes \<times> bytes)" where
  "sign_digest_secp256k1 X secret digest =
     (case signing_key_error X secret of
        Some e \<Rightarrow> Inl (InternalError (''invalid secret: '' @ e))
      | None \<Rightarrow>
          (case sign_prehash X secret digest of
             Inl e \<Rightarrow> Inl (InternalError (''sign failed: '' @ e))
           | Inr (recovery_id, r, s) \<Rightarrow> Inr (27 + recovery_id, r, s)))"

record settlement_tx =
  tx_chain_id :: u64
  tx_nonce :: u64
  tx_gas_price_wei :: u64
  tx_gas_limit :: u64
  tx_to :: h160
  tx_value :: u256
  tx_data :: bytes

definition strip_leading_zeros :: "bytes \<Rightarrow> bytes" where
  "strip_leading_zeros bs = dropWhile (\<lambda>b. b = 0) bs"

definition append_u64 :: "u64 \<Rightarrow> bytes" where
  "append_u64 v = (if v = 0 then [] else dropWhile (\<lambda>b. b = 0) (be_bytes 8 (unat v)))"

definition append_u256 :: "u256 \<Rightarrow> bytes" where
  "append_u256 v = (if v = 0 then [] else dropWhile (\<lambda>b. b = 0) (u256_to_be_bytes v))"

definition encode_unsigned_rlp :: "x402_lib \<Rightarrow> settlement_tx \<Rightarrow> bytes" where
  "encode_unsigned_rlp X tx =
     rlp_list X [append_u64 (tx_nonce tx), append_u64 (tx_gas_price_wei tx),
       append_u64 (tx_gas_limit tx), h160_bytes (tx_to tx), append_u256 (tx_value tx),
       tx_data tx, append_u64 (tx_chain_id tx), [], []]"

definition encode_signed_rlp ::
  "x402_lib \<Rightarrow> settlement_tx \<Rightarrow> u64 \<Rightarrow> bytes \<Rightarrow> bytes \<Rightarrow> bytes" where
  "encode_signed_rlp X tx v r s =
     rlp_list X [append_u64 (tx_nonce tx), append_u64 (tx_gas_price_wei tx),
       append_u64 (tx_gas_limit tx), h160_bytes (tx_to tx), append_u256 (tx_value tx),
       tx_data tx, append_u64 v, strip_leading_zeros r, strip_leading_zeros s]"

definition eip155_v :: "u64 \<Rightarrow> u8 \<Rightarrow> u64" where
  "eip155_v chain_id recovery_id = chain_id * 2 + 35 + ucast recovery_id"

definition sign_settlement_tx ::
  "x402_lib \<Rightarrow> settlement_tx \<Rightarrow> bytes \<Rightarrow> x402_error + bytes" where
  "sign_settlement_tx X tx operator_secret =
     (case signing_key_error X operator_secret of
        Some e \<Rightarrow> Inl (InternalError (''invalid operator secret: '' @ e))
      | None \<Rightarrow>
          (case sign_prehash X operator_secret
                  (h256_bytes (keccak X (encode_unsigned_rlp X tx))) of
             Inl e \<Rightarrow> Inl (InternalError (''sign failed: '' @ e))
           | Inr (recovery_id, sig_r, sig_s) \<Rightarrow>
               Inr (encode_signed_rlp X tx (eip155_v (tx_chain_id tx) recovery_id) sig_r sig_s)))"

lemma be_val_Cons_zero [simp]: "be_val (0 # bs) = be_val bs"
  by (simp add: be_val_def)

lemma be_val_strip_zeros: "be_val (dropWhile (\<lambda>b. b = 0) bs) = be_val bs"
  by (induction bs) auto

lemma be_val_append_u64: "be_val (append_u64 v) = unat v"
  using unat_less_length [of v]
  by (simp add: append_u64_def be_val_strip_zeros be_val_bytes)

lemma be_val_append_u256: "be_val (append_u256 v) = unat v"
  using unat_less_length [of v]
  by (simp add: append_u256_def be_val_strip_zeros be_val_bytes u256_to_be_bytes_def)

section \<open>Configuration, requests and state\<close>

record x402_paid =
  paid_payer :: h160
  paid_amount_wei :: u256
  paid_nonce :: h256
  paid_settle_tx_hash :: h256

text \<open>What the bearer-key layer of the gateway notes in a request's extensions:
  the token and what its balance is denominated in.\<close>

record api_key_context =
  kc_key_id :: string
  kc_backing :: key_backing

text \<open>Requests and responses, with the values the program keeps in their
  extension maps. \<open>rq_body\<close> and \<open>rs_body_broken\<close> say whether the body can be
  read to its end.\<close>

record request =
  rq_method :: string
  rq_path :: string
  rq_path_and_query :: "string option"
  rq_headers :: "(string \<times> string) list"
  rq_body :: "string + bytes"
  rq_paid :: "x402_paid option"
  rq_api_key :: "api_key_context option"

record response =
  rs_status :: nat
  rs_headers :: "(string \<times> string) list"
  rs_body :: string
  rs_body_broken :: bool
  rs_charge :: "u256 option"

datatype pricing_error = NotPriceable string | OracleUnavailable string

fun pricing_display :: "pricing_error \<Rightarrow> string" where
  "pricing_display (NotPriceable m) = ''request not priceable: '' @ m"
| "pricing_display (OracleUnavailable m) = ''oracle unavailable: '' @ m"

record settled_event =
  se_payer :: h160
  se_amount_wei :: u256
  se_fee_wei :: u256
  se_nonce :: h256
  se_tx_hash :: h256
  se_block_number :: u64

record rejected_event =
  re_reason :: string
  re_http_status :: nat
  re_payer :: "h160 option"

datatype effect = TxSent bytes | OnSettled settled_event | OnRejected rejected_event

record 'w chain_client =
  verify_offline :: "bytes \<Rightarrow> 'w \<Rightarrow> (x402_error + h160 option) \<times> 'w"
  get_nonce :: "h160 \<Rightarrow> 'w \<Rightarrow> (x402_error + u64) \<times> 'w"
  send_raw_tx :: "bytes \<Rightarrow> 'w \<Rightarrow> (x402_error + h256) \<times> 'w"
  wait_for_receipt :: "h256 \<Rightarrow> u64 \<Rightarrow> 'w \<Rightarrow> (x402_error + tx_receipt) \<times> 'w"

record 'w x402_config =
  cf_chain_id :: u64
  cf_facilitator_address :: h160
  cf_wsalt_address :: h160
  cf_treasury :: h160
  cf_pricing :: "request \<Rightarrow> bytes \<Rightarrow> 'w \<Rightarrow> (pricing_error + u256) \<times> 'w"
  cf_chain :: "'w chain_client"
  cf_operator_secret :: bytes
  cf_operator_address :: h160
  cf_gas_price_wei :: u64
  cf_gas_limit :: u64
  cf_challenge_ttl_secs :: u64
  cf_receipt_timeout_secs :: u64
  cf_now :: "'w \<Rightarrow> u64 \<times> 'w"
  cf_fill_random :: "nat \<Rightarrow> 'w \<Rightarrow> bytes option \<times> 'w"

record 'w x402_state =
  st_ledger :: nonce_ledger
  st_process_id :: bytes
  st_counter :: u64
  st_world :: 'w
  st_trace :: "effect list"

text \<open>One call of an operation of the world.\<close>

definition ask :: "('w \<Rightarrow> 'a \<times> 'w) \<Rightarrow> 'w x402_state \<Rightarrow> 'a \<times> 'w x402_state" where
  "ask f st = (case f (st_world st) of (a, w) \<Rightarrow> (a, st\<lparr> st_world := w \<rparr>))"

definition emit :: "effect \<Rightarrow> 'w x402_state \<Rightarrow> 'w x402_state" where
  "emit e st = st\<lparr> st_trace := st_trace st @ [e] \<rparr>"

section \<open>Minting a nonce\<close>

definition nonce_entropy_error :: string where
  "nonce_entropy_error =
     ''OS entropy unavailable: refusing to mint a predictable payment nonce''"

definition next_nonce ::
  "x402_lib \<Rightarrow> 'w x402_config \<Rightarrow> 'w x402_state \<Rightarrow> (string + h256) \<times> 'w x402_state" where
  "next_nonce X cfg st =
     (let counter = st_counter st;
          st1 = st\<lparr> st_counter := counter + 1 \<rparr>
      in case ask (cf_fill_random cfg 8) st1 of
           (None, st2) \<Rightarrow> (Inl nonce_entropy_error, st2)
         | (Some rand_bytes, st2) \<Rightarrow>
             (Inr (keccak X (st_process_id st @ be_bytes 8 (unat counter) @ rand_bytes)), st2))"

section \<open>Binding a challenge to a request\<close>

definition update_len_prefixed :: "bytes \<Rightarrow> bytes" where
  "update_len_prefixed v = be_bytes 8 (length v) @ v"

definition commitment_preimage :: "string \<Rightarrow> string \<Rightarrow> bytes \<Rightarrow> bytes" where
  "commitment_preimage meth path body =
     as_bytes ''CITRATE-X402-REQUEST-V1'' @ update_len_prefixed (as_bytes meth)
     @ update_len_prefixed (as_bytes path) @ update_len_prefixed body"

definition request_path :: "request \<Rightarrow> string" where
  "request_path req = (case rq_path_and_query req of Some pq \<Rightarrow> pq | None \<Rightarrow> rq_path req)"

definition request_commitment :: "x402_lib \<Rightarrow> request \<Rightarrow> bytes \<Rightarrow> h256" where
  "request_commitment X req body =
     keccak X (commitment_preimage (rq_method req) (request_path req) body)"

definition max_pricing_body_bytes :: nat where
  "max_pricing_body_bytes = 8 * 1024 * 1024"

definition buffer_request_body :: "x402_lib \<Rightarrow> request \<Rightarrow> string + bytes" where
  "buffer_request_body X req =
     (case rq_body req of
        Inl e \<Rightarrow> Inl (''request body cannot be buffered: '' @ e)
      | Inr bytes \<Rightarrow>
          if max_pricing_body_bytes < length bytes
          then Inl (''request body cannot be buffered: '' @ body_limit_error X)
          else Inr bytes)"

text \<open>\<open>HeaderMap::get\<close> and \<open>to_str\<close>: the first value of the name, when it is
  visible ASCII, spaces and tabs.\<close>

definition header_to_str :: "string \<Rightarrow> string option" where
  "header_to_str v =
     (if list_all (\<lambda>c. char_nat c = 9 \<or> 32 \<le> char_nat c \<and> char_nat c < 127) v
      then Some v else None)"

definition payment_header :: "request \<Rightarrow> string option" where
  "payment_header req = Option.bind (map_of (rq_headers req) x_payment_header) header_to_str"

definition make_challenge ::
  "x402_lib \<Rightarrow> 'w x402_config \<Rightarrow> u256 \<Rightarrow> h256 \<Rightarrow> 'w x402_state
    \<Rightarrow> (x402_error + payment_challenge) \<times> 'w x402_state" where
  "make_challenge X cfg amount_wei commitment st =
     (case next_nonce X cfg st of
        (Inl e, st1) \<Rightarrow> (Inl (InternalError (''challenge refused: '' @ e)), st1)
      | (Inr nonce, st1) \<Rightarrow>
          (case ask (cf_now cfg) st1 of (now_unix, st2) \<Rightarrow>
             (case build_challenge X
                     \<lparr> ci_chain_id = cf_chain_id cfg, ci_facilitator = cf_facilitator_address cfg,
                       ci_wsalt = cf_wsalt_address cfg, ci_recipient = cf_treasury cfg,
                       ci_amount_wei = amount_wei, ci_payer = 0, ci_nonce = nonce,
                       ci_now_unix = now_unix, ci_ttl_secs = cf_challenge_ttl_secs cfg,
                       ci_request_commitment = commitment \<rparr> of
                Inl e \<Rightarrow> (Inl e, st2)
              | Inr built \<Rightarrow>
                  (Inr (bc_challenge built),
                   st2\<lparr> st_ledger := record_bound (st_ledger st2) nonce commitment
                          (now_unix + cf_challenge_ttl_secs cfg) now_unix \<rparr>))))"

section \<open>Validation\<close>

datatype validate_outcome =
  Validated payment_payload | Reject x402_error | ServerError x402_error

definition precompile_input :: "x402_lib \<Rightarrow> 'w x402_config \<Rightarrow> payment_payload \<Rightarrow> bytes" where
  "precompile_input X cfg p =
     h256_bytes (wsalt_domain_separator X (cf_chain_id cfg) (cf_wsalt_address cfg)) @ to_bytes p"

definition price_shortfall :: "x402_lib \<Rightarrow> u256 \<Rightarrow> u256 \<Rightarrow> string" where
  "price_shortfall X offered price =
     ''authorized amount '' @ u256_to_dec X offered @ '' wei below price ''
     @ u256_to_dec X price @ '' wei''"

definition validate_paid_path ::
  "x402_lib \<Rightarrow> 'w x402_config \<Rightarrow> string \<Rightarrow> u256 \<Rightarrow> h256 \<Rightarrow> 'w x402_state
    \<Rightarrow> validate_outcome \<times> 'w x402_state" where
  "validate_paid_path X cfg header_value price commitment st =
     (case decode_header X header_value of
        Inl e \<Rightarrow> (Reject e, st)
      | Inr payload \<Rightarrow>
          (case ask (cf_now cfg) st of (now, st1) \<Rightarrow>
             if pp_valid_before payload \<le> ucast now \<or> ucast now < pp_valid_after payload
             then (Reject PayloadExpired, st1)
             else
               (case ask (cf_now cfg) st1 of (now2, st2) \<Rightarrow>
                  (case consume_bound (st_ledger st2) (pp_nonce payload) commitment now2 of
                     (Inl e, L) \<Rightarrow> (Reject ChallengeNotIssued, st2\<lparr> st_ledger := L \<rparr>)
                   | (Inr u, L) \<Rightarrow>
                       (let st3 = st2\<lparr> st_ledger := L \<rparr>
                        in if pp_value payload < price
                           then (Reject (InternalError (price_shortfall X (pp_value payload) price)), st3)
                           else
                             (case ask (verify_offline (cf_chain cfg) (precompile_input X cfg payload)) st3 of
                                (Inl e, st4) \<Rightarrow> (ServerError e, st4)
                              | (Inr None, st4) \<Rightarrow> (Reject InvalidSignature, st4)
                              | (Inr (Some signer), st4) \<Rightarrow>
                                  if signer \<noteq> pp_from payload then (Reject InvalidSignature, st4)
                                  else if pp_to payload \<noteq> cf_treasury cfg
                                  then (Reject RecipientNotTreasury, st4)
                                  else (Validated payload, st4)))))))"

section \<open>Settlement\<close>

definition settlement_mismatch ::
  "x402_lib \<Rightarrow> 'w x402_config \<Rightarrow> payment_payload \<Rightarrow> u256 \<Rightarrow> payment_settled_event \<Rightarrow> u256
    \<Rightarrow> string" where
  "settlement_mismatch X cfg payload price settled gross =
     ''PaymentSettled event does not match submitted payload (event from=''
     @ debug_h160 X (ev_from settled) @ '' to='' @ debug_h160 X (ev_to settled)
     @ '' gross='' @ u256_to_dec X gross @ ''; expected from=''
     @ debug_h160 X (pp_from payload) @ '' to='' @ debug_h160 X (cf_treasury cfg)
     @ '' price>='' @ u256_to_dec X price @ '')''"

definition settle_receipt ::
  "x402_lib \<Rightarrow> 'w x402_config \<Rightarrow> payment_payload \<Rightarrow> u256 \<Rightarrow> h256 \<Rightarrow> tx_receipt
    \<Rightarrow> x402_error + settled_event" where
  "settle_receipt X cfg payload price tx_hash receipt =
     (if \<not> rc_status receipt
      then Inl (SettleReverted (hex_encode X (h256_bytes tx_hash)))
      else
        case find_payment_settled X receipt (cf_facilitator_address cfg) of
          None \<Rightarrow> Inl (FacilitatorReverted ''no PaymentSettled event in receipt'')
        | Some settled \<Rightarrow>
            let gross = sat_add (ev_value settled) (ev_fee settled)
            in if ev_from settled \<noteq> pp_from payload \<or> ev_to settled \<noteq> cf_treasury cfg \<or> gross < price
               then Inl (FacilitatorReverted
                      (settlement_mismatch X cfg payload price settled gross))
               else Inr \<lparr> se_payer = ev_from settled, se_amount_wei = ev_value settled,
                          se_fee_wei = ev_fee settled, se_nonce = ev_nonce settled,
                          se_tx_hash = tx_hash, se_block_number = rc_block_number receipt \<rparr>)"

definition settle_paid_path ::
  "x402_lib \<Rightarrow> 'w x402_config \<Rightarrow> payment_payload \<Rightarrow> u256 \<Rightarrow> 'w x402_state
    \<Rightarrow> (x402_error + settled_event) \<times> 'w x402_state" where
  "settle_paid_path X cfg payload price st =
     (let calldata = encode_settle_payment X payload
      in case ask (get_nonce (cf_chain cfg) (cf_operator_address cfg)) st of
           (Inl e, st1) \<Rightarrow> (Inl e, st1)
         | (Inr op_nonce, st1) \<Rightarrow>
             (case sign_settlement_tx X
                     \<lparr> tx_chain_id = cf_chain_id cfg, tx_nonce = op_nonce,
                       tx_gas_price_wei = cf_gas_price_wei cfg, tx_gas_limit = cf_gas_limit cfg,
                       tx_to = cf_facilitator_address cfg, tx_value = 0, tx_data = calldata \<rparr>
                     (cf_operator_secret cfg) of
                Inl e \<Rightarrow> (Inl e, st1)
              | Inr raw \<Rightarrow>
                  (case ask (send_raw_tx (cf_chain cfg) raw) (emit (TxSent raw) st1) of
                     (Inl e, st2) \<Rightarrow> (Inl e, st2)
                   | (Inr tx_hash, st2) \<Rightarrow>
                       (case ask (wait_for_receipt (cf_chain cfg) tx_hash
                               (cf_receipt_timeout_secs cfg)) st2 of
                          (Inl e, st3) \<Rightarrow> (Inl e, st3)
                        | (Inr receipt, st3) \<Rightarrow>
                            (settle_receipt X cfg payload price tx_hash receipt, st3)))))"

section \<open>Responses\<close>

definition json_response :: "x402_lib \<Rightarrow> nat \<Rightarrow> (string \<times> string) list \<Rightarrow> json \<Rightarrow> response" where
  "json_response X status headers body =
     \<lparr> rs_status = status, rs_headers = headers, rs_body = json_text X body,
       rs_body_broken = False, rs_charge = None \<rparr>"

definition content_json :: "(string \<times> string) list" where
  "content_json = [(''content-type'', ''application/json'')]"

definition build_error_response :: "x402_lib \<Rightarrow> x402_error \<Rightarrow> response" where
  "build_error_response X err =
     json_response X (http_status err) content_json
       (JObj [(''error'', JStr ''internal''), (''reason'', JStr (reason err)),
              (''detail'', JStr (error_display err))])"

definition challenge_json :: "payment_challenge \<Rightarrow> json" where
  "challenge_json c =
     JObj [(''version'', JUint (unat (pc_version c))),
           (''facilitator'', JStr (pc_facilitator c)),
           (''token'', JStr (pc_token c)),
           (''chain_id'', JUint (unat (pc_chain_id c))),
           (''amount'', JStr (pc_amount c)),
           (''nonce'', JStr (pc_nonce c)),
           (''valid_after'', JUint (unat (pc_valid_after c))),
           (''valid_before'', JUint (unat (pc_valid_before c))),
           (''recipient'', JStr (pc_recipient c)),
           (''digest'', JStr (pc_digest c)),
           (''request_hash'', JStr (pc_request_hash c))]"

definition opt_field :: "string \<Rightarrow> string option \<Rightarrow> (string \<times> json) list" where
  "opt_field k v = (case v of None \<Rightarrow> [] | Some s \<Rightarrow> [(k, JStr s)])"

definition build_402_response ::
  "x402_lib \<Rightarrow> payment_challenge \<Rightarrow> string option \<Rightarrow> string option \<Rightarrow> response" where
  "build_402_response X challenge why detail =
     json_response X 402 (content_json @ [(''cache-control'', ''no-store'')])
       (JObj ((''x402'', challenge_json challenge) # opt_field ''reason'' why
              @ opt_field ''detail'' detail))"

definition build_400_response :: "x402_lib \<Rightarrow> string \<Rightarrow> response" where
  "build_400_response X why =
     json_response X 400 content_json
       (JObj [(''error'', JStr ''bad request''), (''reason'', JStr why)])"

definition build_500_response :: "x402_lib \<Rightarrow> string \<Rightarrow> response" where
  "build_500_response X why =
     json_response X 500 content_json
       (JObj [(''error'', JStr ''internal''), (''reason'', JStr why)])"

definition is_success :: "nat \<Rightarrow> bool" where
  "is_success status \<longleftrightarrow> 200 \<le> status \<and> status < 300"

section \<open>The service\<close>

definition mark_paid :: "payment_payload \<Rightarrow> request \<Rightarrow> request" where
  "mark_paid p req =
     req\<lparr> rq_paid := Some \<lparr> paid_payer = pp_from p, paid_amount_wei = pp_value p,
            paid_nonce = pp_nonce p, paid_settle_tx_hash = 0 \<rparr> \<rparr>"

definition rejected :: "x402_error \<Rightarrow> h160 option \<Rightarrow> effect" where
  "rejected err payer =
     OnRejected \<lparr> re_reason = reason err, re_http_status = http_status err, re_payer = payer \<rparr>"

text \<open>The unpaid answer: a challenge, or a 500 when none can be minted.\<close>

definition challenge_response ::
  "x402_lib \<Rightarrow> 'w x402_config \<Rightarrow> u256 \<Rightarrow> h256 \<Rightarrow> string option \<Rightarrow> string option
    \<Rightarrow> 'w x402_state \<Rightarrow> response \<times> 'w x402_state" where
  "challenge_response X cfg price commitment why detail st =
     (case make_challenge X cfg price commitment st of
        (Inl e, st1) \<Rightarrow> (build_500_response X (error_display e), st1)
      | (Inr c, st1) \<Rightarrow> (build_402_response X c why detail, st1))"

text \<open>After a validated payment: serve, and settle only what was served.\<close>

definition serve_then_settle ::
  "x402_lib \<Rightarrow> 'w x402_config \<Rightarrow> (request \<Rightarrow> 'w \<Rightarrow> ('e + response) \<times> 'w) \<Rightarrow> request
    \<Rightarrow> payment_payload \<Rightarrow> u256 \<Rightarrow> 'w x402_state \<Rightarrow> ('e + response) \<times> 'w x402_state" where
  "serve_then_settle X cfg inner req payload price st =
     (case ask (inner (mark_paid payload req)) st of
        (Inl e, st1) \<Rightarrow> (Inl e, st1)
      | (Inr resp, st1) \<Rightarrow>
          if is_success (rs_status resp)
          then (case settle_paid_path X cfg payload price st1 of
                  (Inr settled, st2) \<Rightarrow> (Inr resp, emit (OnSettled settled) st2)
                | (Inl err, st2) \<Rightarrow>
                    (Inr resp, emit (rejected err (Some (pp_from payload))) st2))
          else (Inr resp, st1))"

definition x402_call ::
  "x402_lib \<Rightarrow> 'w x402_config \<Rightarrow> (request \<Rightarrow> 'w \<Rightarrow> ('e + response) \<times> 'w) \<Rightarrow> request
    \<Rightarrow> 'w x402_state \<Rightarrow> ('e + response) \<times> 'w x402_state" where
  "x402_call X cfg inner req st =
     (case rq_paid req of
        Some paid \<Rightarrow> ask (inner req) st
      | None \<Rightarrow>
          (case buffer_request_body X req of
             Inl e \<Rightarrow> (Inr (build_400_response X e), st)
           | Inr body \<Rightarrow>
               (let commitment = request_commitment X req body
                in case ask (cf_pricing cfg req body) st of
                     (Inl e, st1) \<Rightarrow> (Inr (build_400_response X (pricing_display e)), st1)
                   | (Inr price, st1) \<Rightarrow>
                       (case payment_header req of
                          None \<Rightarrow> map_prod Inr id
                            (challenge_response X cfg price commitment None None st1)
                        | Some hv \<Rightarrow>
                            (case validate_paid_path X cfg hv price commitment st1 of
                               (Validated payload, st2) \<Rightarrow>
                                 serve_then_settle X cfg inner req payload price st2
                             | (Reject err, st2) \<Rightarrow> map_prod Inr id
                                 (challenge_response X cfg price commitment
                                    (Some (reason err)) (Some (error_display err))
                                    (emit (rejected err None) st2))
                             | (ServerError err, st2) \<Rightarrow>
                                 (Inr (build_error_response X err),
                                  emit (rejected err None) st2))))))"

section \<open>What a call leaves untouched\<close>

lemma ask_state:
  assumes "ask f st = (a, st')"
  shows "st_ledger st' = st_ledger st" and "st_trace st' = st_trace st"
    and "st_counter st' = st_counter st" and "st_process_id st' = st_process_id st"
    and "\<exists>w'. f (st_world st) = (a, w') \<and> st_world st' = w'"
  using assms by (auto simp: ask_def split: prod.splits)

lemma askD:
  "ask f st = (a, st') \<Longrightarrow> st_ledger st' = st_ledger st \<and> st_trace st' = st_trace st"
  by (auto simp: ask_def split: prod.splits)

lemma emit_state [simp]:
  "st_ledger (emit e st) = st_ledger st" "st_trace (emit e st) = st_trace st @ [e]"
  "st_world (emit e st) = st_world st"
  by (simp_all add: emit_def)

lemma next_nonce_state:
  assumes "next_nonce X cfg st = (r, st')"
  shows "st_ledger st' = st_ledger st \<and> st_trace st' = st_trace st"
  using assms by (auto simp: next_nonce_def Let_def dest!: askD split: prod.splits option.splits)

lemma make_challenge_trace:
  assumes "make_challenge X cfg price c st = (r, st')"
  shows "st_trace st' = st_trace st"
  using assms
  by (auto simp: make_challenge_def dest!: next_nonce_state askD split: prod.splits sum.splits)

lemma challenge_response_trace:
  assumes "challenge_response X cfg price c why detail st = (r, st')"
  shows "st_trace st' = st_trace st"
  using assms
  by (auto simp: challenge_response_def dest!: make_challenge_trace split: prod.splits sum.splits)

lemma validate_trace:
  assumes "validate_paid_path X cfg hv price c st = (r, st')"
  shows "st_trace st' = st_trace st"
  using assms
  by (auto simp: validate_paid_path_def Let_def dest!: askD
      split: prod.splits sum.splits if_splits option.splits)

text \<open>What a validated payment has passed.\<close>

definition validated_payment ::
  "x402_lib \<Rightarrow> 'w x402_config \<Rightarrow> string \<Rightarrow> u256 \<Rightarrow> h256 \<Rightarrow> nonce_ledger \<Rightarrow> payment_payload \<Rightarrow> bool"
where
  "validated_payment X cfg hv price c L p \<longleftrightarrow>
     decode_header X hv = Inr p \<and> price \<le> pp_value p \<and> pp_to p = cf_treasury cfg
     \<and> (\<exists>e now. map_of (entries L) (pp_nonce p) = Some e \<and> le_commitment e = c
          \<and> now < le_expires_at e)
     \<and> (\<exists>now. pp_valid_after p \<le> ucast (now :: u64) \<and> ucast now < pp_valid_before p)
     \<and> (\<exists>w w'. verify_offline (cf_chain cfg) (precompile_input X cfg p) w
          = (Inr (Some (pp_from p)), w'))"

lemma validate_Validated:
  assumes "validate_paid_path X cfg hv price c st = (Validated p, st')"
  shows "validated_payment X cfg hv price c (st_ledger st) p"
    and "map_of (entries (st_ledger st')) (pp_nonce p) = None"
proof -
  obtain now now2 st1 st2 L st4 where
    d: "decode_header X hv = Inr p"
    and a1: "ask (cf_now cfg) st = (now, st1)"
    and w: "\<not> (pp_valid_before p \<le> ucast now \<or> ucast now < pp_valid_after p)"
    and a2: "ask (cf_now cfg) st1 = (now2, st2)"
    and c: "consume_bound (st_ledger st2) (pp_nonce p) c now2 = (Inr (), L)"
    and pr: "\<not> pp_value p < price"
    and v: "ask (verify_offline (cf_chain cfg) (precompile_input X cfg p)) (st2\<lparr> st_ledger := L \<rparr>)
      = (Inr (Some (pp_from p)), st')"
    and t: "pp_to p = cf_treasury cfg"
    using assms
    by (auto simp: validate_paid_path_def Let_def split: prod.splits sum.splits if_splits option.splits)
  have L: "st_ledger st2 = st_ledger st" "st_ledger st' = L"
    using ask_state [OF a1] ask_state [OF a2] ask_state [OF v] by simp_all
  have "L = snd (consume_bound (st_ledger st2) (pp_nonce p) c now2)"
    using c by simp
  moreover have "\<exists>e. map_of (entries (st_ledger st2)) (pp_nonce p) = Some e \<and> le_commitment e = c"
    using c consume_bound_accepts [of "st_ledger st2" "pp_nonce p" c now2] by auto
  ultimately show "map_of (entries (st_ledger st')) (pp_nonce p) = None"
    using L(2) by (auto simp: consume_bound_lookup)
  have "\<exists>e. map_of (entries (st_ledger st)) (pp_nonce p) = Some e \<and> now2 < le_expires_at e
      \<and> le_commitment e = c"
    using c L consume_bound_accepts [of "st_ledger st" "pp_nonce p" c now2] by simp
  moreover have "\<exists>w w'. verify_offline (cf_chain cfg) (precompile_input X cfg p) w
      = (Inr (Some (pp_from p)), w')"
    using ask_state(5) [OF v] by blast
  ultimately show "validated_payment X cfg hv price c (st_ledger st) p"
    using d w pr t by (auto simp: validated_payment_def not_le not_less)
qed

text \<open>The settlement submits at most one transaction, the one that carries the
  payload's calldata.\<close>

definition settlement_of :: "x402_lib \<Rightarrow> 'w x402_config \<Rightarrow> payment_payload \<Rightarrow> bytes \<Rightarrow> bool" where
  "settlement_of X cfg p raw \<longleftrightarrow>
     (\<exists>n. sign_settlement_tx X
        \<lparr> tx_chain_id = cf_chain_id cfg, tx_nonce = n,
          tx_gas_price_wei = cf_gas_price_wei cfg, tx_gas_limit = cf_gas_limit cfg,
          tx_to = cf_facilitator_address cfg, tx_value = 0,
          tx_data = encode_settle_payment X p \<rparr> (cf_operator_secret cfg) = Inr raw)"

lemma settle_trace:
  assumes "settle_paid_path X cfg p price st = (r, st')"
  shows "st_ledger st' = st_ledger st"
    and "st_trace st' = st_trace st \<and> (\<exists>e. r = Inl e)
      \<or> (\<exists>raw. settlement_of X cfg p raw \<and> st_trace st' = st_trace st @ [TxSent raw])"
  using assms
  by (auto simp: settle_paid_path_def settlement_of_def Let_def dest!: askD
      split: prod.splits sum.splits)

lemma settle_Inr:
  assumes "settle_paid_path X cfg p price st = (Inr ev, st')"
  shows "se_payer ev = pp_from p" and "price \<le> sat_add (se_amount_wei ev) (se_fee_wei ev)"
  using assms
  by (auto simp: settle_paid_path_def settle_receipt_def Let_def not_less
      split: prod.splits sum.splits if_splits option.splits)

text \<open>The three shapes of what a served payment adds to the trace.\<close>

lemma serve_then_settle_trace:
  assumes "serve_then_settle X cfg inner req p price st = (r, st')"
  obtains (unserved) "st_trace st' = st_trace st" "st_ledger st' = st_ledger st"
  | (settled) resp raw ev where "r = Inr resp" "is_success (rs_status resp)"
      "settlement_of X cfg p raw" "se_payer ev = pp_from p"
      "price \<le> sat_add (se_amount_wei ev) (se_fee_wei ev)"
      "st_trace st' = st_trace st @ [TxSent raw, OnSettled ev]" "st_ledger st' = st_ledger st"
  | (lost) resp raw err where "r = Inr resp" "is_success (rs_status resp)"
      "settlement_of X cfg p raw"
      "st_trace st' = st_trace st @ [TxSent raw, rejected err (Some (pp_from p))]"
      "st_ledger st' = st_ledger st"
  | (unsent) resp err where "r = Inr resp" "is_success (rs_status resp)"
      "st_trace st' = st_trace st @ [rejected err (Some (pp_from p))]"
      "st_ledger st' = st_ledger st"
proof -
  obtain x st1 where i: "ask (inner (mark_paid p req)) st = (x, st1)" by (metis surj_pair)
  note i' = ask_state [OF i]
  show thesis
  proof (cases "\<exists>resp. x = Inr resp \<and> is_success (rs_status resp)")
    case False
    then have "st' = st1"
      using assms i by (auto simp: serve_then_settle_def split: sum.splits if_splits)
    with i' show thesis by (intro unserved) simp_all
  next
    case True
    then obtain resp where resp: "x = Inr resp" "is_success (rs_status resp)" by blast
    obtain y st2 where s: "settle_paid_path X cfg p price st1 = (y, st2)" by (metis surj_pair)
    note s' = settle_trace [OF s]
    show thesis
    proof (cases y)
      case (Inl err)
      then have "r = Inr resp" "st' = emit (rejected err (Some (pp_from p))) st2"
        using assms i s resp by (auto simp: serve_then_settle_def)
      with s' i' resp show thesis
        by (elim disjE exE conjE) (auto intro: lost unsent)
    next
      case (Inr ev)
      then have "r = Inr resp" "st' = emit (OnSettled ev) st2"
        using assms i s resp by (auto simp: serve_then_settle_def)
      moreover obtain raw where "settlement_of X cfg p raw"
        "st_trace st2 = st_trace st1 @ [TxSent raw]"
        using s' Inr by auto
      ultimately show thesis
        using s' i' resp settle_Inr [OF s [unfolded Inr]] by (intro settled) simp_all
    qed
  qed
qed

section \<open>Money moves only for what was served\<close>

definition sends :: "effect list \<Rightarrow> bytes list" where
  "sends tr = concat (map (\<lambda>e. case e of TxSent raw \<Rightarrow> [raw] | _ \<Rightarrow> []) tr)"

lemma sends_append [simp]: "sends (a @ b) = sends a @ sends b"
  by (simp add: sends_def)

lemma sends_simps [simp]:
  "sends [] = []" "sends (TxSent raw # tr) = raw # sends tr"
  "sends (OnSettled e # tr) = sends tr" "sends (rejected err payer # tr) = sends tr"
  by (simp_all add: sends_def rejected_def)

text \<open>C1. Whenever a call submits a settlement, it is the only one,
  the request carried no earlier payment, the inner handler answered it with a
  2xx that the caller receives, and the payment it settles was valid for this
  very request: within its window, at or above the price, to the treasury,
  signed by its payer, and on a nonce this gateway issued for this method,
  path and body, which the call has used up.\<close>

theorem settle_implies_served:
  assumes call: "x402_call X cfg inner req st = (r, st')"
    and sent: "sends (st_trace st') \<noteq> sends (st_trace st)"
  shows "\<exists>raw p resp hv body price.
      sends (st_trace st') = sends (st_trace st) @ [raw]
      \<and> settlement_of X cfg p raw \<and> rq_paid req = None
      \<and> r = Inr resp \<and> is_success (rs_status resp)
      \<and> payment_header req = Some hv \<and> buffer_request_body X req = Inr body
      \<and> validated_payment X cfg hv price (request_commitment X req body) (st_ledger st) p
      \<and> map_of (entries (st_ledger st')) (pp_nonce p) = None"
proof -
  have np: "rq_paid req = None"
    using call sent by (auto simp: x402_call_def dest!: askD split: option.splits)
  obtain body where body: "buffer_request_body X req = Inr body"
    using call sent np by (auto simp: x402_call_def split: sum.splits)
  define c where "c = request_commitment X req body"
  obtain price st1 where price: "ask (cf_pricing cfg req body) st = (Inr price, st1)"
    using call sent np body
    by (auto simp: x402_call_def Let_def dest!: askD split: sum.splits prod.splits)
  obtain hv where hv: "payment_header req = Some hv"
    using call sent np body price askD [OF price]
    by (auto simp: x402_call_def Let_def map_prod_def dest!: challenge_response_trace
        split: option.splits prod.splits)
  obtain p st2 where v: "validate_paid_path X cfg hv price c st1 = (Validated p, st2)"
    and s: "serve_then_settle X cfg inner req p price st2 = (r, st')"
    using call sent np body price askD [OF price] hv
    by (auto simp: x402_call_def Let_def map_prod_def c_def
        dest!: challenge_response_trace validate_trace
        split: validate_outcome.splits prod.splits)
  have p: "validated_payment X cfg hv price c (st_ledger st) p"
    "map_of (entries (st_ledger st2)) (pp_nonce p) = None" "st_trace st2 = st_trace st"
    using validate_Validated [OF v] validate_trace [OF v] askD [OF price] by simp_all
  show ?thesis
    by (cases rule: serve_then_settle_trace [OF s])
      (use sent np body hv p c_def in auto)
qed

end
