(* ===== verification/X402_Client.thy ===== *)
theory X402_Client
  imports X402_Layer
begin

text \<open>
  The paying client of \<open>crates/x402-axum/src/client.rs\<close>: its configuration and
  budget cap, the answer to a challenge, and \<open>send_paid\<close>, which retries once.
  The HTTP client and the JSON decoder of a challenge are the fields of
  \<open>client_http\<close>.
\<close>

section \<open>Configuration\<close>

record client_config =
  cc_secret :: bytes
  cc_payer_address :: h160
  cc_wsalt_address :: h160
  cc_facilitator_address :: h160
  cc_chain_id :: u64
  cc_budget_cap_wei :: u256

definition default_budget_cap :: u256 where
  "default_budget_cap = 10 * 10 ^ 18"

definition client_try_new ::
  "x402_lib \<Rightarrow> bytes \<Rightarrow> h160 \<Rightarrow> h160 \<Rightarrow> u64 \<Rightarrow> x402_error + client_config" where
  "client_try_new X secret wsalt facilitator chain_id =
     (case derive_secp256k1_address X secret of
        None \<Rightarrow> Inl (InternalError ''invalid secp256k1 secret'')
      | Some payer \<Rightarrow>
          Inr \<lparr> cc_secret = secret, cc_payer_address = payer, cc_wsalt_address = wsalt,
                cc_facilitator_address = facilitator, cc_chain_id = chain_id,
                cc_budget_cap_wei = default_budget_cap \<rparr>)"

definition client_new :: "h160 \<Rightarrow> h160 \<Rightarrow> u64 \<Rightarrow> client_config" where
  "client_new wsalt facilitator chain_id =
     \<lparr> cc_secret = zero_bytes 32, cc_payer_address = 0, cc_wsalt_address = wsalt,
       cc_facilitator_address = facilitator, cc_chain_id = chain_id,
       cc_budget_cap_wei = default_budget_cap \<rparr>"

definition with_budget_cap :: "client_config \<Rightarrow> u256 \<Rightarrow> client_config" where
  "with_budget_cap cc cap_wei = cc\<lparr> cc_budget_cap_wei := cap_wei \<rparr>"

section \<open>Reading a challenge\<close>

definition strip_0x :: "string \<Rightarrow> string" where
  "strip_0x s = (if take 2 s = ''0x'' then drop 2 s else s)"

definition parse_addr_hex :: "x402_lib \<Rightarrow> string \<Rightarrow> x402_error + h160" where
  "parse_addr_hex X s =
     (case hex_decode X (strip_0x s) of
        Inl e \<Rightarrow> Inl (InternalError (''bad address hex: '' @ e))
      | Inr bytes \<Rightarrow>
          if length bytes \<noteq> 20
          then Inl (InternalError (''address should be 20 bytes, got '' @ dec_string (length bytes)))
          else Inr (word_from_slice bytes))"

definition parse_bytes32_hex :: "x402_lib \<Rightarrow> string \<Rightarrow> x402_error + h256" where
  "parse_bytes32_hex X s =
     (case hex_decode X (strip_0x s) of
        Inl e \<Rightarrow> Inl (InternalError (''bad bytes32 hex: '' @ e))
      | Inr bytes \<Rightarrow>
          if length bytes \<noteq> 32
          then Inl (InternalError (''bytes32 should be 32 bytes, got '' @ dec_string (length bytes)))
          else Inr (word_from_slice bytes))"

definition chain_mismatch :: "u64 \<Rightarrow> u64 \<Rightarrow> string" where
  "chain_mismatch theirs ours =
     ''server challenge chain_id '' @ dec_string (unat theirs) @ '' != client chain_id ''
     @ dec_string (unat ours)"

text \<open>From the decoded challenge to the signed payload.\<close>

definition sign_challenge ::
  "x402_lib \<Rightarrow> client_config \<Rightarrow> payment_challenge \<Rightarrow> x402_error + payment_payload" where
  "sign_challenge X cc c =
     (if pc_chain_id c \<noteq> cc_chain_id cc
      then Inl (InternalError (chain_mismatch (pc_chain_id c) (cc_chain_id cc)))
      else
        case u256_of_dec X (pc_amount c) of
          Inl e \<Rightarrow> Inl (InternalError (''bad challenge amount: '' @ e))
        | Inr amount \<Rightarrow>
            if cc_budget_cap_wei cc < amount
            then Inl (BudgetExceeded (pc_amount c) (u256_to_dec X (cc_budget_cap_wei cc)))
            else
              case parse_addr_hex X (pc_recipient c) of
                Inl e \<Rightarrow> Inl e
              | Inr recipient \<Rightarrow>
                  (case parse_bytes32_hex X (pc_nonce c) of
                     Inl e \<Rightarrow> Inl e
                   | Inr nonce \<Rightarrow>
                       let domain_sep = wsalt_domain_separator X (pc_chain_id c) (cc_wsalt_address cc);
                           struct_hash = transfer_with_authorization_struct_hash X
                             (cc_payer_address cc) recipient amount (ucast (pc_valid_after c))
                             (ucast (pc_valid_before c)) nonce;
                           our_digest = eip712_digest X domain_sep struct_hash
                       in case sign_digest_secp256k1 X (cc_secret cc) (h256_bytes our_digest) of
                            Inl e \<Rightarrow> Inl e
                          | Inr (v, r_bytes, s_bytes) \<Rightarrow>
                              Inr \<lparr> pp_from = cc_payer_address cc, pp_to = recipient,
                                    pp_value = amount,
                                    pp_valid_after = ucast (pc_valid_after c),
                                    pp_valid_before = ucast (pc_valid_before c),
                                    pp_nonce = nonce, pp_v = v,
                                    pp_r = word_from_slice r_bytes,
                                    pp_s = word_from_slice s_bytes \<rparr>))"

section \<open>Sending\<close>

record client_request =
  cr_clonable :: bool
  cr_headers :: "(string \<times> string) list"

record ('w, 'r) client_http =
  http_send :: "client_request \<Rightarrow> 'w \<Rightarrow> (string + 'r) \<times> 'w"
  reply_status :: "'r \<Rightarrow> nat"
  reply_json :: "'r \<Rightarrow> string + json"
  challenge_from_value :: "json \<Rightarrow> string + payment_challenge"

definition parse_challenge ::
  "('w, 'r) client_http \<Rightarrow> json \<Rightarrow> x402_error + payment_challenge" where
  "parse_challenge H body =
     (case json_get ''x402'' body of
        None \<Rightarrow> Inl (InternalError (''402 body missing '' @ [CHR 0x27] @ ''x402'' @ [CHR 0x27] @ '' envelope''))
      | Some envelope \<Rightarrow>
          (case challenge_from_value H envelope of
             Inl e \<Rightarrow> Inl (InternalError (''challenge decode: '' @ e))
           | Inr c \<Rightarrow> Inr c))"

definition send_paid ::
  "x402_lib \<Rightarrow> ('w, 'r) client_http \<Rightarrow> client_config \<Rightarrow> client_request \<Rightarrow> 'w
    \<Rightarrow> (x402_error + 'r) \<times> 'w" where
  "send_paid X H cc req w =
     (if list_all (\<lambda>b. b = 0) (cc_secret cc) then (Inl UnsupportedKeyType, w)
      else if \<not> cr_clonable req then (Inl (InternalError ''request body is not clonable''), w)
      else
        case http_send H req w of
          (Inl e, w1) \<Rightarrow> (Inl (RpcTransport (''request failed: '' @ e)), w1)
        | (Inr resp, w1) \<Rightarrow>
            if reply_status H resp \<noteq> 402 then (Inr resp, w1)
            else
              case reply_json H resp of
                Inl e \<Rightarrow> (Inl (RpcTransport (''402 body decode: '' @ e)), w1)
              | Inr body \<Rightarrow>
                  (case parse_challenge H body of
                     Inl e \<Rightarrow> (Inl e, w1)
                   | Inr challenge \<Rightarrow>
                       (case sign_challenge X cc challenge of
                          Inl e \<Rightarrow> (Inl e, w1)
                        | Inr payload \<Rightarrow>
                            (case http_send H (req\<lparr> cr_headers := cr_headers req
                                    @ [(x_payment_header, encode_header X payload)] \<rparr>) w1 of
                               (Inl e, w2) \<Rightarrow> (Inl (RpcTransport (''retry failed: '' @ e)), w2)
                             | (Inr resp2, w2) \<Rightarrow> (Inr resp2, w2)))))"

section \<open>The client signs what it was asked, within its budget\<close>

lemma sign_challenge_Inr:
  assumes "sign_challenge X cc c = Inr p"
  shows "pc_chain_id c = cc_chain_id cc" and "pp_from p = cc_payer_address cc"
    and "u256_of_dec X (pc_amount c) = Inr (pp_value p)" and "pp_value p \<le> cc_budget_cap_wei cc"
    and "parse_addr_hex X (pc_recipient c) = Inr (pp_to p)"
    and "parse_bytes32_hex X (pc_nonce c) = Inr (pp_nonce p)"
    and "pp_valid_after p = ucast (pc_valid_after c)"
    and "pp_valid_before p = ucast (pc_valid_before c)"
  using assms
  by (auto simp: sign_challenge_def Let_def not_less split: if_splits sum.splits prod.splits)

text \<open>The request that carries a payment.\<close>

definition paid_retry :: "x402_lib \<Rightarrow> client_request \<Rightarrow> payment_payload \<Rightarrow> client_request" where
  "paid_retry X req p =
     req\<lparr> cr_headers := cr_headers req @ [(x_payment_header, encode_header X p)] \<rparr>"

text \<open>C9. Whatever the server answers, a call of \<open>send_paid\<close> either sends
  nothing, or sends the bare request once, or - only after a 402 whose
  challenge names the client's chain and an amount within its budget cap -
  sends it a second and last time with a payload from the client's address
  over exactly that amount, recipient and nonce.\<close>

theorem send_paid_within_budget:
  "snd (send_paid X H cc req w) = w
   \<or> snd (send_paid X H cc req w) = snd (http_send H req w)
   \<or> (\<exists>resp body c p.
        fst (http_send H req w) = Inr resp \<and> reply_status H resp = 402
        \<and> reply_json H resp = Inr body \<and> parse_challenge H body = Inr c
        \<and> pc_chain_id c = cc_chain_id cc \<and> pp_from p = cc_payer_address cc
        \<and> u256_of_dec X (pc_amount c) = Inr (pp_value p) \<and> pp_value p \<le> cc_budget_cap_wei cc
        \<and> parse_addr_hex X (pc_recipient c) = Inr (pp_to p)
        \<and> parse_bytes32_hex X (pc_nonce c) = Inr (pp_nonce p)
        \<and> snd (send_paid X H cc req w)
            = snd (http_send H (paid_retry X req p) (snd (http_send H req w))))"
proof (cases "list_all (\<lambda>b. b = 0) (cc_secret cc) \<or> \<not> cr_clonable req")
  case True
  then show ?thesis by (auto simp: send_paid_def)
next
  case sendable: False
  obtain x w1 where 1: "http_send H req w = (x, w1)" by (metis surj_pair)
  show ?thesis
  proof (cases "\<exists>resp body c p. x = Inr resp \<and> reply_status H resp = 402
      \<and> reply_json H resp = Inr body \<and> parse_challenge H body = Inr c
      \<and> sign_challenge X cc c = Inr p")
    case False
    then have "snd (send_paid X H cc req w) = w1"
      using sendable 1
      by (auto simp: send_paid_def split: sum.splits prod.splits)
    with 1 show ?thesis by simp
  next
    case True
    then obtain resp body c p where x: "x = Inr resp" "reply_status H resp = 402"
      "reply_json H resp = Inr body" "parse_challenge H body = Inr c"
      and p: "sign_challenge X cc c = Inr p"
      by blast
    have "snd (send_paid X H cc req w) = snd (http_send H (paid_retry X req p) w1)"
      using sendable 1 x p
      by (auto simp: send_paid_def paid_retry_def split: sum.splits prod.splits)
    with 1 x sign_challenge_Inr [OF p] show ?thesis by auto
  qed
qed

section \<open>A challenge the gateway issues can be paid\<close>

lemma strip_0x_prefix [simp]: "strip_0x (''0x'' @ s) = s"
  by (simp add: strip_0x_def)

lemma parse_hex_addr:
  "text_codecs_ok X \<Longrightarrow> parse_addr_hex X (hex_addr X a) = Inr a"
  using strip_0x_prefix [of "hex_encode X (h160_bytes a)"]
  by (simp add: parse_addr_hex_def hex_addr_def text_codecs_ok_def)

lemma parse_hex_bytes32:
  "text_codecs_ok X \<Longrightarrow> parse_bytes32_hex X (hex_bytes32 X h) = Inr h"
  using strip_0x_prefix [of "hex_encode X (h256_bytes h)"]
  by (simp add: parse_bytes32_hex_def hex_bytes32_def text_codecs_ok_def)

text \<open>What a minted challenge says, and that its nonce is now live.\<close>

lemma ask_fst:
  assumes "\<And>w. fst (f w) = a"
  obtains st' where "ask f st = (a, st')"
  using assms [of "st_world st"] by (cases "f (st_world st)") (auto simp: ask_def)

lemma record_bound_records:
  assumes "ledger_good (Suc k) L" and "max_outstanding L \<noteq> 0"
  shows "map_of (entries (record_bound L n c ex now)) n =
    Some \<lparr> le_expires_at = ex, le_sequence = next_sequence L, le_commitment = c \<rparr>"
  using assms
  by (auto simp: record_bound_def insert_nonce_def Let_def alist_simps split: prod.splits)

lemma make_challenge_Inr:
  assumes mk: "make_challenge X cfg price commitment st = (Inr c, st1)"
    and good: "ledger_good (Suc k) (st_ledger st)" "max_outstanding (st_ledger st) \<noteq> 0"
  obtains nonce where "pc_chain_id c = cf_chain_id cfg" "pc_amount c = u256_to_dec X price"
    "pc_recipient c = hex_addr X (cf_treasury cfg)" "pc_nonce c = hex_bytes32 X nonce"
    "pc_valid_before c = sat_add (pc_valid_after c) (cf_challenge_ttl_secs cfg)"
    "\<exists>e. map_of (entries (st_ledger st1)) nonce = Some e
       \<and> le_expires_at e = pc_valid_after c + cf_challenge_ttl_secs cfg
       \<and> le_commitment e = commitment"
proof -
  obtain nonce st2 where n: "next_nonce X cfg st = (Inr nonce, st2)"
    using mk by (auto simp: make_challenge_def split: prod.splits sum.splits)
  obtain now st3 where t: "ask (cf_now cfg) st2 = (now, st3)" by (metis surj_pair)
  have L: "st_ledger st3 = st_ledger st"
    using next_nonce_state [OF n] askD [OF t] by simp
  have c: "pc_valid_after c = now" "pc_chain_id c = cf_chain_id cfg"
    "pc_amount c = u256_to_dec X price" "pc_recipient c = hex_addr X (cf_treasury cfg)"
    "pc_nonce c = hex_bytes32 X nonce"
    "pc_valid_before c = sat_add now (cf_challenge_ttl_secs cfg)"
    and st1: "st1 = st3\<lparr> st_ledger := record_bound (st_ledger st3) nonce commitment
      (now + cf_challenge_ttl_secs cfg) now \<rparr>"
    using mk n t
    by (auto simp: make_challenge_def build_challenge_def Let_def split: if_splits)
  show thesis
    by (rule that [of nonce])
      (use c st1 L record_bound_records [OF good] in simp_all)
qed

text \<open>What the precompile is trusted to do: it accepts a payload that a key
  signed over the payload's own digest, and names the key's address.\<close>

definition verifies_signatures :: "x402_lib \<Rightarrow> 'w x402_config \<Rightarrow> bool" where
  "verifies_signatures X cfg \<longleftrightarrow>
     (\<forall>secret payer p v r s w.
        derive_secp256k1_address X secret = Some payer \<longrightarrow> pp_from p = payer \<longrightarrow>
        sign_digest_secp256k1 X secret (h256_bytes (eip712_digest X
            (wsalt_domain_separator X (cf_chain_id cfg) (cf_wsalt_address cfg))
            (transfer_with_authorization_struct_hash X payer (pp_to p) (pp_value p)
               (pp_valid_after p) (pp_valid_before p) (pp_nonce p)))) = Inr (v, r, s) \<longrightarrow>
        pp_v p = v \<longrightarrow> pp_r p = word_from_slice r \<longrightarrow> pp_s p = word_from_slice s \<longrightarrow>
        fst (verify_offline (cf_chain cfg) (precompile_input X cfg p) w) = Inr (Some payer))"

definition signs_with_valid_keys :: "x402_lib \<Rightarrow> bool" where
  "signs_with_valid_keys X \<longleftrightarrow>
     (\<forall>secret digest. signing_key_error X secret = None \<longrightarrow>
        (\<exists>recid r s. sign_prehash X secret digest = Inr (recid, r, s)))"

lemma sign_digest_valid_key:
  assumes "signs_with_valid_keys X" and "derive_secp256k1_address X secret = Some payer"
  shows "\<exists>v r s. sign_digest_secp256k1 X secret d = Inr (v, r, s)"
proof -
  have "signing_key_error X secret = None"
    using assms(2) by (auto simp: derive_secp256k1_address_def split: option.splits)
  moreover from this assms(1) obtain recid r s where
    "sign_prehash X secret d = Inr (recid, r, s)"
    unfolding signs_with_valid_keys_def by blast
  ultimately show ?thesis by (simp add: sign_digest_secp256k1_def)
qed

text \<open>The client's view of the gateway: same chain, same token contract, and a
  key that yields the address it signs for.\<close>

definition client_fits :: "x402_lib \<Rightarrow> 'w x402_config \<Rightarrow> client_config \<Rightarrow> bool" where
  "client_fits X cfg cc \<longleftrightarrow>
     cc_chain_id cc = cf_chain_id cfg \<and> cc_wsalt_address cc = cf_wsalt_address cfg
     \<and> derive_secp256k1_address X (cc_secret cc) = Some (cc_payer_address cc)"

lemma sign_challenge_fits:
  assumes lib: "text_codecs_ok X" "signs_with_valid_keys X" and fits: "client_fits X cfg cc"
    and cap: "price \<le> cc_budget_cap_wei cc"
    and c: "pc_chain_id c = cf_chain_id cfg" "pc_amount c = u256_to_dec X price"
      "pc_recipient c = hex_addr X treasury" "pc_nonce c = hex_bytes32 X nonce"
  obtains p v r s where "sign_challenge X cc c = Inr p"
    "pp_from p = cc_payer_address cc" "pp_to p = treasury" "pp_value p = price"
    "pp_nonce p = nonce" "pp_valid_after p = ucast (pc_valid_after c)"
    "pp_valid_before p = ucast (pc_valid_before c)"
    "sign_digest_secp256k1 X (cc_secret cc) (h256_bytes (eip712_digest X
        (wsalt_domain_separator X (cf_chain_id cfg) (cf_wsalt_address cfg))
        (transfer_with_authorization_struct_hash X (cc_payer_address cc) (pp_to p) (pp_value p)
           (pp_valid_after p) (pp_valid_before p) (pp_nonce p)))) = Inr (v, r, s)"
    "pp_v p = v" "pp_r p = word_from_slice r" "pp_s p = word_from_slice s"
proof -
  define d where "d = h256_bytes (eip712_digest X
        (wsalt_domain_separator X (cf_chain_id cfg) (cf_wsalt_address cfg))
        (transfer_with_authorization_struct_hash X (cc_payer_address cc) treasury price
           (ucast (pc_valid_after c)) (ucast (pc_valid_before c)) nonce))"
  obtain v r s where sg: "sign_digest_secp256k1 X (cc_secret cc) d = Inr (v, r, s)"
    using sign_digest_valid_key [OF lib(2)] fits unfolding client_fits_def by blast
  let ?p = "\<lparr> pp_from = cc_payer_address cc, pp_to = treasury, pp_value = price,
      pp_valid_after = ucast (pc_valid_after c), pp_valid_before = ucast (pc_valid_before c),
      pp_nonce = nonce, pp_v = v, pp_r = word_from_slice r, pp_s = word_from_slice s \<rparr>"
  have dec: "u256_of_dec X (u256_to_dec X price) = Inr price"
    using lib(1) by (simp add: text_codecs_ok_def)
  have "sign_challenge X cc c = Inr ?p"
    using c fits cap sg dec parse_hex_addr [OF lib(1)] parse_hex_bytes32 [OF lib(1)]
    by (simp add: sign_challenge_def client_fits_def not_less d_def Let_def)
  with sg show thesis by (intro that [of ?p v r s]) (simp_all add: d_def)
qed

text \<open>C8. A challenge that the gateway issues for a request can be
  paid: a client on the same chain and token, with a valid key and a budget
  that covers the price, signs it, and as long as the gateway's clock is within
  the window of the challenge when the header arrives, validation accepts the
  payment.\<close>

theorem issued_challenge_is_payable:
  assumes lib: "text_codecs_ok X" "signs_with_valid_keys X" "verifies_signatures X cfg"
    and good: "ledger_good (Suc k) (st_ledger st)" "max_outstanding (st_ledger st) \<noteq> 0"
    and fits: "client_fits X cfg cc" and cap: "price \<le> cc_budget_cap_wei cc"
    and mk: "make_challenge X cfg price commitment st = (Inr c, st1)"
    and ttl: "unat (pc_valid_after c) + unat (cf_challenge_ttl_secs cfg) < 2 ^ 64"
    and now: "ask (cf_now cfg) st1 = (t1, st2)" "ask (cf_now cfg) st2 = (t2, st3)"
    and window: "pc_valid_after c \<le> t1" "t1 < pc_valid_before c" "t2 < pc_valid_before c"
  shows "\<exists>p. sign_challenge X cc c = Inr p
    \<and> fst (validate_paid_path X cfg (encode_header X p) price commitment st1) = Validated p"
proof -
  obtain nonce where c: "pc_chain_id c = cf_chain_id cfg" "pc_amount c = u256_to_dec X price"
    "pc_recipient c = hex_addr X (cf_treasury cfg)" "pc_nonce c = hex_bytes32 X nonce"
    "pc_valid_before c = sat_add (pc_valid_after c) (cf_challenge_ttl_secs cfg)"
    and e: "\<exists>e. map_of (entries (st_ledger st1)) nonce = Some e
       \<and> le_expires_at e = pc_valid_after c + cf_challenge_ttl_secs cfg
       \<and> le_commitment e = commitment"
    by (rule make_challenge_Inr [OF mk good])
  obtain p v r s where p: "sign_challenge X cc c = Inr p"
    "pp_from p = cc_payer_address cc" "pp_to p = cf_treasury cfg" "pp_value p = price"
    "pp_nonce p = nonce" "pp_valid_after p = ucast (pc_valid_after c)"
    "pp_valid_before p = ucast (pc_valid_before c)"
    and sg: "sign_digest_secp256k1 X (cc_secret cc) (h256_bytes (eip712_digest X
        (wsalt_domain_separator X (cf_chain_id cfg) (cf_wsalt_address cfg))
        (transfer_with_authorization_struct_hash X (cc_payer_address cc) (pp_to p) (pp_value p)
           (pp_valid_after p) (pp_valid_before p) (pp_nonce p)))) = Inr (v, r, s)"
      "pp_v p = v" "pp_r p = word_from_slice r" "pp_s p = word_from_slice s"
    by (rule sign_challenge_fits [OF lib(1,2) fits cap c(1-4)])
  have L: "st_ledger st3 = st_ledger st1"
    using askD [OF now(1)] askD [OF now(2)] by simp
  have exact: "pc_valid_before c = pc_valid_after c + cf_challenge_ttl_secs cfg"
    using c(5) ttl by (simp add: sat_add_def)
  have "fst (consume_bound (st_ledger st3) nonce commitment t2) = Inr ()"
    using e L exact window(3) by (auto simp: consume_bound_accepts)
  then obtain L' where take: "consume_bound (st_ledger st3) nonce commitment t2 = (Inr (), L')"
    by (cases "consume_bound (st_ledger st3) nonce commitment t2") simp
  have ok: "fst (verify_offline (cf_chain cfg) (precompile_input X cfg p) w)
      = Inr (Some (cc_payer_address cc))" for w
    using lib(3) fits p(2) sg unfolding verifies_signatures_def client_fits_def by blast
  obtain st4 where v: "ask (verify_offline (cf_chain cfg) (precompile_input X cfg p))
      (st3\<lparr> st_ledger := L' \<rparr>) = (Inr (Some (cc_payer_address cc)), st4)"
    by (rule ask_fst [OF ok])
  have up: "ucast a \<le> (ucast b :: u256) \<longleftrightarrow> a \<le> b" "ucast a < (ucast b :: u256) \<longleftrightarrow> a < b"
    for a b :: u64
    using unat_less_length [of a] unat_less_length [of b]
    by (simp_all add: word_le_nat_alt word_less_nat_alt unsigned_ucast_eq take_bit_eq_mod)
  have "validate_paid_path X cfg (encode_header X p) price commitment st1 = (Validated p, st4)"
    using decode_encode_header [OF lib(1), of p] p now take v window up
    by (simp add: validate_paid_path_def not_le not_less)
  with p(1) show ?thesis by auto
qed

section \<open>A sample gateway and client\<close>

definition sample_secret :: bytes where
  "sample_secret = replicate 32 7"

definition sample_client :: client_config where
  "sample_client =
     \<lparr> cc_secret = sample_secret,
       cc_payer_address = the (derive_secp256k1_address sample_lib sample_secret),
       cc_wsalt_address = 17, cc_facilitator_address = 18, cc_chain_id = 40204,
       cc_budget_cap_wei = default_budget_cap \<rparr>"

definition sample_chain :: "u64 chain_client" where
  "sample_chain =
     \<lparr> verify_offline = (\<lambda>input w. (Inr (Some (word_from_slice (take 20 (drop 32 input)))), w)),
       get_nonce = (\<lambda>addr w. (Inr 3, w)),
       send_raw_tx = (\<lambda>raw w. (Inr 99, w)),
       wait_for_receipt = (\<lambda>h t w. (Inr \<lparr> rc_status = True, rc_block_number = 12,
         rc_logs = [settled_log sample_lib 18
           \<lparr> ev_from = cc_payer_address sample_client, ev_to = 19, ev_value = 5, ev_fee = 1,
             ev_nonce = 0 \<rparr>] \<rparr>, w)) \<rparr>"

definition sample_config :: "u64 x402_config" where
  "sample_config =
     \<lparr> cf_chain_id = 40204, cf_facilitator_address = 18, cf_wsalt_address = 17,
       cf_treasury = 19, cf_pricing = (\<lambda>req body w. (Inr 5, w)), cf_chain = sample_chain,
       cf_operator_secret = sample_secret, cf_operator_address = 20,
       cf_gas_price_wei = 1000000000, cf_gas_limit = 200000, cf_challenge_ttl_secs = 300,
       cf_receipt_timeout_secs = 10, cf_now = (\<lambda>t. (t, t + 1)),
       cf_fill_random = (\<lambda>n w. (Some (replicate n 1), w)) \<rparr>"

definition sample_state :: "u64 x402_state" where
  "sample_state =
     \<lparr> st_ledger = ledger_new 4, st_process_id = replicate 32 2, st_counter = 0,
       st_world = 1000, st_trace = [] \<rparr>"

definition sample_mint :: "(x402_error + payment_challenge) \<times> u64 x402_state" where
  "sample_mint = make_challenge sample_lib sample_config 5 77 sample_state"

lemma sample_signs: "signs_with_valid_keys sample_lib"
  by (simp add: signs_with_valid_keys_def sample_lib_def)

lemma sample_fits: "client_fits sample_lib sample_config sample_client"
  by (simp add: client_fits_def sample_config_def sample_client_def sample_lib_def
      sample_secret_def derive_secp256k1_address_def)

lemma take_to_bytes: "take 20 (to_bytes p) = h160_bytes (pp_from p)"
  by (simp add: to_bytes_def)

lemma sample_verifies: "verifies_signatures sample_lib sample_config"
  by (simp add: verifies_signatures_def sample_config_def sample_chain_def precompile_input_def
      take_to_bytes)

lemma sample_good: "ledger_good (Suc 7) (st_ledger sample_state)"
  by (simp add: sample_state_def ledger_good_new)

lemma sample_config_simps:
  "cf_now sample_config = (\<lambda>t. (t, t + 1))" "cf_challenge_ttl_secs sample_config = 300"
  by (simp_all add: sample_config_def)

lemma sample_next_nonce:
  "\<exists>n. next_nonce sample_lib sample_config sample_state
     = (Inr n, sample_state\<lparr> st_counter := 1 \<rparr>)"
  by (simp add: next_nonce_def ask_def sample_config_def sample_state_def)

lemma sample_mint_ex:
  "\<exists>c L. sample_mint = (Inr c, sample_state\<lparr> st_ledger := L, st_counter := 1, st_world := 1001 \<rparr>)
     \<and> pc_valid_after c = 1000 \<and> pc_valid_before c = 1300"
  using sample_next_nonce
  by (auto simp: sample_mint_def make_challenge_def ask_def sample_config_simps
      build_challenge_def Let_def sample_state_def sat_add_def)

lemma sample_mint_eq:
  "sample_mint = (Inr (projr (fst sample_mint)), snd sample_mint)"
  "pc_valid_after (projr (fst sample_mint)) = 1000"
  "pc_valid_before (projr (fst sample_mint)) = 1300"
  "st_world (snd sample_mint) = 1001"
proof -
  obtain c L where m: "sample_mint =
      (Inr c, sample_state\<lparr> st_ledger := L, st_counter := 1, st_world := 1001 \<rparr>)"
    and c: "pc_valid_after c = 1000" "pc_valid_before c = 1300"
    using sample_mint_ex by blast
  show "sample_mint = (Inr (projr (fst sample_mint)), snd sample_mint)"
    unfolding m by simp
  show "pc_valid_after (projr (fst sample_mint)) = 1000"
    unfolding m using c by simp
  show "pc_valid_before (projr (fst sample_mint)) = 1300"
    unfolding m using c by simp
  show "st_world (snd sample_mint) = 1001"
    unfolding m by simp
qed

theorem issued_challenge_is_payable_witness:
  "\<exists>p. sign_challenge sample_lib sample_client (projr (fst sample_mint)) = Inr p
    \<and> fst (validate_paid_path sample_lib sample_config (encode_header sample_lib p) 5 77
        (snd sample_mint)) = Validated p"
proof (rule issued_challenge_is_payable [OF sample_codecs_ok sample_signs sample_verifies
      sample_good _ sample_fits])
  show "make_challenge sample_lib sample_config 5 77 sample_state =
      (Inr (projr (fst sample_mint)), snd sample_mint)"
    using sample_mint_eq(1) unfolding sample_mint_def .
  show "ask (cf_now sample_config) (snd sample_mint) =
      (1001, (snd sample_mint)\<lparr> st_world := 1002 \<rparr>)"
    unfolding ask_def sample_config_simps sample_mint_eq(4) by simp
  show "ask (cf_now sample_config) ((snd sample_mint)\<lparr> st_world := 1002 \<rparr>) =
      (1002, (snd sample_mint)\<lparr> st_world := 1003 \<rparr>)"
    by (simp add: ask_def sample_config_simps)
  show "max_outstanding (st_ledger sample_state) \<noteq> 0"
    by (simp add: sample_state_def ledger_new_def)
  show "5 \<le> cc_budget_cap_wei sample_client"
    by (simp add: sample_client_def default_budget_cap_def)
  show "unat (pc_valid_after (projr (fst sample_mint))) + unat (cf_challenge_ttl_secs sample_config)
      < 2 ^ 64"
    unfolding sample_mint_eq(2) sample_config_simps by simp
qed (simp_all only: sample_mint_eq(2,3), simp_all)

text \<open>A paid request that is served and settled.\<close>

definition sample_payload :: payment_payload where
  "sample_payload =
     \<lparr> pp_from = cc_payer_address sample_client, pp_to = 19, pp_value = 6, pp_valid_after = 0,
       pp_valid_before = 2000, pp_nonce = 9, pp_v = 27, pp_r = 1, pp_s = 2 \<rparr>"

definition sample_request :: request where
  "sample_request =
     \<lparr> rq_method = ''POST'', rq_path = ''/v1/chat/completions'', rq_path_and_query = None,
       rq_headers = [(x_payment_header, encode_header sample_lib sample_payload)],
       rq_body = Inr [1, 2, 3], rq_paid = None, rq_api_key = None \<rparr>"

definition sample_paid_state :: "u64 x402_state" where
  "sample_paid_state = sample_state\<lparr> st_ledger := record_bound (ledger_new 4) 9
     (request_commitment sample_lib sample_request [1, 2, 3]) 1300 1000 \<rparr>"

definition sample_inner :: "request \<Rightarrow> u64 \<Rightarrow> (string + response) \<times> u64" where
  "sample_inner req w = (Inr \<lparr> rs_status = 200, rs_headers = [], rs_body = ''ok'', rs_body_broken = False,
       rs_charge = None \<rparr>, w)"

lemma letter_encode_ascii: "header_to_str (letter_encode bs) = Some (letter_encode bs)"
proof -
  have "65 \<le> char_nat c \<and> char_nat c < 81" if c: "c \<in> set (letter_encode bs)" for c
  proof -
    obtain b where "c = char_of (65 + unat (b :: u8) div 16) \<or> c = char_of (65 + unat b mod 16)"
      using c by (auto simp: letter_encode_def)
    moreover have "unat b div 16 < 16" "unat b mod 16 < 16"
      using unat_u8_div16 [of b] by simp_all
    ultimately show ?thesis
      using char_nat_of [of "65 + unat b div 16"] char_nat_of [of "65 + unat b mod 16"] by auto
  qed
  then show ?thesis by (fastforce simp: header_to_str_def list_all_iff)
qed

lemma sample_header: "payment_header sample_request = Some (encode_header sample_lib sample_payload)"
  using letter_encode_ascii [of "to_bytes sample_payload"]
  by (simp add: payment_header_def sample_request_def encode_header_def sample_lib_def)

lemma sample_validates:
  "\<exists>L. validate_paid_path sample_lib sample_config (encode_header sample_lib sample_payload) 5
      (request_commitment sample_lib sample_request [1, 2, 3]) sample_paid_state
    = (Validated sample_payload, sample_paid_state\<lparr> st_ledger := L, st_world := 1002 \<rparr>)"
proof -
  let ?c = "request_commitment sample_lib sample_request [1, 2, 3]"
  have L: "consume_bound (record_bound (ledger_new 4) 9 ?c 1300 1000) 9 ?c 1001
     = (Inr (), drop_entry (record_bound (ledger_new 4) 9 ?c 1300 1000) 9
         \<lparr> le_expires_at = 1300, le_sequence = 0, le_commitment = ?c \<rparr>)"
    using record_bound_records [OF ledger_good_new [of "Suc 0" 4], of 9 ?c 1300 1000]
    by (simp add: consume_bound_def ledger_new_def)
  have v: "verify_offline sample_chain (precompile_input sample_lib sample_config sample_payload) w
      = (Inr (Some (pp_from sample_payload)), w)" for w
    by (simp add: sample_chain_def precompile_input_def take_to_bytes)
  have c: "cf_chain sample_config = sample_chain" "cf_treasury sample_config = 19"
    by (simp_all add: sample_config_def)
  have p: "pp_valid_before sample_payload = 2000" "pp_valid_after sample_payload = 0"
    "pp_nonce sample_payload = 9" "pp_value sample_payload = 6" "pp_to sample_payload = 19"
    by (simp_all add: sample_payload_def)
  show ?thesis
    using L v
    by (simp add: validate_paid_path_def decode_encode_header [OF sample_codecs_ok] ask_def
        sample_config_simps sample_paid_state_def sample_state_def c p)
qed

lemma sample_settles:
  "\<exists>raw ev. serve_then_settle sample_lib sample_config sample_inner sample_request sample_payload 5 st
     = (Inr \<lparr> rs_status = 200, rs_headers = [], rs_body = ''ok'', rs_body_broken = False,
       rs_charge = None \<rparr>,
        emit (OnSettled ev) (emit (TxSent raw) st))"
proof -
  have s: "\<exists>raw. sign_settlement_tx sample_lib tx sample_secret = Inr raw" for tx
    by (simp add: sign_settlement_tx_def sample_lib_def sample_secret_def)
  have r: "\<exists>ev. settle_receipt sample_lib sample_config sample_payload 5 99
      \<lparr> rc_status = True, rc_block_number = 12, rc_logs = [settled_log sample_lib 18
           \<lparr> ev_from = cc_payer_address sample_client, ev_to = 19, ev_value = 5, ev_fee = 1,
             ev_nonce = 0 \<rparr>] \<rparr> = Inr ev"
    by (simp add: settle_receipt_def find_payment_settled_def sample_config_def
        sample_payload_def sat_add_def del: find_settled_in.simps)
  have c: "cf_chain sample_config = sample_chain" "cf_operator_secret sample_config = sample_secret"
    by (simp_all add: sample_config_def)
  let ?tx = "\<lparr> tx_chain_id = cf_chain_id sample_config, tx_nonce = 3,
      tx_gas_price_wei = cf_gas_price_wei sample_config, tx_gas_limit = cf_gas_limit sample_config,
      tx_to = cf_facilitator_address sample_config, tx_value = 0,
      tx_data = encode_settle_payment sample_lib sample_payload \<rparr>"
  obtain raw where raw: "sign_settlement_tx sample_lib ?tx sample_secret = Inr raw"
    using s by blast
  obtain ev where "settle_paid_path sample_lib sample_config sample_payload 5 st
      = (Inr ev, emit (TxSent raw) st)"
    using r raw
    by (auto simp: settle_paid_path_def ask_def c sample_chain_def Let_def emit_def)
  then show ?thesis
    by (auto simp: serve_then_settle_def sample_inner_def ask_def is_success_def)
qed

lemma sample_call:
  "\<exists>raw ev st. x402_call sample_lib sample_config sample_inner sample_request sample_paid_state
     = (Inr \<lparr> rs_status = 200, rs_headers = [], rs_body = ''ok'', rs_body_broken = False,
       rs_charge = None \<rparr>, st)
     \<and> st_trace st = [TxSent raw, OnSettled ev]"
proof -
  obtain L where v: "validate_paid_path sample_lib sample_config
      (encode_header sample_lib sample_payload) 5
      (request_commitment sample_lib sample_request [1, 2, 3]) sample_paid_state
    = (Validated sample_payload, sample_paid_state\<lparr> st_ledger := L, st_world := 1002 \<rparr>)"
    using sample_validates by blast
  have b: "buffer_request_body sample_lib sample_request = Inr [1, 2, 3]"
    "rq_paid sample_request = None"
    by (simp_all add: buffer_request_body_def sample_request_def max_pricing_body_bytes_def)
  have p: "ask (cf_pricing sample_config sample_request [1, 2, 3]) sample_paid_state
      = (Inr 5, sample_paid_state)"
    by (simp add: ask_def sample_config_def)
  have t: "st_trace sample_paid_state = []"
    by (simp add: sample_paid_state_def sample_state_def)
  have call: "x402_call sample_lib sample_config sample_inner sample_request sample_paid_state
      = serve_then_settle sample_lib sample_config sample_inner sample_request sample_payload 5
          (sample_paid_state\<lparr> st_ledger := L, st_world := 1002 \<rparr>)"
    by (simp add: x402_call_def b p sample_header Let_def v)
  show ?thesis
    unfolding call
    using sample_settles [of "sample_paid_state\<lparr> st_ledger := L, st_world := 1002 \<rparr>"] t
    by auto
qed

theorem settle_implies_served_witness:
  "\<exists>raw p resp hv body price.
      sends (st_trace (snd (x402_call sample_lib sample_config sample_inner sample_request
          sample_paid_state))) = sends (st_trace sample_paid_state) @ [raw]
      \<and> settlement_of sample_lib sample_config p raw \<and> rq_paid sample_request = None
      \<and> fst (x402_call sample_lib sample_config sample_inner sample_request sample_paid_state)
          = Inr resp
      \<and> is_success (rs_status resp)
      \<and> payment_header sample_request = Some hv
      \<and> buffer_request_body sample_lib sample_request = Inr body
      \<and> validated_payment sample_lib sample_config hv price
          (request_commitment sample_lib sample_request body) (st_ledger sample_paid_state) p
      \<and> map_of (entries (st_ledger (snd (x402_call sample_lib sample_config sample_inner
          sample_request sample_paid_state)))) (pp_nonce p) = None"
proof -
  obtain raw ev st where c: "x402_call sample_lib sample_config sample_inner sample_request
      sample_paid_state = (Inr \<lparr> rs_status = 200, rs_headers = [], rs_body = ''ok'', rs_body_broken = False,
       rs_charge = None \<rparr>, st)"
    and t: "st_trace st = [TxSent raw, OnSettled ev]"
    using sample_call by blast
  have "sends (st_trace st) \<noteq> sends (st_trace sample_paid_state)"
    unfolding t by (simp add: sample_paid_state_def sample_state_def)
  from settle_implies_served [OF c this] show ?thesis
    unfolding c by simp
qed

end
