(* ===== verification/Rust_Text.thy ===== *)
theory Rust_Text
  imports Prelude
begin

text \<open>
  What the program uses of Rust's string library, on strings as lists of UTF-8
  bytes: trimming and splitting at white space, prefixes, parsing of unsigned
  integers, and \<open>Iterator::max_by_key\<close>.
\<close>

section \<open>White space\<close>

text \<open>The characters with the property \<open>White_Space\<close>, in UTF-8.\<close>

definition utf8_blanks :: "string list" where
  "utf8_blanks = map (map char_of)
     ([[9], [10], [11], [12], [13], [32], [194, 133], [194, 160], [225, 154, 128],
       [226, 128, 168], [226, 128, 169], [226, 128, 175], [226, 129, 159], [227, 128, 128 :: nat]]
      @ map (\<lambda>n. [226, 128, n]) [128 ..< 139])"

definition strip_prefix :: "string \<Rightarrow> string \<Rightarrow> string option" where
  "strip_prefix p s = (if take (length p) s = p then Some (drop (length p) s) else None)"

text \<open>The rest of the string after one of the blanks it starts with.\<close>

fun after_blank :: "string list \<Rightarrow> string \<Rightarrow> string option" where
  "after_blank [] s = None"
| "after_blank (b # bs) s =
     (case strip_prefix b s of Some r \<Rightarrow> Some r | None \<Rightarrow> after_blank bs s)"

lemma after_blank_shorter:
  "after_blank bs s = Some r \<Longrightarrow> [] \<notin> set bs \<Longrightarrow> length r < length s"
proof (induction bs)
  case (Cons b bs)
  show ?case
  proof (cases "strip_prefix b s")
    case (Some r')
    with Cons.prems have "r = drop (length b) s" "take (length b) s = b" "b \<noteq> []"
      by (auto simp: strip_prefix_def split: if_splits)
    then show ?thesis by (cases s) auto
  qed (use Cons in auto)
qed simp

lemma utf8_blanks_nonempty: "[] \<notin> set utf8_blanks" "[] \<notin> set (map rev utf8_blanks)"
  by (auto simp: utf8_blanks_def)

function trim_blanks :: "string list \<Rightarrow> string \<Rightarrow> string" where
  "trim_blanks bs s =
     (case after_blank bs s of
        None \<Rightarrow> s
      | Some r \<Rightarrow> if length r < length s then trim_blanks bs r else s)"
  by pat_completeness auto

termination by (relation "measure (length \<circ> snd)") auto

declare trim_blanks.simps [simp del]

text \<open>\<open>str::trim\<close>.\<close>

definition str_trim :: "string \<Rightarrow> string" where
  "str_trim s = rev (trim_blanks (map rev utf8_blanks) (rev (trim_blanks utf8_blanks s)))"

lemma utf8_blanks_edges:
  "\<forall>b \<in> set utf8_blanks. \<not> (33 \<le> char_nat (hd b) \<and> char_nat (hd b) < 127)
     \<and> \<not> (33 \<le> char_nat (last b) \<and> char_nat (last b) < 127)"
  unfolding utf8_blanks_def by (auto simp: upt_rec)

lemma after_blank_visible:
  assumes "\<forall>b \<in> set bs. b \<noteq> [] \<and> hd b \<noteq> c"
  shows "after_blank bs (c # s) = None"
  using assms
proof (induction bs)
  case (Cons b bs)
  then show ?case by (cases b) (auto simp: strip_prefix_def)
qed simp

lemma trim_blanks_visible:
  assumes "\<forall>b \<in> set bs. b \<noteq> [] \<and> (s \<noteq> [] \<longrightarrow> hd b \<noteq> hd s)"
  shows "trim_blanks bs s = s"
proof (cases s)
  case Nil
  have "after_blank bs [] = None"
    using assms by (induction bs) (auto simp: strip_prefix_def)
  then show ?thesis by (simp add: Nil trim_blanks.simps)
next
  case (Cons c r)
  with assms after_blank_visible [of bs c r] show ?thesis by (simp add: trim_blanks.simps)
qed

text \<open>Text whose first and last characters are visible ASCII is not trimmed.\<close>

lemma str_trim_visible:
  assumes "s \<noteq> []" and "33 \<le> char_nat (hd s)" "char_nat (hd s) < 127"
    and "33 \<le> char_nat (last s)" "char_nat (last s) < 127"
  shows "str_trim s = s"
proof -
  have "trim_blanks utf8_blanks s = s"
    by (rule trim_blanks_visible) (use assms utf8_blanks_edges utf8_blanks_nonempty in fastforce)
  moreover have "trim_blanks (map rev utf8_blanks) (rev s) = rev s"
  proof (rule trim_blanks_visible, rule ballI)
    fix b assume "b \<in> set (map rev utf8_blanks)"
    then obtain b' where b: "b = rev b'" "b' \<in> set utf8_blanks" by auto
    then have "b' \<noteq> []" using utf8_blanks_nonempty(1) by auto
    with b assms utf8_blanks_edges show "b \<noteq> [] \<and> (rev s \<noteq> [] \<longrightarrow> hd b \<noteq> hd (rev s))"
      by (auto simp: hd_rev)
  qed
  ultimately show ?thesis by (simp add: str_trim_def)
qed

text \<open>\<open>split_whitespace().count()\<close>: the number of runs of other characters.\<close>

function count_words :: "bool \<Rightarrow> string \<Rightarrow> nat" where
  "count_words inside [] = (if inside then 1 else 0)"
| "count_words inside (c # s) =
     (case after_blank utf8_blanks (c # s) of
        Some r \<Rightarrow> if length r < length (c # s)
                 then (if inside then 1 else 0) + count_words False r else 0
      | None \<Rightarrow> count_words True s)"
  by pat_completeness auto

termination by (relation "measure (length \<circ> snd)") auto

section \<open>Numbers\<close>

fun digit_val :: "char \<Rightarrow> nat option" where
  "digit_val c = (if 48 \<le> char_nat c \<and> char_nat c \<le> 57 then Some (char_nat c - 48) else None)"

fun digits_val :: "nat \<Rightarrow> string \<Rightarrow> nat option" where
  "digits_val acc [] = Some acc"
| "digits_val acc (c # s) =
     (case digit_val c of None \<Rightarrow> None | Some d \<Rightarrow> digits_val (acc * 10 + d) s)"

text \<open>\<open>str::parse\<close> of an unsigned integer with the given largest value: an
  optional plus sign and at least one digit.\<close>

definition parse_uint :: "nat \<Rightarrow> string \<Rightarrow> nat option" where
  "parse_uint most s =
     (let ds = (case s of [] \<Rightarrow> [] | c # r \<Rightarrow> if c = CHR ''+'' then r else s)
      in if ds = [] then None
         else case digits_val 0 ds of
                None \<Rightarrow> None
              | Some n \<Rightarrow> if n \<le> most then Some n else None)"

section \<open>The last of the greatest\<close>

text \<open>\<open>Iterator::max_by_key\<close>: of several greatest elements, the last.\<close>

fun max_by_key :: "('a \<Rightarrow> 'k::linorder) \<Rightarrow> 'a list \<Rightarrow> 'a option" where
  "max_by_key f [] = None"
| "max_by_key f (x # xs) =
     (case max_by_key f xs of
        None \<Rightarrow> Some x
      | Some y \<Rightarrow> if f y < f x then Some x else Some y)"

lemma max_by_key_None [simp]: "max_by_key f xs = None \<longleftrightarrow> xs = []"
  by (cases xs) (auto split: option.splits)

lemma max_by_key_mem: "max_by_key f xs = Some x \<Longrightarrow> x \<in> set xs"
  by (induction xs arbitrary: x) (auto split: option.splits if_splits)

lemma max_by_key_greatest: "max_by_key f xs = Some x \<Longrightarrow> y \<in> set xs \<Longrightarrow> f y \<le> f x"
proof (induction xs arbitrary: x)
  case (Cons z xs)
  show ?case
  proof (cases "max_by_key f xs")
    case (Some w)
    then have "f y \<le> f w \<or> y = z" using Cons.IH Cons.prems(2) by auto
    with Cons.prems Some show ?thesis by (auto split: if_splits)
  qed (use Cons.prems in auto)
qed simp

end
