(* ===== verification/Gateway_Types.thy ===== *)
theory Gateway_Types
  imports Rust_Text
begin

text \<open>
  The types the gateway's handlers share: \<open>error.rs\<close>, the OpenAI shapes of
  \<open>openai.rs\<close>, and the chain queries of \<open>queries.rs\<close> as the record the handlers
  call. A handler can also end in a panic, which no error value reports; its
  failures are \<open>Failed\<close> errors or \<open>Panicked\<close>.
\<close>

section \<open>Errors\<close>

datatype gateway_error =
    UnknownModel string
  | NoProviders
  | ProviderUnavailable string
  | ChainUnavailable string
  | PricingUnavailable string
  | BadRequest string
  | GatewayInternal string
  | PoolDispatchUnimplemented string
  | Underfunded string string u32
  | SpendCapExceeded string string
  | ModelBudgetExceeded string string

fun gateway_display :: "gateway_error \<Rightarrow> string" where
  "gateway_display (UnknownModel m) = ''unknown model: '' @ m"
| "gateway_display NoProviders = ''no providers available for model''"
| "gateway_display (ProviderUnavailable m) = ''provider call failed: '' @ m"
| "gateway_display (ChainUnavailable m) = ''chain unavailable: '' @ m"
| "gateway_display (PricingUnavailable m) = ''pricing unavailable: '' @ m"
| "gateway_display (BadRequest m) = ''bad request: '' @ m"
| "gateway_display (GatewayInternal m) = ''internal: '' @ m"
| "gateway_display (PoolDispatchUnimplemented p) =
     ''pool dispatch not implemented yet (slice 2): '' @ p"
| "gateway_display (Underfunded paid required max_tokens) =
     ''payment underfunded: paid '' @ paid @ '' wei < required '' @ required
     @ '' wei (max_tokens='' @ dec_string (unat max_tokens) @ '')''"
| "gateway_display (SpendCapExceeded requested remaining) =
     ''operator spend cap exceeded: requested '' @ requested @ '' wei, '' @ remaining
     @ '' wei left this epoch''"
| "gateway_display (ModelBudgetExceeded model remaining) =
     ''model budget exhausted for '' @ model @ '': '' @ remaining @ '' grains remaining''"

fun gateway_status :: "gateway_error \<Rightarrow> nat" where
  "gateway_status (UnknownModel m) = 400"
| "gateway_status (BadRequest m) = 400"
| "gateway_status (Underfunded p r t) = 402"
| "gateway_status (SpendCapExceeded r l) = 402"
| "gateway_status (ModelBudgetExceeded m r) = 402"
| "gateway_status NoProviders = 503"
| "gateway_status (ProviderUnavailable m) = 503"
| "gateway_status (ChainUnavailable m) = 503"
| "gateway_status (PricingUnavailable m) = 503"
| "gateway_status (PoolDispatchUnimplemented p) = 503"
| "gateway_status (GatewayInternal m) = 500"

datatype failure = Failed gateway_error | Panicked

section \<open>Chat requests and answers\<close>

record chat_message =
  cm_role :: string
  cm_content :: string

record chat_request =
  cr_model :: string
  cr_messages :: "chat_message list"
  cr_max_tokens :: "u32 option"
  cr_stream :: bool

record chat_usage =
  us_prompt_tokens :: u32
  us_completion_tokens :: u32
  us_total_tokens :: u32

definition usage_new :: "u32 \<Rightarrow> u32 \<Rightarrow> chat_usage" where
  "usage_new prompt completion =
     \<lparr> us_prompt_tokens = prompt, us_completion_tokens = completion,
       us_total_tokens = sat_add prompt completion \<rparr>"

record chat_choice =
  ch_index :: u32
  ch_message :: chat_message
  ch_finish_reason :: string

record chat_response =
  cp_id :: string
  cp_object :: string
  cp_created :: u64
  cp_model :: string
  cp_choices :: "chat_choice list"
  cp_usage :: chat_usage

section \<open>The chain as the handlers query it\<close>

record provider_info =
  pi_address :: h160
  pi_endpoint :: string
  pi_reputation_bps :: u32
  pi_current_load :: u32
  pi_max_concurrent :: u32

definition capacity_remaining :: "provider_info \<Rightarrow> u32" where
  "capacity_remaining p = sat_sub (pi_max_concurrent p) (pi_current_load p)"

record pool_entry =
  po_pool_id :: u64
  po_name :: string
  po_total_stake_grains :: u256
  po_member_count :: u32
  po_min_member_reputation_bps :: u32

record model_info =
  mi_model_hash :: h256
  mi_name :: string
  mi_owner :: h160
  mi_is_active :: bool

record 's chain_queries =
  resolve_model_name :: "string \<Rightarrow> 's \<Rightarrow> (gateway_error + h256) \<times> 's"
  estimate_cost :: "h256 \<Rightarrow> u32 \<Rightarrow> u32 \<Rightarrow> u8 \<Rightarrow> 's \<Rightarrow> (gateway_error + u256) \<times> 's"
  list_providers :: "h256 \<Rightarrow> 's \<Rightarrow> (gateway_error + provider_info list) \<times> 's"
  list_pools :: "h256 \<Rightarrow> 's \<Rightarrow> (gateway_error + pool_entry list) \<times> 's"
  list_models :: "'s \<Rightarrow> (gateway_error + model_info list) \<times> 's"

end
