(* ===== verification/Dispatch.thy ===== *)
theory Dispatch
  imports Gateway_Types "HOL-Library.Product_Lexorder"
begin

text \<open>
  Where a job goes: the scores of \<open>gateway/src/selection.rs\<close>, and the provider
  selection, the endpoint guard, the result signature and the bounded download
  of \<open>gateway/src/provider.rs\<close>. URL parsing, name resolution, HTTP and the
  recovery of signatures are parameters.
\<close>

section \<open>Providers against pools\<close>

datatype dispatch_target = Individual provider_info | Pool pool_entry

definition score_provider :: "provider_info \<Rightarrow> u128" where
  "score_provider p =
     sat_mul (ucast (pi_reputation_bps p)) (ucast (capacity_remaining p))"

text \<open>\<open>as_u128\<close> panics on a stake above \<open>u128::MAX\<close> whole tokens.\<close>

definition as_u128 :: "u256 \<Rightarrow> u128 option" where
  "as_u128 v = (if unat v < 2 ^ 128 then Some (ucast v) else None)"

definition score_pool :: "pool_entry \<Rightarrow> u128 option" where
  "score_pool p =
     map_option (sat_mul (ucast (po_min_member_reputation_bps p)))
       (as_u128 (po_total_stake_grains p div 1000000000000000000))"

text \<open>\<open>None\<close> is the panic of a score.\<close>

definition select_dispatch_target ::
  "provider_info list \<Rightarrow> pool_entry list \<Rightarrow> dispatch_target option option" where
  "select_dispatch_target providers pools =
     (if list_ex (\<lambda>p. score_pool p = None) pools then None
      else
        Some (case (max_by_key score_provider providers,
                    max_by_key (\<lambda>p. the (score_pool p)) pools) of
                (None, None) \<Rightarrow> None
              | (Some p, None) \<Rightarrow> Some (Individual p)
              | (None, Some pl) \<Rightarrow> Some (Pool pl)
              | (Some p, Some pl) \<Rightarrow>
                  if score_provider p < the (score_pool pl) then Some (Pool pl)
                  else Some (Individual p)))"

section \<open>Providers among themselves\<close>

definition provider_key :: "provider_info \<Rightarrow> nat \<times> nat" where
  "provider_key p =
     (unat (ucast (pi_reputation_bps p) * ucast (capacity_remaining p) div 10000 :: u64),
      unat (- 1 - pi_current_load p))"

definition select_provider :: "provider_info list \<Rightarrow> provider_info option" where
  "select_provider candidates =
     max_by_key provider_key (filter (\<lambda>p. 0 < capacity_remaining p) candidates)"

section \<open>The addresses a provider may have\<close>

datatype ip = V4 u8 u8 u8 u8 | V6 u16 u16 u16 u16 u16 u16 u16 u16

fun is_private_v4 :: "u8 \<Rightarrow> u8 \<Rightarrow> bool" where
  "is_private_v4 a b \<longleftrightarrow> a = 10 \<or> a = 172 \<and> 16 \<le> b \<and> b \<le> 31 \<or> a = 192 \<and> b = 168"

definition is_documentation_v4 :: "u8 \<Rightarrow> u8 \<Rightarrow> u8 \<Rightarrow> bool" where
  "is_documentation_v4 a b c \<longleftrightarrow>
     a = 192 \<and> b = 0 \<and> c = 2 \<or> a = 198 \<and> b = 51 \<and> c = 100 \<or> a = 203 \<and> b = 0 \<and> c = 113"

definition is_shared_address_space :: "u8 \<Rightarrow> u8 \<Rightarrow> bool" where
  "is_shared_address_space a b \<longleftrightarrow> a = 100 \<and> 64 \<le> b \<and> b \<le> 127"

definition is_benchmarking_ip :: "u8 \<Rightarrow> u8 \<Rightarrow> bool" where
  "is_benchmarking_ip a b \<longleftrightarrow> a = 198 \<and> (b = 18 \<or> b = 19)"

definition ipv4_provider_allowed :: "u8 \<Rightarrow> u8 \<Rightarrow> u8 \<Rightarrow> u8 \<Rightarrow> bool \<Rightarrow> bool" where
  "ipv4_provider_allowed a b c d allow_private =
     (if allow_private \<and> (a = 127 \<or> is_private_v4 a b) then True
      else \<not> (is_private_v4 a b \<or> a = 127 \<or> a = 169 \<and> b = 254
              \<or> a = 255 \<and> b = 255 \<and> c = 255 \<and> d = 255 \<or> is_documentation_v4 a b c
              \<or> a = 0 \<and> b = 0 \<and> c = 0 \<and> d = 0 \<or> 224 \<le> a \<and> a \<le> 239
              \<or> is_shared_address_space a b \<or> is_benchmarking_ip a b))"

text \<open>\<open>segments\<close> is the list of the eight groups of a version 6 address.\<close>

definition is_loopback_v6 :: "u16 list \<Rightarrow> bool" where
  "is_loopback_v6 segments \<longleftrightarrow> segments = [0, 0, 0, 0, 0, 0, 0, 1]"

definition is_unique_local :: "u16 list \<Rightarrow> bool" where
  "is_unique_local segments \<longleftrightarrow> hd segments AND 0xfe00 = 0xfc00"

definition ipv6_provider_allowed :: "u16 list \<Rightarrow> bool \<Rightarrow> bool" where
  "ipv6_provider_allowed segments allow_private =
     (if allow_private \<and> (is_loopback_v6 segments \<or> is_unique_local segments) then True
      else \<not> (is_loopback_v6 segments \<or> is_unique_local segments
              \<or> hd segments AND 0xffc0 = 0xfe80 \<or> segments = [0, 0, 0, 0, 0, 0, 0, 0]
              \<or> hd segments AND 0xff00 = 0xff00))"

definition is_cloud_metadata_ip :: "ip \<Rightarrow> bool" where
  "is_cloud_metadata_ip i \<longleftrightarrow>
     i = V4 169 254 169 254 \<or> i = V6 0xfd00 0x0ec2 0 0 0 0 0 0x0254"

definition provider_ip_allowed :: "ip \<Rightarrow> bool \<Rightarrow> bool" where
  "provider_ip_allowed i allow_private =
     (if is_cloud_metadata_ip i then False
      else case i of
             V4 a b c d \<Rightarrow> ipv4_provider_allowed a b c d allow_private
           | V6 s0 s1 s2 s3 s4 s5 s6 s7 \<Rightarrow>
               ipv6_provider_allowed [s0, s1, s2, s3, s4, s5, s6, s7] allow_private)"

section \<open>The endpoint guard\<close>

record url =
  ur_text :: string
  ur_scheme :: string
  ur_username :: string
  ur_password :: "string option"
  ur_host :: "string option"
  ur_port :: "u16 option"

record guarded_endpoint =
  ge_url :: url
  ge_host :: string
  ge_pinned_addr :: "ip \<times> u16"

text \<open>URLs, addresses, name resolution and HTTP: other crates.\<close>

record http_reply =
  hr_status :: nat
  hr_status_text :: string
  hr_content_length :: "u64 option"
  hr_chunks :: "(string + bytes) list"

record provider_request =
  pr_model :: string
  pr_prompt :: string
  pr_max_tokens :: u32

record provider_response =
  pp_output :: string
  pp_input_tokens :: "u32 option"
  pp_output_tokens :: "u32 option"
  pp_signature :: "string option"

record 's net =
  nt_parse_url :: "string \<Rightarrow> string + url"
  nt_parse_ip :: "string \<Rightarrow> ip option"
  nt_show_ip :: "ip \<Rightarrow> string"
  nt_debug_str :: "string \<Rightarrow> string"
  nt_lookup :: "string \<Rightarrow> u16 \<Rightarrow> 's \<Rightarrow> (string + (ip \<times> u16) list) \<times> 's"
  nt_client_error :: "string \<Rightarrow> (ip \<times> u16) \<Rightarrow> string option"
  nt_post :: "guarded_endpoint \<Rightarrow> provider_request \<Rightarrow> 's \<Rightarrow> (string + http_reply) \<times> 's"
  nt_decode_result :: "bytes \<Rightarrow> string + provider_response"

definition trim_brackets :: "string \<Rightarrow> string" where
  "trim_brackets s =
     rev (dropWhile (\<lambda>c. c = CHR '']'') (rev (dropWhile (\<lambda>c. c = CHR ''['') s)))"

definition forbidden_address :: "'s net \<Rightarrow> bool \<Rightarrow> (ip \<times> u16) list \<Rightarrow> ip option" where
  "forbidden_address N allow_private addrs =
     map_option fst (find (\<lambda>a. \<not> provider_ip_allowed (fst a) allow_private) addrs)"

definition check_addrs ::
  "'s net \<Rightarrow> bool \<Rightarrow> url \<Rightarrow> string \<Rightarrow> (ip \<times> u16) list \<Rightarrow> gateway_error + guarded_endpoint" where
  "check_addrs N allow_private u host addrs =
     (case addrs of
        [] \<Rightarrow> Inl (ProviderUnavailable
               (''provider endpoint DNS lookup returned no addresses for '' @ host))
      | a # _ \<Rightarrow>
          (case forbidden_address N allow_private addrs of
             Some i \<Rightarrow> Inl (ProviderUnavailable
               (''provider endpoint resolved to forbidden address '' @ nt_show_ip N i))
           | None \<Rightarrow> Inr \<lparr> ge_url = u, ge_host = host, ge_pinned_addr = a \<rparr>))"

definition validate_provider_endpoint ::
  "'s net \<Rightarrow> string \<Rightarrow> bool \<Rightarrow> 's \<Rightarrow> (gateway_error + guarded_endpoint) \<times> 's" where
  "validate_provider_endpoint N endpoint allow_private s =
     (case nt_parse_url N endpoint of
        Inl e \<Rightarrow> (Inl (ProviderUnavailable (''provider endpoint is not a valid URL: '' @ e)), s)
      | Inr u \<Rightarrow>
          if \<not> (ur_scheme u = ''https'' \<or> ur_scheme u = ''http'' \<and> allow_private)
          then (Inl (ProviderUnavailable (''provider endpoint scheme '' @ nt_debug_str N (ur_scheme u)
                  @ '' is not allowed'')), s)
          else if ur_username u \<noteq> [] \<or> ur_password u \<noteq> None
          then (Inl (ProviderUnavailable ''provider endpoint must not contain credentials''), s)
          else
            case ur_host u of
              None \<Rightarrow> (Inl (ProviderUnavailable ''provider endpoint host is missing''), s)
            | Some h \<Rightarrow>
                let host = trim_brackets h
                in (case ur_port u of
                      None \<Rightarrow> (Inl (ProviderUnavailable ''provider endpoint port is missing''), s)
                    | Some port \<Rightarrow>
                        (case nt_parse_ip N host of
                           Some i \<Rightarrow> (check_addrs N allow_private u host [(i, port)], s)
                         | None \<Rightarrow>
                             (case nt_lookup N host port s of
                                (Inl e, s) \<Rightarrow>
                                  (Inl (ProviderUnavailable (''provider endpoint DNS lookup failed for ''
                                          @ host @ '': '' @ e)), s)
                              | (Inr addrs, s) \<Rightarrow> (check_addrs N allow_private u host addrs, s)))))"

definition truthy :: "string option \<Rightarrow> bool" where
  "truthy v = (case v of None \<Rightarrow> False | Some s \<Rightarrow> s \<in> {''1'', ''true'', ''TRUE'', ''yes'', ''YES''})"

definition allow_private_provider_endpoints :: "(string \<Rightarrow> string option) \<Rightarrow> bool" where
  "allow_private_provider_endpoints env =
     truthy (env ''CITRATE_GATEWAY_ALLOW_PRIVATE_PROVIDER_ENDPOINTS'')"

section \<open>Calling a provider\<close>

definition max_provider_response_bytes :: nat where
  "max_provider_response_bytes = 2 * 1024 * 1024"

definition too_large :: "string \<Rightarrow> string" where
  "too_large endpoint =
     endpoint @ '': response too large (exceeded '' @ dec_string max_provider_response_bytes
     @ '' bytes)''"

text \<open>The download loop: the chunks so far, or the first error.\<close>

fun read_chunks :: "string \<Rightarrow> bytes \<Rightarrow> (string + bytes) list \<Rightarrow> gateway_error + bytes" where
  "read_chunks endpoint acc [] = Inr acc"
| "read_chunks endpoint acc (Inl e # rest) =
     Inl (ProviderUnavailable (endpoint @ '': response read failed: '' @ e))"
| "read_chunks endpoint acc (Inr chunk # rest) =
     (if max_provider_response_bytes < length acc + length chunk
      then Inl (ProviderUnavailable (too_large endpoint))
      else read_chunks endpoint (acc @ chunk) rest)"

definition read_reply :: "'s net \<Rightarrow> string \<Rightarrow> http_reply \<Rightarrow> gateway_error + provider_response" where
  "read_reply N endpoint reply =
     (if \<not> (200 \<le> hr_status reply \<and> hr_status reply < 300)
      then Inl (ProviderUnavailable (endpoint @ '': HTTP '' @ hr_status_text reply))
      else
        case (case hr_content_length reply of
                None \<Rightarrow> None
              | Some n \<Rightarrow> if max_provider_response_bytes < unat n then Some n else None) of
          Some n \<Rightarrow> Inl (ProviderUnavailable (endpoint @ '': response too large ('' @ dec_string (unat n)
                     @ '' bytes > '' @ dec_string max_provider_response_bytes @ '' bytes)''))
        | None \<Rightarrow>
            (case read_chunks endpoint [] (hr_chunks reply) of
               Inl e \<Rightarrow> Inl e
             | Inr bs \<Rightarrow>
                 (case nt_decode_result N bs of
                    Inl e \<Rightarrow> Inl (ProviderUnavailable (endpoint @ '': malformed response: '' @ e))
                  | Inr r \<Rightarrow> Inr r)))"

definition dispatch_to_provider ::
  "'s net \<Rightarrow> (string \<Rightarrow> string option) \<Rightarrow> provider_info \<Rightarrow> provider_request \<Rightarrow> 's
    \<Rightarrow> (gateway_error + provider_response) \<times> 's" where
  "dispatch_to_provider N env provider req s =
     (case validate_provider_endpoint N (pi_endpoint provider)
             (allow_private_provider_endpoints env) s of
        (Inl e, s) \<Rightarrow> (Inl e, s)
      | (Inr g, s) \<Rightarrow>
          (case nt_client_error N (ge_host g) (ge_pinned_addr g) of
             Some e \<Rightarrow> (Inl (ProviderUnavailable (''provider http client: '' @ e)), s)
           | None \<Rightarrow>
               (case nt_post N g req s of
                  (Inl e, s) \<Rightarrow> (Inl (ProviderUnavailable (pi_endpoint provider @ '': '' @ e)), s)
                | (Inr reply, s) \<Rightarrow> (read_reply N (pi_endpoint provider) reply, s))))"

section \<open>Signed results\<close>

text \<open>Hashing, hexadecimal and key recovery: other crates. \<open>rl_recover\<close> takes a
  digest, the 64 signature bytes and the recovery byte to the public key's
  uncompressed point.\<close>

record result_lib =
  rl_keccak :: "bytes \<Rightarrow> bytes"
  rl_hex_decode :: "string \<Rightarrow> bytes option"
  rl_signature_ok :: "bytes \<Rightarrow> bool"
  rl_recover :: "bytes \<Rightarrow> bytes \<Rightarrow> u8 \<Rightarrow> bytes option"

definition result_sig_domain :: bytes where
  "result_sig_domain = as_bytes ''CITRATE-RESULT-V1''"

definition result_preimage :: "result_lib \<Rightarrow> h256 \<Rightarrow> string \<Rightarrow> string \<Rightarrow> bytes" where
  "result_preimage R model_hash prompt output =
     result_sig_domain @ be_bytes 32 (unat model_hash) @ rl_keccak R (as_bytes prompt)
     @ rl_keccak R (as_bytes output)"

definition result_binding_digest :: "result_lib \<Rightarrow> h256 \<Rightarrow> string \<Rightarrow> string \<Rightarrow> bytes" where
  "result_binding_digest R model_hash prompt output =
     rl_keccak R (result_preimage R model_hash prompt output)"

function trim_0x :: "string \<Rightarrow> string" where
  "trim_0x s = (case strip_prefix ''0x'' s of None \<Rightarrow> s | Some r \<Rightarrow> trim_0x r)"
  by pat_completeness auto

termination
proof (relation "measure length")
  fix s r assume "strip_prefix ''0x'' s = Some r"
  then show "(r, s) \<in> measure length" by (cases s) (auto simp: strip_prefix_def split: if_splits)
qed simp

declare trim_0x.simps [simp del]

definition recovery_id :: "u8 \<Rightarrow> u8 option" where
  "recovery_id v = (let i = (if 27 \<le> v then v - 27 else v) in if i < 4 then Some i else None)"

definition verify_result_binding ::
  "result_lib \<Rightarrow> h160 \<Rightarrow> h256 \<Rightarrow> string \<Rightarrow> string \<Rightarrow> string \<Rightarrow> bool" where
  "verify_result_binding R provider model_hash prompt output signature_hex =
     (case rl_hex_decode R (trim_0x signature_hex) of
        None \<Rightarrow> False
      | Some sig \<Rightarrow>
          length sig = 65 \<and> rl_signature_ok R (take 64 sig) \<and>
          (case recovery_id (sig ! 64) of
             None \<Rightarrow> False
           | Some rid \<Rightarrow>
               (case rl_recover R (result_binding_digest R model_hash prompt output)
                       (take 64 sig) rid of
                  None \<Rightarrow> False
                | Some point \<Rightarrow>
                    (word_from_slice (drop 12 (rl_keccak R (drop 1 point))) :: h160) = provider)))"

definition require_signed_results :: "(string \<Rightarrow> string option) \<Rightarrow> bool" where
  "require_signed_results env \<longleftrightarrow> env ''CITRATE_GATEWAY_REQUIRE_SIGNED_RESULTS'' = Some ''1''"

definition result_acceptable :: "bool option \<Rightarrow> bool \<Rightarrow> bool" where
  "result_acceptable signature_valid required =
     (case signature_valid of Some valid \<Rightarrow> valid | None \<Rightarrow> \<not> required)"

section \<open>What selection promises\<close>

text \<open>The target of a job is the best there is. No pool can make the choice
  panic while its stake stays below 2^128 whole tokens; with nobody registered
  there is no target; a chosen provider scores at least as high as every
  provider and every pool; and a chosen pool scores at least as high as every
  pool and strictly higher than every provider, so ties go to the cheaper
  route.\<close>

theorem dispatch_target_best:
  assumes "\<forall>pl \<in> set pools. unat (po_total_stake_grains pl div 1000000000000000000) < 2 ^ 128"
  shows "\<exists>t. select_dispatch_target providers pools = Some t
    \<and> (t = None \<longleftrightarrow> providers = [] \<and> pools = [])
    \<and> (\<forall>p. t = Some (Individual p) \<longrightarrow> p \<in> set providers
         \<and> (\<forall>q \<in> set providers. score_provider q \<le> score_provider p)
         \<and> (\<forall>pl \<in> set pools. the (score_pool pl) \<le> score_provider p))
    \<and> (\<forall>pl. t = Some (Pool pl) \<longrightarrow> pl \<in> set pools
         \<and> (\<forall>q \<in> set pools. the (score_pool q) \<le> the (score_pool pl))
         \<and> (\<forall>p \<in> set providers. score_provider p < the (score_pool pl)))"
proof -
  let ?mp = "max_by_key score_provider providers"
    and ?ml = "max_by_key (\<lambda>p. the (score_pool p)) pools"
  have "\<not> list_ex (\<lambda>p. score_pool p = None) pools"
    using assms by (auto simp: list_ex_iff score_pool_def as_u128_def)
  then obtain t where t: "select_dispatch_target providers pools = Some t"
    and "t = (case (?mp, ?ml) of (None, None) \<Rightarrow> None | (Some p, None) \<Rightarrow> Some (Individual p)
              | (None, Some pl) \<Rightarrow> Some (Pool pl)
              | (Some p, Some pl) \<Rightarrow> if score_provider p < the (score_pool pl) then Some (Pool pl)
                  else Some (Individual p))"
    by (simp add: select_dispatch_target_def)
  note max = max_by_key_mem max_by_key_greatest
  show ?thesis
  proof (cases ?mp)
    case None
    with t \<open>t = _\<close> show ?thesis
      by (cases ?ml) (auto dest: max [of _ pools])
  next
    case (Some p)
    have P: "p \<in> set providers" "\<And>q. q \<in> set providers \<Longrightarrow> score_provider q \<le> score_provider p"
      using max [OF Some] by auto
    show ?thesis
    proof (cases ?ml)
      case None
      with t \<open>t = _\<close> Some P show ?thesis by auto
    next
      case L: (Some pl)
      have Q: "pl \<in> set pools" "\<And>q. q \<in> set pools \<Longrightarrow> the (score_pool q) \<le> the (score_pool pl)"
        using max [OF L] by auto
      from t \<open>t = _\<close> Some L P Q show ?thesis
        by (cases "score_provider p < the (score_pool pl)")
          (auto simp: not_less intro: order.trans order.strict_trans1)
    qed
  qed
qed

text \<open>The provider picked for an attempt has capacity left, and no candidate with
  capacity has a higher score, or the same score and a lower load; none is
  picked only when none has capacity.\<close>

theorem selected_provider_best:
  "(select_provider ps = None \<longleftrightarrow> (\<forall>p \<in> set ps. capacity_remaining p = 0))
   \<and> (\<forall>p. select_provider ps = Some p \<longrightarrow> p \<in> set ps \<and> 0 < capacity_remaining p
        \<and> (\<forall>q \<in> set ps. 0 < capacity_remaining q \<longrightarrow> provider_key q \<le> provider_key p))"
  by (auto simp: select_provider_def filter_empty_conv word_gt_0
      dest: max_by_key_mem max_by_key_greatest)

section \<open>What the endpoint guard promises\<close>

text \<open>The special-purpose ranges of version 4, as network and prefix length.\<close>

definition special_v4 :: "(nat \<times> nat) list" where
  "special_v4 =
     [(10 * 2^24, 8), (172 * 2^24 + 16 * 2^16, 12), (192 * 2^24 + 168 * 2^16, 16), (127 * 2^24, 8),
      (169 * 2^24 + 254 * 2^16, 16), (255 * 2^24 + 255 * 2^16 + 255 * 2^8 + 255, 32),
      (192 * 2^24 + 2 * 2^8, 24), (198 * 2^24 + 51 * 2^16 + 100 * 2^8, 24),
      (203 * 2^24 + 113 * 2^8, 24), (0, 32), (224 * 2^24, 4), (100 * 2^24 + 64 * 2^16, 10),
      (198 * 2^24 + 18 * 2^16, 15)]"

definition v4_num :: "u8 \<Rightarrow> u8 \<Rightarrow> u8 \<Rightarrow> u8 \<Rightarrow> nat" where
  "v4_num a b c d = unat a * 2^24 + unat b * 2^16 + unat c * 2^8 + unat d"

definition in_cidr :: "nat \<Rightarrow> nat \<times> nat \<Rightarrow> bool" where
  "in_cidr n r \<longleftrightarrow> n div 2 ^ (32 - snd r) = fst r div 2 ^ (32 - snd r)"

lemma v4_num_div:
  shows "v4_num a b c d div 2^8 = unat a * 65536 + unat b * 256 + unat c"
    and "v4_num a b c d div 2^16 = unat a * 256 + unat b"
    and "v4_num a b c d div 2^24 = unat a"
    and "v4_num a b c d div 2^17 = unat a * 128 + unat b div 2"
    and "v4_num a b c d div 2^20 = unat a * 16 + unat b div 16"
    and "v4_num a b c d div 2^22 = unat a * 4 + unat b div 64"
    and "v4_num a b c d div 2^28 = unat a div 16"
proof -
  note small = unat_u8_less [of a] unat_u8_less [of b] unat_u8_less [of c] unat_u8_less [of d]
  have split: "n div (i * j) = n div i div j" for n i j :: nat by (rule div_mult2_eq)
  show 8: "v4_num a b c d div 2^8 = unat a * 65536 + unat b * 256 + unat c"
    using small by (simp add: v4_num_def)
  show 16: "v4_num a b c d div 2^16 = unat a * 256 + unat b"
    using split [of "v4_num a b c d" "2^8" "2^8"] 8 small by simp
  show 24: "v4_num a b c d div 2^24 = unat a"
    using split [of "v4_num a b c d" "2^16" "2^8"] 16 small by simp
  show "v4_num a b c d div 2^17 = unat a * 128 + unat b div 2"
    using split [of "v4_num a b c d" "2^16" "2"] 16 by simp
  show "v4_num a b c d div 2^20 = unat a * 16 + unat b div 16"
    using split [of "v4_num a b c d" "2^16" "16"] 16 by simp
  show "v4_num a b c d div 2^22 = unat a * 4 + unat b div 64"
    using split [of "v4_num a b c d" "2^16" "64"] 16 by simp
  show "v4_num a b c d div 2^28 = unat a div 16"
    using split [of "v4_num a b c d" "2^24" "16"] 24 by simp
qed

lemma u8_eq_unat: "a = b \<longleftrightarrow> unat a = unat (b :: u8)"
  by (rule word_unat_eq_iff)

lemma digits_eq:
  fixes m :: nat
  assumes "b < m" and "b' < m"
  shows "a * m + b = a' * m + b' \<longleftrightarrow> a = a' \<and> b = b'"
proof
  assume eq: "a * m + b = a' * m + b'"
  have "(a * m + b) div m = a" "(a' * m + b') div m = a'" using assms by simp_all
  with eq have "a = a'" by simp
  with eq show "a = a' \<and> b = b'" by simp
qed simp

lemma digits3_eq:
  fixes a b c :: nat
  assumes "b < 256" "c < 256" "b' < 256" "c' < 256"
  shows "a * 65536 + b * 256 + c = a' * 65536 + b' * 256 + c' \<longleftrightarrow> a = a' \<and> b = b' \<and> c = c'"
  using digits_eq [of c 256 c' "a * 256 + b" "a' * 256 + b'"] digits_eq [of b 256 b' a a'] assms
  by (simp add: mult.commute)

lemma div_eq_range:
  fixes n m k :: nat
  assumes "0 < m"
  shows "n div m = k \<longleftrightarrow> m * k \<le> n \<and> n < m * Suc k"
proof
  assume "n div m = k"
  then show "m * k \<le> n \<and> n < m * Suc k"
    using assms times_div_less_eq_dividend [of m n] dividend_less_times_div [of m n] by auto
qed (auto intro: div_nat_eqI)

lemma div_range:
  fixes b :: nat
  shows "b div 16 = Suc 0 \<longleftrightarrow> 16 \<le> b \<and> b \<le> 31" and "b div 64 = Suc 0 \<longleftrightarrow> 64 \<le> b \<and> b \<le> 127"
    and "b div 2 = 9 \<longleftrightarrow> b = 18 \<or> b = 19" and "b div 16 = 14 \<longleftrightarrow> 224 \<le> b \<and> b \<le> 239"
  by (auto simp: div_eq_range)

lemma cidr_octets:
  "in_cidr (v4_num a b c d) (10 * 2^24, 8) \<longleftrightarrow> a = 10"
  "in_cidr (v4_num a b c d) (127 * 2^24, 8) \<longleftrightarrow> a = 127"
  "in_cidr (v4_num a b c d) (192 * 2^24 + 168 * 2^16, 16) \<longleftrightarrow> a = 192 \<and> b = 168"
  "in_cidr (v4_num a b c d) (169 * 2^24 + 254 * 2^16, 16) \<longleftrightarrow> a = 169 \<and> b = 254"
  "in_cidr (v4_num a b c d) (172 * 2^24 + 16 * 2^16, 12) \<longleftrightarrow> a = 172 \<and> 16 \<le> b \<and> b \<le> 31"
  "in_cidr (v4_num a b c d) (100 * 2^24 + 64 * 2^16, 10) \<longleftrightarrow> a = 100 \<and> 64 \<le> b \<and> b \<le> 127"
  "in_cidr (v4_num a b c d) (198 * 2^24 + 18 * 2^16, 15) \<longleftrightarrow> a = 198 \<and> (b = 18 \<or> b = 19)"
  "in_cidr (v4_num a b c d) (224 * 2^24, 4) \<longleftrightarrow> 224 \<le> a \<and> a \<le> 239"
proof -
  note A = unat_u8_less [of a] and B = unat_u8_less [of b]
  have d: "unat b div 16 < 16" "unat b div 64 < 4" "unat b div 2 < 128" using B by simp_all
  note defs = in_cidr_def v4_num_div [simplified] u8_eq_unat word_le_nat_alt
  show "in_cidr (v4_num a b c d) (10 * 2^24, 8) \<longleftrightarrow> a = 10"
    and "in_cidr (v4_num a b c d) (127 * 2^24, 8) \<longleftrightarrow> a = 127" by (simp_all add: defs)
  show "in_cidr (v4_num a b c d) (192 * 2^24 + 168 * 2^16, 16) \<longleftrightarrow> a = 192 \<and> b = 168"
    using digits_eq [of "unat b" 256 168 "unat a" 192] B by (simp add: defs)
  show "in_cidr (v4_num a b c d) (169 * 2^24 + 254 * 2^16, 16) \<longleftrightarrow> a = 169 \<and> b = 254"
    using digits_eq [of "unat b" 256 254 "unat a" 169] B by (simp add: defs)
  show "in_cidr (v4_num a b c d) (172 * 2^24 + 16 * 2^16, 12) \<longleftrightarrow> a = 172 \<and> 16 \<le> b \<and> b \<le> 31"
    using digits_eq [of "unat b div 16" 16 1 "unat a" 172] d by (simp add: defs div_range)
  show "in_cidr (v4_num a b c d) (100 * 2^24 + 64 * 2^16, 10) \<longleftrightarrow> a = 100 \<and> 64 \<le> b \<and> b \<le> 127"
    using digits_eq [of "unat b div 64" 4 1 "unat a" 100] d by (simp add: defs div_range)
  show "in_cidr (v4_num a b c d) (198 * 2^24 + 18 * 2^16, 15) \<longleftrightarrow> a = 198 \<and> (b = 18 \<or> b = 19)"
    using digits_eq [of "unat b div 2" 128 9 "unat a" 198] d by (simp add: defs div_range)
  show "in_cidr (v4_num a b c d) (224 * 2^24, 4) \<longleftrightarrow> 224 \<le> a \<and> a \<le> 239"
    by (simp add: defs div_range)
qed

lemma cidr_octets3:
  "in_cidr (v4_num a b c d) (192 * 2^24 + 2 * 2^8, 24) \<longleftrightarrow> a = 192 \<and> b = 0 \<and> c = 2"
  "in_cidr (v4_num a b c d) (198 * 2^24 + 51 * 2^16 + 100 * 2^8, 24) \<longleftrightarrow> a = 198 \<and> b = 51 \<and> c = 100"
  "in_cidr (v4_num a b c d) (203 * 2^24 + 113 * 2^8, 24) \<longleftrightarrow> a = 203 \<and> b = 0 \<and> c = 113"
  "in_cidr (v4_num a b c d) (255 * 2^24 + 255 * 2^16 + 255 * 2^8 + 255, 32)
     \<longleftrightarrow> a = 255 \<and> b = 255 \<and> c = 255 \<and> d = 255"
  "in_cidr (v4_num a b c d) (0, 32) \<longleftrightarrow> a = 0 \<and> b = 0 \<and> c = 0 \<and> d = 0"
proof -
  note small = unat_u8_less [of a] unat_u8_less [of b] unat_u8_less [of c] unat_u8_less [of d]
  note defs = in_cidr_def v4_num_div [simplified] u8_eq_unat
  show "in_cidr (v4_num a b c d) (192 * 2^24 + 2 * 2^8, 24) \<longleftrightarrow> a = 192 \<and> b = 0 \<and> c = 2"
    using digits3_eq [of "unat b" "unat c" 0 2 "unat a" 192] small by (simp add: defs)
  show "in_cidr (v4_num a b c d) (198 * 2^24 + 51 * 2^16 + 100 * 2^8, 24)
      \<longleftrightarrow> a = 198 \<and> b = 51 \<and> c = 100"
    using digits3_eq [of "unat b" "unat c" 51 100 "unat a" 198] small by (simp add: defs)
  show "in_cidr (v4_num a b c d) (203 * 2^24 + 113 * 2^8, 24) \<longleftrightarrow> a = 203 \<and> b = 0 \<and> c = 113"
    using digits3_eq [of "unat b" "unat c" 0 113 "unat a" 203] small by (simp add: defs)
  show "in_cidr (v4_num a b c d) (255 * 2^24 + 255 * 2^16 + 255 * 2^8 + 255, 32)
     \<longleftrightarrow> a = 255 \<and> b = 255 \<and> c = 255 \<and> d = 255"
    using digits_eq [of "unat d" 256 255 "unat a * 65536 + unat b * 256 + unat c" 16777215]
      digits3_eq [of "unat b" "unat c" 255 255 "unat a" 255] small
    by (simp add: in_cidr_def v4_num_def u8_eq_unat mult.commute)
  show "in_cidr (v4_num a b c d) (0, 32) \<longleftrightarrow> a = 0 \<and> b = 0 \<and> c = 0 \<and> d = 0"
    by (simp add: in_cidr_def v4_num_def u8_eq_unat)
qed

lemma special_v4_octets:
  "list_ex (in_cidr (v4_num a b c d)) special_v4 \<longleftrightarrow>
     is_private_v4 a b \<or> a = 127 \<or> a = 169 \<and> b = 254
     \<or> a = 255 \<and> b = 255 \<and> c = 255 \<and> d = 255 \<or> is_documentation_v4 a b c
     \<or> a = 0 \<and> b = 0 \<and> c = 0 \<and> d = 0 \<or> 224 \<le> a \<and> a \<le> 239
     \<or> is_shared_address_space a b \<or> is_benchmarking_ip a b"
  unfolding special_v4_def list_ex_Nil_iff list_ex_Cons_iff cidr_octets cidr_octets3 is_documentation_v4_def
    is_shared_address_space_def is_benchmarking_ip_def is_private_v4.simps
  by (simp only: disj_assoc simp_thms)

lemma ipv4_guard_is_table:
  "ipv4_provider_allowed a b c d False \<longleftrightarrow> \<not> list_ex (in_cidr (v4_num a b c d)) special_v4"
  unfolding special_v4_octets by (simp add: ipv4_provider_allowed_def)

text \<open>The version 4 guard, written over octets, is the table of special-purpose
  ranges: an address is allowed exactly when its number lies in none of them.\<close>

theorem ipv4_guard_is_the_range_table:
  "ipv4_provider_allowed a b c d False \<longleftrightarrow> \<not> list_ex (in_cidr (v4_num a b c d)) special_v4"
  by (rule ipv4_guard_is_table)

text \<open>The addresses a provider must not be reached at: version 4 by the table, version 6
  the unspecified and the loopback address, \<open>fc00::/7\<close>, \<open>fe80::/10\<close> and
  \<open>ff00::/8\<close>. A version 6 address \<open>::ffff:a.b.c.d\<close> reaches the version 4 host
  \<open>a.b.c.d\<close> on a dual-stack system, so what counts is the address it stands
  for.\<close>

definition restricted_ip :: "ip \<Rightarrow> bool" where
  "restricted_ip i =
     (case i of
        V4 a b c d \<Rightarrow> list_ex (in_cidr (v4_num a b c d)) special_v4
      | V6 s0 s1 s2 s3 s4 s5 s6 s7 \<Rightarrow>
          (s0 = 0 \<and> s1 = 0 \<and> s2 = 0 \<and> s3 = 0 \<and> s4 = 0 \<and> s5 = 0 \<and> s6 = 0 \<and> (s7 = 0 \<or> s7 = 1))
          \<or> s0 AND 0xfe00 = 0xfc00 \<or> s0 AND 0xffc0 = 0xfe80 \<or> s0 AND 0xff00 = 0xff00)"

definition v4_mapped :: "ip \<Rightarrow> ip option" where
  "v4_mapped i =
     (case i of
        V4 a b c d \<Rightarrow> None
      | V6 s0 s1 s2 s3 s4 s5 s6 s7 \<Rightarrow>
          if s0 = 0 \<and> s1 = 0 \<and> s2 = 0 \<and> s3 = 0 \<and> s4 = 0 \<and> s5 = 0xffff
          then Some (V4 (ucast (drop_bit 8 s6)) (ucast s6) (ucast (drop_bit 8 s7)) (ucast s7))
          else None)"

definition reached_ip :: "ip \<Rightarrow> ip" where
  "reached_ip i = (case v4_mapped i of None \<Rightarrow> i | Some j \<Rightarrow> j)"

text \<open>The version 6 guard does not look into version 4 addresses mapped into
  version 6: it allows the loopback and the metadata address in that form.\<close>

theorem mapped_v4_passes_guard:
  "provider_ip_allowed (V6 0 0 0 0 0 0xffff 0x7f00 1) False
   \<and> provider_ip_allowed (V6 0 0 0 0 0 0xffff 0xa9fe 0xa9fe) False
   \<and> reached_ip (V6 0 0 0 0 0 0xffff 0x7f00 1) = V4 127 0 0 1
   \<and> reached_ip (V6 0 0 0 0 0 0xffff 0xa9fe 0xa9fe) = V4 169 254 169 254
   \<and> restricted_ip (V4 127 0 0 1) \<and> restricted_ip (V4 169 254 169 254)"
proof -
  have "restricted_ip (V4 127 0 0 1)" "restricted_ip (V4 169 254 169 254)"
    by (simp_all add: restricted_ip_def special_v4_octets)
  moreover have "reached_ip (V6 0 0 0 0 0 0xffff 0x7f00 1) = V4 127 0 0 1"
    "reached_ip (V6 0 0 0 0 0 0xffff 0xa9fe 0xa9fe) = V4 169 254 169 254"
    by (simp_all add: reached_ip_def v4_mapped_def)
  ultimately show ?thesis
    by (simp add: provider_ip_allowed_def is_cloud_metadata_ip_def ipv6_provider_allowed_def
        is_loopback_v6_def is_unique_local_def)
qed

text \<open>But for that form, the guard keeps every restricted address out.\<close>

lemma allowed_unrestricted:
  assumes "provider_ip_allowed i False"
  shows "\<not> restricted_ip (reached_ip i) \<or> v4_mapped i \<noteq> None"
proof -
  have "\<not> restricted_ip i"
    using assms by (cases i)
      (auto simp: provider_ip_allowed_def restricted_ip_def ipv4_guard_is_table ipv6_provider_allowed_def
        is_loopback_v6_def is_unique_local_def split: if_splits)
  then show ?thesis by (simp add: reached_ip_def split: option.split)
qed

lemma check_addrs_Inr:
  assumes "check_addrs N private u host addrs = Inr g"
  shows "ge_url g = u \<and> ge_host g = host \<and> (\<exists>rest. addrs = ge_pinned_addr g # rest)
    \<and> (\<forall>a \<in> set addrs. provider_ip_allowed (fst a) private)"
  using assms
  by (auto simp: check_addrs_def forbidden_address_def find_None_iff
      split: list.splits option.splits if_splits)

text \<open>C32. An endpoint that passes the guard, private endpoints not being allowed, is an
  HTTPS URL without credentials, and the connection is pinned to the first
  address its host resolved to, once; the name is not resolved again, so it
  cannot be rebound. None of the addresses it resolved to is the metadata
  address or lies in a restricted range (loopback, private, link-local, shared,
  benchmarking, documentation, broadcast, multicast, unspecified, unique-local),
  with one exception, the guard's own: a version 4 address mapped into version
  6 passes whatever it stands for. Ranges the guard does not name, such as
  \<open>240.0.0.0/4\<close> and the rest of \<open>0.0.0.0/8\<close>, are not restricted.\<close>

theorem guarded_endpoint_pinned:
  assumes v: "validate_provider_endpoint N endpoint False s = (Inr g, s')"
  shows "nt_parse_url N endpoint = Inr (ge_url g) \<and> ur_scheme (ge_url g) = ''https''
    \<and> ur_username (ge_url g) = [] \<and> ur_password (ge_url g) = None
    \<and> (\<exists>port addrs. ur_port (ge_url g) = Some port
         \<and> (nt_lookup N (ge_host g) port s = (Inr (ge_pinned_addr g # addrs), s')
            \<or> (\<exists>i. nt_parse_ip N (ge_host g) = Some i \<and> ge_pinned_addr g = (i, port)
                 \<and> addrs = [] \<and> s' = s))
         \<and> (\<forall>a \<in> insert (ge_pinned_addr g) (set addrs). \<not> is_cloud_metadata_ip (fst a)
              \<and> (\<not> restricted_ip (reached_ip (fst a)) \<or> v4_mapped (fst a) \<noteq> None)))"
proof -
  obtain u where u: "nt_parse_url N endpoint = Inr u" "ur_scheme u = ''https''"
    "ur_username u = []" "ur_password u = None"
    using v by (auto simp: validate_provider_endpoint_def split: sum.splits if_splits)
  obtain h port where hp: "ur_host u = Some h" "ur_port u = Some port"
    using v u by (auto simp: validate_provider_endpoint_def Let_def split: option.splits)
  define host where "host = trim_brackets h"
  obtain addrs where c: "check_addrs N False u host addrs = Inr g"
    and a: "(\<exists>i. nt_parse_ip N host = Some i \<and> addrs = [(i, port)] \<and> s' = s)
      \<or> nt_lookup N host port s = (Inr addrs, s')"
    using v u hp
    by (auto simp: validate_provider_endpoint_def Let_def host_def split: option.splits prod.splits sum.splits)
  note C = check_addrs_Inr [OF c]
  then obtain rest where r: "addrs = ge_pinned_addr g # rest" by blast
  have "\<forall>a \<in> insert (ge_pinned_addr g) (set rest). \<not> is_cloud_metadata_ip (fst a)
      \<and> (\<not> restricted_ip (reached_ip (fst a)) \<or> v4_mapped (fst a) \<noteq> None)"
    using C allowed_unrestricted unfolding r
    by (auto simp: provider_ip_allowed_def split: if_splits)
  moreover have "nt_lookup N host port s = (Inr (ge_pinned_addr g # rest), s')
      \<or> (\<exists>i. nt_parse_ip N host = Some i \<and> ge_pinned_addr g = (i, port) \<and> rest = [] \<and> s' = s)"
    using a by (auto simp: r)
  ultimately show ?thesis using C u hp by auto
qed

section \<open>What the download promises\<close>

lemma read_chunks_bound:
  "read_chunks endpoint acc chunks = Inr bs \<Longrightarrow> length acc \<le> max_provider_response_bytes
   \<Longrightarrow> length bs \<le> max_provider_response_bytes \<and> bs = acc @ concat (map projr chunks)"
proof (induction endpoint acc chunks rule: read_chunks.induct)
  case (3 endpoint acc chunk rest)
  then show ?case by (auto split: if_splits)
qed simp_all

text \<open>A provider's answer is accepted only with a 2xx status, only when all its
  chunks arrive and are no more than 2 MiB together, whatever length it
  announced, and it is what those bytes decode to.\<close>

theorem provider_answer_bounded:
  assumes "dispatch_to_provider N env provider req s = (Inr r, s')"
  shows "\<exists>g reply s1. validate_provider_endpoint N (pi_endpoint provider)
        (allow_private_provider_endpoints env) s = (Inr g, s1)
    \<and> nt_post N g req s1 = (Inr reply, s') \<and> 200 \<le> hr_status reply \<and> hr_status reply < 300
    \<and> (\<forall>c \<in> set (hr_chunks reply). \<exists>b. c = Inr b)
    \<and> length (concat (map projr (hr_chunks reply))) \<le> 2 * 1024 * 1024
    \<and> nt_decode_result N (concat (map projr (hr_chunks reply))) = Inr r"
proof -
  obtain g s1 where g: "validate_provider_endpoint N (pi_endpoint provider)
      (allow_private_provider_endpoints env) s = (Inr g, s1)"
    using assms by (auto simp: dispatch_to_provider_def split: prod.splits sum.splits)
  obtain reply where post: "nt_post N g req s1 = (Inr reply, s')"
    and rd: "read_reply N (pi_endpoint provider) reply = Inr r"
    using assms g by (auto simp: dispatch_to_provider_def split: prod.splits sum.splits option.splits)
  obtain bs where st: "200 \<le> hr_status reply" "hr_status reply < 300"
    and bs: "read_chunks (pi_endpoint provider) [] (hr_chunks reply) = Inr bs"
    and dec: "nt_decode_result N bs = Inr r"
    using rd by (auto simp: read_reply_def split: if_splits option.splits sum.splits)
  have "\<forall>c \<in> set chunks. \<exists>b. c = Inr b" if "read_chunks e acc chunks = Inr bs" for e acc chunks
    using that by (induction e acc chunks rule: read_chunks.induct) (auto split: if_splits)
  with read_chunks_bound [OF bs] bs g post st dec show ?thesis
    by (auto simp: max_provider_response_bytes_def)
qed

section \<open>Samples\<close>

definition sample_provider :: "u32 \<Rightarrow> u32 \<Rightarrow> u32 \<Rightarrow> provider_info" where
  "sample_provider reputation load most =
     \<lparr> pi_address = ucast reputation, pi_endpoint = ''https://p'', pi_reputation_bps = reputation,
       pi_current_load = load, pi_max_concurrent = most \<rparr>"

definition sample_pool :: pool_entry where
  "sample_pool =
     \<lparr> po_pool_id = 1, po_name = ''pool'', po_total_stake_grains = 100 * 10 ^ 18,
       po_member_count = 3, po_min_member_reputation_bps = 9500 \<rparr>"

theorem dispatch_target_best_witness:
  "\<exists>t. select_dispatch_target [sample_provider 9000 0 10] [sample_pool] = Some t \<and> t \<noteq> None
     \<and> (\<forall>p. t = Some (Individual p) \<longrightarrow> p = sample_provider 9000 0 10)"
proof -
  have "\<forall>pl \<in> set [sample_pool]. unat (po_total_stake_grains pl div 1000000000000000000) < 2 ^ 128"
    by (simp add: sample_pool_def)
  from dispatch_target_best [OF this, of "[sample_provider 9000 0 10]"] show ?thesis by auto
qed

theorem selected_provider_best_witness:
  "\<exists>p. select_provider [sample_provider 9500 10 10, sample_provider 8000 0 10] = Some p
     \<and> 0 < capacity_remaining p"
proof -
  have "capacity_remaining (sample_provider 8000 0 10) \<noteq> 0"
    by (simp add: capacity_remaining_def sample_provider_def sat_sub_def)
  with selected_provider_best [of "[sample_provider 9500 10 10, sample_provider 8000 0 10]"]
  show ?thesis by (cases "select_provider [sample_provider 9500 10 10, sample_provider 8000 0 10]") auto
qed

text \<open>A network with one host at a public address that answers in two chunks.\<close>

definition sample_url :: url where
  "sample_url = \<lparr> ur_text = ''https://p'', ur_scheme = ''https'', ur_username = [],
     ur_password = None, ur_host = Some ''p'', ur_port = Some 443 \<rparr>"

definition sample_result :: provider_response where
  "sample_result = \<lparr> pp_output = ''hi'', pp_input_tokens = Some 1, pp_output_tokens = Some 1,
     pp_signature = None \<rparr>"

definition sample_reply :: http_reply where
  "sample_reply = \<lparr> hr_status = 200, hr_status_text = ''200 OK'', hr_content_length = None,
     hr_chunks = [Inr [1, 2], Inr [3]] \<rparr>"

definition sample_net :: "'s net" where
  "sample_net =
     \<lparr> nt_parse_url = (\<lambda>e. Inr sample_url), nt_parse_ip = (\<lambda>h. None), nt_show_ip = (\<lambda>i. []),
       nt_debug_str = id, nt_lookup = (\<lambda>h p s. (Inr [(V4 9 9 9 9, p)], s)),
       nt_client_error = (\<lambda>h a. None),
       nt_post = (\<lambda>g r s. (Inr sample_reply, s)),
       nt_decode_result = (\<lambda>b. if b = [1, 2, 3] then Inr sample_result else Inl ''bad'') \<rparr>"

lemma sample_net_simps [simp]:
  "nt_parse_url sample_net e = Inr sample_url" "nt_parse_ip sample_net h = None"
  "nt_lookup sample_net h port s = (Inr [(V4 9 9 9 9, port)], s)"
  "nt_client_error sample_net h a = None"
  "nt_post sample_net g r s = (Inr sample_reply, s)"
  "nt_decode_result sample_net b = (if b = [1, 2, 3] then Inr sample_result else Inl ''bad'')"
  by (simp_all add: sample_net_def)

lemma sample_ip_allowed: "provider_ip_allowed (V4 9 9 9 9) False"
  by (simp add: provider_ip_allowed_def is_cloud_metadata_ip_def
      ipv4_provider_allowed_def is_documentation_v4_def is_shared_address_space_def
      is_benchmarking_ip_def)

lemma sample_guard:
  "validate_provider_endpoint (sample_net :: 's net) endpoint False s
     = (Inr \<lparr> ge_url = sample_url, ge_host = ''p'', ge_pinned_addr = (V4 9 9 9 9, 443) \<rparr>, s)"
proof -
  have u: "ur_scheme sample_url = ''https''" "ur_username sample_url = []"
    "ur_password sample_url = None" "ur_host sample_url = Some ''p''" "ur_port sample_url = Some 443"
    by (simp_all add: sample_url_def)
  have c: "check_addrs (sample_net :: 's net) False sample_url ''p'' [(V4 9 9 9 9, 443)]
      = Inr \<lparr> ge_url = sample_url, ge_host = ''p'', ge_pinned_addr = (V4 9 9 9 9, 443) \<rparr>"
    by (simp add: check_addrs_def forbidden_address_def sample_ip_allowed)
  have "trim_brackets ''p'' = ''p''" by (simp add: trim_brackets_def)
  with u c show ?thesis by (simp add: validate_provider_endpoint_def)
qed

theorem guarded_endpoint_pinned_witness:
  "\<exists>g. validate_provider_endpoint sample_net ''https://p'' False () = (Inr g, ())
     \<and> ge_pinned_addr g = (V4 9 9 9 9, 443) \<and> \<not> restricted_ip (reached_ip (fst (ge_pinned_addr g)))"
proof -
  define g where "g = \<lparr> ge_url = sample_url, ge_host = ''p'', ge_pinned_addr = (V4 9 9 9 9, 443) \<rparr>"
  have v: "validate_provider_endpoint sample_net ''https://p'' False () = (Inr g, ())"
    using sample_guard [of "''https://p''" "()"] by (simp add: g_def)
  have "v4_mapped (fst (ge_pinned_addr g)) = None" by (simp add: g_def v4_mapped_def)
  with guarded_endpoint_pinned [OF v] v show ?thesis by (auto simp: g_def)
qed

lemma sample_provider_read: "read_reply (sample_net :: 's net) e sample_reply = Inr sample_result"
proof -
  have "read_chunks e [] (hr_chunks sample_reply) = Inr [1, 2, 3]"
    by (simp add: sample_reply_def max_provider_response_bytes_def)
  moreover have "hr_status sample_reply = 200" "hr_content_length sample_reply = None"
    by (simp_all add: sample_reply_def)
  ultimately show ?thesis by (simp add: read_reply_def)
qed

lemma sample_answer:
  "dispatch_to_provider sample_net (\<lambda>k. None) p req s = (Inr sample_result, s)"
proof -
  have "\<not> allow_private_provider_endpoints (\<lambda>k. None)"
    by (simp add: allow_private_provider_endpoints_def truthy_def)
  then show ?thesis by (simp add: dispatch_to_provider_def sample_guard sample_provider_read)
qed

theorem provider_answer_bounded_witness:
  "\<exists>g reply. nt_post sample_net g \<lparr> pr_model = ''m'', pr_prompt = ''hi'', pr_max_tokens = 5 \<rparr> ()
        = (Inr reply, ())
     \<and> length (concat (map projr (hr_chunks reply))) \<le> 2 * 1024 * 1024"
  using provider_answer_bounded [OF sample_answer [of "sample_provider 9000 0 10"
        "\<lparr> pr_model = ''m'', pr_prompt = ''hi'', pr_max_tokens = 5 \<rparr>" "()"]]
  by (metis old.unit.exhaust)

end
