(* ===== verification/Platform.thy ===== *)
theory Platform
  imports Prelude "HOL-Library.List_Lexorder" "HOL-Library.Char_ord"
begin

text \<open>
  What \<open>gateway/src/keystore.rs\<close> takes from other crates: the RocksDB engine,
  the operating system's entropy and clock, UUIDs, SHA-256, the BLAKE3 key
  derivation, the AES-256-GCM-SIV cipher, and the serializers of its records.
  They are the fields of \<open>platform\<close>; every definition of the store takes one.
  \<open>platform_ok\<close> states their documented behaviour over two ghost readings of
  the engine: \<open>hist\<close>, the write batches applied so far, and \<open>durable\<close>, how many
  of them are on disk. After a crash the engine has some prefix of the history
  that contains the durable part.
\<close>

section \<open>The records that are stored\<close>

record key_record =
  kr_label :: string
  kr_created_at :: u64
  kr_revoked :: bool
  kr_quota_rps :: u32
  kr_daily_quota :: u64

record balance_record =
  br_label :: string
  br_created_at :: u64
  br_revoked :: bool
  br_backing :: u8
  br_deposit_address :: bytes
  br_balance_be :: bytes

record refund_owed =
  ro_batch_id :: string
  ro_payer :: "string option"
  ro_refund_grains :: string
  ro_recorded_at :: u64

section \<open>The platform\<close>

record 'w platform =
  p_get :: "string \<Rightarrow> 'w \<Rightarrow> string + bytes option"
  p_write :: "bool \<Rightarrow> (string \<times> bytes) list \<Rightarrow> 'w \<Rightarrow> (string + unit) \<times> 'w"
  p_scan :: "string \<Rightarrow> 'w \<Rightarrow> (string + (string \<times> bytes)) list"
  p_nonempty :: "'w \<Rightarrow> bool"
  p_fill :: "nat \<Rightarrow> 'w \<Rightarrow> bytes option \<times> 'w"
  p_uuid :: "'w \<Rightarrow> string \<times> 'w"
  p_now :: "'w \<Rightarrow> u64 \<times> 'w"
  p_date :: "'w \<Rightarrow> (nat \<times> nat \<times> nat) \<times> 'w"
  p_second_of_day :: "'w \<Rightarrow> nat \<times> 'w"
  p_sha256 :: "bytes \<Rightarrow> bytes"
  p_hex :: "bytes \<Rightarrow> string"
  p_kdf :: "string \<Rightarrow> bytes \<Rightarrow> bytes"
  p_encrypt :: "bytes \<Rightarrow> bytes \<Rightarrow> bytes \<Rightarrow> bytes \<Rightarrow> bytes option"
  p_decrypt :: "bytes \<Rightarrow> bytes \<Rightarrow> bytes \<Rightarrow> bytes \<Rightarrow> bytes option"
  p_enc_key :: "key_record \<Rightarrow> bytes"
  p_dec_key :: "bytes \<Rightarrow> string + key_record"
  p_enc_balance :: "balance_record \<Rightarrow> bytes"
  p_dec_balance :: "bytes \<Rightarrow> string + balance_record"
  p_enc_owed :: "refund_owed \<Rightarrow> bytes"
  p_dec_owed :: "bytes \<Rightarrow> string + refund_owed"
  p_u256_dec :: "u256 \<Rightarrow> string"

section \<open>Documented behaviour\<close>

type_synonym history = "(string \<times> bytes) list list"

definition apply_batch :: "(string \<times> bytes) list \<Rightarrow> (string \<Rightarrow> bytes option) \<Rightarrow> (string \<Rightarrow> bytes option)" where
  "apply_batch kvs m = fold (\<lambda>(k, v) m. m(k \<mapsto> v)) kvs m"

definition replay :: "history \<Rightarrow> string \<Rightarrow> bytes option" where
  "replay h = fold apply_batch h (\<lambda>k. None)"

lemma replay_Nil [simp]: "replay [] = (\<lambda>k. None)"
  by (simp add: replay_def)

lemma replay_snoc [simp]: "replay (h @ [kvs]) = apply_batch kvs (replay h)"
  by (simp add: replay_def)

lemma apply_batch_Nil [simp]: "apply_batch [] m = m"
  by (simp add: apply_batch_def)

lemma apply_batch_Cons [simp]: "apply_batch ((k, v) # kvs) m = apply_batch kvs (m(k \<mapsto> v))"
  by (simp add: apply_batch_def)

text \<open>A forward iteration from a key: the rows at or after it, in key order.\<close>

definition rows_from :: "string \<Rightarrow> (string \<Rightarrow> bytes option) \<Rightarrow> (string \<times> bytes) list \<Rightarrow> bool" where
  "rows_from p m rows \<longleftrightarrow>
     sorted_wrt (\<lambda>a b. fst a < fst b) rows \<and> set rows = {(k, v). m k = Some v \<and> p \<le> k}"

definition engine_ok :: "'w platform \<Rightarrow> ('w \<Rightarrow> history) \<Rightarrow> ('w \<Rightarrow> nat) \<Rightarrow> bool" where
  "engine_ok P hist durable \<longleftrightarrow>
     (\<forall>w. durable w \<le> length (hist w)) \<and>
     (\<forall>k w v. p_get P k w = Inr v \<longrightarrow> v = replay (hist w) k) \<and>
     (\<forall>sync kvs w w'. p_write P sync kvs w = (Inr (), w') \<longrightarrow>
        hist w' = hist w @ [kvs] \<and> durable w \<le> durable w' \<and>
        (sync \<longrightarrow> durable w' = length (hist w'))) \<and>
     (\<forall>sync kvs w e w'. p_write P sync kvs w = (Inl e, w') \<longrightarrow>
        hist w' = hist w \<and> durable w \<le> durable w') \<and>
     (\<forall>p w. \<exists>rows. rows_from p (replay (hist w)) rows \<and>
        (p_scan P p w = map Inr rows
         \<or> (\<exists>n e rest. p_scan P p w = map Inr (take n rows) @ Inl e # rest))) \<and>
     (\<forall>w. p_nonempty P w \<longleftrightarrow> replay (hist w) \<noteq> (\<lambda>k. None))"

definition host_ok :: "'w platform \<Rightarrow> ('w \<Rightarrow> history) \<Rightarrow> ('w \<Rightarrow> nat) \<Rightarrow> bool" where
  "host_ok P hist durable \<longleftrightarrow>
     (\<forall>n w r w'. p_fill P n w = (r, w') \<longrightarrow> hist w' = hist w \<and> durable w' = durable w
        \<and> (\<forall>b. r = Some b \<longrightarrow> length b = n)) \<and>
     (\<forall>w r w'. p_uuid P w = (r, w') \<longrightarrow> hist w' = hist w \<and> durable w' = durable w) \<and>
     (\<forall>w r w'. p_now P w = (r, w') \<longrightarrow> hist w' = hist w \<and> durable w' = durable w) \<and>
     (\<forall>w r w'. p_date P w = (r, w') \<longrightarrow> hist w' = hist w \<and> durable w' = durable w) \<and>
     (\<forall>w r w'. p_second_of_day P w = (r, w') \<longrightarrow> hist w' = hist w \<and> durable w' = durable w)"

definition codecs_ok :: "'w platform \<Rightarrow> bool" where
  "codecs_ok P \<longleftrightarrow>
     (\<forall>k n a m c. p_encrypt P k n a m = Some c \<longrightarrow> p_decrypt P k n a c = Some m) \<and>
     (\<forall>r. p_dec_key P (p_enc_key P r) = Inr r) \<and>
     (\<forall>r. p_dec_balance P (p_enc_balance P r) = Inr r) \<and>
     (\<forall>r. p_dec_owed P (p_enc_owed P r) = Inr r)"

definition platform_ok :: "'w platform \<Rightarrow> ('w \<Rightarrow> history) \<Rightarrow> ('w \<Rightarrow> nat) \<Rightarrow> bool" where
  "platform_ok P hist durable \<longleftrightarrow>
     engine_ok P hist durable \<and> host_ok P hist durable \<and> codecs_ok P"

text \<open>The ideal reading of an authenticated cipher over derived keys: a
  ciphertext opens only under the key, nonce and associated data that made it,
  and distinct master keys give distinct derived keys.\<close>

definition aead_ideal :: "'w platform \<Rightarrow> bool" where
  "aead_ideal P \<longleftrightarrow>
     (\<forall>k n a m c k' n' a' m'. p_encrypt P k n a m = Some c \<longrightarrow> p_decrypt P k' n' a' c = Some m'
        \<longrightarrow> k' = k \<and> n' = n \<and> a' = a) \<and>
     (\<forall>d m m'. p_kdf P d m = p_kdf P d m' \<longrightarrow> m = m')"

text \<open>SHA-256 in hexadecimal: 64 digits.\<close>

definition digest_ok :: "'w platform \<Rightarrow> bool" where
  "digest_ok P \<longleftrightarrow>
     (\<forall>b. length (p_hex P (p_sha256 P b)) = 64 \<and>
        set (p_hex P (p_sha256 P b)) \<subseteq> set ''0123456789abcdef'')"

text \<open>What a restart can find: a prefix of the history with the durable part,
  all of it on disk.\<close>

definition crash_of :: "('w \<Rightarrow> history) \<Rightarrow> ('w \<Rightarrow> nat) \<Rightarrow> 'w \<Rightarrow> 'w \<Rightarrow> bool" where
  "crash_of hist durable w w' \<longleftrightarrow>
     (\<exists>n. durable w \<le> n \<and> n \<le> length (hist w) \<and> hist w' = take n (hist w) \<and> durable w' = n)"

lemma engine_get:
  "engine_ok P hist durable \<Longrightarrow> p_get P k w = Inr v \<Longrightarrow> v = replay (hist w) k"
  by (simp add: engine_ok_def)

lemma engine_write:
  assumes "engine_ok P hist durable"
  shows "p_write P sync kvs w = (Inr (), w') \<Longrightarrow> hist w' = hist w @ [kvs]"
    and "p_write P True kvs w = (Inr (), w') \<Longrightarrow> durable w' = length (hist w')"
    and "p_write P sync kvs w = (Inl e, w') \<Longrightarrow> hist w' = hist w"
    and "p_write P sync kvs w = (r, w') \<Longrightarrow> durable w \<le> durable w'"
  using assms by (cases r; auto simp: engine_ok_def)+

lemma host_state:
  assumes "host_ok P hist durable"
  shows "p_fill P n w = (r, w') \<Longrightarrow> hist w' = hist w \<and> durable w' = durable w"
    and "p_uuid P w = (u, w') \<Longrightarrow> hist w' = hist w \<and> durable w' = durable w"
    and "p_now P w = (t, w') \<Longrightarrow> hist w' = hist w \<and> durable w' = durable w"
    and "p_date P w = (d, w') \<Longrightarrow> hist w' = hist w \<and> durable w' = durable w"
    and "p_second_of_day P w = (s, w') \<Longrightarrow> hist w' = hist w \<and> durable w' = durable w"
  using assms unfolding host_ok_def by blast+

lemma host_fill: "host_ok P hist durable \<Longrightarrow> p_fill P n w = (Some b, w') \<Longrightarrow> length b = n"
  by (auto simp: host_ok_def)

lemma codecs:
  assumes "codecs_ok P"
  shows "p_encrypt P k n a m = Some c \<Longrightarrow> p_decrypt P k n a c = Some m"
    and "p_dec_key P (p_enc_key P kr) = Inr kr"
    and "p_dec_balance P (p_enc_balance P br) = Inr br"
    and "p_dec_owed P (p_enc_owed P ro) = Inr ro"
  using assms by (auto simp: codecs_ok_def)

lemma platform_okD:
  assumes "platform_ok P hist durable"
  shows "engine_ok P hist durable" and "host_ok P hist durable" and "codecs_ok P"
  using assms by (auto simp: platform_ok_def)

section \<open>Prefix scans\<close>

text \<open>\<open>starts_with\<close>, and the loop of the scans: rows up to the first one
  without the prefix.\<close>

definition starts_with :: "string \<Rightarrow> string \<Rightarrow> bool" where
  "starts_with p k \<longleftrightarrow> take (length p) k = p"

lemma starts_with_append [simp]: "starts_with p (p @ s)"
  by (simp add: starts_with_def)

lemma starts_withE:
  assumes "starts_with p k"
  obtains s where "k = p @ s"
  using assms by (metis append_take_drop_id starts_with_def)

lemma starts_with_Cons [simp]:
  "starts_with (c # p) k \<longleftrightarrow> (\<exists>k'. k = c # k' \<and> starts_with p k')"
  by (cases k) (auto simp: starts_with_def)

lemma starts_with_Nil [simp]: "starts_with [] k"
  by (simp add: starts_with_def)

lemma starts_with_le: "starts_with p k \<Longrightarrow> p \<le> k"
  by (induction p arbitrary: k) auto

lemma starts_with_gap:
  "p \<le> k \<Longrightarrow> \<not> starts_with p k \<Longrightarrow> k < k' \<Longrightarrow> \<not> starts_with p k'"
proof (induction p arbitrary: k k')
  case (Cons c p)
  then show ?case by (cases k; cases k') (auto split: if_splits)
qed simp

lemma scan_prefix:
  assumes "sorted_wrt (\<lambda>a b. fst a < fst b) rows" and "\<And>r. r \<in> set rows \<Longrightarrow> p \<le> fst r"
  shows "takeWhile (\<lambda>r. starts_with p (fst r)) rows = filter (\<lambda>r. starts_with p (fst r)) rows"
  using assms
proof (induction rows)
  case (Cons r rows)
  show ?case
  proof (cases "starts_with p (fst r)")
    case False
    then have "\<not> starts_with p (fst r')" if "r' \<in> set rows" for r'
      using that Cons.prems starts_with_gap [of p "fst r" "fst r'"] by auto
    with False show ?thesis by (simp add: filter_empty_conv)
  qed (use Cons in simp)
qed simp

end
