(* ===== verification/Reference_Platform.thy ===== *)
theory Reference_Platform
  imports Platform
begin

text \<open>
  A platform that has the documented behaviour: an engine that keeps its
  history in memory and syncs every write, a cipher that spells out its key,
  nonce and associated data, and self-delimiting serializers. It shows that the
  hypotheses of \<open>Platform\<close> can hold together, and the examples of the store run
  on it.
\<close>

section \<open>Self-delimiting bytes\<close>

fun enc_list :: "bytes \<Rightarrow> bytes" where
  "enc_list [] = [0]"
| "enc_list (b # bs) = 1 # b # enc_list bs"

fun dec_list :: "bytes \<Rightarrow> bytes \<times> bytes" where
  "dec_list (t # cs) =
     (if t = 0 then ([], cs)
      else case cs of [] \<Rightarrow> ([], []) | b # cs' \<Rightarrow> (case dec_list cs' of (bs, r) \<Rightarrow> (b # bs, r)))"
| "dec_list [] = ([], [])"

lemma dec_enc_list [simp]: "dec_list (enc_list bs @ r) = (bs, r)"
  by (induction bs) simp_all

lemma enc_list_append_inject: "enc_list a @ r = enc_list b @ s \<longleftrightarrow> a = b \<and> r = s"
  by (metis dec_enc_list prod.inject)

definition ref_enc_key :: "key_record \<Rightarrow> bytes" where
  "ref_enc_key r =
     enc_list (as_bytes (kr_label r)) @ be_bytes 8 (unat (kr_created_at r))
     @ [of_bool (kr_revoked r)] @ be_bytes 4 (unat (kr_quota_rps r))
     @ be_bytes 8 (unat (kr_daily_quota r))"

definition ref_dec_key :: "bytes \<Rightarrow> string + key_record" where
  "ref_dec_key bs =
     (let (label, c) = dec_list bs
      in Inr \<lparr> kr_label = chars_of label,
               kr_created_at = of_nat (be_val (take 8 c)),
               kr_revoked = (hd (drop 8 c) = 1),
               kr_quota_rps = of_nat (be_val (take 4 (drop 9 c))),
               kr_daily_quota = of_nat (be_val (drop 13 c)) \<rparr>)"

definition ref_enc_balance :: "balance_record \<Rightarrow> bytes" where
  "ref_enc_balance r =
     enc_list (as_bytes (br_label r)) @ be_bytes 8 (unat (br_created_at r))
     @ [of_bool (br_revoked r), br_backing r] @ enc_list (br_deposit_address r)
     @ br_balance_be r"

definition ref_dec_balance :: "bytes \<Rightarrow> string + balance_record" where
  "ref_dec_balance bs =
     (let (label, c) = dec_list bs; (dep, bal) = dec_list (drop 10 c)
      in Inr \<lparr> br_label = chars_of label,
               br_created_at = of_nat (be_val (take 8 c)),
               br_revoked = (hd (drop 8 c) = 1), br_backing = hd (drop 9 c),
               br_deposit_address = dep, br_balance_be = bal \<rparr>)"

definition ref_enc_owed :: "refund_owed \<Rightarrow> bytes" where
  "ref_enc_owed r =
     enc_list (as_bytes (ro_batch_id r))
     @ (case ro_payer r of None \<Rightarrow> [0] | Some p \<Rightarrow> 1 # enc_list (as_bytes p))
     @ enc_list (as_bytes (ro_refund_grains r)) @ be_bytes 8 (unat (ro_recorded_at r))"

definition ref_dec_owed :: "bytes \<Rightarrow> string + refund_owed" where
  "ref_dec_owed bs =
     (let (bid, c) = dec_list bs;
          (payer, c) = (if hd c = 0 then (None, tl c)
             else case dec_list (tl c) of (p, r) \<Rightarrow> (Some (chars_of p), r));
          (grains, c) = dec_list c
      in Inr \<lparr> ro_batch_id = chars_of bid, ro_payer = payer,
               ro_refund_grains = chars_of grains, ro_recorded_at = of_nat (be_val c) \<rparr>)"

lemma of_nat_be_u64 [simp]: "of_nat (be_val (be_bytes 8 (unat (x :: u64)))) = x"
  using unat_less_length [of x] by (simp add: be_val_bytes)

lemma of_nat_be_u32 [simp]: "of_nat (be_val (be_bytes 4 (unat (x :: u32)))) = x"
  using unat_less_length [of x] by (simp add: be_val_bytes)

lemma ref_codecs:
  "ref_dec_key (ref_enc_key kr) = Inr kr"
  "ref_dec_balance (ref_enc_balance br) = Inr br"
  "ref_dec_owed (ref_enc_owed ro) = Inr ro"
  by (simp_all add: ref_dec_key_def ref_enc_key_def ref_dec_balance_def ref_enc_balance_def
      ref_dec_owed_def ref_enc_owed_def Let_def split: option.split)

section \<open>The engine and the host\<close>

record ref_world =
  rw_log :: history
  rw_tick :: nat

definition log_keys :: "history \<Rightarrow> string list" where
  "log_keys h = sort (remdups (map fst (concat h)))"

definition ref_rows :: "string \<Rightarrow> history \<Rightarrow> (string \<times> bytes) list" where
  "ref_rows p h = map (\<lambda>k. (k, the (replay h k))) (filter (\<lambda>k. p \<le> k) (log_keys h))"

fun hex_digits :: "nat \<Rightarrow> nat \<Rightarrow> string" where
  "hex_digits 0 v = []"
| "hex_digits (Suc n) v = hex_digits n (v div 16) @ [''0123456789abcdef'' ! (v mod 16)]"

definition ref_platform :: "ref_world platform" where
  "ref_platform =
     \<lparr> p_get = (\<lambda>k w. Inr (replay (rw_log w) k)),
       p_write = (\<lambda>sync kvs w. (Inr (), w\<lparr> rw_log := rw_log w @ [kvs] \<rparr>)),
       p_scan = (\<lambda>p w. map Inr (ref_rows p (rw_log w))),
       p_nonempty = (\<lambda>w. concat (rw_log w) \<noteq> []),
       p_fill = (\<lambda>n w. (Some (replicate n (of_nat (rw_tick w))), w\<lparr> rw_tick := rw_tick w + 1 \<rparr>)),
       p_uuid = (\<lambda>w. (hex_digits 32 (rw_tick w), w\<lparr> rw_tick := rw_tick w + 1 \<rparr>)),
       p_now = (\<lambda>w. (of_nat (rw_tick w), w)),
       p_date = (\<lambda>w. ((2026, 1, 1), w)),
       p_second_of_day = (\<lambda>w. (0, w)),
       p_sha256 = id, p_hex = (\<lambda>b. hex_digits 64 (be_val b)),
       p_kdf = (\<lambda>d m. m),
       p_encrypt = (\<lambda>k n a m. Some (enc_list k @ enc_list n @ enc_list a @ m)),
       p_decrypt = (\<lambda>k n a c. let h = enc_list k @ enc_list n @ enc_list a
          in if take (length h) c = h then Some (drop (length h) c) else None),
       p_enc_key = ref_enc_key, p_dec_key = ref_dec_key,
       p_enc_balance = ref_enc_balance, p_dec_balance = ref_dec_balance,
       p_enc_owed = ref_enc_owed, p_dec_owed = ref_dec_owed,
       p_u256_dec = (\<lambda>n. dec_string (unat n)) \<rparr>"

definition ref_hist :: "ref_world \<Rightarrow> history" where
  "ref_hist w = rw_log w"

definition ref_durable :: "ref_world \<Rightarrow> nat" where
  "ref_durable w = length (rw_log w)"

lemma apply_batch_dom: "apply_batch kvs m k \<noteq> None \<longleftrightarrow> m k \<noteq> None \<or> k \<in> fst ` set kvs"
  by (induction kvs arbitrary: m) (auto simp: apply_batch_def)

lemma replay_dom: "replay h k \<noteq> None \<longleftrightarrow> k \<in> fst ` set (concat h)"
proof (induction h rule: rev_induct)
  case (snoc kvs h)
  show ?case
    by (simp only: replay_snoc apply_batch_dom snoc.IH concat_append set_append image_Un Un_iff
        concat.simps append_Nil2)
qed simp

lemma sorted_wrt_less_strict:
  "sorted_wrt (<) ks \<Longrightarrow> sorted_wrt (\<lambda>a b. fst a < fst b) (map (\<lambda>k. (k, f k)) ks)"
  by (simp add: sorted_wrt_map)

lemma ref_rows_from: "rows_from p (replay h) (ref_rows p h)"
proof -
  have "sorted_wrt (<) (filter (\<lambda>k. p \<le> k) (log_keys h))"
    by (intro sorted_wrt_filter) (simp add: log_keys_def strict_sorted_iff)
  then have "sorted_wrt (\<lambda>a b. fst a < fst b) (ref_rows p h)"
    unfolding ref_rows_def by (rule sorted_wrt_less_strict)
  moreover have "set (ref_rows p h) = {(k, v). replay h k = Some v \<and> p \<le> k}"
    using replay_dom [of h] by (fastforce simp: ref_rows_def log_keys_def image_iff)
  ultimately show ?thesis by (simp add: rows_from_def)
qed

lemma replay_empty: "(replay h = (\<lambda>k. None)) = (concat h = [])"
proof -
  have "replay h = (\<lambda>k. None) \<longleftrightarrow> (\<forall>k. replay h k = None)"
    by (rule fun_eq_iff)
  also have "\<dots> \<longleftrightarrow> (\<forall>k. k \<notin> fst ` set (concat h))"
    by (intro all_cong1) (metis replay_dom)
  also have "\<dots> \<longleftrightarrow> fst ` set (concat h) = {}"
    by (rule all_not_in_conv)
  also have "\<dots> \<longleftrightarrow> concat h = []"
    by (simp only: image_is_empty set_empty)
  finally show ?thesis .
qed

lemma ref_engine_ok: "engine_ok ref_platform ref_hist ref_durable"
proof -
  have "\<exists>rows. rows_from p (replay (ref_hist w)) rows \<and> p_scan ref_platform p w = map Inr rows"
    for p w
    using ref_rows_from [of p "rw_log w"] by (auto simp: ref_platform_def ref_hist_def)
  moreover have "p_nonempty ref_platform w \<longleftrightarrow> replay (ref_hist w) \<noteq> (\<lambda>k. None)" for w
    unfolding replay_empty by (simp add: ref_platform_def ref_hist_def)
  ultimately show ?thesis
    unfolding engine_ok_def
    by (intro conjI allI impI)
      (auto simp: ref_platform_def ref_hist_def ref_durable_def)
qed

lemma ref_host_ok: "host_ok ref_platform ref_hist ref_durable"
  by (auto simp: host_ok_def ref_platform_def ref_hist_def ref_durable_def)

lemma ref_codecs_ok: "codecs_ok ref_platform"
  by (auto simp: codecs_ok_def ref_platform_def ref_codecs Let_def)

lemma ref_platform_ok: "platform_ok ref_platform ref_hist ref_durable"
  by (simp add: platform_ok_def ref_engine_ok ref_host_ok ref_codecs_ok)

lemma enc_triple_inject:
  assumes "take (length h) c = h" "h = enc_list k' @ enc_list n' @ enc_list a'"
    and "c = enc_list k @ enc_list n @ enc_list a @ m"
  shows "k' = k \<and> n' = n \<and> a' = a"
proof -
  define r where "r = drop (length h) c"
  have "c = h @ r"
    unfolding r_def using assms(1) append_take_drop_id [of "length h" c] by simp
  then have "enc_list k' @ enc_list n' @ enc_list a' @ r = enc_list k @ enc_list n @ enc_list a @ m"
    using assms(2,3) by simp
  then show ?thesis by (simp only: enc_list_append_inject)
qed

lemma ref_encrypt:
  "p_encrypt ref_platform k n a m = Some (enc_list k @ enc_list n @ enc_list a @ m)"
  by (simp add: ref_platform_def)

lemma ref_decrypt_Some:
  "p_decrypt ref_platform k n a c = Some m \<Longrightarrow>
   take (length (enc_list k @ enc_list n @ enc_list a)) c = enc_list k @ enc_list n @ enc_list a"
  by (auto simp: ref_platform_def Let_def split: if_splits)

lemma ref_aead_ideal: "aead_ideal ref_platform"
  unfolding aead_ideal_def
proof (intro conjI allI impI)
  fix k n a m c k' n' a' m'
  assume e: "p_encrypt ref_platform k n a m = Some c"
    and d: "p_decrypt ref_platform k' n' a' c = Some m'"
  have "c = enc_list k @ enc_list n @ enc_list a @ m" using e by (simp add: ref_encrypt)
  with enc_triple_inject [OF ref_decrypt_Some [OF d] refl] have "k' = k \<and> n' = n \<and> a' = a"
    by blast
  then show "k' = k" "n' = n" "a' = a" by simp_all
next
  fix d m m' assume "p_kdf ref_platform d m = p_kdf ref_platform d m'"
  then show "m = m'" by (simp add: ref_platform_def)
qed

lemma length_hex_digits [simp]: "length (hex_digits n v) = n"
  by (induction n arbitrary: v) simp_all

lemma set_hex_digits: "set (hex_digits n v) \<subseteq> set ''0123456789abcdef''"
proof (induction n arbitrary: v)
  case (Suc n)
  have "''0123456789abcdef'' ! (v mod 16) \<in> set ''0123456789abcdef''"
    by (rule nth_mem) simp
  with Suc show ?case by simp
qed simp

lemma ref_digest_ok: "digest_ok ref_platform"
  using set_hex_digits by (auto simp: digest_ok_def ref_platform_def simp del: list.set)

end
