(* ===== verification/Sealed_Store.thy ===== *)
theory Sealed_Store
  imports Reference_Platform
begin

text \<open>
  The encryption at rest of \<open>gateway/src/keystore.rs\<close>: \<open>seal_value\<close> and
  \<open>open_value\<close>, the sealed reads and writes every operation of the store goes
  through, and the marker protocol of \<open>open\<close>. The store is read through
  \<open>plain\<close>, the plaintext of the rows that decrypt under the master key; a
  sealed write is a write of the plaintext there. The interface the money and
  key operations use is the locale \<open>kv_store\<close>.
\<close>

section \<open>Errors\<close>

datatype crypt_error = RngFailure | CryptoFailure | CorruptValue

datatype val_err = DbErr string | CryptErr crypt_error

datatype store_error =
    StoreUnknown
  | StoreRocks string
  | StoreEncode string
  | StoreCrypt crypt_error
  | WrongKey
  | PlaintextStore

fun store_of_val :: "val_err \<Rightarrow> store_error" where
  "store_of_val (DbErr e) = StoreRocks e"
| "store_of_val (CryptErr e) = StoreCrypt e"

section \<open>Sealing a value\<close>

definition namespace_of :: "string \<Rightarrow> string" where
  "namespace_of record_key = takeWhile (\<lambda>c. c \<noteq> CHR '':'') record_key"

definition kdf_domain_prefix :: string where
  "kdf_domain_prefix = ''citrate-gateway/store/ns/v1:''"

definition cipher_for :: "'w platform \<Rightarrow> bytes \<Rightarrow> string \<Rightarrow> bytes" where
  "cipher_for P master ns = p_kdf P (kdf_domain_prefix @ ns) master"

definition seal_value ::
  "'w platform \<Rightarrow> bytes \<Rightarrow> string \<Rightarrow> bytes \<Rightarrow> 'w \<Rightarrow> (crypt_error + bytes) \<times> 'w" where
  "seal_value P master record_key plaintext w =
     (case p_fill P 12 w of
        (None, w1) \<Rightarrow> (Inl RngFailure, w1)
      | (Some nonce, w1) \<Rightarrow>
          (case p_encrypt P (cipher_for P master (namespace_of record_key)) nonce
                  (as_bytes record_key) plaintext of
             None \<Rightarrow> (Inl CryptoFailure, w1)
           | Some ct \<Rightarrow> (Inr (nonce @ ct), w1)))"

definition open_value :: "'w platform \<Rightarrow> bytes \<Rightarrow> string \<Rightarrow> bytes \<Rightarrow> crypt_error + bytes" where
  "open_value P master record_key raw =
     (if length raw < 12 then Inl CorruptValue
      else
        case p_decrypt P (cipher_for P master (namespace_of record_key)) (take 12 raw)
               (as_bytes record_key) (drop 12 raw) of
          None \<Rightarrow> Inl CryptoFailure
        | Some pt \<Rightarrow> Inr pt)"

section \<open>Sealed reads and writes\<close>

definition get_val :: "'w platform \<Rightarrow> bytes \<Rightarrow> string \<Rightarrow> 'w \<Rightarrow> val_err + bytes option" where
  "get_val P master key w =
     (case p_get P key w of
        Inl e \<Rightarrow> Inl (DbErr e)
      | Inr None \<Rightarrow> Inr None
      | Inr (Some raw) \<Rightarrow>
          (case open_value P master key raw of
             Inl e \<Rightarrow> Inl (CryptErr e)
           | Inr b \<Rightarrow> Inr (Some b)))"

definition put_val ::
  "'w platform \<Rightarrow> bytes \<Rightarrow> string \<Rightarrow> bytes \<Rightarrow> bool \<Rightarrow> 'w \<Rightarrow> (val_err + unit) \<times> 'w" where
  "put_val P master key plaintext sync w =
     try_then CryptErr (seal_value P master key plaintext w) (\<lambda>sealed w.
       try_then DbErr (p_write P sync [(key, sealed)] w) (\<lambda>u w. (Inr (), w)))"

definition seal_for ::
  "'w platform \<Rightarrow> bytes \<Rightarrow> string \<Rightarrow> bytes \<Rightarrow> 'w \<Rightarrow> (val_err + bytes) \<times> 'w" where
  "seal_for P master key plaintext w =
     try_then CryptErr (seal_value P master key plaintext w) (\<lambda>sealed w. (Inr sealed, w))"

text \<open>A \<open>WriteBatch\<close> of sealed rows: each row is sealed as it is added, then
  the batch is written in one step.\<close>

fun seal_all ::
  "'w platform \<Rightarrow> bytes \<Rightarrow> (string \<times> bytes) list \<Rightarrow> 'w \<Rightarrow> (val_err + (string \<times> bytes) list) \<times> 'w"
where
  "seal_all P master [] w = (Inr [], w)"
| "seal_all P master ((k, b) # kvs) w =
     try_then id (seal_for P master k b w) (\<lambda>raw w.
       try_then id (seal_all P master kvs w) (\<lambda>raws w. (Inr ((k, raw) # raws), w)))"

definition write_sealed ::
  "'w platform \<Rightarrow> bytes \<Rightarrow> bool \<Rightarrow> (string \<times> bytes) list \<Rightarrow> 'w \<Rightarrow> (val_err + unit) \<times> 'w" where
  "write_sealed P master sync kvs w =
     try_then id (seal_all P master kvs w) (\<lambda>wb w.
       try_then DbErr (p_write P sync wb w) (\<lambda>u w. (Inr (), w)))"

definition raw_put_sealed ::
  "'w platform \<Rightarrow> bytes \<Rightarrow> string \<Rightarrow> bytes \<Rightarrow> 'w \<Rightarrow> (store_error + unit) \<times> 'w" where
  "raw_put_sealed P master key plaintext w =
     try_then StoreCrypt (seal_value P master key plaintext w) (\<lambda>sealed w.
       try_then StoreRocks (p_write P False [(key, sealed)] w) (\<lambda>u w. (Inr (), w)))"

definition raw_get_unsealed ::
  "'w platform \<Rightarrow> bytes \<Rightarrow> string \<Rightarrow> 'w \<Rightarrow> store_error + bytes option" where
  "raw_get_unsealed P master key w =
     (case p_get P key w of
        Inl e \<Rightarrow> Inl (StoreRocks e)
      | Inr None \<Rightarrow> Inr None
      | Inr (Some raw) \<Rightarrow>
          (case open_value P master key raw of
             Inl e \<Rightarrow> Inl (StoreCrypt e)
           | Inr b \<Rightarrow> Inr (Some b)))"

section \<open>Opening the store\<close>

definition enc_marker_key :: string where
  "enc_marker_key = ''meta:enc''"

definition enc_marker_plaintext :: bytes where
  "enc_marker_plaintext = as_bytes ''citrate-gateway-store-enc-v1''"

definition check_or_init_enc_marker ::
  "'w platform \<Rightarrow> bytes \<Rightarrow> 'w \<Rightarrow> (store_error + unit) \<times> 'w" where
  "check_or_init_enc_marker P master w =
     (case p_get P enc_marker_key w of
        Inl e \<Rightarrow> (Inl (StoreRocks e), w)
      | Inr (Some raw) \<Rightarrow>
          (case open_value P master enc_marker_key raw of
             Inl e \<Rightarrow> (Inl WrongKey, w)
           | Inr pt \<Rightarrow> if pt \<noteq> enc_marker_plaintext then (Inl WrongKey, w) else (Inr (), w))
      | Inr None \<Rightarrow>
          if p_nonempty P w then (Inl PlaintextStore, w)
          else
            try_then StoreCrypt (seal_value P master enc_marker_key enc_marker_plaintext w)
              (\<lambda>sealed w.
                try_then StoreRocks (p_write P True [(enc_marker_key, sealed)] w)
                  (\<lambda>u w. (Inr (), w))))"

section \<open>The plaintext view\<close>

definition plain :: "'w platform \<Rightarrow> bytes \<Rightarrow> (string \<Rightarrow> bytes option) \<Rightarrow> string \<Rightarrow> bytes option" where
  "plain P master m k =
     (case m k of
        None \<Rightarrow> None
      | Some raw \<Rightarrow> (case open_value P master k raw of Inl e \<Rightarrow> None | Inr b \<Rightarrow> Some b))"

definition all_sealed :: "'w platform \<Rightarrow> bytes \<Rightarrow> (string \<Rightarrow> bytes option) \<Rightarrow> bool" where
  "all_sealed P master m \<longleftrightarrow>
     (\<forall>k raw. m k = Some raw \<longrightarrow> (\<exists>b. open_value P master k raw = Inr b))"

abbreviation view :: "'w platform \<Rightarrow> bytes \<Rightarrow> ('w \<Rightarrow> history) \<Rightarrow> 'w \<Rightarrow> string \<Rightarrow> bytes option" where
  "view P master hist w \<equiv> plain P master (replay (hist w))"

lemma plain_empty [simp]: "plain P master (\<lambda>k. None) = (\<lambda>k. None)"
  by (simp add: plain_def fun_eq_iff)

lemma plain_upd:
  "open_value P master k raw = Inr b
   \<Longrightarrow> plain P master (m(k \<mapsto> raw)) = (plain P master m)(k \<mapsto> b)"
  by (auto simp: plain_def fun_eq_iff)

lemma all_sealed_upd:
  "open_value P master k raw = Inr b \<Longrightarrow> all_sealed P master m
   \<Longrightarrow> all_sealed P master (m(k \<mapsto> raw))"
  by (auto simp: all_sealed_def)

lemma seal_value_opens:
  assumes ok: "platform_ok P hist durable" and s: "seal_value P master k b w = (Inr raw, w')"
  shows "open_value P master k raw = Inr b"
proof -
  obtain nonce ct where n: "p_fill P 12 w = (Some nonce, w')"
    and e: "p_encrypt P (cipher_for P master (namespace_of k)) nonce (as_bytes k) b = Some ct"
    and raw: "raw = nonce @ ct"
    using s by (auto simp: seal_value_def split: prod.splits option.splits)
  have "length nonce = 12" by (rule host_fill [OF platform_okD(2) [OF ok] n])
  with raw codecs(1) [OF platform_okD(3) [OF ok] e] show ?thesis
    by (simp add: open_value_def)
qed

lemma seal_value_state:
  assumes "platform_ok P hist durable" and "seal_value P master k b w = (r, w')"
  shows "hist w' = hist w \<and> durable w' = durable w"
  using assms host_state(1) [OF platform_okD(2) [OF assms(1)]]
  by (auto simp: seal_value_def split: prod.splits option.splits)

lemma seal_for_Inr:
  assumes "platform_ok P hist durable" and "seal_for P master k b w = (Inr raw, w')"
  shows "open_value P master k raw = Inr b"
  using assms seal_value_opens by (auto simp: seal_for_def elim!: try_then_InrE)

lemma seal_for_state:
  assumes "platform_ok P hist durable" and "seal_for P master k b w = (r, w')"
  shows "hist w' = hist w \<and> durable w' = durable w"
  using assms(2) seal_value_state [OF assms(1)] by (auto simp: seal_for_def elim!: try_then_cases)

lemma seal_all_state:
  assumes ok: "platform_ok P hist durable"
  shows "seal_all P master kvs w = (r, w') \<Longrightarrow> hist w' = hist w \<and> durable w' = durable w"
proof (induction kvs arbitrary: w r w')
  case (Cons kv kvs)
  obtain k b where kv: "kv = (k, b)" by (cases kv)
  from Cons.prems show ?case unfolding kv seal_all.simps
  proof (cases rule: try_then_cases)
    case (err e)
    then show ?thesis using seal_for_state [OF ok] by blast
  next
    case (ok raw w1)
    note s1 = seal_for_state [OF assms ok(1)]
    from ok(2) show ?thesis
      by (cases rule: try_then_cases) (use Cons.IH s1 in auto)
  qed
qed simp

lemma seal_all_Inr:
  assumes ok: "platform_ok P hist durable"
  shows "seal_all P master kvs w = (Inr raws, w') \<Longrightarrow>
    list_all2 (\<lambda>(k, b) (k', raw). k' = k \<and> open_value P master k raw = Inr b) kvs raws"
proof (induction kvs arbitrary: w raws w')
  case (Cons kv kvs)
  obtain k b where kv: "kv = (k, b)" by (cases kv)
  from Cons.prems Cons.IH show ?case
    unfolding kv by (auto elim!: try_then_InrE dest: seal_for_Inr [OF ok])
qed simp

lemma plain_apply_batch:
  "list_all2 (\<lambda>(k, b) (k', raw). k' = k \<and> open_value P master k raw = Inr b) kvs raws
   \<Longrightarrow> plain P master (apply_batch raws m) = apply_batch kvs (plain P master m)"
proof (induction kvs raws arbitrary: m rule: list_all2_induct)
  case (Cons kv kvs kr raws)
  then show ?case by (cases kv; cases kr) (simp add: plain_upd del: fun_upd_apply)
qed simp

lemma all_sealed_apply_batch:
  "list_all2 (\<lambda>(k, b) (k', raw). k' = k \<and> open_value P master k raw = Inr b) kvs raws
   \<Longrightarrow> all_sealed P master m \<Longrightarrow> all_sealed P master (apply_batch raws m)"
proof (induction kvs raws arbitrary: m rule: list_all2_induct)
  case (Cons kv kvs kr raws)
  then show ?case by (cases kv; cases kr) (auto intro: all_sealed_upd)
qed simp

section \<open>The interface of the store\<close>

text \<open>A key-value store with atomic batches: what the operations on money and
  keys rely on. \<open>val\<close> is the contents, \<open>good\<close> the states the laws hold in.\<close>

locale kv_store =
  fixes get :: "string \<Rightarrow> 'w \<Rightarrow> 'e + bytes option"
    and commit :: "bool \<Rightarrow> (string \<times> bytes) list \<Rightarrow> 'w \<Rightarrow> ('e + unit) \<times> 'w"
    and val :: "'w \<Rightarrow> string \<Rightarrow> bytes option"
    and good :: "'w \<Rightarrow> bool"
  assumes get_val: "good w \<Longrightarrow> get k w = Inr v \<Longrightarrow> v = val w k"
    and write_good: "good w \<Longrightarrow> commit sync kvs w = (r, w') \<Longrightarrow> good w'"
    and write_ok: "good w \<Longrightarrow> commit sync kvs w = (Inr u, w') \<Longrightarrow> val w' = apply_batch kvs (val w)"
    and write_error: "good w \<Longrightarrow> commit sync kvs w = (Inl e, w') \<Longrightarrow> val w' = val w"
begin

text \<open>A write is seen by the next read of its key and by no other read; a
  batch is applied whole or not at all.\<close>

lemma read_after_write:
  assumes "good w" and "commit sync [(k, b)] w = (Inr u, w')" and "get k' w' = Inr v"
  shows "v = (if k' = k then Some b else val w k')"
  using get_val [OF write_good [OF assms(1,2)] assms(3)] write_ok [OF assms(1,2)] by simp

lemma write_whole_or_none:
  assumes "good w" and "commit sync kvs w = (r, w')"
  shows "val w' = val w \<or> val w' = apply_batch kvs (val w)"
  using assms write_ok write_error by (cases r) (metis old.unit.exhaust)+

lemma get_after_failed_write:
  assumes "good w" and "commit sync kvs w = (Inl e, w')" and "get k w' = Inr v"
  shows "v = val w k"
  using get_val [OF write_good [OF assms(1,2)] assms(3)] write_error [OF assms(1,2)] by simp

end

definition store_good :: "'w platform \<Rightarrow> bytes \<Rightarrow> ('w \<Rightarrow> history) \<Rightarrow> ('w \<Rightarrow> nat) \<Rightarrow> 'w \<Rightarrow> bool" where
  "store_good P master hist durable w \<longleftrightarrow>
     platform_ok P hist durable \<and> all_sealed P master (replay (hist w))"

lemma get_val_Inr:
  assumes "platform_ok P hist durable" and "get_val P master k w = Inr v"
  shows "v = view P master hist w k"
proof -
  obtain raw where "p_get P k w = Inr raw"
    using assms(2) by (auto simp: get_val_def split: sum.splits)
  with engine_get [OF platform_okD(1) [OF assms(1)]] have "replay (hist w) k = raw" by metis
  with \<open>p_get P k w = Inr raw\<close> assms(2) show ?thesis
    by (auto simp: get_val_def plain_def split: option.splits sum.splits)
qed

lemma write_sealed_cases:
  assumes ok: "platform_ok P hist durable" and w: "write_sealed P master sync kvs w = (r, w')"
  obtains (err) e where "r = Inl e" "hist w' = hist w" "durable w \<le> durable w'"
  | (written) raws where "r = Inr ()" "hist w' = hist w @ [raws]" "durable w \<le> durable w'"
      "list_all2 (\<lambda>(k, b) (k', raw). k' = k \<and> open_value P master k raw = Inr b) kvs raws"
      "sync \<longrightarrow> durable w' = length (hist w')"
  using w unfolding write_sealed_def
proof (cases rule: try_then_cases)
  case (err e)
  with seal_all_state [OF ok] show thesis by (intro that(1)) auto
next
  case (ok raws w1)
  note s = seal_all_state [OF assms(1) ok(1)] seal_all_Inr [OF assms(1) ok(1)]
  note W = engine_write [OF platform_okD(1) [OF assms(1)]]
  from ok(2) show thesis
  proof (cases rule: try_then_cases)
    case (err e)
    then show thesis using s W(3) [OF err(1)] W(4) [OF err(1)] by (intro that(1)) auto
  next
    case (ok u w2)
    have wr: "p_write P sync raws w1 = (Inr (), w')" and "r = Inr ()" using ok by auto
    moreover have "sync \<longrightarrow> durable w' = length (hist w')" using W(2) wr by (cases sync) auto
    ultimately show thesis using s W(1) [OF wr] W(4) [OF wr] by (intro that(2)) auto
  qed
qed

interpretation sealed: kv_store "get_val P master" "write_sealed P master"
  "view P master hist" "store_good P master hist durable"
  for P :: "'w platform" and master hist durable
proof
  fix w :: 'w and k v assume "store_good P master hist durable w" "get_val P master k w = Inr v"
  then show "v = view P master hist w k"
    using get_val_Inr by (auto simp: store_good_def)
next
  fix w w' :: 'w and sync kvs r
  assume "store_good P master hist durable w" and wr: "write_sealed P master sync kvs w = (r, w')"
  then have ok: "platform_ok P hist durable" and s: "all_sealed P master (replay (hist w))"
    by (auto simp: store_good_def)
  from ok wr show "store_good P master hist durable w'"
    by (cases rule: write_sealed_cases)
      (use ok s all_sealed_apply_batch in \<open>auto simp: store_good_def\<close>)
next
  fix w w' :: 'w and sync kvs u
  assume "store_good P master hist durable w"
    and wr: "write_sealed P master sync kvs w = (Inr u, w')"
  then have ok: "platform_ok P hist durable" by (auto simp: store_good_def)
  from ok wr show "view P master hist w' = apply_batch kvs (view P master hist w)"
    by (cases rule: write_sealed_cases) (auto simp: plain_apply_batch)
next
  fix w w' :: 'w and sync kvs e
  assume "store_good P master hist durable w"
    and wr: "write_sealed P master sync kvs w = (Inl e, w')"
  then have ok: "platform_ok P hist durable" by (auto simp: store_good_def)
  from ok wr show "view P master hist w' = view P master hist w"
    by (cases rule: write_sealed_cases) auto
qed

text \<open>A single sealed put is the batch with one row.\<close>

lemma put_val_write: "put_val P master k b sync w = write_sealed P master sync [(k, b)] w"
  by (auto simp: put_val_def write_sealed_def seal_for_def try_then_def
      split: prod.splits sum.splits)

lemma store_good_platform: "store_good P master hist durable w \<Longrightarrow> platform_ok P hist durable"
  by (simp add: store_good_def)

lemma put_val_Inr:
  assumes "store_good P master hist durable w" and "put_val P master k b sync w = (Inr u, w')"
  shows "store_good P master hist durable w'"
    and "view P master hist w' = (view P master hist w)(k \<mapsto> b)"
    and "sync \<Longrightarrow> durable w' = length (hist w')"
  using assms sealed.write_ok [of P master hist durable w sync "[(k, b)]" u w']
    sealed.write_good [of P master hist durable w sync "[(k, b)]" "Inr u" w']
  by (auto simp: put_val_write elim: write_sealed_cases [OF store_good_platform, rotated])

lemma put_val_Inl:
  assumes "store_good P master hist durable w" and "put_val P master k b sync w = (Inl e, w')"
  shows "store_good P master hist durable w'"
    and "view P master hist w' = view P master hist w"
  using assms sealed.write_error [of P master hist durable w sync "[(k, b)]" e w']
    sealed.write_good [of P master hist durable w sync "[(k, b)]" "Inl e" w']
  by (simp_all add: put_val_write)

text \<open>The two faults of a row: it cannot be read in a store, or a given value
  cannot be written under it. Each says what the store's own call returns
  there.\<close>

definition row_unreadable :: "'w platform \<Rightarrow> bytes \<Rightarrow> string \<Rightarrow> 'w \<Rightarrow> bool" where
  "row_unreadable P master k w \<longleftrightarrow> (\<exists>e. get_val P master k w = Inl e)"

definition row_unwritable ::
  "'w platform \<Rightarrow> bytes \<Rightarrow> bool \<Rightarrow> string \<Rightarrow> bytes \<Rightarrow> 'w \<Rightarrow> bool" where
  "row_unwritable P master sync k b w \<longleftrightarrow> (\<exists>e w'. put_val P master k b sync w = (Inl e, w'))"

lemma unreadableI: "get_val P master k w = Inl e \<Longrightarrow> row_unreadable P master k w"
  by (auto simp: row_unreadable_def)

lemma unwritableI: "put_val P master k b sync w = (Inl e, w') \<Longrightarrow> row_unwritable P master sync k b w"
  by (auto simp: row_unwritable_def)

section \<open>What is sealed stays where it was put\<close>

lemma sealed_other_key:
  assumes ok: "platform_ok P hist durable" and ideal: "aead_ideal P"
    and s: "seal_value P master k b w = (Inr raw, w')" and other: "k' \<noteq> k \<or> master' \<noteq> master"
  shows "open_value P master' k' raw = Inl CryptoFailure"
proof -
  obtain nonce ct where n: "p_fill P 12 w = (Some nonce, w')"
    and e: "p_encrypt P (cipher_for P master (namespace_of k)) nonce (as_bytes k) b = Some ct"
    and raw: "raw = nonce @ ct"
    using s by (auto simp: seal_value_def split: prod.splits option.splits)
  have len: "length nonce = 12" by (rule host_fill [OF platform_okD(2) [OF ok] n])
  have "p_decrypt P (cipher_for P master' (namespace_of k')) nonce (as_bytes k') ct = None"
  proof (rule ccontr)
    assume "p_decrypt P (cipher_for P master' (namespace_of k')) nonce (as_bytes k') ct \<noteq> None"
    then obtain m' where "p_decrypt P (cipher_for P master' (namespace_of k')) nonce (as_bytes k') ct
        = Some m'" by blast
    with ideal e have "cipher_for P master' (namespace_of k') = cipher_for P master (namespace_of k)
        \<and> as_bytes k' = as_bytes k"
      unfolding aead_ideal_def by metis
    with ideal other show False by (auto simp: cipher_for_def aead_ideal_def)
  qed
  with raw len show ?thesis by (simp add: open_value_def)
qed

text \<open>C10. A stored value opens under its own row and master key, and only
  there: moved to another row, or read with another master key, it fails to
  decrypt. So a rich balance copied over a poor one is refused, and a store
  opened with the wrong key is refused at its marker.\<close>

theorem sealed_value_bound:
  assumes ok: "platform_ok P hist durable" and ideal: "aead_ideal P"
    and s: "seal_value P master k b w = (Inr raw, w')"
  shows "open_value P master k raw = Inr b
    \<and> (\<forall>k' master'. (k' \<noteq> k \<or> master' \<noteq> master) \<longrightarrow> open_value P master' k' raw = Inl CryptoFailure)"
  using seal_value_opens [OF ok s] sealed_other_key [OF ok ideal s] by blast

definition ref_start :: ref_world where
  "ref_start = \<lparr> rw_log = [], rw_tick = 7 \<rparr>"

definition ref_master :: bytes where
  "ref_master = replicate 32 1"

lemma ref_seals: "\<exists>raw w'. seal_value ref_platform master k b w = (Inr raw, w')"
  by (simp add: seal_value_def ref_platform_def)

theorem sealed_value_bound_witness:
  "\<exists>raw w'. seal_value ref_platform ref_master ''bal:a'' [5] ref_start = (Inr raw, w')
     \<and> open_value ref_platform ref_master ''bal:a'' raw = Inr [5]
     \<and> open_value ref_platform ref_master ''bal:b'' raw = Inl CryptoFailure"
proof -
  obtain raw w' where s: "seal_value ref_platform ref_master ''bal:a'' [5] ref_start = (Inr raw, w')"
    using ref_seals by blast
  note bound = sealed_value_bound [OF ref_platform_ok ref_aead_ideal s]
  have "open_value ref_platform ref_master ''bal:b'' raw = Inl CryptoFailure"
    by (rule conjunct2 [OF bound, rule_format]) simp
  with s conjunct1 [OF bound] show ?thesis by (intro exI conjI)
qed

section \<open>The marker protocol\<close>

lemma check_marker_present:
  assumes ok: "platform_ok P hist durable" and m: "replay (hist w) enc_marker_key = Some raw"
    and bad: "open_value P master enc_marker_key raw = Inl e"
  shows "\<exists>e. check_or_init_enc_marker P master w = (Inl e, w)
    \<and> (e = WrongKey \<or> (\<exists>m. e = StoreRocks m))"
proof (cases "p_get P enc_marker_key w")
  case (Inr v)
  then have "v = Some raw" using engine_get [OF platform_okD(1) [OF ok] Inr] m by simp
  with Inr bad show ?thesis by (simp add: check_or_init_enc_marker_def)
qed (simp add: check_or_init_enc_marker_def)

lemma check_marker_absent:
  assumes ok: "platform_ok P hist durable" and m: "replay (hist w) enc_marker_key = None"
    and rows: "replay (hist w) \<noteq> (\<lambda>k. None)"
  shows "\<exists>e. check_or_init_enc_marker P master w = (Inl e, w)
    \<and> (e = PlaintextStore \<or> (\<exists>m. e = StoreRocks m))"
proof (cases "p_get P enc_marker_key w")
  case (Inr v)
  then have "v = None" using engine_get [OF platform_okD(1) [OF ok] Inr] m by simp
  moreover have "p_nonempty P w"
    using platform_okD(1) [OF ok] rows by (simp add: engine_ok_def)
  ultimately show ?thesis using Inr by (simp add: check_or_init_enc_marker_def)
qed (simp add: check_or_init_enc_marker_def)

lemma check_marker_fresh:
  assumes ok: "platform_ok P hist durable" and fresh: "hist w = []"
    and c: "check_or_init_enc_marker P master w = (Inr (), w')"
  obtains raw w0 where
    "seal_value P master enc_marker_key enc_marker_plaintext w = (Inr raw, w0)"
    "hist w' = [[(enc_marker_key, raw)]]" "durable w' = 1"
proof -
  note E = platform_okD(1) [OF ok]
  have get: "p_get P enc_marker_key w = Inr None"
  proof (cases "p_get P enc_marker_key w")
    case (Inr v)
    from engine_get [OF E Inr] fresh Inr show ?thesis by simp
  qed (use c in \<open>simp add: check_or_init_enc_marker_def\<close>)
  have "\<not> p_nonempty P w"
    using get c by (cases "p_nonempty P w") (simp_all add: check_or_init_enc_marker_def)
  with get c have "try_then StoreCrypt (seal_value P master enc_marker_key enc_marker_plaintext w)
      (\<lambda>sealed w. try_then StoreRocks (p_write P True [(enc_marker_key, sealed)] w)
        (\<lambda>u w. (Inr (), w))) = (Inr (), w')"
    by (simp add: check_or_init_enc_marker_def)
  then obtain raw w0 where
    s: "seal_value P master enc_marker_key enc_marker_plaintext w = (Inr raw, w0)"
    and "try_then StoreRocks (p_write P True [(enc_marker_key, raw)] w0) (\<lambda>u w. (Inr (), w))
      = (Inr (), w')"
    by (rule try_then_InrE)
  then obtain u w1 where "p_write P True [(enc_marker_key, raw)] w0 = (Inr u, w1)"
    and "(Inr (), w1) = (Inr () :: store_error + unit, w')"
    by (elim try_then_InrE)
  then have wr: "p_write P True [(enc_marker_key, raw)] w0 = (Inr (), w')" by simp
  have "hist w' = [[(enc_marker_key, raw)]]"
    using seal_value_state [OF ok s] engine_write(1) [OF E wr] fresh by simp
  moreover from this have "durable w' = 1" using engine_write(2) [OF E wr] by simp
  ultimately show thesis by (rule that [OF s])
qed

text \<open>Opening a store: an empty one gets its marker on disk before any
  row and is then encrypted throughout. While that marker stays, opening it
  under any other master key is refused; and a store with rows but no marker is
  refused as plaintext. A refusal changes nothing.\<close>

theorem open_marker_protocol:
  assumes ok: "platform_ok P hist durable" and ideal: "aead_ideal P"
    and fresh: "hist w = []" and opened: "check_or_init_enc_marker P master w = (Inr (), w')"
    and kept: "replay (hist w2) enc_marker_key = replay (hist w') enc_marker_key"
    and other: "master' \<noteq> master"
    and legacy: "replay (hist w3) enc_marker_key = None" "replay (hist w3) \<noteq> (\<lambda>k. None)"
  shows "store_good P master hist durable w' \<and> durable w' = length (hist w')
    \<and> view P master hist w' = [enc_marker_key \<mapsto> enc_marker_plaintext]
    \<and> (\<exists>e. check_or_init_enc_marker P master' w2 = (Inl e, w2)
         \<and> (e = WrongKey \<or> (\<exists>m. e = StoreRocks m)))
    \<and> (\<exists>e. check_or_init_enc_marker P master w3 = (Inl e, w3)
         \<and> (e = PlaintextStore \<or> (\<exists>m. e = StoreRocks m)))"
proof -
  obtain raw w0 where
    s: "seal_value P master enc_marker_key enc_marker_plaintext w = (Inr raw, w0)"
    and h: "hist w' = [[(enc_marker_key, raw)]]" and d: "durable w' = 1"
    by (rule check_marker_fresh [OF ok fresh opened])
  have r: "replay (hist w') = [enc_marker_key \<mapsto> raw]"
    using replay_snoc [of "[]" "[(enc_marker_key, raw)]"] by (simp add: h)
  have o: "open_value P master enc_marker_key raw = Inr enc_marker_plaintext"
    by (rule seal_value_opens [OF ok s])
  have "\<exists>e. open_value P master' enc_marker_key raw = Inl e"
    using sealed_other_key [OF ok ideal s, where k' = enc_marker_key and master' = master'] other
    by blast
  then have "\<exists>e. check_or_init_enc_marker P master' w2 = (Inl e, w2)
         \<and> (e = WrongKey \<or> (\<exists>m. e = StoreRocks m))"
    using check_marker_present [OF ok, of w2 raw master'] kept r by auto
  moreover have "store_good P master hist durable w'"
    using ok o r by (auto simp: store_good_def all_sealed_def)
  moreover have "view P master hist w' = [enc_marker_key \<mapsto> enc_marker_plaintext]"
    unfolding r using plain_upd [OF o, of "\<lambda>k. None"] by simp
  ultimately show ?thesis
    using check_marker_absent [OF ok legacy] h d by auto
qed

theorem open_marker_protocol_witness:
  "\<exists>w'. check_or_init_enc_marker ref_platform ref_master ref_start = (Inr (), w')
     \<and> view ref_platform ref_master ref_hist w' = [enc_marker_key \<mapsto> enc_marker_plaintext]
     \<and> (\<exists>e. check_or_init_enc_marker ref_platform (replicate 32 2) w' = (Inl e, w'))"
proof -
  obtain raw w0 where s: "seal_value ref_platform ref_master enc_marker_key enc_marker_plaintext
      ref_start = (Inr raw, w0)"
    using ref_seals by blast
  obtain w' where c: "check_or_init_enc_marker ref_platform ref_master ref_start = (Inr (), w')"
    using s by (auto simp: check_or_init_enc_marker_def)
      (auto simp: ref_platform_def ref_start_def)
  define w3 where "w3 = \<lparr> rw_log = [[(''bal:a'', [1])]], rw_tick = 0 \<rparr>"
  have "replay (ref_hist w3) = [''bal:a'' \<mapsto> [1]]"
    using replay_snoc [of "[]" "[(''bal:a'', [1])]"] by (simp add: w3_def ref_hist_def)
  then have l: "replay (ref_hist w3) enc_marker_key = None" "replay (ref_hist w3) \<noteq> (\<lambda>k. None)"
    by (simp_all add: enc_marker_key_def)
  have "ref_hist ref_start = []" by (simp add: ref_hist_def ref_start_def)
  from open_marker_protocol [OF ref_platform_ok ref_aead_ideal this c refl _ l,
      of "replicate 32 2"] c
  show ?thesis by (auto simp: ref_master_def)
qed

end
