(* ===== verification/Balances.thy ===== *)
theory Balances
  imports Sealed_Store
begin

text \<open>
  The durable money of \<open>gateway/src/keystore.rs\<close>: balance records, the
  settlement of batches, refund obligations and per-model budgets. Each
  operation runs under the lock of its key, so it is one function from the
  state of the platform to the next. \<open>acct\<close> reads the balance records out of
  the plaintext of the store; the locale \<open>money_store\<close> is the contract of a
  store of balances, which the durable operations meet.
\<close>

section \<open>Row keys\<close>

definition record_key :: "string \<Rightarrow> string" where "record_key h = ''record:'' @ h"
definition bal_key :: "string \<Rightarrow> string" where "bal_key h = ''bal:'' @ h"
definition batch_key :: "string \<Rightarrow> string" where "batch_key i = ''batch:'' @ i"
definition batch_settled_key :: "string \<Rightarrow> string" where "batch_settled_key i = ''batchset:'' @ i"
definition refund_owed_key :: "string \<Rightarrow> string" where "refund_owed_key i = ''refundowed:'' @ i"

definition mbudget_prefix :: "string \<Rightarrow> string" where
  "mbudget_prefix h = ''mbudget:'' @ h @ '':''"

definition mbudget_key :: "string \<Rightarrow> string \<Rightarrow> string" where
  "mbudget_key h model = ''mbudget:'' @ h @ '':'' @ model"

definition quota_key :: "string \<Rightarrow> string \<Rightarrow> string" where
  "quota_key h day = ''quota:'' @ h @ '':'' @ day"

definition member_pool_key :: "string \<Rightarrow> string" where
  "member_pool_key day = ''quota:member-pool:'' @ day"

definition member_label_prefix :: string where
  "member_label_prefix = ''member:''"

definition member_map_key :: "string \<Rightarrow> string" where
  "member_map_key subhash = member_label_prefix @ subhash"

lemmas row_key_defs = record_key_def bal_key_def batch_key_def batch_settled_key_def
  refund_owed_key_def mbudget_prefix_def mbudget_key_def quota_key_def member_pool_key_def
  member_map_key_def member_label_prefix_def

lemma row_key_inject [simp]:
  "record_key a = record_key b \<longleftrightarrow> a = b" "bal_key a = bal_key b \<longleftrightarrow> a = b"
  "batch_key a = batch_key b \<longleftrightarrow> a = b" "batch_settled_key a = batch_settled_key b \<longleftrightarrow> a = b"
  "refund_owed_key a = refund_owed_key b \<longleftrightarrow> a = b"
  "member_map_key a = member_map_key b \<longleftrightarrow> a = b"
  "member_pool_key a = member_pool_key b \<longleftrightarrow> a = b"
  by (simp_all add: row_key_defs)

lemma row_key_disjoint [simp]:
  "record_key a \<noteq> bal_key b" "bal_key b \<noteq> record_key a"
  "bal_key a \<noteq> batch_key b" "batch_key b \<noteq> bal_key a"
  "bal_key a \<noteq> batch_settled_key b" "batch_settled_key b \<noteq> bal_key a"
  "batch_key a \<noteq> batch_settled_key b" "batch_settled_key b \<noteq> batch_key a"
  "bal_key a \<noteq> refund_owed_key b" "refund_owed_key b \<noteq> bal_key a"
  "batch_settled_key a \<noteq> refund_owed_key b" "refund_owed_key b \<noteq> batch_settled_key a"
  "batch_key a \<noteq> refund_owed_key b" "refund_owed_key b \<noteq> batch_key a"
  "bal_key a \<noteq> mbudget_key b c" "mbudget_key b c \<noteq> bal_key a"
  "batch_settled_key a \<noteq> mbudget_key b c" "mbudget_key b c \<noteq> batch_settled_key a"
  "record_key a \<noteq> quota_key b c" "quota_key b c \<noteq> record_key a"
  "bal_key a \<noteq> quota_key b c" "quota_key b c \<noteq> bal_key a"
  "record_key a \<noteq> member_pool_key b" "member_pool_key b \<noteq> record_key a"
  "bal_key a \<noteq> member_pool_key b" "member_pool_key b \<noteq> bal_key a"
  "record_key a \<noteq> member_map_key b" "member_map_key b \<noteq> record_key a"
  "bal_key a \<noteq> member_map_key b" "member_map_key b \<noteq> bal_key a"
  "quota_key a c \<noteq> member_map_key b" "member_map_key b \<noteq> quota_key a c"
  by (simp_all add: row_key_defs)

definition hash_key_id :: "'w platform \<Rightarrow> string \<Rightarrow> string" where
  "hash_key_id P key_id = p_hex P (p_sha256 P (as_bytes key_id))"

section \<open>Errors\<close>

datatype balance_error =
    BalUnknown
  | BalRevoked
  | BalInsufficient u256
  | BalStore string
  | BalEncode string
  | BalCrypt crypt_error

fun balance_of_val :: "val_err \<Rightarrow> balance_error" where
  "balance_of_val (DbErr e) = BalStore e"
| "balance_of_val (CryptErr e) = BalCrypt e"

datatype model_budget_error =
    BudgetExceededBy u256
  | BudgetStore string
  | BudgetEncode string
  | BudgetCrypt crypt_error

fun budget_of_val :: "val_err \<Rightarrow> model_budget_error" where
  "budget_of_val (DbErr e) = BudgetStore e"
| "budget_of_val (CryptErr e) = BudgetCrypt e"

section \<open>Balance records\<close>

definition br_balance :: "balance_record \<Rightarrow> u256" where
  "br_balance r = word_from_slice (br_balance_be r)"

definition set_balance :: "balance_record \<Rightarrow> u256 \<Rightarrow> balance_record" where
  "set_balance r b = r\<lparr> br_balance_be := u256_to_be_bytes b \<rparr>"

lemma br_balance_set [simp]: "br_balance (set_balance r b) = b"
  by (simp add: br_balance_def set_balance_def)

lemma set_balance_simps [simp]:
  "br_revoked (set_balance r b) = br_revoked r" "br_label (set_balance r b) = br_label r"
  "br_backing (set_balance r b) = br_backing r"
  "br_deposit_address (set_balance r b) = br_deposit_address r"
  "set_balance (set_balance r b) c = set_balance r c"
  by (simp_all add: set_balance_def)

text \<open>The read that opens every balance operation.\<close>

definition read_balance ::
  "'w platform \<Rightarrow> bytes \<Rightarrow> string \<Rightarrow> 'w \<Rightarrow> balance_error + balance_record" where
  "read_balance P master h w =
     (case get_val P master (bal_key h) w of
        Inl e \<Rightarrow> Inl (balance_of_val e)
      | Inr None \<Rightarrow> Inl BalUnknown
      | Inr (Some b) \<Rightarrow>
          (case p_dec_balance P b of
             Inl e \<Rightarrow> Inl (BalEncode e)
           | Inr rec \<Rightarrow> Inr rec))"

definition create_balance_key ::
  "'w platform \<Rightarrow> bytes \<Rightarrow> string \<Rightarrow> u256 \<Rightarrow> h160 \<Rightarrow> u8 \<Rightarrow> 'w \<Rightarrow> (store_error + string) \<times> 'w" where
  "create_balance_key P master label balance deposit_address backing w =
     (let (uuid, w) = p_uuid P w;
          id = ''cgk_'' @ uuid;
          h = hash_key_id P id;
          (now, w) = p_now P w;
          rec = \<lparr> br_label = label, br_created_at = now, br_revoked = False,
                  br_backing = backing, br_deposit_address = be_bytes 20 (unat deposit_address),
                  br_balance_be = u256_to_be_bytes balance \<rparr>
      in try_then store_of_val (put_val P master (bal_key h) (p_enc_balance P rec) True w)
           (\<lambda>u w. (Inr id, w)))"

definition get_balance_record ::
  "'w platform \<Rightarrow> bytes \<Rightarrow> string \<Rightarrow> 'w \<Rightarrow> store_error + balance_record option" where
  "get_balance_record P master key_id w =
     (case get_val P master (bal_key (hash_key_id P key_id)) w of
        Inl e \<Rightarrow> Inl (store_of_val e)
      | Inr None \<Rightarrow> Inr None
      | Inr (Some b) \<Rightarrow>
          (case p_dec_balance P b of
             Inl e \<Rightarrow> Inl (StoreEncode e)
           | Inr rec \<Rightarrow> Inr (Some rec)))"

definition get_balance ::
  "'w platform \<Rightarrow> bytes \<Rightarrow> string \<Rightarrow> 'w \<Rightarrow> store_error + u256 option" where
  "get_balance P master key_id w =
     map_sum id (map_option br_balance) (get_balance_record P master key_id w)"

definition debit_balance ::
  "'w platform \<Rightarrow> bytes \<Rightarrow> string \<Rightarrow> u256 \<Rightarrow> 'w \<Rightarrow> (balance_error + u256) \<times> 'w" where
  "debit_balance P master key_id amount w =
     (let h = hash_key_id P key_id
      in try_then id (read_balance P master h w, w) (\<lambda>rec w.
           if br_revoked rec then (Inl BalRevoked, w)
           else
             let bal = br_balance rec
             in if bal < amount then (Inl (BalInsufficient bal), w)
                else
                  let new = bal - amount
                  in try_then balance_of_val
                       (put_val P master (bal_key h) (p_enc_balance P (set_balance rec new)) True w)
                       (\<lambda>u w. (Inr new, w))))"

definition refund_balance ::
  "'w platform \<Rightarrow> bytes \<Rightarrow> string \<Rightarrow> u256 \<Rightarrow> 'w \<Rightarrow> (balance_error + u256) \<times> 'w" where
  "refund_balance P master key_id amount w =
     (let h = hash_key_id P key_id
      in try_then id (read_balance P master h w, w) (\<lambda>rec w.
           let new = sat_add (br_balance rec) amount
           in try_then balance_of_val
                (put_val P master (bal_key h) (p_enc_balance P (set_balance rec new)) True w)
                (\<lambda>u w. (Inr new, w))))"

section \<open>Batches\<close>

definition persist_batch ::
  "'w platform \<Rightarrow> bytes \<Rightarrow> string \<Rightarrow> bytes \<Rightarrow> 'w \<Rightarrow> (store_error + unit) \<times> 'w" where
  "persist_batch P master batch_id bs w =
     try_then store_of_val (put_val P master (batch_key batch_id) bs False w) (\<lambda>u w. (Inr (), w))"

text \<open>The loop of the scans: the rows with the prefix, opened, up to the first
  row without it, or the first error.\<close>

fun scan_open ::
  "'w platform \<Rightarrow> bytes \<Rightarrow> string \<Rightarrow> (string + (string \<times> bytes)) list
    \<Rightarrow> store_error + (string \<times> bytes) list" where
  "scan_open P master prefix [] = Inr []"
| "scan_open P master prefix (Inl e # items) = Inl (StoreRocks e)"
| "scan_open P master prefix (Inr (k, v) # items) =
     (if \<not> starts_with prefix k then Inr []
      else
        case open_value P master k v of
          Inl e \<Rightarrow> Inl (StoreCrypt e)
        | Inr pt \<Rightarrow>
            map_sum id (\<lambda>out. (drop (length prefix) k, pt) # out)
              (scan_open P master prefix items))"

definition load_batches ::
  "'w platform \<Rightarrow> bytes \<Rightarrow> 'w \<Rightarrow> store_error + (string \<times> bytes) list" where
  "load_batches P master w = scan_open P master ''batch:'' (p_scan P ''batch:'' w)"

definition batch_was_settled :: "'w platform \<Rightarrow> string \<Rightarrow> 'w \<Rightarrow> store_error + bool" where
  "batch_was_settled P batch_id w =
     (case p_get P (batch_settled_key batch_id) w of
        Inl e \<Rightarrow> Inl (StoreRocks e)
      | Inr v \<Rightarrow> Inr (v \<noteq> None))"

definition mark_batch_settled ::
  "'w platform \<Rightarrow> bytes \<Rightarrow> string \<Rightarrow> bytes \<Rightarrow> 'w \<Rightarrow> (store_error + unit) \<times> 'w" where
  "mark_batch_settled P master batch_id batch_bytes w =
     try_then store_of_val
       (write_sealed P master True
          [(batch_key batch_id, batch_bytes), (batch_settled_key batch_id, [1])] w)
       (\<lambda>u w. (Inr (), w))"

definition settle_batch_refund ::
  "'w platform \<Rightarrow> bytes \<Rightarrow> string \<Rightarrow> u256 \<Rightarrow> string \<Rightarrow> bytes \<Rightarrow> 'w \<Rightarrow> (balance_error + u256) \<times> 'w"
where
  "settle_batch_refund P master key_id refund batch_id batch_bytes w =
     (let h = hash_key_id P key_id
      in case p_get P (batch_settled_key batch_id) w of
           Inl e \<Rightarrow> (Inl (BalStore e), w)
         | Inr (Some marker) \<Rightarrow>
             try_then balance_of_val (put_val P master (batch_key batch_id) batch_bytes False w)
               (\<lambda>u w. (map_sum id br_balance (read_balance P master h w), w))
         | Inr None \<Rightarrow>
             try_then id (read_balance P master h w, w) (\<lambda>rec w.
               let new = sat_add (br_balance rec) refund
               in try_then balance_of_val
                    (write_sealed P master True
                       [(bal_key h, p_enc_balance P (set_balance rec new)),
                        (batch_key batch_id, batch_bytes),
                        (batch_settled_key batch_id, [1])] w)
                    (\<lambda>u w. (Inr new, w))))"

definition hex_address :: "'w platform \<Rightarrow> h160 \<Rightarrow> string" where
  "hex_address P a = ''0x'' @ p_hex P (be_bytes 20 (unat a))"

definition record_refund_owed ::
  "'w platform \<Rightarrow> bytes \<Rightarrow> string \<Rightarrow> h160 option \<Rightarrow> u256 \<Rightarrow> bytes \<Rightarrow> 'w
    \<Rightarrow> (store_error + unit) \<times> 'w" where
  "record_refund_owed P master batch_id payer refund batch_bytes w =
     (case p_now P w of (now, w) \<Rightarrow>
        let owed = \<lparr> ro_batch_id = batch_id, ro_payer = map_option (hex_address P) payer,
                     ro_refund_grains = p_u256_dec P refund, ro_recorded_at = now \<rparr>
        in try_then store_of_val
             (write_sealed P master True
                [(batch_key batch_id, batch_bytes), (batch_settled_key batch_id, [1]),
                 (refund_owed_key batch_id, p_enc_owed P owed)] w)
             (\<lambda>u w. (Inr (), w)))"

definition refund_owed_for ::
  "'w platform \<Rightarrow> bytes \<Rightarrow> string \<Rightarrow> 'w \<Rightarrow> store_error + refund_owed option" where
  "refund_owed_for P master batch_id w =
     (case get_val P master (refund_owed_key batch_id) w of
        Inl e \<Rightarrow> Inl (store_of_val e)
      | Inr None \<Rightarrow> Inr None
      | Inr (Some b) \<Rightarrow>
          (case p_dec_owed P b of Inl e \<Rightarrow> Inl (StoreEncode e) | Inr owed \<Rightarrow> Inr (Some owed)))"

definition load_refunds_owed ::
  "'w platform \<Rightarrow> bytes \<Rightarrow> 'w \<Rightarrow> store_error + refund_owed list" where
  "load_refunds_owed P master w =
     map_sum id (\<lambda>rows. concat (map (\<lambda>(i, b). case p_dec_owed P b of Inl e \<Rightarrow> [] | Inr owed \<Rightarrow> [owed]) rows))
       (scan_open P master ''refundowed:'' (p_scan P ''refundowed:'' w))"

section \<open>Per-model budgets\<close>

definition parse_u256_be :: "bytes \<Rightarrow> u256 option" where
  "parse_u256_be b = (if length b = 32 then Some (word_from_slice b) else None)"

definition set_model_budget ::
  "'w platform \<Rightarrow> bytes \<Rightarrow> string \<Rightarrow> string \<Rightarrow> u256 \<Rightarrow> 'w \<Rightarrow> (store_error + unit) \<times> 'w" where
  "set_model_budget P master key_id model amount w =
     try_then store_of_val
       (put_val P master (mbudget_key (hash_key_id P key_id) model) (u256_to_be_bytes amount) True w)
       (\<lambda>u w. (Inr (), w))"

definition get_model_budget ::
  "'w platform \<Rightarrow> bytes \<Rightarrow> string \<Rightarrow> string \<Rightarrow> 'w \<Rightarrow> store_error + u256 option" where
  "get_model_budget P master key_id model w =
     (case get_val P master (mbudget_key (hash_key_id P key_id) model) w of
        Inl e \<Rightarrow> Inl (store_of_val e)
      | Inr v \<Rightarrow> Inr (Option.bind v parse_u256_be))"

definition get_model_budgets ::
  "'w platform \<Rightarrow> bytes \<Rightarrow> string \<Rightarrow> 'w \<Rightarrow> store_error + (string \<times> u256) list" where
  "get_model_budgets P master key_id w =
     (let prefix = mbudget_prefix (hash_key_id P key_id)
      in map_sum id (\<lambda>rows. concat (map (\<lambda>(model, b).
             case parse_u256_be b of None \<Rightarrow> [] | Some amt \<Rightarrow> [(model, amt)]) rows))
           (scan_open P master prefix (p_scan P prefix w)))"

definition debit_model_budget ::
  "'w platform \<Rightarrow> bytes \<Rightarrow> string \<Rightarrow> string \<Rightarrow> u256 \<Rightarrow> 'w \<Rightarrow> (model_budget_error + unit) \<times> 'w" where
  "debit_model_budget P master key_id model amount w =
     (let mk = mbudget_key (hash_key_id P key_id) model
      in case get_val P master mk w of
           Inl e \<Rightarrow> (Inl (budget_of_val e), w)
         | Inr None \<Rightarrow> (Inr (), w)
         | Inr (Some b) \<Rightarrow>
             (case parse_u256_be b of
                None \<Rightarrow> (Inl (BudgetEncode ''bad budget value''), w)
              | Some cur \<Rightarrow>
                  if cur < amount then (Inl (BudgetExceededBy cur), w)
                  else try_then budget_of_val
                         (put_val P master mk (u256_to_be_bytes (cur - amount)) True w)
                         (\<lambda>u w. (Inr (), w))))"

definition refund_model_budget ::
  "'w platform \<Rightarrow> bytes \<Rightarrow> string \<Rightarrow> string \<Rightarrow> u256 \<Rightarrow> 'w \<Rightarrow> (store_error + unit) \<times> 'w" where
  "refund_model_budget P master key_id model amount w =
     (let mk = mbudget_key (hash_key_id P key_id) model
      in case get_val P master mk w of
           Inl e \<Rightarrow> (Inl (store_of_val e), w)
         | Inr None \<Rightarrow> (Inr (), w)
         | Inr (Some b) \<Rightarrow>
             let cur = (case parse_u256_be b of None \<Rightarrow> 0 | Some c \<Rightarrow> c)
             in try_then store_of_val
                  (put_val P master mk (u256_to_be_bytes (sat_add cur amount)) True w)
                  (\<lambda>u w. (Inr (), w)))"

section \<open>What the operations do to the accounts\<close>

definition acct :: "'w platform \<Rightarrow> (string \<Rightarrow> bytes option) \<Rightarrow> string \<Rightarrow> balance_record option" where
  "acct P m h =
     (case m (bal_key h) of
        None \<Rightarrow> None
      | Some b \<Rightarrow> (case p_dec_balance P b of Inl e \<Rightarrow> None | Inr r \<Rightarrow> Some r))"

lemma acct_upd_other: "k \<notin> range bal_key \<Longrightarrow> acct P (m(k \<mapsto> b)) = acct P m"
  by (auto simp: acct_def fun_eq_iff)

lemma acct_upd:
  "codecs_ok P \<Longrightarrow> acct P (m(bal_key h \<mapsto> p_enc_balance P r)) = (acct P m)(h \<mapsto> r)"
  by (auto simp: acct_def fun_eq_iff codecs(3))

lemma not_bal_key [simp]:
  "batch_key i \<notin> range bal_key" "batch_settled_key i \<notin> range bal_key"
  "refund_owed_key i \<notin> range bal_key" "mbudget_key h m \<notin> range bal_key"
  "record_key h \<notin> range bal_key" "quota_key h d \<notin> range bal_key"
  "member_pool_key d \<notin> range bal_key" "member_map_key h \<notin> range bal_key"
  by auto

lemma read_balance_Inr:
  assumes good: "store_good P master hist durable w" and r: "read_balance P master h w = Inr rec"
  shows "acct P (view P master hist w) h = Some rec"
proof -
  obtain b where "get_val P master (bal_key h) w = Inr (Some b)" "p_dec_balance P b = Inr rec"
    using r by (auto simp: read_balance_def split: sum.splits option.splits)
  moreover from sealed.get_val [OF good this(1)]
  have "view P master hist w (bal_key h) = Some b" by simp
  ultimately show ?thesis by (simp add: acct_def)
qed

lemma debit_balance_cases:
  assumes good: "store_good P master hist durable w"
    and d: "debit_balance P master k a w = (r, w')"
  obtains (refused) e where "r = Inl e" "store_good P master hist durable w'"
      "view P master hist w' = view P master hist w"
  | (debited) rec where "r = Inr (br_balance rec - a)" "store_good P master hist durable w'"
      "acct P (view P master hist w) (hash_key_id P k) = Some rec" "\<not> br_revoked rec"
      "a \<le> br_balance rec" "durable w' = length (hist w')"
      "view P master hist w' = (view P master hist w)
         (bal_key (hash_key_id P k) \<mapsto> p_enc_balance P (set_balance rec (br_balance rec - a)))"
proof -
  let ?h = "hash_key_id P k"
  show thesis
  proof (cases "read_balance P master ?h w")
    case (Inl e)
    with d good show thesis by (intro refused) (auto simp: debit_balance_def Let_def)
  next
    case (Inr rec)
    show thesis
    proof (cases "br_revoked rec \<or> br_balance rec < a")
      case True
      with d good Inr show thesis
        by (intro refused [of "if br_revoked rec then BalRevoked else BalInsufficient (br_balance rec)"])
          (auto simp: debit_balance_def Let_def split: if_splits)
    next
      case False
      with d Inr have t: "try_then balance_of_val
          (put_val P master (bal_key ?h)
             (p_enc_balance P (set_balance rec (br_balance rec - a))) True w)
          (\<lambda>u w. (Inr (br_balance rec - a), w)) = (r, w')"
        by (simp add: debit_balance_def Let_def)
      from t show thesis
      proof (cases rule: try_then_cases)
        case (err e)
        with put_val_Inl [OF good err(1)] show thesis by (intro refused) auto
      next
        case (ok u w1)
        with False read_balance_Inr [OF good Inr] put_val_Inr [OF good ok(1)] show thesis
          by (intro debited [of rec]) (auto simp: not_less)
      qed
    qed
  qed
qed

lemma refund_balance_cases:
  assumes good: "store_good P master hist durable w"
    and d: "refund_balance P master k a w = (r, w')"
  obtains (refused) e where "r = Inl e" "store_good P master hist durable w'"
      "view P master hist w' = view P master hist w"
  | (credited) rec where "r = Inr (sat_add (br_balance rec) a)"
      "store_good P master hist durable w'"
      "acct P (view P master hist w) (hash_key_id P k) = Some rec" "durable w' = length (hist w')"
      "view P master hist w' = (view P master hist w)
         (bal_key (hash_key_id P k) \<mapsto> p_enc_balance P (set_balance rec (sat_add (br_balance rec) a)))"
proof -
  let ?h = "hash_key_id P k"
  show thesis
  proof (cases "read_balance P master ?h w")
    case (Inl e)
    with d good show thesis by (intro refused) (auto simp: refund_balance_def Let_def)
  next
    case (Inr rec)
    with d have t: "try_then balance_of_val
        (put_val P master (bal_key ?h)
           (p_enc_balance P (set_balance rec (sat_add (br_balance rec) a))) True w)
        (\<lambda>u w. (Inr (sat_add (br_balance rec) a), w)) = (r, w')"
      by (simp add: refund_balance_def Let_def)
    from t show thesis
    proof (cases rule: try_then_cases)
      case (err e)
      with put_val_Inl [OF good err(1)] show thesis by (intro refused) auto
    next
      case (ok u w1)
      with read_balance_Inr [OF good Inr] put_val_Inr [OF good ok(1)] show thesis
        by (intro credited [of rec]) auto
    qed
  qed
qed

section \<open>The contract of a store of balances\<close>

text \<open>Operations named by key identifiers, accounts named by \<open>account\<close> of them
  (two identifiers with one hash share an account).\<close>

datatype money_op = Debit string u256 | Refund string u256

fun run_money ::
  "(string \<Rightarrow> u256 \<Rightarrow> 's \<Rightarrow> ('e + u256) \<times> 's) \<Rightarrow> (string \<Rightarrow> u256 \<Rightarrow> 's \<Rightarrow> ('e + u256) \<times> 's)
    \<Rightarrow> money_op list \<Rightarrow> 's \<Rightarrow> money_op list \<times> 's" where
  "run_money debit refund [] s = ([], s)"
| "run_money debit refund (Debit k a # ops) s =
     (case debit k a s of
        (Inl e, s1) \<Rightarrow> run_money debit refund ops s1
      | (Inr n, s1) \<Rightarrow> (case run_money debit refund ops s1 of (acc, s2) \<Rightarrow> (Debit k a # acc, s2)))"
| "run_money debit refund (Refund k a # ops) s =
     (case refund k a s of
        (Inl e, s1) \<Rightarrow> run_money debit refund ops s1
      | (Inr n, s1) \<Rightarrow> (case run_money debit refund ops s1 of (acc, s2) \<Rightarrow> (Refund k a # acc, s2)))"

fun debited :: "(string \<Rightarrow> 'i) \<Rightarrow> 'i \<Rightarrow> money_op list \<Rightarrow> nat" where
  "debited account i [] = 0"
| "debited account i (Debit k a # ops) =
     (if account k = i then unat a else 0) + debited account i ops"
| "debited account i (Refund k a # ops) = debited account i ops"

fun refunded :: "(string \<Rightarrow> 'i) \<Rightarrow> 'i \<Rightarrow> money_op list \<Rightarrow> nat" where
  "refunded account i [] = 0"
| "refunded account i (Debit k a # ops) = refunded account i ops"
| "refunded account i (Refund k a # ops) =
     (if account k = i then unat a else 0) + refunded account i ops"

locale money_store =
  fixes debit :: "string \<Rightarrow> u256 \<Rightarrow> 's \<Rightarrow> ('e + u256) \<times> 's"
    and refund :: "string \<Rightarrow> u256 \<Rightarrow> 's \<Rightarrow> ('e + u256) \<times> 's"
    and balance :: "'s \<Rightarrow> 'i \<Rightarrow> u256 option"
    and account :: "string \<Rightarrow> 'i"
    and good :: "'s \<Rightarrow> bool"
  assumes debit_good: "good s \<Longrightarrow> debit k a s = (r, s') \<Longrightarrow> good s'"
    and refund_good: "good s \<Longrightarrow> refund k a s = (r, s') \<Longrightarrow> good s'"
    and debit_error: "good s \<Longrightarrow> debit k a s = (Inl e, s') \<Longrightarrow> balance s' = balance s"
    and refund_error: "good s \<Longrightarrow> refund k a s = (Inl e, s') \<Longrightarrow> balance s' = balance s"
    and debit_ok: "good s \<Longrightarrow> debit k a s = (Inr n, s')
      \<Longrightarrow> \<exists>b. balance s (account k) = Some b \<and> a \<le> b \<and> n = b - a
            \<and> balance s' = (balance s)(account k \<mapsto> b - a)"
    and refund_ok: "good s \<Longrightarrow> refund k a s = (Inr n, s')
      \<Longrightarrow> \<exists>b. balance s (account k) = Some b \<and> n = sat_add b a
            \<and> balance s' = (balance s)(account k \<mapsto> sat_add b a)"
begin

lemma run_good: "good s \<Longrightarrow> good (snd (run_money debit refund ops s))"
proof (induction ops arbitrary: s)
  case (Cons op ops)
  show ?case
  proof (cases op)
    case (Debit k a)
    then show ?thesis
      using Cons.IH [OF debit_good [OF Cons.prems prod.collapse [symmetric]], of k a]
      by (simp add: split_beta split: sum.split)
  next
    case (Refund k a)
    then show ?thesis
      using Cons.IH [OF refund_good [OF Cons.prems prod.collapse [symmetric]], of k a]
      by (simp add: split_beta split: sum.split)
  qed
qed simp

text \<open>Every grain is accounted for: over any sequence of operations, an
  account's balance plus what was debited is its old balance plus what was
  refunded, and no debit goes below zero.\<close>

lemma conservation:
  assumes "good s" and "balance s i = Some b"
    and "unat b + refunded account i ops < 2 ^ 256"
  shows "\<exists>b'. balance (snd (run_money debit refund ops s)) i = Some b'
    \<and> unat b' + debited account i (fst (run_money debit refund ops s))
      = unat b + refunded account i (fst (run_money debit refund ops s))"
  using assms
proof (induction ops arbitrary: s b)
  case (Cons op ops)
  show ?case
  proof (cases op)
    case (Debit k a)
    obtain r s1 where d: "debit k a s = (r, s1)" by (metis surj_pair)
    note g = debit_good [OF Cons.prems(1) d]
    show ?thesis
    proof (cases r)
      case (Inl e)
      then have "balance s1 = balance s" using debit_error Cons.prems(1) d by blast
      with Cons.IH [OF g] Cons.prems Debit d Inl show ?thesis by simp
    next
      case (Inr n)
      obtain b0 where b0: "balance s (account k) = Some b0" "a \<le> b0"
        "balance s1 = (balance s)(account k \<mapsto> b0 - a)"
        using debit_ok Cons.prems(1) d Inr by blast
      define b1 where "b1 = (if account k = i then b - a else b)"
      have b1: "balance s1 i = Some b1" "unat b1 + (if account k = i then unat a else 0) = unat b"
        using b0 Cons.prems(2) by (auto simp: b1_def unat_sub word_le_nat_alt)
      have "unat b1 + refunded account i ops < 2 ^ 256"
        using Cons.prems(3) b1(2) Debit by simp
      from Cons.IH [OF g b1(1) this] obtain b' where
        b': "balance (snd (run_money debit refund ops s1)) i = Some b'"
        "unat b' + debited account i (fst (run_money debit refund ops s1))
          = unat b1 + refunded account i (fst (run_money debit refund ops s1))" by blast
      have "fst (run_money debit refund (op # ops) s)
          = Debit k a # fst (run_money debit refund ops s1)"
        and "snd (run_money debit refund (op # ops) s) = snd (run_money debit refund ops s1)"
        using Debit d Inr by (simp_all add: split_beta)
      with b' b1 show ?thesis by simp
    qed
  next
    case (Refund k a)
    obtain r s1 where d: "refund k a s = (r, s1)" by (metis surj_pair)
    note g = refund_good [OF Cons.prems(1) d]
    show ?thesis
    proof (cases r)
      case (Inl e)
      then have "balance s1 = balance s" using refund_error Cons.prems(1) d by blast
      with Cons.IH [OF g] Cons.prems Refund d Inl show ?thesis by simp
    next
      case (Inr n)
      obtain b0 where b0: "balance s (account k) = Some b0"
        "balance s1 = (balance s)(account k \<mapsto> sat_add b0 a)"
        using refund_ok Cons.prems(1) d Inr by blast
      define b1 where "b1 = (if account k = i then sat_add b a else b)"
      have b1: "balance s1 i = Some b1" "unat b1 = unat b + (if account k = i then unat a else 0)"
        using b0 Cons.prems(2,3) Refund by (auto simp: b1_def unat_sat_add)
      have "unat b1 + refunded account i ops < 2 ^ 256"
        using Cons.prems(3) b1(2) Refund by simp
      from Cons.IH [OF g b1(1) this] obtain b' where
        b': "balance (snd (run_money debit refund ops s1)) i = Some b'"
        "unat b' + debited account i (fst (run_money debit refund ops s1))
          = unat b1 + refunded account i (fst (run_money debit refund ops s1))" by blast
      have "fst (run_money debit refund (op # ops) s)
          = Refund k a # fst (run_money debit refund ops s1)"
        and "snd (run_money debit refund (op # ops) s) = snd (run_money debit refund ops s1)"
        using Refund d Inr by (simp_all add: split_beta)
      with b' b1 show ?thesis by simp
    qed
  qed
qed simp

end

definition balances :: "'w platform \<Rightarrow> bytes \<Rightarrow> ('w \<Rightarrow> history) \<Rightarrow> 'w \<Rightarrow> string \<Rightarrow> u256 option" where
  "balances P master hist w h = map_option br_balance (acct P (view P master hist w) h)"

lemma balances_cong:
  "view P master hist s' = view P master hist s
   \<Longrightarrow> balances P master hist s' = balances P master hist s"
  by (rule ext) (simp only: balances_def)

lemma balances_upd:
  assumes "codecs_ok P"
    and "view P master hist s' = (view P master hist s)(bal_key h \<mapsto> p_enc_balance P r)"
  shows "balances P master hist s' = (balances P master hist s)(h \<mapsto> br_balance r)"
  by (rule ext) (simp add: balances_def assms(2) acct_upd [OF assms(1)])

interpretation durable: money_store "debit_balance P master" "refund_balance P master"
  "balances P master hist" "hash_key_id P" "store_good P master hist durable"
  for P :: "'w platform" and master hist durable
proof
  fix s s' :: 'w and k a r
  assume good: "store_good P master hist durable s"
  {
    assume d: "debit_balance P master k a s = (r, s')"
    show "store_good P master hist durable s'"
      by (rule debit_balance_cases [OF good d])
  }
  {
    assume d: "refund_balance P master k a s = (r, s')"
    show "store_good P master hist durable s'"
      by (rule refund_balance_cases [OF good d])
  }
next
  fix s s' :: 'w and k a e
  assume good: "store_good P master hist durable s"
  {
    assume d: "debit_balance P master k a s = (Inl e, s')"
    show "balances P master hist s' = balances P master hist s"
      by (rule debit_balance_cases [OF good d]) (auto intro: balances_cong)
  }
  {
    assume d: "refund_balance P master k a s = (Inl e, s')"
    show "balances P master hist s' = balances P master hist s"
      by (rule refund_balance_cases [OF good d]) (auto intro: balances_cong)
  }
next
  fix s s' :: 'w and k a n
  assume good: "store_good P master hist durable s"
  then have c: "codecs_ok P" by (simp add: store_good_def platform_ok_def)
  {
    assume d: "debit_balance P master k a s = (Inr n, s')"
    show "\<exists>b. balances P master hist s (hash_key_id P k) = Some b \<and> a \<le> b \<and> n = b - a
        \<and> balances P master hist s' = (balances P master hist s)(hash_key_id P k \<mapsto> b - a)"
      by (rule debit_balance_cases [OF good d])
        (use balances_upd [OF c] in \<open>force simp: balances_def\<close>)+
  }
  {
    assume d: "refund_balance P master k a s = (Inr n, s')"
    show "\<exists>b. balances P master hist s (hash_key_id P k) = Some b \<and> n = sat_add b a
        \<and> balances P master hist s' = (balances P master hist s)(hash_key_id P k \<mapsto> sat_add b a)"
      by (rule refund_balance_cases [OF good d])
        (use balances_upd [OF c] in \<open>force simp: balances_def\<close>)+
  }
qed

section \<open>Settling a batch\<close>

lemma marker_view:
  assumes "store_good P master hist durable w"
  shows "view P master hist w k = None \<longleftrightarrow> replay (hist w) k = None"
  using assms by (force simp: store_good_def all_sealed_def plain_def split: option.splits sum.splits)

text \<open>The three ways a settlement ends.\<close>

lemma settle_cases:
  assumes good: "store_good P master hist durable w"
    and s: "settle_batch_refund P master k refund i bs w = (r, w')"
  obtains (refused) e where "r = Inl e" "hist w' = hist w" "durable w \<le> durable w'"
  | (repeated) raw where "replay (hist w) (batch_settled_key i) \<noteq> None"
      "hist w' = hist w @ [[(batch_key i, raw)]]" "durable w \<le> durable w'"
      "open_value P master (batch_key i) raw = Inr bs"
      "r = map_sum id br_balance (read_balance P master (hash_key_id P k) w')"
  | (settled) rec where "replay (hist w) (batch_settled_key i) = None"
      "acct P (view P master hist w) (hash_key_id P k) = Some rec"
      "r = Inr (sat_add (br_balance rec) refund)" "store_good P master hist durable w'"
      "view P master hist w' = (view P master hist w)
         (bal_key (hash_key_id P k) \<mapsto> p_enc_balance P (set_balance rec (sat_add (br_balance rec) refund)),
          batch_key i \<mapsto> bs, batch_settled_key i \<mapsto> [1])"
      "durable w' = length (hist w')"
proof -
  let ?h = "hash_key_id P k"
  note ok = store_good_platform [OF good]
  show thesis
  proof (cases "p_get P (batch_settled_key i) w")
    case (Inl e)
    with s show thesis by (intro refused) (auto simp: settle_batch_refund_def)
  next
    case (Inr v)
    note v = engine_get [OF platform_okD(1) [OF ok] Inr]
    show thesis
    proof (cases v)
      case (Some marker)
      with s Inr have "try_then balance_of_val (put_val P master (batch_key i) bs False w)
          (\<lambda>u w. (map_sum id br_balance (read_balance P master ?h w), w)) = (r, w')"
        by (simp add: settle_batch_refund_def)
      then show thesis
      proof (cases rule: try_then_cases)
        case (err e)
        then have "write_sealed P master False [(batch_key i, bs)] w = (Inl e, w')"
          by (simp add: put_val_write)
        with ok show thesis
          by (cases rule: write_sealed_cases) (use err in \<open>auto intro: refused\<close>)
      next
        case (ok u w1)
        then have "write_sealed P master False [(batch_key i, bs)] w = (Inr u, w')"
          and r: "r = map_sum id br_balance (read_balance P master ?h w')"
          by (auto simp: put_val_write)
        from store_good_platform [OF good] this(1) show thesis
          by (cases rule: write_sealed_cases)
            (use r v [symmetric] Some in \<open>auto simp: list_all2_Cons1 intro!: repeated\<close>)
      qed
    next
      case None
      show thesis
      proof (cases "read_balance P master ?h w")
        case (Inl e)
        with s Inr None show thesis
          by (intro refused) (auto simp: settle_batch_refund_def)
      next
        case (Inr rec)
        let ?new = "sat_add (br_balance rec) refund"
        let ?kvs = "[(bal_key ?h, p_enc_balance P (set_balance rec ?new)),
          (batch_key i, bs), (batch_settled_key i, [1])]"
        from s Inr None \<open>p_get P (batch_settled_key i) w = Inr v\<close>
        have "try_then balance_of_val (write_sealed P master True ?kvs w) (\<lambda>u w. (Inr ?new, w))
            = (r, w')"
          by (simp add: settle_batch_refund_def Let_def)
        then show thesis
        proof (cases rule: try_then_cases)
          case (err e)
          with ok show thesis
            by (elim write_sealed_cases [OF ok]) (auto intro: refused)
        next
          case (ok u w1)
          then have wr: "write_sealed P master True ?kvs w = (Inr u, w')" by simp
          have "durable w' = length (hist w')"
            by (rule write_sealed_cases [OF store_good_platform [OF good] wr]) auto
          with sealed.write_good [OF good wr] sealed.write_ok [OF good wr] ok
            read_balance_Inr [OF good Inr] v None show thesis
            by (intro settled [of rec]) (auto simp: apply_batch_def)
        qed
      qed
    qed
  qed
qed

text \<open>After a settlement the process may settle the batch again, for any key,
  any amount and any snapshot, and it may restart from what is on disk, in any
  order.\<close>

inductive replays ::
  "'w platform \<Rightarrow> bytes \<Rightarrow> ('w \<Rightarrow> history) \<Rightarrow> ('w \<Rightarrow> nat) \<Rightarrow> string \<Rightarrow> 'w \<Rightarrow> 'w \<Rightarrow> bool"
  for P master hist durable i where
  start: "replays P master hist durable i w w"
| again: "replays P master hist durable i w w1
    \<Longrightarrow> settle_batch_refund P master k refund i bs w1 = (r, w2)
    \<Longrightarrow> replays P master hist durable i w w2"
| restart: "replays P master hist durable i w w1 \<Longrightarrow> crash_of hist durable w1 w2
    \<Longrightarrow> replays P master hist durable i w w2"

text \<open>What every state a crash could leave has in common.\<close>

definition settled_inv ::
  "'w platform \<Rightarrow> bytes \<Rightarrow> ('w \<Rightarrow> history) \<Rightarrow> ('w \<Rightarrow> nat) \<Rightarrow> string
    \<Rightarrow> (string \<Rightarrow> balance_record option) \<Rightarrow> 'w \<Rightarrow> bool" where
  "settled_inv P master hist durable i A w \<longleftrightarrow>
     durable w \<le> length (hist w) \<and>
     (\<forall>n. durable w \<le> n \<longrightarrow> n \<le> length (hist w) \<longrightarrow>
        all_sealed P master (replay (take n (hist w))) \<and>
        acct P (plain P master (replay (take n (hist w)))) = A \<and>
        replay (take n (hist w)) (batch_settled_key i) \<noteq> None)"

lemma settled_inv_now:
  assumes "platform_ok P hist durable" and "settled_inv P master hist durable i A w"
  shows "store_good P master hist durable w" and "acct P (view P master hist w) = A"
    and "replay (hist w) (batch_settled_key i) \<noteq> None"
proof -
  have "durable w \<le> length (hist w)" using assms(2) by (simp add: settled_inv_def)
  with assms(2) have "all_sealed P master (replay (take (length (hist w)) (hist w))) \<and>
        acct P (plain P master (replay (take (length (hist w)) (hist w)))) = A \<and>
        replay (take (length (hist w)) (hist w)) (batch_settled_key i) \<noteq> None"
    unfolding settled_inv_def by blast
  with assms(1) show "store_good P master hist durable w"
    and "acct P (view P master hist w) = A" and "replay (hist w) (batch_settled_key i) \<noteq> None"
    by (simp_all add: store_good_def)
qed

lemma settled_inv_mono:
  assumes "settled_inv P master hist durable i A w"
    and "hist w' = hist w" and "durable w \<le> durable w'" and "durable w' \<le> length (hist w')"
  shows "settled_inv P master hist durable i A w'"
  using assms by (auto simp: settled_inv_def)

lemma settled_inv_crash:
  assumes "settled_inv P master hist durable i A w" and "crash_of hist durable w w'"
  shows "settled_inv P master hist durable i A w'"
  using assms by (auto simp: settled_inv_def crash_of_def min_def)

lemma settled_inv_snapshot:
  assumes ok: "platform_ok P hist durable" and inv: "settled_inv P master hist durable i A w"
    and h: "hist w' = hist w @ [[(batch_key i, raw)]]" and d: "durable w \<le> durable w'"
    and o: "open_value P master (batch_key i) raw = Inr bs"
  shows "settled_inv P master hist durable i A w'"
proof -
  have full: "replay (hist w') = (replay (hist w))(batch_key i \<mapsto> raw)"
    unfolding h replay_snoc by simp
  note now = settled_inv_now [OF ok inv]
  have last: "all_sealed P master (replay (hist w')) \<and> acct P (view P master hist w') = A \<and>
      replay (hist w') (batch_settled_key i) \<noteq> None"
    unfolding full plain_upd [OF o]
    using now all_sealed_upd [OF o] acct_upd_other [of "batch_key i" P]
    by (auto simp: store_good_def)
  have dl: "durable w' \<le> length (hist w')"
    using platform_okD(1) [OF ok] by (simp add: engine_ok_def)
  show ?thesis
    unfolding settled_inv_def
  proof (intro conjI allI impI)
    fix n assume n: "durable w' \<le> n" "n \<le> length (hist w')"
    have "all_sealed P master (replay (take n (hist w'))) \<and>
      acct P (plain P master (replay (take n (hist w')))) = A \<and>
      replay (take n (hist w')) (batch_settled_key i) \<noteq> None"
    proof (cases "n = length (hist w')")
      case True
      with last show ?thesis by simp
    next
      case False
      with n h have "n \<le> length (hist w)" "take n (hist w') = take n (hist w)" by auto
      with inv n d show ?thesis unfolding settled_inv_def by simp
    qed
    then show "all_sealed P master (replay (take n (hist w')))"
      and "acct P (plain P master (replay (take n (hist w')))) = A"
      and "replay (take n (hist w')) (batch_settled_key i) \<noteq> None" by simp_all
  qed (rule dl)
qed

lemma settled_inv_again:
  assumes ok: "platform_ok P hist durable" and inv: "settled_inv P master hist durable i A w"
    and s: "settle_batch_refund P master k refund i bs w = (r, w')"
  shows "settled_inv P master hist durable i A w'"
proof -
  note now = settled_inv_now [OF ok inv]
  have dl: "durable w' \<le> length (hist w')"
    using platform_okD(1) [OF ok] by (simp add: engine_ok_def)
  from now(1) s show ?thesis
  proof (cases rule: settle_cases)
    case (refused e)
    then show ?thesis using settled_inv_mono [OF inv] dl by simp
  next
    case (repeated raw)
    then show ?thesis using settled_inv_snapshot [OF ok inv] by simp
  next
    case (settled rec)
    with now(3) show ?thesis by simp
  qed
qed

lemma replays_inv:
  assumes ok: "platform_ok P hist durable" and r: "replays P master hist durable i w w'"
  shows "settled_inv P master hist durable i A w \<Longrightarrow> settled_inv P master hist durable i A w'"
  using r
proof (induction rule: replays.induct)
  case (again w w1 k refund bs r w2)
  show ?case
    by (rule settled_inv_again [OF ok again.IH [OF again.prems] again.hyps(2)])
next
  case (restart w w1 w2)
  show ?case
    by (rule settled_inv_crash [OF restart.IH [OF restart.prems] restart.hyps(2)])
qed

text \<open>C3. A batch's refund is paid exactly once. When a settlement of an
  unsettled batch returns a balance, the buyer's account has been credited by
  the refund (saturating) and nothing else has changed in any account; and
  however often the settlement is replayed afterwards, with whatever key and
  amount, and whenever the process crashes and recovers from its disk, every
  account stays as that first settlement left it.\<close>

theorem settle_exactly_once:
  assumes good: "store_good P master hist durable w"
    and fresh: "view P master hist w (batch_settled_key i) = None"
    and first: "settle_batch_refund P master k refund i bs w = (Inr n, w1)"
    and later: "replays P master hist durable i w1 w2"
  shows "\<exists>rec. acct P (view P master hist w) (hash_key_id P k) = Some rec
    \<and> n = sat_add (br_balance rec) refund
    \<and> acct P (view P master hist w2)
        = (acct P (view P master hist w))(hash_key_id P k \<mapsto> set_balance rec n)"
proof -
  note ok = store_good_platform [OF good]
  have c: "codecs_ok P" using ok by (simp add: platform_ok_def)
  have unset: "replay (hist w) (batch_settled_key i) = None"
    using fresh marker_view [OF good] by simp
  obtain rec where rec: "acct P (view P master hist w) (hash_key_id P k) = Some rec"
    "n = sat_add (br_balance rec) refund" and g1: "store_good P master hist durable w1"
    and v1: "view P master hist w1 = (view P master hist w)
       (bal_key (hash_key_id P k) \<mapsto> p_enc_balance P (set_balance rec n),
        batch_key i \<mapsto> bs, batch_settled_key i \<mapsto> [1])"
    and d1: "durable w1 = length (hist w1)"
    by (rule settle_cases [OF good first]) (use unset in auto)
  have a1: "acct P (view P master hist w1)
      = (acct P (view P master hist w))(hash_key_id P k \<mapsto> set_balance rec n)"
    unfolding v1 by (simp add: acct_upd_other acct_upd [OF c])
  have "replay (hist w1) (batch_settled_key i) \<noteq> None"
    using marker_view [OF g1, of "batch_settled_key i"] v1 by simp
  with a1 d1 g1 have "settled_inv P master hist durable i
      ((acct P (view P master hist w))(hash_key_id P k \<mapsto> set_balance rec n)) w1"
    by (auto simp: settled_inv_def store_good_def)
  then have "settled_inv P master hist durable i
      ((acct P (view P master hist w))(hash_key_id P k \<mapsto> set_balance rec n)) w2"
    by (rule replays_inv [OF ok later])
  from settled_inv_now(2) [OF ok this] rec show ?thesis by blast
qed

section \<open>Scans find every row of their prefix\<close>

lemma scan_open_rows:
  assumes "scan_open P master p (map Inr rows @ tail) = Inr out"
    and "tail = [] \<or> (\<exists>e rest. tail = Inl e # rest)"
  shows "list_all2 (\<lambda>(k, v) (i, b). i = drop (length p) k \<and> open_value P master k v = Inr b)
      (takeWhile (\<lambda>r. starts_with p (fst r)) rows) out
    \<and> (tail \<noteq> [] \<longrightarrow> (\<exists>r \<in> set rows. \<not> starts_with p (fst r)))"
  using assms
proof (induction rows arbitrary: out)
  case (Cons kv rows)
  obtain k v where kv: "kv = (k, v)" by (cases kv)
  show ?case
  proof (cases "starts_with p k")
    case False
    with Cons.prems kv show ?thesis by auto
  next
    case True
    then obtain b out' where "open_value P master k v = Inr b"
      "scan_open P master p (map Inr rows @ tail) = Inr out'"
      "out = (drop (length p) k, b) # out'"
      using Cons.prems(1) kv
      by (cases "scan_open P master p (map Inr rows @ tail)") (auto split: sum.splits)
    with Cons.IH [OF this(2) Cons.prems(2)] True kv show ?thesis by auto
  qed
qed auto

lemma takeWhile_take:
  "\<exists>r \<in> set (take n rows). \<not> Q r \<Longrightarrow> takeWhile Q (take n rows) = takeWhile Q rows"
proof -
  assume "\<exists>r \<in> set (take n rows). \<not> Q r"
  then have "takeWhile Q (take n rows @ drop n rows) = takeWhile Q (take n rows)"
    using takeWhile_append1 by metis
  then show ?thesis by simp
qed

lemma scan_rows:
  assumes ok: "platform_ok P hist durable"
    and s: "scan_open P master p (p_scan P p w) = Inr out"
  obtains rows where "rows_from p (replay (hist w)) rows"
    "list_all2 (\<lambda>(k, v) (i, b). i = drop (length p) k \<and> open_value P master k v = Inr b)
      (filter (\<lambda>r. starts_with p (fst r)) rows) out"
proof -
  have "\<exists>rows. rows_from p (replay (hist w)) rows \<and>
        (p_scan P p w = map Inr rows
         \<or> (\<exists>n e rest. p_scan P p w = map Inr (take n rows) @ Inl e # rest))"
    using platform_okD(1) [OF ok] unfolding engine_ok_def by blast
  then obtain rows where rows: "rows_from p (replay (hist w)) rows"
    and cases: "p_scan P p w = map Inr rows
         \<or> (\<exists>n e rest. p_scan P p w = map Inr (take n rows) @ Inl e # rest)" by blast
  have f: "takeWhile (\<lambda>r. starts_with p (fst r)) rows = filter (\<lambda>r. starts_with p (fst r)) rows"
    by (rule scan_prefix) (use rows in \<open>auto simp: rows_from_def\<close>)
  from cases have "list_all2 (\<lambda>(k, v) (i, b). i = drop (length p) k \<and> open_value P master k v = Inr b)
      (takeWhile (\<lambda>r. starts_with p (fst r)) rows) out"
  proof
    assume "p_scan P p w = map Inr rows"
    with s scan_open_rows [of P master p rows "[]" out] show ?thesis by simp
  next
    assume "\<exists>n e rest. p_scan P p w = map Inr (take n rows) @ Inl e # rest"
    then obtain n e rest where "p_scan P p w = map Inr (take n rows) @ Inl e # rest" by blast
    with s scan_open_rows [of P master p "take n rows" "Inl e # rest" out]
      takeWhile_take [of n rows "\<lambda>r. starts_with p (fst r)"]
    show ?thesis by auto
  qed
  with rows f show thesis using that by simp
qed

lemma starts_with_split: "starts_with p k \<Longrightarrow> p @ drop (length p) k = k"
  by (erule starts_withE) simp

lemma distinct_suffixes:
  "sorted_wrt (\<lambda>a b. fst a < fst b) rows \<Longrightarrow> \<forall>r \<in> set rows. starts_with p (fst r)
   \<Longrightarrow> distinct (map (\<lambda>r. drop (length p) (fst r)) rows)"
proof (induction rows)
  case (Cons r rows)
  have "drop (length p) (fst r) \<noteq> drop (length p) (fst r')" if "r' \<in> set rows" for r'
  proof
    assume eq: "drop (length p) (fst r) = drop (length p) (fst r')"
    have "fst r = p @ drop (length p) (fst r)"
      by (rule starts_with_split [symmetric]) (use Cons.prems(2) in simp)
    also have "\<dots> = p @ drop (length p) (fst r')" by (rule arg_cong [OF eq])
    also have "\<dots> = fst r'"
      by (rule starts_with_split) (use Cons.prems(2) that in simp)
    finally show False using Cons.prems(1) that by auto
  qed
  with Cons show ?case by auto
qed simp

lemma scan_complete:
  assumes good: "store_good P master hist durable w"
    and s: "scan_open P master p (p_scan P p w) = Inr out"
  shows "set out = {(i, b). view P master hist w (p @ i) = Some b}" and "distinct (map fst out)"
proof -
  obtain rows where rows: "rows_from p (replay (hist w)) rows"
    and out: "list_all2 (\<lambda>(k, v) (i, b). i = drop (length p) k \<and> open_value P master k v = Inr b)
      (filter (\<lambda>r. starts_with p (fst r)) rows) out"
    by (rule scan_rows [OF store_good_platform [OF good] s])
  have mem: "(k, v) \<in> set rows \<longleftrightarrow> replay (hist w) k = Some v \<and> p \<le> k" for k v
    using rows by (auto simp: rows_from_def)
  have pre: "p \<le> p @ i" for i by (rule starts_with_le) simp
  show "set out = {(i, b). view P master hist w (p @ i) = Some b}"
  proof (intro set_eqI iffI; clarify)
    fix i b assume "(i, b) \<in> set out"
    from list_all2_mem2 [OF out this] obtain k v where kv: "(k, v) \<in> set rows" "starts_with p k"
      "i = drop (length p) k" "open_value P master k v = Inr b"
      by auto
    have "p @ i = k" unfolding kv(3) by (rule starts_with_split [OF kv(2)])
    with kv(1,4) show "view P master hist w (p @ i) = Some b" by (simp add: plain_def mem)
  next
    fix i b assume "view P master hist w (p @ i) = Some b"
    then obtain v where v: "replay (hist w) (p @ i) = Some v"
      "open_value P master (p @ i) v = Inr b"
      by (auto simp: plain_def split: option.splits sum.splits)
    then have "(p @ i, v) \<in> set (filter (\<lambda>r. starts_with p (fst r)) rows)"
      using mem pre by simp
    from list_all2_mem1 [OF out this] obtain j c where "(j, c) \<in> set out" "j = i"
      "open_value P master (p @ i) v = Inr c" by auto
    with v(2) show "(i, b) \<in> set out" by simp
  qed
  have fst_out: "map fst out = map (\<lambda>r. drop (length p) (fst r)) (filter (\<lambda>r. starts_with p (fst r)) rows)"
    using out by (induction rule: list_all2_induct) auto
  have "sorted_wrt (\<lambda>a b. fst a < fst b) (filter (\<lambda>r. starts_with p (fst r)) rows)"
    using rows by (auto simp: rows_from_def intro: sorted_wrt_filter)
  then have "distinct (map (\<lambda>r. drop (length p) (fst r)) (filter (\<lambda>r. starts_with p (fst r)) rows))"
    by (rule distinct_suffixes) simp
  then show "distinct (map fst out)" by (simp only: fst_out)
qed

section \<open>Money is exact and durable\<close>

lemma synced_survives:
  assumes "durable w = length (hist w)" and "crash_of hist durable w w'"
  shows "hist w' = hist w"
  using assms by (auto simp: crash_of_def)

text \<open>A debit either fails and changes no account, or it takes exactly the
  amount from the key's account - which exists, is not revoked and had at least
  that much - changes nothing else in any account, and is on disk when it
  returns: no crash can undo it.\<close>

theorem durable_debit:
  assumes good: "store_good P master hist durable w"
    and d: "debit_balance P master k a w = (r, w')"
  shows "case r of
      Inl e \<Rightarrow> acct P (view P master hist w') = acct P (view P master hist w)
    | Inr n \<Rightarrow> (\<exists>rec. acct P (view P master hist w) (hash_key_id P k) = Some rec
        \<and> \<not> br_revoked rec \<and> a \<le> br_balance rec \<and> unat n = unat (br_balance rec) - unat a
        \<and> acct P (view P master hist w')
            = (acct P (view P master hist w))(hash_key_id P k \<mapsto> set_balance rec n)
        \<and> (\<forall>w''. crash_of hist durable w' w'' \<longrightarrow> view P master hist w'' = view P master hist w'))"
proof -
  have c: "codecs_ok P" using good by (simp add: store_good_def platform_ok_def)
  from good d show ?thesis
  proof (cases rule: debit_balance_cases)
    case (refused e)
    then show ?thesis by simp
  next
    case (debited rec)
    have "view P master hist w'' = view P master hist w'" if "crash_of hist durable w' w''" for w''
      using synced_survives [OF debited(6) that] by simp
    with debited show ?thesis
      by (auto simp: acct_upd [OF c] unat_sub word_le_nat_alt)
  qed
qed

text \<open>C4. No grain appears or disappears: over any sequence of debits and
  refunds on the durable store, whatever fails on the way, each account ends at
  its old balance plus the refunds that succeeded minus the debits that
  succeeded, as long as the refunds cannot overflow 256 bits.\<close>

theorem durable_conservation:
  assumes good: "store_good P master hist durable w"
    and b: "balances P master hist w h = Some b"
    and fits: "unat b + refunded (hash_key_id P) h ops < 2 ^ 256"
  shows "\<exists>b'. balances P master hist
        (snd (run_money (debit_balance P master) (refund_balance P master) ops w)) h = Some b'
      \<and> unat b' + debited (hash_key_id P) h
          (fst (run_money (debit_balance P master) (refund_balance P master) ops w))
        = unat b + refunded (hash_key_id P) h
          (fst (run_money (debit_balance P master) (refund_balance P master) ops w))"
  by (rule durable.conservation [OF good b fits])

text \<open>Boot recovery sees every batch and nothing else: when \<open>load_batches\<close>
  returns, it returns each persisted snapshot exactly once, under its own
  identifier, and no settlement marker or refund obligation.\<close>

theorem load_batches_complete:
  assumes good: "store_good P master hist durable w"
    and l: "load_batches P master w = Inr out"
  shows "distinct (map fst out)
    \<and> ((i, b) \<in> set out) = (view P master hist w (batch_key i) = Some b)"
  using scan_complete [OF good l [unfolded load_batches_def]]
  by (simp add: batch_key_def)

text \<open>A refund of a capped model puts the amount back, unless the row cannot be
  read or the sum cannot be written.\<close>

lemma budget_refund_rows:
  assumes good: "store_good P master hist durable w"
    and d: "refund_model_budget P master k model a w = (r, w')"
    and mk: "mk = mbudget_key (hash_key_id P k) model"
  shows "store_good P master hist durable w'
    \<and> (case view P master hist w mk of
         None \<Rightarrow> view P master hist w' = view P master hist w
       | Some bs \<Rightarrow>
           (let sum = u256_to_be_bytes (sat_add (case parse_u256_be bs of None \<Rightarrow> 0 | Some c \<Rightarrow> c) a)
            in view P master hist w' = (view P master hist w)(mk \<mapsto> sum)
               \<or> (row_unreadable P master mk w \<or> row_unwritable P master True mk sum w)
                 \<and> view P master hist w' = view P master hist w))"
proof (cases "get_val P master mk w")
  case (Inl e)
  with d good show ?thesis
    by (auto simp: refund_model_budget_def mk [symmetric] Let_def unreadableI split: option.split)
next
  case (Inr v)
  note v = sealed.get_val [OF good Inr]
  show ?thesis
  proof (cases v)
    case None
    with d Inr v good show ?thesis
      by (auto simp: refund_model_budget_def mk [symmetric] split: option.split)
  next
    case (Some bs)
    define sum where
      "sum = u256_to_be_bytes (sat_add (case parse_u256_be bs of None \<Rightarrow> 0 | Some c \<Rightarrow> c) a)"
    have row: "view P master hist w mk = Some bs" using v Some by simp
    from d Inr Some have "try_then store_of_val (put_val P master mk sum True w) (\<lambda>u w. (Inr (), w))
        = (r, w')"
      by (simp add: refund_model_budget_def mk [symmetric] sum_def Let_def)
    then show ?thesis
    proof (cases rule: try_then_cases)
      case (err e)
      with put_val_Inl [OF good err(1)] unwritableI [OF err(1)] show ?thesis
        by (simp add: row sum_def [symmetric] Let_def)
    next
      case (ok u w1)
      with put_val_Inr(1,2) [OF good ok(1)] show ?thesis
        by (simp add: row sum_def [symmetric] Let_def)
    qed
  qed
qed

lemma budget_debit_rows:
  assumes good: "store_good P master hist durable w"
    and d: "debit_model_budget P master k model a w = (r, w')"
  shows "(case r of
      Inl e \<Rightarrow> view P master hist w' = view P master hist w
    | Inr u \<Rightarrow>
        (case view P master hist w (mbudget_key (hash_key_id P k) model) of
           None \<Rightarrow> w' = w
         | Some bs \<Rightarrow> (\<exists>cur. parse_u256_be bs = Some cur \<and> a \<le> cur
             \<and> view P master hist w' = (view P master hist w)
                 (mbudget_key (hash_key_id P k) model \<mapsto> u256_to_be_bytes (cur - a)))))
    \<and> acct P (view P master hist w') = acct P (view P master hist w)
    \<and> store_good P master hist durable w'"
proof -
  let ?mk = "mbudget_key (hash_key_id P k) model"
  show ?thesis
  proof (cases "get_val P master ?mk w")
    case (Inl e)
    with d good show ?thesis by (auto simp: debit_model_budget_def)
  next
    case (Inr v)
    note v = sealed.get_val [OF good Inr]
    show ?thesis
    proof (cases v)
      case None
      with d good Inr v show ?thesis by (auto simp: debit_model_budget_def)
    next
      case (Some bs)
      show ?thesis
      proof (cases "\<exists>cur. parse_u256_be bs = Some cur \<and> a \<le> cur")
        case False
        with d Inr Some have "w' = w \<and> (\<exists>e. r = Inl e)"
          by (auto simp: debit_model_budget_def not_less split: option.splits if_splits)
        with good show ?thesis by auto
      next
        case True
        then obtain cur where cur: "parse_u256_be bs = Some cur" "a \<le> cur" by blast
        with d Inr Some have "try_then budget_of_val
            (put_val P master ?mk (u256_to_be_bytes (cur - a)) True w) (\<lambda>u w. (Inr (), w)) = (r, w')"
          using leD [OF cur(2)] by (simp add: debit_model_budget_def)
        then show ?thesis
        proof (cases rule: try_then_cases)
          case (err e)
          with put_val_Inl [OF good err(1)] show ?thesis by simp
        next
          case (ok u w1)
          note p = put_val_Inr(1,2) [OF good ok(1)]
          have "view P master hist w ?mk = Some bs" using v Some by simp
          with ok p cur show ?thesis
            by (auto simp: acct_upd_other simp del: fun_upd_apply)
        qed
      qed
    qed
  qed
qed

text \<open>A model without a budget is uncapped: its debit does nothing and
  succeeds. A model with one is charged exactly the amount, never below zero;
  a refused debit leaves every row of the store as it was. No account changes
  either way.\<close>

theorem model_budget_debit:
  assumes good: "store_good P master hist durable w"
    and d: "debit_model_budget P master k model a w = (r, w')"
  shows "(case r of
      Inl e \<Rightarrow> view P master hist w' = view P master hist w
    | Inr u \<Rightarrow>
        (case view P master hist w (mbudget_key (hash_key_id P k) model) of
           None \<Rightarrow> w' = w
         | Some bs \<Rightarrow> (\<exists>cur. parse_u256_be bs = Some cur \<and> a \<le> cur
             \<and> view P master hist w' = (view P master hist w)
                 (mbudget_key (hash_key_id P k) model \<mapsto> u256_to_be_bytes (cur - a)))))
    \<and> acct P (view P master hist w') = acct P (view P master hist w)"
  using budget_debit_rows [OF good d] by blast

section \<open>A sample store\<close>

text \<open>One account of 1000 grains on the reference platform.\<close>

definition sample_key :: string where
  "sample_key = ''cgk_a''"

definition sample_record :: balance_record where
  "sample_record =
     \<lparr> br_label = ''sample'', br_created_at = 7, br_revoked = False, br_backing = 0,
       br_deposit_address = be_bytes 20 0, br_balance_be = u256_to_be_bytes 1000 \<rparr>"

definition sample_hash :: string where
  "sample_hash = hash_key_id ref_platform sample_key"

definition sample_store :: ref_world where
  "sample_store = snd (put_val ref_platform ref_master (bal_key sample_hash)
     (p_enc_balance ref_platform sample_record) True ref_start)"

abbreviation ref_good :: "ref_world \<Rightarrow> bool" where
  "ref_good \<equiv> store_good ref_platform ref_master ref_hist ref_durable"

abbreviation ref_view :: "ref_world \<Rightarrow> string \<Rightarrow> bytes option" where
  "ref_view \<equiv> view ref_platform ref_master ref_hist"

lemma ref_start_good: "ref_good ref_start"
  by (simp add: store_good_def ref_platform_ok all_sealed_def ref_hist_def ref_start_def)

lemma ref_seal_for: "\<exists>raw w'. seal_for ref_platform master k b w = (Inr raw, w')"
  using ref_seals [of master k b w] by (auto simp: seal_for_def)

lemma ref_seal_all: "\<exists>raws w'. seal_all ref_platform master kvs w = (Inr raws, w')"
proof (induction kvs arbitrary: w)
  case (Cons kv kvs)
  obtain k b where kv: "kv = (k, b)" by (cases kv)
  obtain raw w1 where 1: "seal_for ref_platform master k b w = (Inr raw, w1)"
    using ref_seal_for by blast
  obtain raws w2 where 2: "seal_all ref_platform master kvs w1 = (Inr raws, w2)"
    using Cons.IH by blast
  show ?case by (simp add: kv 1 2)
qed simp

lemma ref_write: "\<exists>w'. write_sealed ref_platform master sync kvs w = (Inr (), w')"
proof -
  obtain raws w1 where 1: "seal_all ref_platform master kvs w = (Inr raws, w1)"
    using ref_seal_all by blast
  have "\<exists>w'. p_write ref_platform sync raws w1 = (Inr (), w')" by (simp add: ref_platform_def)
  with 1 show ?thesis by (auto simp: write_sealed_def)
qed

lemma ref_get:
  assumes "ref_good w"
  shows "get_val ref_platform ref_master k w = Inr (ref_view w k)"
proof -
  have "p_get ref_platform k w = Inr (replay (ref_hist w) k)"
    by (simp add: ref_platform_def ref_hist_def)
  moreover have "\<exists>b. open_value ref_platform ref_master k raw = Inr b"
    if "replay (ref_hist w) k = Some raw" for raw
    using assms that by (simp add: store_good_def all_sealed_def)
  ultimately show ?thesis
    by (auto simp: get_val_def plain_def split: option.splits sum.splits)
qed

lemma ref_view_start [simp]: "ref_view ref_start = (\<lambda>k. None)"
  by (simp add: ref_hist_def ref_start_def)

lemma sample_store_put:
  "put_val ref_platform ref_master (bal_key sample_hash)
     (p_enc_balance ref_platform sample_record) True ref_start = (Inr (), sample_store)"
  using ref_write [of ref_master True
      "[(bal_key sample_hash, p_enc_balance ref_platform sample_record)]" ref_start]
  by (auto simp: sample_store_def put_val_write)

lemma sample_store_good: "ref_good sample_store"
  and sample_store_view:
    "ref_view sample_store = [bal_key sample_hash \<mapsto> p_enc_balance ref_platform sample_record]"
  using put_val_Inr [OF ref_start_good sample_store_put] by simp_all

lemma sample_acct: "acct ref_platform (ref_view sample_store) = [sample_hash \<mapsto> sample_record]"
  unfolding sample_store_view acct_upd [OF ref_codecs_ok] by (simp add: acct_def fun_eq_iff)

lemma sample_balance: "br_balance sample_record = 1000"
  by (simp add: sample_record_def br_balance_def)

lemma sample_read:
  "read_balance ref_platform ref_master sample_hash sample_store = Inr sample_record"
  by (simp add: read_balance_def ref_get [OF sample_store_good] sample_store_view
      codecs(3) [OF ref_codecs_ok])

lemma sample_debit:
  "\<exists>w'. debit_balance ref_platform ref_master sample_key 300 sample_store = (Inr 700, w')"
proof -
  obtain w' where "put_val ref_platform ref_master (bal_key sample_hash)
      (p_enc_balance ref_platform (set_balance sample_record 700)) True sample_store = (Inr (), w')"
    unfolding put_val_write using ref_write by blast
  moreover have "\<not> br_revoked sample_record" by (simp add: sample_record_def)
  ultimately show ?thesis
    using sample_read
    by (simp add: debit_balance_def Let_def sample_hash_def [symmetric] sample_balance)
qed

theorem durable_debit_witness:
  "\<exists>w'. debit_balance ref_platform ref_master sample_key 300 sample_store = (Inr 700, w')
     \<and> acct ref_platform (ref_view w') sample_hash = Some (set_balance sample_record 700)"
proof -
  obtain w' where d: "debit_balance ref_platform ref_master sample_key 300 sample_store
      = (Inr 700, w')"
    using sample_debit by blast
  from durable_debit [OF sample_store_good d] sample_acct d show ?thesis
    by (auto simp: sample_hash_def)
qed

theorem durable_conservation_witness:
  "\<exists>b'. balances ref_platform ref_master ref_hist
        (snd (run_money (debit_balance ref_platform ref_master)
          (refund_balance ref_platform ref_master) [Debit sample_key 300, Refund sample_key 20]
          sample_store)) sample_hash = Some b'
      \<and> unat b' + debited (hash_key_id ref_platform) sample_hash
          (fst (run_money (debit_balance ref_platform ref_master)
          (refund_balance ref_platform ref_master) [Debit sample_key 300, Refund sample_key 20]
          sample_store))
        = unat (1000 :: u256) + refunded (hash_key_id ref_platform) sample_hash
          (fst (run_money (debit_balance ref_platform ref_master)
          (refund_balance ref_platform ref_master) [Debit sample_key 300, Refund sample_key 20]
          sample_store))"
  by (rule durable_conservation [OF sample_store_good])
    (simp_all add: balances_def sample_acct sample_balance sample_hash_def)

lemma sample_unsettled: "ref_view sample_store (batch_settled_key i) = None"
  by (simp add: sample_store_view)

lemma sample_settle:
  "\<exists>w'. settle_batch_refund ref_platform ref_master sample_key 40 ''b1'' [9] sample_store
     = (Inr 1040, w')"
proof -
  have "p_get ref_platform (batch_settled_key ''b1'') sample_store = Inr None"
    using sample_unsettled marker_view [OF sample_store_good]
    by (simp add: ref_platform_def ref_hist_def)
  moreover obtain w' where "write_sealed ref_platform ref_master True
      [(bal_key sample_hash, p_enc_balance ref_platform (set_balance sample_record 1040)),
       (batch_key ''b1'', [9]), (batch_settled_key ''b1'', [1])] sample_store = (Inr (), w')"
    using ref_write by blast
  moreover have "sat_add (br_balance sample_record) 40 = 1040"
    by (simp add: sample_balance sat_add_def)
  ultimately show ?thesis
    using sample_read by (simp add: settle_batch_refund_def Let_def sample_hash_def [symmetric])
qed

theorem settle_exactly_once_witness:
  "\<exists>w1 w2 r. settle_batch_refund ref_platform ref_master sample_key 40 ''b1'' [9] sample_store
       = (Inr 1040, w1)
     \<and> settle_batch_refund ref_platform ref_master sample_key 40 ''b1'' [9] w1 = (r, w2)
     \<and> acct ref_platform (ref_view w2) = [sample_hash \<mapsto> set_balance sample_record 1040]"
proof -
  obtain w1 where s1: "settle_batch_refund ref_platform ref_master sample_key 40 ''b1'' [9]
      sample_store = (Inr 1040, w1)"
    using sample_settle by blast
  obtain r w2 where s2: "settle_batch_refund ref_platform ref_master sample_key 40 ''b1'' [9] w1
      = (r, w2)"
    by (metis surj_pair)
  have "replays ref_platform ref_master ref_hist ref_durable ''b1'' w1 w2"
    by (rule replays.again [OF replays.start s2])
  from settle_exactly_once [OF sample_store_good sample_unsettled s1 this] s1 s2 show ?thesis
    by (auto simp: sample_acct sample_hash_def)
qed

lemma ref_load:
  assumes good: "ref_good w"
  shows "\<exists>out. load_batches ref_platform ref_master w = Inr out"
proof -
  have "\<exists>out. scan_open ref_platform ref_master p (map Inr rows) = Inr out"
    if "\<forall>r \<in> set rows. replay (ref_hist w) (fst r) = Some (snd r)" for p rows
    using that
  proof (induction rows)
    case (Cons r rows)
    obtain k v where r: "r = (k, v)" by (cases r)
    with Cons.prems good obtain b where "open_value ref_platform ref_master k v = Inr b"
      unfolding store_good_def all_sealed_def by fastforce
    with Cons r show ?case by auto
  qed simp
  moreover have "p_scan ref_platform p w = map Inr (ref_rows p (ref_hist w))" for p
    by (simp add: ref_platform_def ref_hist_def)
  moreover have "\<forall>r \<in> set (ref_rows p (ref_hist w)). replay (ref_hist w) (fst r) = Some (snd r)" for p
    using ref_rows_from [of p "ref_hist w"] by (auto simp: rows_from_def)
  ultimately show ?thesis by (simp add: load_batches_def)
qed

theorem load_batches_complete_witness:
  "\<exists>out. load_batches ref_platform ref_master sample_store = Inr out
     \<and> (''b1'', [9]) \<notin> set out"
proof -
  from ref_load [OF sample_store_good] obtain out
    where l: "load_batches ref_platform ref_master sample_store = Inr out" by blast
  from load_batches_complete [OF sample_store_good l, of "''b1''" "[9]"] l show ?thesis
    by (simp add: sample_store_view)
qed

theorem model_budget_debit_witness:
  "debit_model_budget ref_platform ref_master sample_key ''m'' 5 sample_store = (Inr (), sample_store)
   \<and> acct ref_platform (ref_view sample_store) sample_hash = Some sample_record"
proof -
  have d: "debit_model_budget ref_platform ref_master sample_key ''m'' 5 sample_store
      = (Inr (), sample_store)"
    by (simp add: debit_model_budget_def ref_get [OF sample_store_good] sample_store_view)
  from model_budget_debit [OF sample_store_good d] d show ?thesis
    by (simp add: sample_acct)
qed

end
