(* ===== verification/Api_Keys.thy ===== *)
theory Api_Keys
  imports Balances
begin

text \<open>
  The metered keys of \<open>gateway/src/keystore.rs\<close>: key records and their
  revocation, the member keys of signed-in accounts, and \<open>try_consume\<close>, which
  authenticates a request and charges it against a one-second window, a daily
  quota and the daily pool that member keys share. A counter that admits up to
  a cap in each window is the locale \<open>window_counter\<close>.
\<close>

section \<open>State and errors\<close>

record rate_window =
  rw_window_start :: u64
  rw_count :: u32

record 'w keystore =
  ks_world :: 'w
  ks_rate :: "(string \<times> rate_window) list"
  ks_member_pool_daily :: u64

record consumed_key =
  ck_hash :: string
  ck_label :: string

datatype consume_error =
    ConsumeUnknown
  | ConsumeRevoked
  | RateLimited nat
  | DailyQuotaExceeded nat
  | ConsumeStore string
  | ConsumeCrypt crypt_error

fun consume_of_val :: "val_err \<Rightarrow> consume_error" where
  "consume_of_val (DbErr e) = ConsumeStore e"
| "consume_of_val (CryptErr e) = ConsumeCrypt e"

section \<open>Dates\<close>

definition pad_left :: "nat \<Rightarrow> string \<Rightarrow> string" where
  "pad_left n s = replicate (n - length s) (CHR ''0'') @ s"

definition today_yyyymmdd :: "'w platform \<Rightarrow> 'w \<Rightarrow> string \<times> 'w" where
  "today_yyyymmdd P w =
     (case p_date P w of ((y, m, d), w) \<Rightarrow>
        (pad_left 4 (dec_string y) @ pad_left 2 (dec_string m) @ pad_left 2 (dec_string d), w))"

definition seconds_until_next_utc_day :: "'w platform \<Rightarrow> 'w \<Rightarrow> nat \<times> 'w" where
  "seconds_until_next_utc_day P w = (case p_second_of_day P w of (s, w) \<Rightarrow> (86400 - s, w))"

section \<open>Records\<close>

definition create_key ::
  "'w platform \<Rightarrow> bytes \<Rightarrow> string \<Rightarrow> u32 \<Rightarrow> u64 \<Rightarrow> 'w \<Rightarrow> (store_error + string) \<times> 'w" where
  "create_key P master label quota_rps daily_quota w =
     (let (uuid, w) = p_uuid P w;
          id = ''cgk_'' @ uuid;
          h = hash_key_id P id;
          (now, w) = p_now P w;
          rec = \<lparr> kr_label = label, kr_created_at = now, kr_revoked = False,
                  kr_quota_rps = quota_rps, kr_daily_quota = daily_quota \<rparr>
      in try_then store_of_val (put_val P master (record_key h) (p_enc_key P rec) False w)
           (\<lambda>u w. (Inr id, w)))"

definition get_record ::
  "'w platform \<Rightarrow> bytes \<Rightarrow> string \<Rightarrow> 'w \<Rightarrow> store_error + key_record option" where
  "get_record P master key_id w =
     (case get_val P master (record_key (hash_key_id P key_id)) w of
        Inl e \<Rightarrow> Inl (store_of_val e)
      | Inr None \<Rightarrow> Inr None
      | Inr (Some b) \<Rightarrow>
          (case p_dec_key P b of Inl e \<Rightarrow> Inl (StoreEncode e) | Inr rec \<Rightarrow> Inr (Some rec)))"

definition list_records ::
  "'w platform \<Rightarrow> bytes \<Rightarrow> 'w \<Rightarrow> store_error + (string \<times> key_record) list" where
  "list_records P master w =
     map_sum id (\<lambda>rows. concat (map (\<lambda>(h, b).
         case p_dec_key P b of Inl e \<Rightarrow> [] | Inr r \<Rightarrow> [(h, r)]) rows))
       (scan_open P master ''record:'' (p_scan P ''record:'' w))"

definition revoke_hash ::
  "'w platform \<Rightarrow> bytes \<Rightarrow> string \<Rightarrow> 'w \<Rightarrow> (store_error + unit) \<times> 'w" where
  "revoke_hash P master h w =
     (case get_val P master (record_key h) w of
        Inl e \<Rightarrow> (Inl (store_of_val e), w)
      | Inr (Some b) \<Rightarrow>
          (case p_dec_key P b of
             Inl e \<Rightarrow> (Inl (StoreEncode e), w)
           | Inr rec \<Rightarrow>
               try_then store_of_val
                 (put_val P master (record_key h) (p_enc_key P (rec\<lparr> kr_revoked := True \<rparr>)) False w)
                 (\<lambda>u w. (Inr (), w)))
      | Inr None \<Rightarrow>
          (case get_val P master (bal_key h) w of
             Inl e \<Rightarrow> (Inl (store_of_val e), w)
           | Inr (Some b) \<Rightarrow>
               (case p_dec_balance P b of
                  Inl e \<Rightarrow> (Inl (StoreEncode e), w)
                | Inr rec \<Rightarrow>
                    try_then store_of_val
                      (put_val P master (bal_key h)
                         (p_enc_balance P (rec\<lparr> br_revoked := True \<rparr>)) True w)
                      (\<lambda>u w. (Inr (), w)))
           | Inr None \<Rightarrow> (Inl StoreUnknown, w)))"

definition revoke_key ::
  "'w platform \<Rightarrow> bytes \<Rightarrow> string \<Rightarrow> 'w \<Rightarrow> (store_error + unit) \<times> 'w" where
  "revoke_key P master key_id w = revoke_hash P master (hash_key_id P key_id) w"

section \<open>Member keys\<close>

definition member_key_hash ::
  "'w platform \<Rightarrow> bytes \<Rightarrow> string \<Rightarrow> 'w \<Rightarrow> store_error + string option" where
  "member_key_hash P master subhash w =
     (case get_val P master (member_map_key subhash) w of
        Inl e \<Rightarrow> Inl (store_of_val e)
      | Inr None \<Rightarrow> Inr None
      | Inr (Some b) \<Rightarrow>
          (case from_utf8 b of
             None \<Rightarrow> Inl (StoreEncode ''invalid utf-8'')
           | Some s \<Rightarrow> Inr (Some s)))"

text \<open>Mint the new key, revoke the old one by its hash, then write the mapping.\<close>

definition retire_previous ::
  "'w platform \<Rightarrow> bytes \<Rightarrow> string option \<Rightarrow> 'w \<Rightarrow> (store_error + unit) \<times> 'w" where
  "retire_previous P master previous w =
     (case previous of
        None \<Rightarrow> (Inr (), w)
      | Some old \<Rightarrow>
          (case revoke_hash P master old w of
             (Inl StoreUnknown, w) \<Rightarrow> (Inr (), w)
           | (Inl e, w) \<Rightarrow> (Inl e, w)
           | (Inr u, w) \<Rightarrow> (Inr (), w)))"

definition rotate_member_key ::
  "'w platform \<Rightarrow> bytes \<Rightarrow> string \<Rightarrow> u32 \<Rightarrow> u64 \<Rightarrow> 'w \<Rightarrow> (store_error + string) \<times> 'w" where
  "rotate_member_key P master subhash quota_rps daily_quota w =
     try_then id (member_key_hash P master subhash w, w) (\<lambda>previous w.
       try_then id (create_key P master (member_label_prefix @ subhash) quota_rps daily_quota w)
         (\<lambda>id' w. try_then id (retire_previous P master previous w)
            (\<lambda>u w. try_then store_of_val
               (put_val P master (member_map_key subhash) (as_bytes (hash_key_id P id')) True w)
               (\<lambda>u w. (Inr id', w)))))"

section \<open>Metering\<close>

definition set_member_pool_daily :: "u64 \<Rightarrow> 'w keystore \<Rightarrow> 'w keystore" where
  "set_member_pool_daily cap ks = ks\<lparr> ks_member_pool_daily := cap \<rparr>"

definition member_pool_daily :: "'w keystore \<Rightarrow> u64" where
  "member_pool_daily ks = ks_member_pool_daily ks"

definition read_counter ::
  "'w platform \<Rightarrow> bytes \<Rightarrow> string \<Rightarrow> 'w \<Rightarrow> val_err + u64" where
  "read_counter P master key w =
     map_sum id (\<lambda>v. case v of
         None \<Rightarrow> 0
       | Some b \<Rightarrow> if length b = 8 then of_nat (le_val b) else 0)
       (get_val P master key w)"

definition member_pool_used_today ::
  "'w platform \<Rightarrow> bytes \<Rightarrow> 'w \<Rightarrow> (store_error + u64) \<times> 'w" where
  "member_pool_used_today P master w =
     (case today_yyyymmdd P w of (day, w) \<Rightarrow>
        (map_sum store_of_val id (read_counter P master (member_pool_key day) w), w))"

text \<open>One request against a key's one-second window.\<close>

definition rate_step :: "u32 \<Rightarrow> u64 \<Rightarrow> rate_window option \<Rightarrow> bool \<times> rate_window" where
  "rate_step quota_rps now entry =
     (let w = (case entry of
                 None \<Rightarrow> \<lparr> rw_window_start = now, rw_count = 0 \<rparr>
               | Some w \<Rightarrow> w);
          w = (if rw_window_start w \<noteq> now then \<lparr> rw_window_start = now, rw_count = 0 \<rparr> else w)
      in if quota_rps \<le> rw_count w then (False, w)
         else (True, w\<lparr> rw_count := rw_count w + 1 \<rparr>))"

definition charge_rate ::
  "'w platform \<Rightarrow> key_record \<Rightarrow> string \<Rightarrow> 'w keystore \<Rightarrow> (consume_error + unit) \<times> 'w keystore" where
  "charge_rate P rec h ks =
     (if 0 < kr_quota_rps rec
      then
        case p_now P (ks_world ks) of (now, w) \<Rightarrow>
          (case rate_step (kr_quota_rps rec) now (map_of (ks_rate ks) h) of (ok, rw) \<Rightarrow>
             (if ok then Inr () else Inl (RateLimited 1),
              ks\<lparr> ks_world := w, ks_rate := AList.update h rw (ks_rate ks) \<rparr>))
      else (Inr (), ks))"

text \<open>The shared pool, checked and charged before the key's own counter.\<close>

definition charge_pool ::
  "'w platform \<Rightarrow> bytes \<Rightarrow> u64 \<Rightarrow> string \<Rightarrow> 'w \<Rightarrow> (consume_error + unit) \<times> 'w" where
  "charge_pool P master pool_cap day w =
     (if 0 < pool_cap
      then try_then consume_of_val (read_counter P master (member_pool_key day) w, w) (\<lambda>used w.
             if pool_cap \<le> used
             then (case seconds_until_next_utc_day P w of (s, w) \<Rightarrow> (Inl (DailyQuotaExceeded s), w))
             else try_then consume_of_val
                    (put_val P master (member_pool_key day) (le_bytes 8 (unat (used + 1))) False w)
                    (\<lambda>u w. (Inr (), w)))
      else (Inr (), w))"

definition charge_own ::
  "'w platform \<Rightarrow> bytes \<Rightarrow> u64 \<Rightarrow> string \<Rightarrow> string \<Rightarrow> u64 \<Rightarrow> 'w \<Rightarrow> (consume_error + unit) \<times> 'w" where
  "charge_own P master quota h day cur w =
     (if 0 < quota
      then try_then consume_of_val
             (put_val P master (quota_key h day) (le_bytes 8 (unat (cur + 1))) False w)
             (\<lambda>u w. (Inr (), w))
      else (Inr (), w))"

definition charge_on ::
  "'w platform \<Rightarrow> bytes \<Rightarrow> u64 \<Rightarrow> u64 \<Rightarrow> string \<Rightarrow> string \<Rightarrow> 'w \<Rightarrow> (consume_error + unit) \<times> 'w" where
  "charge_on P master quota pool_cap h day w =
     try_then consume_of_val
       (if 0 < quota then read_counter P master (quota_key h day) w else Inr 0, w)
       (\<lambda>cur w.
         if 0 < quota \<and> quota \<le> cur
         then (case seconds_until_next_utc_day P w of (s, w) \<Rightarrow> (Inl (DailyQuotaExceeded s), w))
         else try_then id (charge_pool P master pool_cap day w)
                (\<lambda>u w. charge_own P master quota h day cur w))"

definition charge_daily ::
  "'w platform \<Rightarrow> bytes \<Rightarrow> key_record \<Rightarrow> u64 \<Rightarrow> string \<Rightarrow> 'w \<Rightarrow> (consume_error + unit) \<times> 'w" where
  "charge_daily P master rec pool_cap h w =
     (if 0 < kr_daily_quota rec \<or> 0 < pool_cap
      then case today_yyyymmdd P w of (day, w) \<Rightarrow>
             charge_on P master (kr_daily_quota rec) pool_cap h day w
      else (Inr (), w))"

text \<open>The look-up of the presented token: 401 when it is unknown or revoked.\<close>

definition authenticate ::
  "'w platform \<Rightarrow> bytes \<Rightarrow> string \<Rightarrow> 'w \<Rightarrow> consume_error + key_record" where
  "authenticate P master key_id w =
     (case get_val P master (record_key (hash_key_id P key_id)) w of
        Inl e \<Rightarrow> Inl (consume_of_val e)
      | Inr None \<Rightarrow> Inl ConsumeUnknown
      | Inr (Some b) \<Rightarrow>
          (case p_dec_key P b of
             Inl e \<Rightarrow> Inl ConsumeUnknown
           | Inr rec \<Rightarrow> if kr_revoked rec then Inl ConsumeRevoked else Inr rec))"

definition pool_cap_of :: "'w keystore \<Rightarrow> key_record \<Rightarrow> u64" where
  "pool_cap_of ks rec =
     (if starts_with member_label_prefix (kr_label rec) then member_pool_daily ks else 0)"

definition try_consume ::
  "'w platform \<Rightarrow> bytes \<Rightarrow> string \<Rightarrow> 'w keystore \<Rightarrow> (consume_error + consumed_key) \<times> 'w keystore"
where
  "try_consume P master key_id ks =
     (let h = hash_key_id P key_id
      in try_then id (authenticate P master key_id (ks_world ks), ks) (\<lambda>rec ks.
           try_then id (charge_rate P rec h ks) (\<lambda>u ks.
             case charge_daily P master rec (pool_cap_of ks rec) h (ks_world ks) of
               (Inl e, w) \<Rightarrow> (Inl e, ks\<lparr> ks_world := w \<rparr>)
             | (Inr u, w) \<Rightarrow>
                 (Inr \<lparr> ck_hash = h, ck_label = kr_label rec \<rparr>, ks\<lparr> ks_world := w \<rparr>))))"

section \<open>What a counter row holds\<close>

definition counter :: "(string \<Rightarrow> bytes option) \<Rightarrow> string \<Rightarrow> u64" where
  "counter m k =
     (case m k of None \<Rightarrow> 0 | Some b \<Rightarrow> if length b = 8 then of_nat (le_val b) else 0)"

definition bump :: "string \<Rightarrow> (string \<Rightarrow> bytes option) \<Rightarrow> (string \<Rightarrow> bytes option)" where
  "bump k m = m(k \<mapsto> le_bytes 8 (unat (counter m k + 1)))"

lemma counter_upd [simp]:
  "counter (m(k \<mapsto> le_bytes 8 (unat v))) k' = (if k' = k then v else counter m k')"
  using unat_less_length [of v] by (simp add: counter_def le_val_bytes)

lemma counter_bump [simp]:
  "counter (bump k m) k' = (if k' = k then counter m k + 1 else counter m k')"
  by (simp add: bump_def)

lemma bump_other [simp]: "k' \<noteq> k \<Longrightarrow> bump k m k' = m k'"
  by (simp add: bump_def)

lemma read_counter_Inr:
  assumes "store_good P master hist durable w" and "read_counter P master k w = Inr v"
  shows "v = counter (view P master hist w) k"
proof -
  obtain r where r: "get_val P master k w = Inr r"
    using assms(2) by (cases "get_val P master k w") (auto simp: read_counter_def)
  with get_val_Inr [OF store_good_platform [OF assms(1)] r] assms(2) show ?thesis
    by (simp add: read_counter_def counter_def split: option.split)
qed

lemma bump_cap:
  fixes c cap :: u64
  assumes "c < cap"
  shows "unat (c + 1) = unat c + 1" and "unat (c + 1) \<le> unat cap"
proof -
  show "unat (c + 1) = unat c + 1"
    using assms unat_less_length [of cap]
    by (simp add: unat_word_ariths word_less_nat_alt)
  then show "unat (c + 1) \<le> unat cap" using assms by (simp add: word_less_nat_alt)
qed

section \<open>What the charges do to the store\<close>

lemma store_good_hist:
  "hist w' = hist w \<Longrightarrow> store_good P master hist durable w' = store_good P master hist durable w"
  by (simp add: store_good_def)

lemma today_state:
  assumes "host_ok P hist durable" and "today_yyyymmdd P w = (day, w')"
  shows "hist w' = hist w"
  using assms host_state(4) [OF assms(1)]
  by (auto simp: today_yyyymmdd_def split: prod.splits)

lemma wait_state:
  assumes "host_ok P hist durable" and "seconds_until_next_utc_day P w = (s, w')"
  shows "hist w' = hist w"
  using assms host_state(5) [OF assms(1)]
  by (auto simp: seconds_until_next_utc_day_def split: prod.splits)

text \<open>What a charge does to the rows, by its result. A refusal leaves them as
  they were; only a failing write of the key's own counter leaves the pool
  charged alone.\<close>

definition day_room :: "u64 \<Rightarrow> u64 \<Rightarrow> string \<Rightarrow> string \<Rightarrow> (string \<Rightarrow> bytes option) \<Rightarrow> bool" where
  "day_room quota pool h day m \<longleftrightarrow>
     (0 < quota \<longrightarrow> counter m (quota_key h day) < quota)
     \<and> (0 < pool \<longrightarrow> counter m (member_pool_key day) < pool)"

definition pool_charge :: "u64 \<Rightarrow> string \<Rightarrow> (string \<Rightarrow> bytes option) \<Rightarrow> (string \<Rightarrow> bytes option)" where
  "pool_charge pool day m = (if 0 < pool then bump (member_pool_key day) m else m)"

definition own_charge ::
  "u64 \<Rightarrow> string \<Rightarrow> string \<Rightarrow> (string \<Rightarrow> bytes option) \<Rightarrow> (string \<Rightarrow> bytes option)" where
  "own_charge quota h day m = (if 0 < quota then bump (quota_key h day) m else m)"

definition day_outcome ::
  "consume_error + unit \<Rightarrow> u64 \<Rightarrow> u64 \<Rightarrow> string \<Rightarrow> string \<Rightarrow>
   (string \<Rightarrow> bytes option) \<Rightarrow> (string \<Rightarrow> bytes option) \<Rightarrow> bool" where
  "day_outcome r quota pool h day m m' \<longleftrightarrow>
     (case r of
        Inr u \<Rightarrow> day_room quota pool h day m \<and> m' = own_charge quota h day (pool_charge pool day m)
      | Inl e \<Rightarrow> m' = m
          \<or> (e \<in> range consume_of_val \<and> day_room quota pool h day m \<and> m' = pool_charge pool day m))"

lemma charge_pool_outcome:
  assumes good: "store_good P master hist durable w"
    and c: "charge_pool P master cap day w = (r, w')"
  shows "store_good P master hist durable w' \<and>
    (case r of
       Inl e \<Rightarrow> view P master hist w' = view P master hist w
     | Inr u \<Rightarrow> (0 < cap \<longrightarrow> counter (view P master hist w) (member_pool_key day) < cap)
         \<and> view P master hist w' = pool_charge cap day (view P master hist w))"
proof (cases "0 < cap")
  case True
  from c True have "try_then consume_of_val (read_counter P master (member_pool_key day) w, w)
     (\<lambda>used w. if cap \<le> used
        then (case seconds_until_next_utc_day P w of (s, w) \<Rightarrow> (Inl (DailyQuotaExceeded s), w))
        else try_then consume_of_val
               (put_val P master (member_pool_key day) (le_bytes 8 (unat (used + 1))) False w)
               (\<lambda>u w. (Inr (), w))) = (r, w')"
    by (simp add: charge_pool_def)
  then show ?thesis
  proof (cases rule: try_then_cases)
    case err
    with good show ?thesis by auto
  next
    case (ok used w0)
    then have w0: "w0 = w" and used: "used = counter (view P master hist w) (member_pool_key day)"
      using read_counter_Inr [OF good] by auto
    show ?thesis
    proof (cases "cap \<le> used")
      case full: True
      obtain s w1 where s: "seconds_until_next_utc_day P w = (s, w1)" by fastforce
      from wait_state [OF platform_okD(2) [OF store_good_platform [OF good]] s] full ok(2) s w0 good
      show ?thesis by (auto simp: store_good_hist [of hist w' w])
    next
      case False
      with ok(2) w0 have "try_then consume_of_val
          (put_val P master (member_pool_key day) (le_bytes 8 (unat (used + 1))) False w)
          (\<lambda>u w. (Inr (), w)) = (r, w')" by simp
      then show ?thesis
      proof (cases rule: try_then_cases)
        case (err e)
        with put_val_Inl [OF good err(1)] show ?thesis by auto
      next
        case (ok u w1)
        with put_val_Inr(1,2) [OF good ok(1)] False True used show ?thesis
          by (auto simp: bump_def pool_charge_def)
      qed
    qed
  qed
qed (use assms in \<open>auto simp: charge_pool_def pool_charge_def\<close>)

lemma charge_own_outcome:
  assumes good: "store_good P master hist durable w"
    and cur: "0 < quota \<Longrightarrow> cur = counter (view P master hist w) (quota_key h day)"
    and c: "charge_own P master quota h day cur w = (r, w')"
  shows "store_good P master hist durable w' \<and>
    (case r of
       Inl e \<Rightarrow> e \<in> range consume_of_val \<and> view P master hist w' = view P master hist w
     | Inr u \<Rightarrow> view P master hist w' = own_charge quota h day (view P master hist w))"
proof (cases "0 < quota")
  case True
  with c have "try_then consume_of_val
      (put_val P master (quota_key h day) (le_bytes 8 (unat (cur + 1))) False w)
      (\<lambda>u w. (Inr (), w)) = (r, w')" by (simp add: charge_own_def)
  then show ?thesis
  proof (cases rule: try_then_cases)
    case (err e)
    with put_val_Inl [OF good err(1)] show ?thesis by auto
  next
    case (ok u w1)
    with put_val_Inr(1,2) [OF good ok(1)] True cur show ?thesis
      by (auto simp: bump_def own_charge_def)
  qed
qed (use assms in \<open>auto simp: charge_own_def own_charge_def\<close>)

lemma charge_on_outcome:
  assumes good: "store_good P master hist durable w" and h: "\<forall>d. quota_key h d \<noteq> member_pool_key d"
    and c: "charge_on P master quota pool h day w = (r, w')"
  shows "store_good P master hist durable w'
    \<and> day_outcome r quota pool h day (view P master hist w) (view P master hist w')"
  using c unfolding charge_on_def
proof (cases rule: try_then_cases)
  case (err e)
  with good show ?thesis by (auto simp: day_outcome_def)
next
  case (ok cur w0)
  then have w0: "w0 = w" and cur: "0 < quota \<Longrightarrow> cur = counter (view P master hist w) (quota_key h day)"
    using read_counter_Inr [OF good] by auto
  show ?thesis
  proof (cases "0 < quota \<and> quota \<le> cur")
    case True
    obtain s w1 where s: "seconds_until_next_utc_day P w = (s, w1)" by fastforce
    from wait_state [OF platform_okD(2) [OF store_good_platform [OF good]] s] True ok(2) s w0 good
    show ?thesis by (auto simp: store_good_hist [of hist w' w] day_outcome_def)
  next
    case room: False
    with ok(2) w0 have "try_then id (charge_pool P master pool day w)
        (\<lambda>u w. charge_own P master quota h day cur w) = (r, w')" by simp
    then show ?thesis
    proof (cases rule: try_then_cases)
      case (err e)
      with charge_pool_outcome [OF good err(1)] show ?thesis by (simp add: day_outcome_def)
    next
      case pool: (ok u w1)
      note p = charge_pool_outcome [OF good pool(1)]
      have "counter (view P master hist w1) (quota_key h day)
          = counter (view P master hist w) (quota_key h day)"
        using p h by (simp add: pool_charge_def)
      with cur have cur1: "0 < quota \<Longrightarrow> cur = counter (view P master hist w1) (quota_key h day)"
        by simp
      have "day_room quota pool h day (view P master hist w)"
        using p room cur by (auto simp: day_room_def)
      moreover have good1: "store_good P master hist durable w1" using p by simp
      ultimately show ?thesis using charge_own_outcome [OF good1 cur1 pool(2)] p
        by (auto simp: day_outcome_def split: sum.splits)
    qed
  qed
qed

lemma charge_daily_outcome:
  assumes good: "store_good P master hist durable w" and h: "\<forall>d. quota_key h d \<noteq> member_pool_key d"
    and c: "charge_daily P master rec pool h w = (r, w')"
  shows "store_good P master hist durable w'
    \<and> day_outcome r (kr_daily_quota rec) pool h (fst (today_yyyymmdd P w))
        (view P master hist w) (view P master hist w')"
proof (cases "0 < kr_daily_quota rec \<or> 0 < pool")
  case True
  obtain day w0 where d: "today_yyyymmdd P w = (day, w0)" by fastforce
  have h0: "hist w0 = hist w"
    by (rule today_state [OF platform_okD(2) [OF store_good_platform [OF good]] d])
  have on: "charge_on P master (kr_daily_quota rec) pool h day w0 = (r, w')"
    using c d True by (simp add: charge_daily_def)
  have good0: "store_good P master hist durable w0"
    using good h0 by (simp add: store_good_hist [of hist w0 w])
  from charge_on_outcome [OF good0 h on] h0 d show ?thesis by simp
qed (use assms in \<open>auto simp: charge_daily_def day_outcome_def day_room_def own_charge_def
      pool_charge_def\<close>)

lemma charge_rate_state:
  assumes "host_ok P hist durable" and "charge_rate P rec h ks = (r, ks')"
  shows "hist (ks_world ks') = hist (ks_world ks)"
    and "ks_member_pool_daily ks' = ks_member_pool_daily ks"
  using assms host_state(3) [OF assms(1)]
  by (auto simp: charge_rate_def split: prod.splits if_splits)

section \<open>Whole requests\<close>

text \<open>The day a request is charged to: the date read after its window check.\<close>

definition request_day :: "'w platform \<Rightarrow> bytes \<Rightarrow> string \<Rightarrow> 'w keystore \<Rightarrow> string" where
  "request_day P master key_id ks =
     (case authenticate P master key_id (ks_world ks) of
        Inl e \<Rightarrow> []
      | Inr rec \<Rightarrow> fst (today_yyyymmdd P (ks_world
          (snd (charge_rate P rec (hash_key_id P key_id) ks)))))"

definition key_rec :: "'w platform \<Rightarrow> (string \<Rightarrow> bytes option) \<Rightarrow> string \<Rightarrow> key_record option" where
  "key_rec P m h =
     (case m (record_key h) of
        None \<Rightarrow> None
      | Some b \<Rightarrow> (case p_dec_key P b of Inl e \<Rightarrow> None | Inr rec \<Rightarrow> Some rec))"

lemma authenticate_Inr:
  assumes "store_good P master hist durable w" and "authenticate P master key_id w = Inr rec"
  shows "key_rec P (view P master hist w) (hash_key_id P key_id) = Some rec" and "\<not> kr_revoked rec"
proof -
  obtain v where v: "get_val P master (record_key (hash_key_id P key_id)) w = Inr v"
    using assms(2) by (auto simp: authenticate_def split: sum.splits)
  with get_val_Inr [OF store_good_platform [OF assms(1)] v] assms(2)
  show "key_rec P (view P master hist w) (hash_key_id P key_id) = Some rec" and "\<not> kr_revoked rec"
    by (auto simp: authenticate_def key_rec_def split: option.splits sum.splits if_splits)
qed

lemma quota_key_hash:
  assumes "digest_ok P"
  shows "quota_key (hash_key_id P i) d \<noteq> member_pool_key d'"
    and "quota_key (hash_key_id P i) d = quota_key (hash_key_id P j) d' \<longleftrightarrow>
           hash_key_id P i = hash_key_id P j \<and> d = d'"
proof -
  have len: "\<And>i. length (hash_key_id P i) = 64"
    and hex: "\<And>i. set (hash_key_id P i) \<subseteq> set ''0123456789abcdef''"
    using assms by (simp_all add: digest_ok_def hash_key_id_def)
  then show "quota_key (hash_key_id P i) d = quota_key (hash_key_id P j) d' \<longleftrightarrow>
           hash_key_id P i = hash_key_id P j \<and> d = d'"
    by (simp add: quota_key_def)
  obtain c cs where "hash_key_id P i = c # cs" using len [of i] by (cases "hash_key_id P i") auto
  with hex [of i] show "quota_key (hash_key_id P i) d \<noteq> member_pool_key d'"
    by (auto simp: quota_key_def member_pool_key_def)
qed

lemma charges_keep:
  assumes "key \<notin> range member_pool_key" and "key \<notin> range (quota_key h)"
  shows "own_charge q h d (pool_charge p d m) key = m key" and "pool_charge p d m key = m key"
proof -
  have "bump k m key = m key" if "k \<in> range member_pool_key \<union> range (quota_key h)" for k m
    using that assms by (intro bump_other) auto
  then show "own_charge q h d (pool_charge p d m) key = m key" and "pool_charge p d m key = m key"
    by (auto simp: own_charge_def pool_charge_def)
qed

definition consume_outcome ::
  "'w platform \<Rightarrow> consume_error + consumed_key \<Rightarrow> string \<Rightarrow> string \<Rightarrow> 'w keystore \<Rightarrow>
   (string \<Rightarrow> bytes option) \<Rightarrow> (string \<Rightarrow> bytes option) \<Rightarrow> bool" where
  "consume_outcome P r h day ks m m' \<longleftrightarrow>
     (case r of
        Inr ck \<Rightarrow> (\<exists>rec. key_rec P m h = Some rec \<and> \<not> kr_revoked rec
          \<and> ck = \<lparr> ck_hash = h, ck_label = kr_label rec \<rparr>
          \<and> day_room (kr_daily_quota rec) (pool_cap_of ks rec) h day m
          \<and> m' = own_charge (kr_daily_quota rec) h day (pool_charge (pool_cap_of ks rec) day m))
      | Inl e \<Rightarrow> m' = m
          \<or> (e \<in> range consume_of_val \<and> (\<exists>rec. key_rec P m h = Some rec
               \<and> day_room (kr_daily_quota rec) (pool_cap_of ks rec) h day m
               \<and> m' = pool_charge (pool_cap_of ks rec) day m)))"

lemma consume_daily_outcome:
  assumes good: "store_good P master hist durable (ks_world ks)" and dig: "digest_ok P"
    and rec: "key_rec P (view P master hist (ks_world ks)) (hash_key_id P key) = Some rec"
    and live: "\<not> kr_revoked rec"
    and ks1: "hist (ks_world ks1) = hist (ks_world ks)"
      "ks_member_pool_daily ks1 = ks_member_pool_daily ks"
    and day: "day = fst (today_yyyymmdd P (ks_world ks1))"
    and c: "(case charge_daily P master rec (pool_cap_of ks1 rec) (hash_key_id P key) (ks_world ks1) of
              (Inl e, w) \<Rightarrow> (Inl e, ks1\<lparr> ks_world := w \<rparr>)
            | (Inr u, w) \<Rightarrow> (Inr \<lparr> ck_hash = hash_key_id P key, ck_label = kr_label rec \<rparr>,
                ks1\<lparr> ks_world := w \<rparr>)) = (r, ks')"
  shows "store_good P master hist durable (ks_world ks')
    \<and> ks_member_pool_daily ks' = ks_member_pool_daily ks
    \<and> consume_outcome P r (hash_key_id P key) day ks
        (view P master hist (ks_world ks)) (view P master hist (ks_world ks'))"
proof -
  obtain r0 w where d: "charge_daily P master rec (pool_cap_of ks1 rec) (hash_key_id P key)
      (ks_world ks1) = (r0, w)" by fastforce
  have good1: "store_good P master hist durable (ks_world ks1)"
    using good ks1 by (simp add: store_good_hist [of hist "ks_world ks1" "ks_world ks"])
  have "pool_cap_of ks1 rec = pool_cap_of ks rec" using ks1 by (simp add: pool_cap_of_def member_pool_daily_def)
  with charge_daily_outcome [OF good1 _ d] quota_key_hash(1) [OF dig] ks1 c d rec live day
  show ?thesis
    by (cases r0) (auto simp: consume_outcome_def day_outcome_def)
qed

lemma try_consume_outcome:
  assumes good: "store_good P master hist durable (ks_world ks)" and dig: "digest_ok P"
    and c: "try_consume P master key ks = (r, ks')"
  shows "store_good P master hist durable (ks_world ks')
    \<and> ks_member_pool_daily ks' = ks_member_pool_daily ks
    \<and> consume_outcome P r (hash_key_id P key) (request_day P master key ks) ks
        (view P master hist (ks_world ks)) (view P master hist (ks_world ks'))"
  using c unfolding try_consume_def Let_def
proof (cases rule: try_then_cases)
  case (err e)
  with good show ?thesis by (auto simp: consume_outcome_def)
next
  case (ok rec ks0)
  then have ks0: "ks0 = ks" and a: "authenticate P master key (ks_world ks) = Inr rec" by auto
  note host = platform_okD(2) [OF store_good_platform [OF good]]
  from ok(2) show ?thesis unfolding ks0
  proof (cases rule: try_then_cases)
    case (err e)
    with charge_rate_state [OF host err(1)] good show ?thesis
      by (auto simp: consume_outcome_def store_good_hist [of hist "ks_world ks'" "ks_world ks"])
  next
    case (ok u ks1)
    have "request_day P master key ks = fst (today_yyyymmdd P (ks_world ks1))"
      using a ok(1) by (simp add: request_day_def)
    from consume_daily_outcome [OF good dig authenticate_Inr [OF good a]
        charge_rate_state [OF host ok(1)] this ok(2)]
    show ?thesis .
  qed
qed

lemma key_rec_charges [simp]:
  "key_rec P (own_charge q h d m) = key_rec P m" "key_rec P (pool_charge p d m) = key_rec P m"
  by (simp_all add: key_rec_def own_charge_def pool_charge_def fun_eq_iff)

lemma try_consume_keeps_records:
  assumes "store_good P master hist durable (ks_world ks)" and "digest_ok P"
    and "try_consume P master key ks = (r, ks')"
  shows "key_rec P (view P master hist (ks_world ks')) = key_rec P (view P master hist (ks_world ks))"
  using try_consume_outcome [OF assms]
  by (auto simp: consume_outcome_def split: sum.splits)

section \<open>Windows\<close>

text \<open>A sequence of metered requests: each takes place at some time and is
  admitted or not.\<close>

primrec run_steps ::
  "('r \<Rightarrow> 's \<Rightarrow> ('t \<times> bool) \<times> 's) \<Rightarrow> 'r list \<Rightarrow> 's \<Rightarrow> ('r \<times> 't \<times> bool) list \<times> 's" where
  "run_steps step [] s = ([], s)"
| "run_steps step (r # rs) s =
     (case step r s of ((t, ok), s') \<Rightarrow>
        (case run_steps step rs s' of (tr, s'') \<Rightarrow> ((r, t, ok) # tr, s'')))"

definition metered ::
  "('r \<Rightarrow> 's \<Rightarrow> 't) \<Rightarrow> ('r \<Rightarrow> 's \<Rightarrow> ('e + 'a) \<times> 's) \<Rightarrow> 'r \<Rightarrow> 's \<Rightarrow> ('t \<times> bool) \<times> 's" where
  "metered time f r s = ((time r s, (case fst (f r s) of Inl e \<Rightarrow> False | Inr a \<Rightarrow> True)), snd (f r s))"

definition admitted :: "('r \<Rightarrow> bool) \<Rightarrow> 't \<Rightarrow> ('r \<times> 't \<times> bool) list \<Rightarrow> nat" where
  "admitted counts t tr = length (filter (\<lambda>(r, t', ok). ok \<and> t' = t \<and> counts r) tr)"

lemma admitted_simps [simp]:
  "admitted counts t [] = 0"
  "admitted counts t ((r, t', ok) # tr) =
     (if ok \<and> t' = t \<and> counts r then 1 else 0) + admitted counts t tr"
  by (simp_all add: admitted_def)

text \<open>What a limiter promises: an admitted request that counts raises the use of
  its window, never past the cap, and no request lowers the use of the window
  it falls in.\<close>

locale window_counter =
  fixes step :: "'r \<Rightarrow> 's \<Rightarrow> ('t :: linorder \<times> bool) \<times> 's"
    and counts :: "'r \<Rightarrow> bool"
    and used :: "'t \<Rightarrow> 's \<Rightarrow> nat"
    and cap :: nat
    and good :: "'s \<Rightarrow> bool"
  assumes step_good: "good s \<Longrightarrow> step r s = ((t, ok), s') \<Longrightarrow> good s'"
    and admit: "good s \<Longrightarrow> step r s = ((t, True), s') \<Longrightarrow> counts r
      \<Longrightarrow> used t s < used t s' \<and> used t s' \<le> cap"
    and keep: "good s \<Longrightarrow> step r s = ((t, ok), s') \<Longrightarrow> used t s \<le> used t s'"
begin

lemma admitted_none:
  "run_steps step rs s = (tr, s') \<Longrightarrow> \<forall>x \<in> set tr. t < fst (snd x) \<Longrightarrow> admitted counts t tr = 0"
  by (auto simp: admitted_def filter_empty_conv)

lemma admitted_from:
  assumes "good s" and "run_steps step rs s = (tr, s')"
    and "sorted (map (fst \<circ> snd) tr)" and "\<forall>x \<in> set tr. t \<le> fst (snd x)"
  shows "admitted counts t tr \<le> cap - used t s"
  using assms
proof (induction rs arbitrary: s tr)
  case (Cons r rs)
  obtain t1 ok s1 where s1: "step r s = ((t1, ok), s1)" by (metis prod.exhaust)
  obtain tr1 where tr1: "run_steps step rs s1 = (tr1, s')" and tr: "tr = (r, t1, ok) # tr1"
    using Cons.prems(2) s1 by (auto split: prod.splits)
  have good1: "good s1" by (rule step_good [OF Cons.prems(1) s1])
  have IH: "admitted counts t tr1 \<le> cap - used t s1"
    using Cons.prems(3,4) tr by (intro Cons.IH [OF good1 tr1]) auto
  show ?case
  proof (cases "t1 = t")
    case True
    from s1 IH admit [OF Cons.prems(1), of r t s1] keep [OF Cons.prems(1), of r t ok s1] True tr
    show ?thesis by (cases ok; cases "counts r") auto
  next
    case False
    with Cons.prems(4) tr have "t < t1" by (simp add: order.strict_iff_order)
    with Cons.prems(3) tr have "\<forall>x \<in> set tr1. t < fst (snd x)" by fastforce
    with admitted_none [OF tr1] False tr show ?thesis by simp
  qed
qed simp

text \<open>While the clock does not run back, no window admits more than the cap.\<close>

lemma within_cap:
  assumes "good s" and "run_steps step rs s = (tr, s')" and "sorted (map (fst \<circ> snd) tr)"
  shows "admitted counts t tr \<le> cap"
  using assms
proof (induction rs arbitrary: s tr)
  case (Cons r rs)
  obtain t1 ok s1 where s1: "step r s = ((t1, ok), s1)" by (metis prod.exhaust)
  obtain tr1 where tr1: "run_steps step rs s1 = (tr1, s')" and tr: "tr = (r, t1, ok) # tr1"
    using Cons.prems(2) s1 by (auto split: prod.splits)
  show ?case
  proof (cases "t1 < t")
    case True
    from Cons.IH [OF step_good [OF Cons.prems(1) s1] tr1] Cons.prems(3) tr True
    show ?thesis by auto
  next
    case False
    with Cons.prems(3) tr have "\<forall>x \<in> set tr. t \<le> fst (snd x)" by fastforce
    from admitted_from [OF Cons.prems this] show ?thesis by simp
  qed
qed simp

end

text \<open>A counter that keeps every window apart holds its cap whatever the clock
  does, less what the window had used before.\<close>

locale quota_counter = window_counter +
  assumes other: "good s \<Longrightarrow> step r s = ((t, ok), s') \<Longrightarrow> t' \<noteq> t \<Longrightarrow> used t' s \<le> used t' s'"
begin

lemma within_quota:
  assumes "good s" and "run_steps step rs s = (tr, s')"
  shows "admitted counts t tr \<le> cap - used t s"
  using assms
proof (induction rs arbitrary: s tr)
  case (Cons r rs)
  obtain t1 ok s1 where s1: "step r s = ((t1, ok), s1)" by (metis prod.exhaust)
  obtain tr1 where tr1: "run_steps step rs s1 = (tr1, s')" and tr: "tr = (r, t1, ok) # tr1"
    using Cons.prems(2) s1 by (auto split: prod.splits)
  note IH = Cons.IH [OF step_good [OF Cons.prems(1) s1] tr1]
  from s1 IH admit [OF Cons.prems(1), of r t s1] keep [OF Cons.prems(1) s1]
    other [OF Cons.prems(1) s1, of t] tr
  show ?case by (cases "t1 = t"; cases ok; cases "counts r") auto
qed simp

end

definition key_good ::
  "'w platform \<Rightarrow> bytes \<Rightarrow> ('w \<Rightarrow> history) \<Rightarrow> ('w \<Rightarrow> nat) \<Rightarrow> (string \<Rightarrow> key_record option) \<Rightarrow> u64 \<Rightarrow>
   'w keystore \<Rightarrow> bool" where
  "key_good P master hist durable recs pool ks \<longleftrightarrow>
     store_good P master hist durable (ks_world ks) \<and> digest_ok P
     \<and> key_rec P (view P master hist (ks_world ks)) = recs \<and> ks_member_pool_daily ks = pool"

lemma key_good_step:
  assumes "key_good P master hist durable recs pool ks" and "try_consume P master key ks = (r, ks')"
  shows "key_good P master hist durable recs pool ks'"
    and "consume_outcome P r (hash_key_id P key) (request_day P master key ks) ks
        (view P master hist (ks_world ks)) (view P master hist (ks_world ks'))"
  using assms try_consume_outcome [of P master hist durable ks key r ks']
    try_consume_keeps_records [of P master hist durable ks key r ks']
  by (simp_all add: key_good_def)

lemma metered_try:
  assumes "metered time (try_consume P master) key ks = ((t, ok), ks')"
  obtains r where "try_consume P master key ks = (r, ks')" and "t = time key ks"
    and "ok \<longleftrightarrow> (\<exists>ck. r = Inr ck)"
  using assms by (cases "try_consume P master key ks") (auto simp: metered_def split: sum.splits)

lemma own_counter [simp]:
  assumes "digest_ok P"
  shows "counter (own_charge q (hash_key_id P i) d m) (quota_key (hash_key_id P j) d')
    = (if 0 < q \<and> hash_key_id P i = hash_key_id P j \<and> d = d'
       then counter m (quota_key (hash_key_id P j) d') + 1
       else counter m (quota_key (hash_key_id P j) d'))"
    and "counter (pool_charge q d m) (quota_key (hash_key_id P j) d')
      = counter m (quota_key (hash_key_id P j) d')"
    and "counter (own_charge q (hash_key_id P i) d m) (member_pool_key d')
      = counter m (member_pool_key d')"
    and "counter (pool_charge q d m) (member_pool_key d')
      = (if 0 < q \<and> d = d' then counter m (member_pool_key d') + 1 else counter m (member_pool_key d'))"
  using quota_key_hash [OF assms] quota_key_hash(1) [OF assms, THEN not_sym]
  by (auto simp: own_charge_def pool_charge_def)

lemma room_bump:
  "c < q \<Longrightarrow> unat c < unat (c + 1) \<and> unat (c + 1) \<le> unat (q :: u64)"
  using bump_cap [of c q] by simp

lemma charge_monotone:
  assumes out: "consume_outcome P r (hash_key_id P key) day ks m m'" and dig: "digest_ok P"
  shows "unat (counter m (quota_key (hash_key_id P key') d))
      \<le> unat (counter m' (quota_key (hash_key_id P key') d))"
    and "unat (counter m (member_pool_key d)) \<le> unat (counter m' (member_pool_key d))"
  using out dig
  by (auto simp: consume_outcome_def day_room_def bump_cap split: sum.splits)

interpretation daily: quota_counter
  "metered (request_day P master) (try_consume P master)"
  "\<lambda>k. hash_key_id P k = hash_key_id P key"
  "\<lambda>day ks. unat (counter (view P master hist (ks_world ks)) (quota_key (hash_key_id P key) day))"
  "unat (kr_daily_quota rec)"
  "\<lambda>ks. key_good P master hist durable recs pool ks \<and> recs (hash_key_id P key) = Some rec
     \<and> 0 < kr_daily_quota rec"
  for P master key hist durable recs pool rec
proof (unfold_locales, goal_cases)
  case (1 s r t ok s')
  from 1(2) obtain x where "try_consume P master r s = (x, s')" by (rule metered_try)
  with 1 key_good_step(1) show ?case by metis
next
  case (2 s r t s')
  from 2(2) obtain x where x: "try_consume P master r s = (Inr x, s')"
    and t: "t = request_day P master r s"
    by (rule metered_try) auto
  from 2(1,3) key_good_step(2) [OF conjunct1 [OF 2(1)] x] show ?case
    using quota_key_hash [of P] t
    by (auto simp: consume_outcome_def key_good_def day_room_def room_bump)
next
  case (3 s r t ok s')
  from 3(2) obtain x where x: "try_consume P master r s = (x, s')" by (rule metered_try)
  from 3 show ?case
    by (intro charge_monotone(1) [OF key_good_step(2) [OF _ x]]) (auto simp: key_good_def)
next
  case (4 s r t ok s' t')
  from 4(2) obtain x where x: "try_consume P master r s = (x, s')" by (rule metered_try)
  from 4 show ?case
    by (intro charge_monotone(1) [OF key_good_step(2) [OF _ x]]) (auto simp: key_good_def)
qed

definition is_member :: "'w platform \<Rightarrow> (string \<Rightarrow> key_record option) \<Rightarrow> string \<Rightarrow> bool" where
  "is_member P recs key =
     (case recs (hash_key_id P key) of
        None \<Rightarrow> False
      | Some rec \<Rightarrow> starts_with member_label_prefix (kr_label rec))"

interpretation pool: quota_counter
  "metered (request_day P master) (try_consume P master)"
  "is_member P recs"
  "\<lambda>day ks. unat (counter (view P master hist (ks_world ks)) (member_pool_key day))"
  "unat (cap :: u64)"
  "\<lambda>ks. key_good P master hist durable recs cap ks \<and> 0 < cap"
  for P master hist durable recs cap
proof (unfold_locales, goal_cases)
  case (1 s r t ok s')
  from 1(2) obtain x where "try_consume P master r s = (x, s')" by (rule metered_try)
  with 1 key_good_step(1) show ?case by metis
next
  case (2 s r t s')
  from 2(2) obtain x where x: "try_consume P master r s = (Inr x, s')"
    and t: "t = request_day P master r s"
    by (rule metered_try) auto
  from 2(1,3) key_good_step(2) [OF conjunct1 [OF 2(1)] x] show ?case
    using t
    by (auto simp: consume_outcome_def key_good_def day_room_def room_bump is_member_def
        pool_cap_of_def member_pool_daily_def)
next
  case (3 s r t ok s')
  from 3(2) obtain x where x: "try_consume P master r s = (x, s')" by (rule metered_try)
  from 3 show ?case
    by (intro charge_monotone(2) [OF key_good_step(2) [OF _ x]]) (auto simp: key_good_def)
next
  case (4 s r t ok s' t')
  from 4(2) obtain x where x: "try_consume P master r s = (x, s')" by (rule metered_try)
  from 4 show ?case
    by (intro charge_monotone(2) [OF key_good_step(2) [OF _ x]]) (auto simp: key_good_def)
qed

section \<open>The one-second window\<close>

definition window_used :: "u64 \<Rightarrow> rate_window option \<Rightarrow> nat" where
  "window_used t e =
     (case e of
        None \<Rightarrow> 0
      | Some rw \<Rightarrow> if rw_window_start rw = t then unat (rw_count rw) else 0)"

definition rate_used :: "string \<Rightarrow> u64 \<Rightarrow> 'w keystore \<Rightarrow> nat" where
  "rate_used h t ks = window_used t (map_of (ks_rate ks) h)"

definition request_second :: "'w platform \<Rightarrow> string \<Rightarrow> 'w keystore \<Rightarrow> u64" where
  "request_second P key ks = fst (p_now P (ks_world ks))"

lemma rate_bump: "c < q \<Longrightarrow> unat c < unat (c + 1) \<and> unat (c + 1) \<le> unat (q :: u32)"
  using unat_less_length [of q] by (simp add: unat_word_ariths word_less_nat_alt)

lemma rate_step_used:
  assumes "rate_step q now e = (ok, rw)"
  shows "window_used now e \<le> window_used now (Some rw)"
    and "ok \<Longrightarrow> window_used now e < window_used now (Some rw)
      \<and> window_used now (Some rw) \<le> unat q"
  using assms rate_bump unat_gt_0 [of q]
  by (auto simp: Suc_le_eq word_gt_0 rate_step_def window_used_def Let_def not_le less_imp_le split: if_splits option.splits)

lemma charge_rate_used:
  assumes c: "charge_rate P rec h ks = (r, ks')"
  shows "rate_used h' (request_second P key ks) ks \<le> rate_used h' (request_second P key ks) ks'"
    and "r = Inr () \<Longrightarrow> 0 < kr_quota_rps rec \<Longrightarrow>
       rate_used h (request_second P key ks) ks < rate_used h (request_second P key ks) ks'
       \<and> rate_used h (request_second P key ks) ks' \<le> unat (kr_quota_rps rec)"
proof -
  obtain now w where n: "p_now P (ks_world ks) = (now, w)" by fastforce
  obtain ok rw where s: "rate_step (kr_quota_rps rec) now (map_of (ks_rate ks) h) = (ok, rw)"
    by fastforce
  have sec: "request_second P key ks = now" using n by (simp add: request_second_def)
  note u = rate_step_used [OF s]
  have c': "if 0 < kr_quota_rps rec
      then r = (if ok then Inr () else Inl (RateLimited 1))
        \<and> ks' = ks\<lparr> ks_world := w, ks_rate := AList.update h rw (ks_rate ks) \<rparr>
      else ks' = ks"
    using c n s by (auto simp: charge_rate_def split: if_splits)
  show "rate_used h' (request_second P key ks) ks \<le> rate_used h' (request_second P key ks) ks'"
    using c' u(1) unfolding sec by (auto simp: rate_used_def alist_simps split: if_splits)
  show "rate_used h (request_second P key ks) ks < rate_used h (request_second P key ks) ks'
       \<and> rate_used h (request_second P key ks) ks' \<le> unat (kr_quota_rps rec)"
    if "r = Inr ()" "0 < kr_quota_rps rec"
    using c' u(2) that unfolding sec by (auto simp: rate_used_def alist_simps split: if_splits)
qed

lemma try_consume_charges_rate:
  assumes c: "try_consume P master key ks = (r, ks')"
  shows "case authenticate P master key (ks_world ks) of
      Inl e \<Rightarrow> r = Inl e \<and> ks' = ks
    | Inr rec \<Rightarrow> \<exists>r1 ks1. charge_rate P rec (hash_key_id P key) ks = (r1, ks1)
        \<and> ks_rate ks' = ks_rate ks1 \<and> (\<forall>ck. r = Inr ck \<longrightarrow> r1 = Inr ())"
proof (cases "authenticate P master key (ks_world ks)")
  case (Inr rec)
  obtain r1 ks1 where r1: "charge_rate P rec (hash_key_id P key) ks = (r1, ks1)" by fastforce
  with Inr c show ?thesis
    by (cases r1) (auto simp: try_consume_def Let_def split: prod.splits sum.splits)
qed (use c in \<open>simp add: try_consume_def Let_def\<close>)

lemma try_consume_rate:
  assumes good: "store_good P master hist durable (ks_world ks)"
    and c: "try_consume P master key ks = (r, ks')"
  shows "rate_used h' (request_second P key ks) ks \<le> rate_used h' (request_second P key ks) ks'"
    and "r = Inr ck \<Longrightarrow> key_rec P (view P master hist (ks_world ks)) (hash_key_id P key) = Some rec \<Longrightarrow>
       0 < kr_quota_rps rec \<Longrightarrow>
       rate_used (hash_key_id P key) (request_second P key ks) ks
         < rate_used (hash_key_id P key) (request_second P key ks) ks'
       \<and> rate_used (hash_key_id P key) (request_second P key ks) ks' \<le> unat (kr_quota_rps rec)"
proof -
  have same: "rate_used h t ks' = rate_used h t ks1" if "ks_rate ks' = ks_rate ks1" for h t ks1
    using that by (simp add: rate_used_def)
  note charges = try_consume_charges_rate [OF c]
  show "rate_used h' (request_second P key ks) ks \<le> rate_used h' (request_second P key ks) ks'"
    using charges charge_rate_used(1) same by (fastforce split: sum.splits)
  show "rate_used (hash_key_id P key) (request_second P key ks) ks
         < rate_used (hash_key_id P key) (request_second P key ks) ks'
       \<and> rate_used (hash_key_id P key) (request_second P key ks) ks' \<le> unat (kr_quota_rps rec)"
    if ck: "r = Inr ck" and rec: "key_rec P (view P master hist (ks_world ks)) (hash_key_id P key) = Some rec"
      and pos: "0 < kr_quota_rps rec"
  proof -
    obtain rec' where a: "authenticate P master key (ks_world ks) = Inr rec'"
      using charges ck by (auto split: sum.splits)
    with authenticate_Inr(1) [OF good a] rec have "rec' = rec" by simp
    with charges a ck obtain ks1 where "charge_rate P rec (hash_key_id P key) ks = (Inr (), ks1)"
      and "ks_rate ks' = ks_rate ks1" by auto
    with charge_rate_used(2) [OF this(1) refl pos] same [OF this(2)] show ?thesis by simp
  qed
qed

interpretation rate: window_counter
  "metered (request_second P) (try_consume P master)"
  "\<lambda>k. hash_key_id P k = hash_key_id P key"
  "rate_used (hash_key_id P key)"
  "unat (kr_quota_rps rec)"
  "\<lambda>ks. key_good P master hist durable recs pool ks \<and> recs (hash_key_id P key) = Some rec
     \<and> 0 < kr_quota_rps rec"
  for P master key hist durable recs pool rec
proof (unfold_locales, goal_cases)
  case (1 s r t ok s')
  from 1(2) obtain x where "try_consume P master r s = (x, s')" by (rule metered_try)
  with 1 key_good_step(1) show ?case by metis
next
  case (2 s r t s')
  from 2(2) obtain x where x: "try_consume P master r s = (Inr x, s')"
    and t: "t = request_second P r s"
    by (rule metered_try) auto
  have g: "store_good P master hist durable (ks_world s)" using 2(1) by (simp add: key_good_def)
  from try_consume_rate(2) [OF g x refl] 2(1,3) t show ?case by (auto simp: key_good_def)
next
  case (3 s r t ok s')
  from 3(2) obtain x where x: "try_consume P master r s = (x, s')" and t: "t = request_second P r s"
    by (rule metered_try)
  have g: "store_good P master hist durable (ks_world s)" using 3(1) by (simp add: key_good_def)
  from try_consume_rate(1) [OF g x] t show ?case by simp
qed

section \<open>Issuing and revoking\<close>

lemma key_rec_upd:
  "key_rec P (m(k \<mapsto> b)) h =
     (if k = record_key h
      then (case p_dec_key P b of Inl e \<Rightarrow> None | Inr rec \<Rightarrow> Some rec) else key_rec P m h)"
  by (simp add: key_rec_def)

lemma key_rec_None: "m (record_key h) = None \<Longrightarrow> key_rec P m h = None"
  by (simp add: key_rec_def)

lemma create_key_Inr:
  assumes good: "store_good P master hist durable w"
    and c: "create_key P master label rps daily w = (Inr id', w')"
  shows "store_good P master hist durable w'"
    and "\<exists>rec. view P master hist w'
        = (view P master hist w)(record_key (hash_key_id P id') \<mapsto> p_enc_key P rec)
      \<and> kr_label rec = label \<and> \<not> kr_revoked rec \<and> kr_quota_rps rec = rps \<and> kr_daily_quota rec = daily"
proof -
  note host = platform_okD(2) [OF store_good_platform [OF good]]
  obtain u w1 where u: "p_uuid P w = (u, w1)" by fastforce
  obtain t w2 where t: "p_now P w1 = (t, w2)" by fastforce
  define rec where "rec = \<lparr> kr_label = label, kr_created_at = t, kr_revoked = False,
                  kr_quota_rps = rps, kr_daily_quota = daily \<rparr>"
  have h2: "hist w2 = hist w" using host_state(2) [OF host u] host_state(3) [OF host t] by simp
  with good have good2: "store_good P master hist durable w2"
    by (simp add: store_good_hist [of hist w2 w])
  obtain x where p: "put_val P master (record_key (hash_key_id P (''cgk_'' @ u))) (p_enc_key P rec) False w2
      = (Inr x, w')" and i: "id' = ''cgk_'' @ u"
    using c by (auto simp: create_key_def u t rec_def Let_def elim!: try_then_InrE)
  show "store_good P master hist durable w'"
    and "\<exists>rec. view P master hist w'
        = (view P master hist w)(record_key (hash_key_id P id') \<mapsto> p_enc_key P rec)
      \<and> kr_label rec = label \<and> \<not> kr_revoked rec \<and> kr_quota_rps rec = rps \<and> kr_daily_quota rec = daily"
    using put_val_Inr(1,2) [OF good2 p] h2 i by (auto simp: rec_def intro!: exI [of _ rec])
qed

definition revoked_rows ::
  "'w platform \<Rightarrow> string \<Rightarrow> (string \<Rightarrow> bytes option) \<Rightarrow> (string \<Rightarrow> bytes option) \<Rightarrow> bool" where
  "revoked_rows P h m m' \<longleftrightarrow>
     (\<exists>rec. key_rec P m h = Some rec
        \<and> m' = m(record_key h \<mapsto> p_enc_key P (rec\<lparr> kr_revoked := True \<rparr>)))
     \<or> (m (record_key h) = None \<and> (\<exists>rec. acct P m h = Some rec
        \<and> m' = m(bal_key h \<mapsto> p_enc_balance P (rec\<lparr> br_revoked := True \<rparr>))))"

lemma put_then_Inr:
  assumes "store_good P master hist durable w"
    and "try_then f (put_val P master k b sync w) (\<lambda>u w. (Inr (), w)) = (r, w')"
  shows "store_good P master hist durable w'
    \<and> (case r of Inl e \<Rightarrow> view P master hist w' = view P master hist w \<and> e \<in> range f
       | Inr u \<Rightarrow> view P master hist w' = (view P master hist w)(k \<mapsto> b))"
  using assms(2)
proof (cases rule: try_then_cases)
  case (err e)
  with put_val_Inl [OF assms(1) err(1)] show ?thesis by simp
next
  case (ok u w0)
  with put_val_Inr(1,2) [OF assms(1) ok(1)] show ?thesis by auto
qed

lemma store_of_val_known [simp]: "store_of_val e \<noteq> StoreUnknown" "StoreUnknown \<noteq> store_of_val e"
  by (cases e; simp)+

lemma revoke_hash_outcome:
  assumes good: "store_good P master hist durable w" and c: "revoke_hash P master h w = (r, w')"
  shows "store_good P master hist durable w'
    \<and> (case r of
         Inl e \<Rightarrow> view P master hist w' = view P master hist w
           \<and> (e = StoreUnknown \<longrightarrow> view P master hist w (record_key h) = None)
       | Inr u \<Rightarrow> revoked_rows P h (view P master hist w) (view P master hist w'))"
proof -
  note ok = store_good_platform [OF good]
  consider (rec) b rec where "get_val P master (record_key h) w = Inr (Some b)"
      "p_dec_key P b = Inr rec"
    | (bal) b rec where "get_val P master (record_key h) w = Inr None"
      "get_val P master (bal_key h) w = Inr (Some b)" "p_dec_balance P b = Inr rec"
    | (unknown) "get_val P master (record_key h) w = Inr None" "r = Inl StoreUnknown" "w' = w"
    | (error) e where "r = Inl e" "e \<noteq> StoreUnknown" "w' = w"
    using c by (auto simp: revoke_hash_def split: sum.splits option.splits)
  then show ?thesis
  proof cases
    case rec
    then have "key_rec P (view P master hist w) h = Some rec"
      using get_val_Inr [OF ok rec(1), symmetric] by (simp add: key_rec_def)
    moreover have "try_then store_of_val (put_val P master (record_key h)
        (p_enc_key P (rec\<lparr> kr_revoked := True \<rparr>)) False w) (\<lambda>u w. (Inr (), w)) = (r, w')"
      using c rec by (simp add: revoke_hash_def)
    from put_then_Inr [OF good this] show ?thesis
      using calculation by (auto simp: revoked_rows_def split: sum.splits)
  next
    case bal
    then have "acct P (view P master hist w) h = Some rec" "view P master hist w (record_key h) = None"
      using get_val_Inr [OF ok bal(1), symmetric] get_val_Inr [OF ok bal(2), symmetric]
      by (simp_all add: acct_def)
    moreover have "try_then store_of_val (put_val P master (bal_key h)
        (p_enc_balance P (rec\<lparr> br_revoked := True \<rparr>)) True w) (\<lambda>u w. (Inr (), w)) = (r, w')"
      using c bal by (simp add: revoke_hash_def)
    from put_then_Inr [OF good this] show ?thesis
      using calculation by (auto simp: revoked_rows_def split: sum.splits)
  next
    case unknown
    with get_val_Inr [OF ok unknown(1)] good show ?thesis by simp
  qed (use good in auto)
qed

lemma revoked_rows_key_rec:
  assumes "codecs_ok P" and "revoked_rows P h m m'"
  shows "key_rec P m' h' = (if h' = h then map_option (\<lambda>r. r\<lparr> kr_revoked := True \<rparr>) (key_rec P m h)
      else key_rec P m h')"
    and "k \<notin> {record_key h, bal_key h} \<Longrightarrow> m' k = m k"
  using assms codecs(2) [OF assms(1)]
  by (auto simp: revoked_rows_def key_rec_upd key_rec_def)

section \<open>Member keys\<close>

definition live_member_keys :: "'w platform \<Rightarrow> string \<Rightarrow> (string \<Rightarrow> bytes option) \<Rightarrow> string set" where
  "live_member_keys P subhash m =
     {h. \<exists>rec. key_rec P m h = Some rec \<and> kr_label rec = member_label_prefix @ subhash
        \<and> \<not> kr_revoked rec}"

definition mapped :: "string \<Rightarrow> (string \<Rightarrow> bytes option) \<Rightarrow> string set" where
  "mapped subhash m = {h. m (member_map_key subhash) = Some (as_bytes h)}"

lemma member_key_hash_Inr:
  assumes "store_good P master hist durable w" and "member_key_hash P master subhash w = Inr previous"
  shows "mapped subhash (view P master hist w) = set_option previous"
proof -
  obtain v where v: "get_val P master (member_map_key subhash) w = Inr v"
    using assms(2) by (auto simp: member_key_hash_def split: sum.splits)
  with get_val_Inr [OF store_good_platform [OF assms(1)] v, symmetric] assms(2) show ?thesis
    by (auto simp: member_key_hash_def mapped_def from_utf8_def split: option.splits if_splits)
qed

lemma retire_previous_Inr:
  assumes "store_good P master hist durable w" and "retire_previous P master previous w = (Inr u, w')"
  shows "store_good P master hist durable w'"
    and "case previous of None \<Rightarrow> view P master hist w' = view P master hist w
      | Some old \<Rightarrow> (view P master hist w (record_key old) = None
            \<and> view P master hist w' = view P master hist w)
          \<or> revoked_rows P old (view P master hist w) (view P master hist w')"
proof -
  show "store_good P master hist durable w'"
    using assms revoke_hash_outcome [OF assms(1)]
    by (fastforce simp: retire_previous_def split: option.splits prod.splits sum.splits store_error.splits)
  show "case previous of None \<Rightarrow> view P master hist w' = view P master hist w
      | Some old \<Rightarrow> (view P master hist w (record_key old) = None
            \<and> view P master hist w' = view P master hist w)
          \<or> revoked_rows P old (view P master hist w) (view P master hist w')"
    using assms revoke_hash_outcome [OF assms(1)]
    by (fastforce simp: retire_previous_def split: option.splits prod.splits sum.splits store_error.splits)
qed

lemma rotate_steps:
  assumes "rotate_member_key P master subhash rps daily w = (Inr id', w')"
  obtains previous w1 w2 u u' where "member_key_hash P master subhash w = Inr previous"
    and "create_key P master (member_label_prefix @ subhash) rps daily w = (Inr id', w1)"
    and "retire_previous P master previous w1 = (Inr u, w2)"
    and "put_val P master (member_map_key subhash) (as_bytes (hash_key_id P id')) True w2 = (Inr u', w')"
  using assms unfolding rotate_member_key_def
  by (elim try_then_InrE) (auto elim!: try_then_InrE)

lemma rotate_rows:
  assumes good: "store_good P master hist durable w"
    and r: "rotate_member_key P master subhash rps daily w = (Inr id', w')"
    and fresh: "hash_key_id P id' \<notin> mapped subhash (view P master hist w)"
  shows "store_good P master hist durable w'" and "durable w' = length (hist w')"
    and "view P master hist w' (member_map_key subhash) = Some (as_bytes (hash_key_id P id'))"
    and "\<exists>rec. kr_label rec = member_label_prefix @ subhash \<and> \<not> kr_revoked rec
      \<and> kr_quota_rps rec = rps \<and> kr_daily_quota rec = daily
      \<and> key_rec P (view P master hist w')
        = (\<lambda>h. if h = hash_key_id P id' then Some rec
               else if h \<in> mapped subhash (view P master hist w)
               then map_option (\<lambda>r. r\<lparr> kr_revoked := True \<rparr>) (key_rec P (view P master hist w) h)
               else key_rec P (view P master hist w) h)"
proof -
  note C = platform_okD(3) [OF store_good_platform [OF good]]
  let ?m = "view P master hist w" and ?n = "hash_key_id P id'"
  obtain previous w1 w2 u u' where prev: "member_key_hash P master subhash w = Inr previous"
    and c: "create_key P master (member_label_prefix @ subhash) rps daily w = (Inr id', w1)"
    and ret: "retire_previous P master previous w1 = (Inr u, w2)"
    and p: "put_val P master (member_map_key subhash) (as_bytes ?n) True w2 = (Inr u', w')"
    using r by (rule rotate_steps)
  obtain rec where v1: "view P master hist w1 = ?m(record_key ?n \<mapsto> p_enc_key P rec)"
    and rec: "kr_label rec = member_label_prefix @ subhash" "\<not> kr_revoked rec"
      "kr_quota_rps rec = rps" "kr_daily_quota rec = daily"
    using create_key_Inr [OF good c] by auto
  note R = retire_previous_Inr [OF create_key_Inr(1) [OF good c] ret]
  note W = put_val_Inr [OF R(1) p]
  show "store_good P master hist durable w'" and "durable w' = length (hist w')"
    and "view P master hist w' (member_map_key subhash) = Some (as_bytes ?n)"
    using W by simp_all
  have m: "mapped subhash ?m = set_option previous"
    by (rule member_key_hash_Inr [OF good prev])
  have k1: "key_rec P (view P master hist w1) h = (if h = ?n then Some rec else key_rec P ?m h)" for h
    by (simp add: v1 key_rec_upd codecs(2) [OF C])
  have k2: "key_rec P (view P master hist w2) h =
      (if h \<in> set_option previous
       then map_option (\<lambda>r. r\<lparr> kr_revoked := True \<rparr>) (key_rec P (view P master hist w1) h)
       else key_rec P (view P master hist w1) h)" for h
    using R(2) revoked_rows_key_rec(1) [OF C] 
    by (cases previous) (auto simp: key_rec_None)
  have "key_rec P (view P master hist w') h = key_rec P (view P master hist w2) h" for h
    using W(2) by (simp add: key_rec_upd)
  with k1 k2 m fresh have "key_rec P (view P master hist w')
        = (\<lambda>h. if h = ?n then Some rec
               else if h \<in> mapped subhash ?m
               then map_option (\<lambda>r. r\<lparr> kr_revoked := True \<rparr>) (key_rec P ?m h)
               else key_rec P ?m h)" by auto
  with rec show "\<exists>rec. kr_label rec = member_label_prefix @ subhash \<and> \<not> kr_revoked rec
      \<and> kr_quota_rps rec = rps \<and> kr_daily_quota rec = daily
      \<and> key_rec P (view P master hist w')
        = (\<lambda>h. if h = ?n then Some rec
               else if h \<in> mapped subhash ?m
               then map_option (\<lambda>r. r\<lparr> kr_revoked := True \<rparr>) (key_rec P ?m h)
               else key_rec P ?m h)" by auto
qed

section \<open>What the store promises for keys\<close>

text \<open>C5. Whatever requests arrive and in whatever order, a key with a daily
  quota is admitted on one UTC day at most as often as its quota leaves after
  what that day had already counted. The count is a row of the store, so it
  holds across restarts and whatever the clock does.\<close>

theorem daily_quota_enforced:
  assumes "store_good P master hist durable (ks_world ks)" and "digest_ok P"
    and "key_rec P (view P master hist (ks_world ks)) (hash_key_id P key) = Some rec"
    and "0 < kr_daily_quota rec"
  shows "admitted (\<lambda>k. hash_key_id P k = hash_key_id P key) day
      (fst (run_steps (metered (request_day P master) (try_consume P master)) keys ks))
    \<le> unat (kr_daily_quota rec)
      - unat (counter (view P master hist (ks_world ks)) (quota_key (hash_key_id P key) day))"
  using assms
  by (intro daily.within_quota [where recs = "key_rec P (view P master hist (ks_world ks))"
        and pool = "ks_member_pool_daily ks", OF _ surjective_pairing])
    (auto simp: key_good_def)

text \<open>C6. The keys of signed-in accounts share one daily pool: all of them
  together are admitted on a day at most as often as the pool leaves.\<close>

theorem member_pool_enforced:
  assumes "store_good P master hist durable (ks_world ks)" and "digest_ok P"
    and "0 < ks_member_pool_daily ks"
  shows "admitted (is_member P (key_rec P (view P master hist (ks_world ks)))) day
      (fst (run_steps (metered (request_day P master) (try_consume P master)) keys ks))
    \<le> unat (ks_member_pool_daily ks)
      - unat (counter (view P master hist (ks_world ks)) (member_pool_key day))"
  using assms
  by (intro pool.within_quota [OF _ surjective_pairing]) (auto simp: key_good_def)

text \<open>C12. While the clock does not run back, a key with a per-second quota is
  admitted in no second more often than that.\<close>

theorem rate_limit_enforced:
  assumes "store_good P master hist durable (ks_world ks)" and "digest_ok P"
    and "key_rec P (view P master hist (ks_world ks)) (hash_key_id P key) = Some rec"
    and "0 < kr_quota_rps rec"
    and "run_steps (metered (request_second P) (try_consume P master)) keys ks = (tr, ks')"
    and "sorted (map (fst \<circ> snd) tr)"
  shows "admitted (\<lambda>k. hash_key_id P k = hash_key_id P key) t tr \<le> unat (kr_quota_rps rec)"
  using assms
  by (intro rate.within_cap [where recs = "key_rec P (view P master hist (ks_world ks))"
        and pool = "ks_member_pool_daily ks"]) (auto simp: key_good_def)

text \<open>One metered request. Admitted, it found a live record, had room on
  both daily counters and charged each by one; refused, it charged neither; and
  only a failing write of the key's own counter, reported as a store error,
  leaves the pool charged alone. No other row changes.\<close>

theorem try_consume_effect:
  assumes good: "store_good P master hist durable (ks_world ks)" and dig: "digest_ok P"
    and c: "try_consume P master key ks = (r, ks')"
    and h: "h = hash_key_id P key" and day: "day = request_day P master key ks"
    and m: "m = view P master hist (ks_world ks)"
  shows "(\<forall>ck. r = Inr ck \<longrightarrow>
      (\<exists>rec. key_rec P m h = Some rec \<and> \<not> kr_revoked rec \<and> ck_label ck = kr_label rec \<and> ck_hash ck = h
         \<and> day_room (kr_daily_quota rec) (pool_cap_of ks rec) h day m
         \<and> view P master hist (ks_world ks') = own_charge (kr_daily_quota rec) h day
             (pool_charge (pool_cap_of ks rec) day m)))
    \<and> (\<forall>e. r = Inl e \<and> e \<notin> range consume_of_val \<longrightarrow> view P master hist (ks_world ks') = m)
    \<and> (\<forall>k. k \<notin> {quota_key h day, member_pool_key day} \<longrightarrow> view P master hist (ks_world ks') k = m k)"
proof -
  note out = conjunct2 [OF conjunct2 [OF try_consume_outcome [OF good dig c]]]
  have "own_charge q h day (pool_charge p day m) k = m k \<and> pool_charge p day m k = m k"
    if "k \<notin> {quota_key h day, member_pool_key day}" for p q k
    using that by (simp add: own_charge_def pool_charge_def)
  with out show ?thesis unfolding h day m
    by (auto simp: consume_outcome_def split: sum.splits)
qed

text \<open>C7. Issuing a member key makes the returned key the account's
  mapped key and its only live key but for those no mapping names: the key mapped
  before is revoked, every other record is as it was, and all of it is on disk, so
  that a crash right after the call loses nothing. A live key that no mapping names
  is what an earlier issuance leaves when it dies between creating its key and
  mapping it; rotation does not find such a key, so it stays live. Where there is
  none, the returned key is the only live one. The new key is fresh: its hash, of a
  random identifier, is not the one mapped.\<close>

theorem rotation_replaces_live_key:
  assumes good: "store_good P master hist durable w"
    and r: "rotate_member_key P master subhash rps daily w = (Inr id', w')"
    and fresh: "hash_key_id P id' \<notin> mapped subhash (view P master hist w)"
    and crash: "crash_of hist durable w' w''"
  shows "live_member_keys P subhash (view P master hist w'') = insert (hash_key_id P id')
        (live_member_keys P subhash (view P master hist w) - mapped subhash (view P master hist w))
    \<and> (live_member_keys P subhash (view P master hist w) \<subseteq> mapped subhash (view P master hist w)
         \<longrightarrow> live_member_keys P subhash (view P master hist w'') = {hash_key_id P id'})
    \<and> mapped subhash (view P master hist w'') = {hash_key_id P id'}
    \<and> (\<forall>h \<in> mapped subhash (view P master hist w).
         \<forall>rec. key_rec P (view P master hist w'') h = Some rec \<longrightarrow> kr_revoked rec)
    \<and> (\<forall>h. h \<notin> insert (hash_key_id P id') (mapped subhash (view P master hist w)) \<longrightarrow>
         key_rec P (view P master hist w'') h = key_rec P (view P master hist w) h)"
proof -
  note rows = rotate_rows [OF good r fresh]
  let ?m = "view P master hist w" and ?m' = "view P master hist w'" and ?n = "hash_key_id P id'"
  have "hist w'' = hist w'" using crash rows(2) by (auto simp: crash_of_def)
  then have eq: "view P master hist w'' = ?m'" by simp
  obtain rec where rec: "kr_label rec = member_label_prefix @ subhash" "\<not> kr_revoked rec"
    and K: "key_rec P ?m' = (\<lambda>h. if h = ?n then Some rec
               else if h \<in> mapped subhash ?m
               then map_option (\<lambda>r. r\<lparr> kr_revoked := True \<rparr>) (key_rec P ?m h)
               else key_rec P ?m h)"
    using rows(4) by blast
  have "h \<in> live_member_keys P subhash ?m' \<longleftrightarrow>
      h \<in> insert ?n (live_member_keys P subhash ?m - mapped subhash ?m)" for h
    unfolding live_member_keys_def K using rec
    by (cases "h \<in> mapped subhash ?m") (auto simp: live_member_keys_def)
  then have live: "live_member_keys P subhash ?m'
      = insert ?n (live_member_keys P subhash ?m - mapped subhash ?m)"
    by blast
  moreover from live have "live_member_keys P subhash ?m \<subseteq> mapped subhash ?m
      \<longrightarrow> live_member_keys P subhash ?m' = {?n}"
    by auto
  moreover have "mapped subhash ?m' = {?n}" using rows(3) by (auto simp: mapped_def)
  moreover have "key_rec P ?m' h = Some r \<longrightarrow> kr_revoked r" if "h \<in> mapped subhash ?m" for h r
    using that fresh unfolding K by auto
  moreover have "key_rec P ?m' h = key_rec P ?m h" if "h \<notin> insert ?n (mapped subhash ?m)" for h
    using that unfolding K by auto
  ultimately show ?thesis unfolding eq by blast
qed

lemma revoked_never_admitted:
  assumes "key_good P master hist durable recs pool ks"
    and "recs (hash_key_id P key) = Some rec" and "kr_revoked rec"
  shows "admitted (\<lambda>k. hash_key_id P k = hash_key_id P key) t
      (fst (run_steps (metered time (try_consume P master)) keys ks)) = 0"
  using assms(1)
proof (induction keys arbitrary: ks)
  case (Cons k keys)
  obtain r ks1 where c: "try_consume P master k ks = (r, ks1)" by fastforce
  have "(\<exists>ck. r = Inr ck) \<longrightarrow> hash_key_id P k \<noteq> hash_key_id P key"
    using key_good_step(2) [OF Cons.prems c] Cons.prems assms(2,3)
    by (auto simp: key_good_def consume_outcome_def)
  with Cons.IH [OF key_good_step(1) [OF Cons.prems c]] c show ?case
    by (auto simp: metered_def split: sum.splits prod.splits)
qed simp

text \<open>Revoking a metered key, by token or by hash, takes effect on the next
  request: no request that presents it is ever admitted again.\<close>

theorem revoked_key_refused:
  assumes good: "store_good P master hist durable (ks_world ks)" and dig: "digest_ok P"
    and known: "key_rec P (view P master hist (ks_world ks)) (hash_key_id P key) = Some rec"
    and r: "revoke_key P master key (ks_world ks) = (Inr (), w')"
  shows "admitted (\<lambda>k. hash_key_id P k = hash_key_id P key) t
      (fst (run_steps (metered time (try_consume P master)) keys (ks\<lparr> ks_world := w' \<rparr>))) = 0"
proof -
  note out = revoke_hash_outcome [OF good r [unfolded revoke_key_def]]
  have "key_rec P (view P master hist w') (hash_key_id P key) = Some (rec\<lparr> kr_revoked := True \<rparr>)"
    using out revoked_rows_key_rec(1) [OF platform_okD(3) [OF store_good_platform [OF good]]] known
    by auto
  with out dig show ?thesis
    by (intro revoked_never_admitted [where recs = "key_rec P (view P master hist w')"
          and pool = "ks_member_pool_daily ks"]) (auto simp: key_good_def)
qed

section \<open>A sample key store\<close>

text \<open>One member key of two requests a second and three a day, under a pool of
  five.\<close>

definition sample_token :: string where
  "sample_token = ''cgk_m''"

definition sample_key_record :: key_record where
  "sample_key_record = \<lparr> kr_label = ''member:x'', kr_created_at = 7, kr_revoked = False,
     kr_quota_rps = 2, kr_daily_quota = 3 \<rparr>"

definition sample_keys_world :: ref_world where
  "sample_keys_world = snd (put_val ref_platform ref_master
     (record_key (hash_key_id ref_platform sample_token))
     (p_enc_key ref_platform sample_key_record) False ref_start)"

definition sample_keys :: "ref_world keystore" where
  "sample_keys = \<lparr> ks_world = sample_keys_world, ks_rate = [], ks_member_pool_daily = 5 \<rparr>"

lemma ref_put: "\<exists>w'. put_val ref_platform ref_master k b sync w = (Inr (), w')"
  unfolding put_val_write by (rule ref_write)

lemma sample_keys_put:
  "put_val ref_platform ref_master (record_key (hash_key_id ref_platform sample_token))
     (p_enc_key ref_platform sample_key_record) False ref_start = (Inr (), sample_keys_world)"
  using ref_put [of "record_key (hash_key_id ref_platform sample_token)"
      "p_enc_key ref_platform sample_key_record" False ref_start]
  by (auto simp: sample_keys_world_def)

lemma sample_keys_good: "ref_good sample_keys_world" "ref_good (ks_world sample_keys)"
  and sample_keys_view: "ref_view sample_keys_world
    = [record_key (hash_key_id ref_platform sample_token) \<mapsto> p_enc_key ref_platform sample_key_record]"
  using put_val_Inr [OF ref_start_good sample_keys_put] by (simp_all add: sample_keys_def)

lemma sample_key_rec:
  "key_rec ref_platform (ref_view sample_keys_world) (hash_key_id ref_platform sample_token)
     = Some sample_key_record"
  "key_rec ref_platform (ref_view (ks_world sample_keys)) (hash_key_id ref_platform sample_token)
     = Some sample_key_record"
  by (simp_all add: sample_keys_view key_rec_upd codecs(2) [OF ref_codecs_ok] sample_keys_def)

lemma sample_counters [simp]:
  "counter (ref_view (ks_world sample_keys)) (quota_key h d) = 0"
  "counter (ref_view (ks_world sample_keys)) (member_pool_key d) = 0"
  by (simp_all add: sample_keys_def sample_keys_view counter_def)

theorem daily_quota_enforced_witness:
  "admitted (\<lambda>k. hash_key_id ref_platform k = hash_key_id ref_platform sample_token) ''20260101''
      (fst (run_steps (metered (request_day ref_platform ref_master)
         (try_consume ref_platform ref_master)) (replicate 5 sample_token) sample_keys)) \<le> 3"
  using daily_quota_enforced [OF sample_keys_good(2) ref_digest_ok sample_key_rec(2),
      of "''20260101''" "replicate 5 sample_token"]
  by (simp add: sample_key_record_def)

theorem member_pool_enforced_witness:
  "admitted (is_member ref_platform (key_rec ref_platform (ref_view (ks_world sample_keys))))
      ''20260101''
      (fst (run_steps (metered (request_day ref_platform ref_master)
         (try_consume ref_platform ref_master)) (replicate 9 sample_token) sample_keys)) \<le> 5"
  using member_pool_enforced [OF sample_keys_good(2) ref_digest_ok, of "''20260101''"
      "replicate 9 sample_token"]
  by (simp add: sample_keys_def)

lemma ref_today: "today_yyyymmdd ref_platform w = (''20260101'', w)"
proof -
  have "dec_string 2026 = ''2026''" and "dec_string 1 = ''1''" 
    by (simp_all add: dec_string.simps digit_char_def char_of_def bit_0)
  moreover have "pad_left 4 ''2026'' = ''2026''" and "pad_left 2 ''1'' = ''01''"
    by (simp_all add: pad_left_def numeral_2_eq_2)
  ultimately show ?thesis by (simp add: today_yyyymmdd_def ref_platform_def)
qed

lemma sample_authenticate:
  "authenticate ref_platform ref_master sample_token (ks_world sample_keys) = Inr sample_key_record"
proof -
  have "\<not> kr_revoked sample_key_record" by (simp add: sample_key_record_def)
  with sample_key_rec(2) show ?thesis
    by (auto simp: authenticate_def ref_get [OF sample_keys_good(2)] key_rec_def
        split: option.splits sum.splits)
qed

lemma sample_rate:
  "\<exists>ks1. charge_rate ref_platform sample_key_record h sample_keys = (Inr (), ks1)
     \<and> ks_world ks1 = ks_world sample_keys \<and> ks_member_pool_daily ks1 = 5"
proof -
  have n: "p_now ref_platform w = (of_nat (rw_tick w), w)" for w by (simp add: ref_platform_def)
  show ?thesis
    by (simp add: charge_rate_def n rate_step_def sample_keys_def sample_key_record_def)
qed

lemma sample_daily:
  "\<exists>w. charge_daily ref_platform ref_master sample_key_record 5 h (ks_world sample_keys) = (Inr (), w)"
proof -
  let ?w = "ks_world sample_keys"
  have c: "read_counter ref_platform ref_master (quota_key h' d) ?w = Inr 0"
    and c': "read_counter ref_platform ref_master (member_pool_key d) ?w = Inr 0" for h' d
    by (simp_all add: read_counter_def ref_get [OF sample_keys_good(2)])
      (simp_all add: sample_keys_def sample_keys_view)
  obtain w1 where p: "charge_pool ref_platform ref_master 5 ''20260101'' ?w = (Inr (), w1)"
    using ref_put [of "member_pool_key ''20260101''" "le_bytes 8 1" False ?w]
    by (auto simp: charge_pool_def c')
  obtain w2 where o: "charge_own ref_platform ref_master 3 h ''20260101'' 0 w1 = (Inr (), w2)"
    using ref_put [of "quota_key h ''20260101''" "le_bytes 8 1" False w1]
    by (auto simp: charge_own_def)
  have "charge_on ref_platform ref_master 3 5 h ''20260101'' ?w = (Inr (), w2)"
    using p o by (simp add: charge_on_def c)
  then show ?thesis
    by (simp add: charge_daily_def ref_today sample_key_record_def)
qed

lemma sample_accepts: "\<exists>ck ks'. try_consume ref_platform ref_master sample_token sample_keys
    = (Inr ck, ks') \<and> ck_label ck = ''member:x''"
proof -
  obtain ks1 where r: "charge_rate ref_platform sample_key_record
      (hash_key_id ref_platform sample_token) sample_keys = (Inr (), ks1)"
    and ks1: "ks_world ks1 = ks_world sample_keys" "ks_member_pool_daily ks1 = 5"
    using sample_rate by blast
  obtain w where d: "charge_daily ref_platform ref_master sample_key_record 5
      (hash_key_id ref_platform sample_token) (ks_world ks1) = (Inr (), w)"
    using sample_daily ks1(1) by fastforce
  have l: "kr_label sample_key_record = ''member:x''" by (simp add: sample_key_record_def)
  then have pool: "pool_cap_of ks1 sample_key_record = 5"
    using ks1(2) by (simp add: pool_cap_of_def member_pool_daily_def member_label_prefix_def)
  show ?thesis
    unfolding try_consume_def Let_def sample_authenticate try_then_simps r pool d
    by (simp add: l)
qed

theorem try_consume_effect_witness:
  "\<exists>ck ks'. try_consume ref_platform ref_master sample_token sample_keys = (Inr ck, ks')
     \<and> (\<exists>rec. ck_label ck = kr_label rec \<and> \<not> kr_revoked rec
          \<and> ref_view (ks_world ks') = own_charge (kr_daily_quota rec)
              (hash_key_id ref_platform sample_token)
              (request_day ref_platform ref_master sample_token sample_keys)
              (pool_charge (pool_cap_of sample_keys rec)
                (request_day ref_platform ref_master sample_token sample_keys)
                (ref_view (ks_world sample_keys))))"
proof -
  obtain ck ks' where c: "try_consume ref_platform ref_master sample_token sample_keys = (Inr ck, ks')"
    using sample_accepts by blast
  from conjunct1 [OF try_consume_effect [OF sample_keys_good(2) ref_digest_ok c refl refl refl]]
  show ?thesis using c by blast
qed

theorem rate_limit_enforced_witness:
  "\<exists>tr ks'. run_steps (metered (request_second ref_platform) (try_consume ref_platform ref_master))
      [sample_token] sample_keys = (tr, ks')
    \<and> admitted (\<lambda>k. hash_key_id ref_platform k = hash_key_id ref_platform sample_token) 7 tr \<le> 2"
proof -
  obtain tr ks' where r: "run_steps (metered (request_second ref_platform)
      (try_consume ref_platform ref_master)) [sample_token] sample_keys = (tr, ks')" by fastforce
  moreover from r have "sorted (map (fst \<circ> snd) tr)" by (auto split: prod.splits)
  moreover have "kr_quota_rps sample_key_record = 2" by (simp add: sample_key_record_def)
  ultimately show ?thesis
    using rate_limit_enforced [OF sample_keys_good(2) ref_digest_ok sample_key_rec(2) _ r, of 7]
    by simp
qed

lemma ref_rotate: "\<exists>id' w'. rotate_member_key ref_platform ref_master x q d ref_start = (Inr id', w')"
proof -
  have "member_key_hash ref_platform ref_master x ref_start = Inr None"
    by (simp add: member_key_hash_def ref_get [OF ref_start_good])
  moreover obtain id' w1 where
    "create_key ref_platform ref_master (member_label_prefix @ x) q d ref_start = (Inr id', w1)"
  proof -
    obtain u w where u: "p_uuid ref_platform ref_start = (u, w)" by fastforce
    obtain t w0 where t: "p_now ref_platform w = (t, w0)" by fastforce
    obtain w2 where "put_val ref_platform ref_master
        (record_key (hash_key_id ref_platform (''cgk_'' @ u)))
        (p_enc_key ref_platform \<lparr> kr_label = member_label_prefix @ x, kr_created_at = t,
           kr_revoked = False, kr_quota_rps = q, kr_daily_quota = d \<rparr>) False w0 = (Inr (), w2)"
      using ref_put by blast
    with u t show thesis by (intro that) (simp add: create_key_def)
  qed
  moreover obtain w2 where "put_val ref_platform ref_master (member_map_key x)
      (as_bytes (hash_key_id ref_platform id')) True w1 = (Inr (), w2)"
    using ref_put by blast
  ultimately show ?thesis by (simp add: rotate_member_key_def retire_previous_def)
qed

theorem rotation_replaces_live_key_witness:
  "\<exists>id' w'. rotate_member_key ref_platform ref_master ''x'' 2 3 ref_start = (Inr id', w')
     \<and> live_member_keys ref_platform ''x'' (ref_view w') = {hash_key_id ref_platform id'}"
proof -
  obtain id' w' where r: "rotate_member_key ref_platform ref_master ''x'' 2 3 ref_start = (Inr id', w')"
    using ref_rotate by blast
  have f: "hash_key_id ref_platform id' \<notin> mapped ''x'' (ref_view ref_start)"
    and i: "live_member_keys ref_platform ''x'' (ref_view ref_start) = {}"
    by (simp_all add: mapped_def live_member_keys_def key_rec_def)
  have "crash_of ref_hist ref_durable w' w'"
    by (auto simp: crash_of_def ref_durable_def ref_hist_def)
  from conjunct1 [OF rotation_replaces_live_key [OF ref_start_good r f this]] r
  show ?thesis unfolding i by auto
qed

theorem revoked_key_refused_witness:
  "\<exists>w'. revoke_key ref_platform ref_master sample_token sample_keys_world = (Inr (), w')
     \<and> admitted (\<lambda>k. hash_key_id ref_platform k = hash_key_id ref_platform sample_token) ''20260101''
         (fst (run_steps (metered (request_day ref_platform ref_master)
            (try_consume ref_platform ref_master)) [sample_token, sample_token]
            (sample_keys\<lparr> ks_world := w' \<rparr>))) = 0"
proof -
  let ?h = "hash_key_id ref_platform sample_token"
  obtain w' where p: "put_val ref_platform ref_master (record_key ?h)
      (p_enc_key ref_platform (sample_key_record\<lparr> kr_revoked := True \<rparr>)) False sample_keys_world
      = (Inr (), w')"
    using ref_put by blast
  have "get_val ref_platform ref_master (record_key ?h) sample_keys_world
      = Inr (Some (p_enc_key ref_platform sample_key_record))"
    by (simp add: ref_get [OF sample_keys_good(1)] sample_keys_view)
  with p have r: "revoke_key ref_platform ref_master sample_token (ks_world sample_keys) = (Inr (), w')"
    by (simp add: revoke_key_def revoke_hash_def codecs(2) [OF ref_codecs_ok] sample_keys_def)
  then have "revoke_key ref_platform ref_master sample_token sample_keys_world = (Inr (), w')"
    by (simp add: sample_keys_def)
  with revoked_key_refused [OF sample_keys_good(2) ref_digest_ok sample_key_rec(2) r] show ?thesis
    by (intro exI conjI)
qed

end
