(* ===== verification/Key_Backends.thy ===== *)
theory Key_Backends
  imports Api_Keys
begin

text \<open>
  \<open>ApiKeyStore\<close> of \<open>gateway/src/auth.rs\<close>: one interface to balance keys over
  two backends, the in-process map and the durable store of \<open>keystore.rs\<close>. Both
  refine one abstract specification, a map from accounts to records, up to the
  faults the durable store can report; and both are stores of balances in the
  sense of the locale \<open>money_store\<close>.
\<close>

section \<open>Records\<close>

fun backing_as_u8 :: "key_backing \<Rightarrow> u8" where
  "backing_as_u8 Salt = 0"
| "backing_as_u8 Credits = 1"

definition backing_from_u8 :: "u8 \<Rightarrow> key_backing" where
  "backing_from_u8 v = (if v = 1 then Credits else Salt)"

lemma backing_roundtrip [simp]: "backing_from_u8 (backing_as_u8 b) = b"
  by (cases b) (simp_all add: backing_from_u8_def)

record api_key_record =
  ak_label :: string
  ak_balance_grains :: u256
  ak_deposit_address :: h160
  ak_revoked :: bool
  ak_backing :: key_backing
  ak_created_at :: u64
  ak_model_budgets :: "(string \<times> u256) list"

datatype debit_error = DebitUnknown | DebitRevoked | DebitInsufficient u256

fun debit_of_balance :: "balance_error \<Rightarrow> debit_error" where
  "debit_of_balance BalUnknown = DebitUnknown"
| "debit_of_balance BalRevoked = DebitRevoked"
| "debit_of_balance (BalInsufficient bal) = DebitInsufficient bal"
| "debit_of_balance (BalStore e) = DebitUnknown"
| "debit_of_balance (BalEncode e) = DebitUnknown"
| "debit_of_balance (BalCrypt e) = DebitUnknown"

definition record_from_balance :: "balance_record \<Rightarrow> api_key_record" where
  "record_from_balance br =
     \<lparr> ak_label = br_label br, ak_balance_grains = br_balance br,
       ak_deposit_address = word_from_slice (br_deposit_address br), ak_revoked = br_revoked br,
       ak_backing = backing_from_u8 (br_backing br), ak_created_at = br_created_at br,
       ak_model_budgets = [] \<rparr>"

section \<open>The store\<close>

datatype backend = MemoryBackend "(string \<times> api_key_record) list" | PersistentBackend

record 'w key_store =
  as_backend :: backend
  as_world :: 'w

definition keys_new :: "'w \<Rightarrow> 'w key_store" where
  "keys_new w = \<lparr> as_backend = MemoryBackend [], as_world = w \<rparr>"

definition with_persistent :: "'w \<Rightarrow> 'w key_store" where
  "with_persistent w = \<lparr> as_backend = PersistentBackend, as_world = w \<rparr>"

text \<open>\<open>open\<close>: the marker check of the durable store, then that store.\<close>

definition keys_open ::
  "'w platform \<Rightarrow> bytes \<Rightarrow> 'w \<Rightarrow> store_error + 'w key_store" where
  "keys_open P master w =
     (case check_or_init_enc_marker P master w of
        (Inl e, w') \<Rightarrow> Inl e
      | (Inr u, w') \<Rightarrow> Inr (with_persistent w'))"

definition set_memory :: "(string \<times> api_key_record) list \<Rightarrow> 'w key_store \<Rightarrow> 'w key_store" where
  "set_memory m s = s\<lparr> as_backend := MemoryBackend m \<rparr>"

definition keys_get :: "'w platform \<Rightarrow> bytes \<Rightarrow> string \<Rightarrow> 'w key_store \<Rightarrow> api_key_record option" where
  "keys_get P master key_id s =
     (case as_backend s of
        MemoryBackend m \<Rightarrow> map_of m (hash_key_id P key_id)
      | PersistentBackend \<Rightarrow>
          (case get_balance_record P master key_id (as_world s) of
             Inl e \<Rightarrow> None
           | Inr r \<Rightarrow> map_option record_from_balance r))"

definition keys_debit ::
  "'w platform \<Rightarrow> bytes \<Rightarrow> string \<Rightarrow> u256 \<Rightarrow> 'w key_store \<Rightarrow> (debit_error + u256) \<times> 'w key_store"
where
  "keys_debit P master key_id amount s =
     (case as_backend s of
        MemoryBackend m \<Rightarrow>
          (let h = hash_key_id P key_id
           in case map_of m h of
                None \<Rightarrow> (Inl DebitUnknown, s)
              | Some r \<Rightarrow>
                  if ak_revoked r then (Inl DebitRevoked, s)
                  else if ak_balance_grains r < amount
                  then (Inl (DebitInsufficient (ak_balance_grains r)), s)
                  else
                    let r = r\<lparr> ak_balance_grains := ak_balance_grains r - amount \<rparr>
                    in (Inr (ak_balance_grains r), set_memory (AList.update h r m) s))
      | PersistentBackend \<Rightarrow>
          (case debit_balance P master key_id amount (as_world s) of
             (r, w) \<Rightarrow> (map_sum debit_of_balance id r, s\<lparr> as_world := w \<rparr>)))"

definition keys_refund ::
  "'w platform \<Rightarrow> bytes \<Rightarrow> string \<Rightarrow> u256 \<Rightarrow> 'w key_store \<Rightarrow> (debit_error + u256) \<times> 'w key_store"
where
  "keys_refund P master key_id amount s =
     (case as_backend s of
        MemoryBackend m \<Rightarrow>
          (let h = hash_key_id P key_id
           in case map_of m h of
                None \<Rightarrow> (Inl DebitUnknown, s)
              | Some r \<Rightarrow>
                  let r = r\<lparr> ak_balance_grains := sat_add (ak_balance_grains r) amount \<rparr>
                  in (Inr (ak_balance_grains r), set_memory (AList.update h r m) s))
      | PersistentBackend \<Rightarrow>
          (case refund_balance P master key_id amount (as_world s) of
             (r, w) \<Rightarrow> (map_sum debit_of_balance id r, s\<lparr> as_world := w \<rparr>)))"

definition keys_revoke ::
  "'w platform \<Rightarrow> bytes \<Rightarrow> string \<Rightarrow> 'w key_store \<Rightarrow> (debit_error + unit) \<times> 'w key_store" where
  "keys_revoke P master key_id s =
     (case as_backend s of
        MemoryBackend m \<Rightarrow>
          (let h = hash_key_id P key_id
           in case map_of m h of
                None \<Rightarrow> (Inl DebitUnknown, s)
              | Some r \<Rightarrow> (Inr (), set_memory (AList.update h (r\<lparr> ak_revoked := True \<rparr>) m) s))
      | PersistentBackend \<Rightarrow>
          (case revoke_key P master key_id (as_world s) of
             (r, w) \<Rightarrow> (map_sum (\<lambda>e. DebitUnknown) id r, s\<lparr> as_world := w \<rparr>)))"

section \<open>Per-model budgets\<close>

definition keys_set_model_budget ::
  "'w platform \<Rightarrow> bytes \<Rightarrow> string \<Rightarrow> string \<Rightarrow> u256 \<Rightarrow> 'w key_store
    \<Rightarrow> (debit_error + unit) \<times> 'w key_store" where
  "keys_set_model_budget P master key_id model amount s =
     (case as_backend s of
        MemoryBackend m \<Rightarrow>
          (let h = hash_key_id P key_id
           in case map_of m h of
                None \<Rightarrow> (Inl DebitUnknown, s)
              | Some r \<Rightarrow>
                  (Inr (), set_memory (AList.update h
                     (r\<lparr> ak_model_budgets := AList.update model amount (ak_model_budgets r) \<rparr>) m) s))
      | PersistentBackend \<Rightarrow>
          (case set_model_budget P master key_id model amount (as_world s) of
             (r, w) \<Rightarrow> (map_sum (\<lambda>e. DebitUnknown) id r, s\<lparr> as_world := w \<rparr>)))"

text \<open>A \<open>BTreeMap\<close> is enumerated in the order of its keys.\<close>

definition keys_get_model_budgets ::
  "'w platform \<Rightarrow> bytes \<Rightarrow> string \<Rightarrow> 'w key_store \<Rightarrow> (string \<times> u256) list" where
  "keys_get_model_budgets P master key_id s =
     (case as_backend s of
        MemoryBackend m \<Rightarrow>
          (case map_of m (hash_key_id P key_id) of
             None \<Rightarrow> []
           | Some r \<Rightarrow> sort_key fst (ak_model_budgets r))
      | PersistentBackend \<Rightarrow>
          (case get_model_budgets P master key_id (as_world s) of Inl e \<Rightarrow> [] | Inr bs \<Rightarrow> bs))"

definition keys_debit_model_budget ::
  "'w platform \<Rightarrow> bytes \<Rightarrow> string \<Rightarrow> string \<Rightarrow> u256 \<Rightarrow> 'w key_store
    \<Rightarrow> (model_budget_error + unit) \<times> 'w key_store" where
  "keys_debit_model_budget P master key_id model amount s =
     (case as_backend s of
        MemoryBackend m \<Rightarrow>
          (let h = hash_key_id P key_id
           in case map_of m h of
                None \<Rightarrow> (Inr (), s)
              | Some r \<Rightarrow>
                  (case map_of (ak_model_budgets r) model of
                     None \<Rightarrow> (Inr (), s)
                   | Some remaining \<Rightarrow>
                       if remaining < amount then (Inl (BudgetExceededBy remaining), s)
                       else
                         (Inr (), set_memory (AList.update h
                            (r\<lparr> ak_model_budgets :=
                                 AList.update model (remaining - amount) (ak_model_budgets r) \<rparr>) m) s)))
      | PersistentBackend \<Rightarrow>
          (case debit_model_budget P master key_id model amount (as_world s) of
             (r, w) \<Rightarrow> (r, s\<lparr> as_world := w \<rparr>)))"

definition keys_refund_model_budget ::
  "'w platform \<Rightarrow> bytes \<Rightarrow> string \<Rightarrow> string \<Rightarrow> u256 \<Rightarrow> 'w key_store \<Rightarrow> 'w key_store" where
  "keys_refund_model_budget P master key_id model amount s =
     (case as_backend s of
        MemoryBackend m \<Rightarrow>
          (let h = hash_key_id P key_id
           in case map_of m h of
                None \<Rightarrow> s
              | Some r \<Rightarrow>
                  (case map_of (ak_model_budgets r) model of
                     None \<Rightarrow> s
                   | Some remaining \<Rightarrow>
                       set_memory (AList.update h
                         (r\<lparr> ak_model_budgets :=
                              AList.update model (sat_add remaining amount) (ak_model_budgets r) \<rparr>) m) s))
      | PersistentBackend \<Rightarrow>
          s\<lparr> as_world := snd (refund_model_budget P master key_id model amount (as_world s)) \<rparr>)"

section \<open>Minting\<close>

text \<open>\<open>insert\<close>: the durable store's failure is a panic, here the error.\<close>

definition keys_insert ::
  "'w platform \<Rightarrow> bytes \<Rightarrow> string \<Rightarrow> u256 \<Rightarrow> h160 \<Rightarrow> key_backing \<Rightarrow> 'w key_store
    \<Rightarrow> (store_error + string) \<times> 'w key_store" where
  "keys_insert P master label balance deposit backing s =
     (case as_backend s of
        MemoryBackend m \<Rightarrow>
          (let (uuid, w) = p_uuid P (as_world s);
               key_id = ''cgk_'' @ uuid;
               (now, w) = p_now P w;
               rec = \<lparr> ak_label = label, ak_balance_grains = balance, ak_deposit_address = deposit,
                       ak_revoked = False, ak_backing = backing, ak_created_at = now,
                       ak_model_budgets = [] \<rparr>
           in (Inr key_id,
               set_memory (AList.update (hash_key_id P key_id) rec m) (s\<lparr> as_world := w \<rparr>)))
      | PersistentBackend \<Rightarrow>
          (case create_balance_key P master label balance deposit (backing_as_u8 backing) (as_world s) of
             (r, w) \<Rightarrow> (r, s\<lparr> as_world := w \<rparr>)))"

definition create_key_with_backing ::
  "'w platform \<Rightarrow> bytes \<Rightarrow> string \<Rightarrow> u256 \<Rightarrow> h160 \<Rightarrow> key_backing \<Rightarrow> 'w key_store
    \<Rightarrow> (store_error + string) \<times> 'w key_store" where
  "create_key_with_backing P master label initial deposit backing s =
     keys_insert P master label initial deposit backing s"

definition create_salt_key ::
  "'w platform \<Rightarrow> bytes \<Rightarrow> string \<Rightarrow> u256 \<Rightarrow> h160 \<Rightarrow> 'w key_store
    \<Rightarrow> (store_error + string) \<times> 'w key_store" where
  "create_salt_key P master label initial deposit s =
     create_key_with_backing P master label initial deposit Salt s"

section \<open>One specification for both backends\<close>

type_synonym accounts = "string \<Rightarrow> api_key_record option"

definition accounts_of ::
  "'w platform \<Rightarrow> bytes \<Rightarrow> ('w \<Rightarrow> history) \<Rightarrow> 'w key_store \<Rightarrow> accounts" where
  "accounts_of P master hist s =
     (case as_backend s of
        MemoryBackend m \<Rightarrow> map_of m
      | PersistentBackend \<Rightarrow>
          (\<lambda>h. map_option record_from_balance (acct P (view P master hist (as_world s)) h)))"

definition spec_debit :: "string \<Rightarrow> u256 \<Rightarrow> accounts \<Rightarrow> (debit_error + u256) \<times> accounts" where
  "spec_debit h amount A =
     (case A h of
        None \<Rightarrow> (Inl DebitUnknown, A)
      | Some r \<Rightarrow>
          if ak_revoked r then (Inl DebitRevoked, A)
          else if ak_balance_grains r < amount
          then (Inl (DebitInsufficient (ak_balance_grains r)), A)
          else (Inr (ak_balance_grains r - amount),
                A(h \<mapsto> r\<lparr> ak_balance_grains := ak_balance_grains r - amount \<rparr>)))"

definition spec_refund :: "string \<Rightarrow> u256 \<Rightarrow> accounts \<Rightarrow> (debit_error + u256) \<times> accounts" where
  "spec_refund h amount A =
     (case A h of
        None \<Rightarrow> (Inl DebitUnknown, A)
      | Some r \<Rightarrow>
          (Inr (sat_add (ak_balance_grains r) amount),
           A(h \<mapsto> r\<lparr> ak_balance_grains := sat_add (ak_balance_grains r) amount \<rparr>)))"

text \<open>The durable store keeps the metered keys of \<open>keystore.rs\<close> beside the
  accounts, and a revocation goes to the metered key of a hash when there is one;
  a row that does not decode is reported as unknown. The in-process map holds
  no metered keys.\<close>

type_synonym metered = "string \<Rightarrow> (string + key_record) option"

definition metered_of ::
  "'w platform \<Rightarrow> bytes \<Rightarrow> ('w \<Rightarrow> history) \<Rightarrow> 'w key_store \<Rightarrow> metered" where
  "metered_of P master hist s =
     (case as_backend s of
        MemoryBackend m \<Rightarrow> (\<lambda>h. None)
      | PersistentBackend \<Rightarrow>
          (\<lambda>h. map_option (p_dec_key P) (view P master hist (as_world s) (record_key h))))"

definition spec_revoke ::
  "string \<Rightarrow> metered \<times> accounts \<Rightarrow> (debit_error + unit) \<times> metered \<times> accounts" where
  "spec_revoke h MA =
     (case MA of (M, A) \<Rightarrow>
        (case M h of
           Some (Inr k) \<Rightarrow> (Inr (), M(h \<mapsto> Inr (k\<lparr> kr_revoked := True \<rparr>)), A)
         | Some (Inl e) \<Rightarrow> (Inl DebitUnknown, M, A)
         | None \<Rightarrow>
             (case A h of
                None \<Rightarrow> (Inl DebitUnknown, M, A)
              | Some r \<Rightarrow> (Inr (), M, A(h \<mapsto> r\<lparr> ak_revoked := True \<rparr>)))))"

text \<open>A fault of the durable store: a row the operation needs fails to be read
  or written, which is reported as an unknown key and changes no account and no
  metered key. The row is the account's for a debit and a refund, written back
  with the balance \<open>new\<close> of the one it holds; a revocation reads the metered
  key's row as well, and writes the one it finds.\<close>

definition account_fault ::
  "'w platform \<Rightarrow> bytes \<Rightarrow> ('w \<Rightarrow> history) \<Rightarrow> string \<Rightarrow> (u256 \<Rightarrow> u256) \<Rightarrow> 'w key_store \<Rightarrow> bool" where
  "account_fault P master hist h new s \<longleftrightarrow>
     row_unreadable P master (bal_key h) (as_world s)
     \<or> (\<exists>rec. acct P (view P master hist (as_world s)) h = Some rec
          \<and> row_unwritable P master True (bal_key h)
              (p_enc_balance P (set_balance rec (new (br_balance rec)))) (as_world s))"

definition revoke_fault ::
  "'w platform \<Rightarrow> bytes \<Rightarrow> ('w \<Rightarrow> history) \<Rightarrow> string \<Rightarrow> 'w key_store \<Rightarrow> bool" where
  "revoke_fault P master hist h s \<longleftrightarrow>
     row_unreadable P master (record_key h) (as_world s)
     \<or> (\<exists>rec. key_rec P (view P master hist (as_world s)) h = Some rec
          \<and> row_unwritable P master False (record_key h)
              (p_enc_key P (rec\<lparr> kr_revoked := True \<rparr>)) (as_world s))
     \<or> view P master hist (as_world s) (record_key h) = None
       \<and> (row_unreadable P master (bal_key h) (as_world s)
          \<or> (\<exists>rec. acct P (view P master hist (as_world s)) h = Some rec
               \<and> row_unwritable P master True (bal_key h)
                   (p_enc_balance P (rec\<lparr> br_revoked := True \<rparr>)) (as_world s)))"

definition store_fault ::
  "'w platform \<Rightarrow> bytes \<Rightarrow> ('w \<Rightarrow> history) \<Rightarrow> ('w key_store \<Rightarrow> bool)
    \<Rightarrow> 'w key_store \<Rightarrow> debit_error + 'a \<Rightarrow> 'w key_store \<Rightarrow> bool" where
  "store_fault P master hist fault s r s' \<longleftrightarrow>
     as_backend s = PersistentBackend \<and> fault s \<and> r = Inl DebitUnknown
     \<and> accounts_of P master hist s' = accounts_of P master hist s
     \<and> metered_of P master hist s' = metered_of P master hist s"

definition keys_good ::
  "'w platform \<Rightarrow> bytes \<Rightarrow> ('w \<Rightarrow> history) \<Rightarrow> ('w \<Rightarrow> nat) \<Rightarrow> 'w key_store \<Rightarrow> bool" where
  "keys_good P master hist durable s \<longleftrightarrow>
     (as_backend s = PersistentBackend \<longrightarrow> store_good P master hist durable (as_world s))"

lemma record_from_set_balance [simp]:
  "record_from_balance (set_balance r b) = (record_from_balance r)\<lparr> ak_balance_grains := b \<rparr>"
  by (simp add: record_from_balance_def set_balance_def br_balance_def)

lemma record_from_balance_simps [simp]:
  "ak_balance_grains (record_from_balance r) = br_balance r"
  "ak_revoked (record_from_balance r) = br_revoked r"
  "record_from_balance (r\<lparr> br_revoked := True \<rparr>) = (record_from_balance r)\<lparr> ak_revoked := True \<rparr>"
  by (simp_all add: record_from_balance_def br_balance_def)

lemma debit_of_val [simp]: "debit_of_balance (balance_of_val e) = DebitUnknown"
  by (cases e) simp_all

text \<open>A balance that does not read is either an account the specification does
  not have, or a row the store cannot read.\<close>

lemma read_balance_Inl:
  assumes good: "store_good P master hist durable w" and r: "read_balance P master h w = Inl e"
  shows "debit_of_balance e = DebitUnknown"
    and "row_unreadable P master (bal_key h) w \<or> acct P (view P master hist w) h = None"
proof -
  show "debit_of_balance e = DebitUnknown"
    using r by (auto simp: read_balance_def split: sum.splits option.splits)
  show "row_unreadable P master (bal_key h) w \<or> acct P (view P master hist w) h = None"
    using r sealed.get_val [OF good, of "bal_key h"]
    by (auto simp: read_balance_def row_unreadable_def acct_def split: sum.splits option.splits)
qed

lemma accounts_set_memory [simp]:
  "accounts_of P master hist (set_memory m s) = map_of m"
  "as_backend (set_memory m s) = MemoryBackend m" "as_world (set_memory m s) = as_world s"
  by (simp_all add: accounts_of_def set_memory_def)

lemma accounts_world:
  assumes "as_backend s = PersistentBackend"
  shows "acct P (view P master hist w) = acct P (view P master hist (as_world s)) \<Longrightarrow>
      accounts_of P master hist (s\<lparr> as_world := w \<rparr>) = accounts_of P master hist s"
    and "acct P (view P master hist w) = (acct P (view P master hist (as_world s)))(h \<mapsto> rec) \<Longrightarrow>
      accounts_of P master hist (s\<lparr> as_world := w \<rparr>)
        = (accounts_of P master hist s)(h \<mapsto> record_from_balance rec)"
  using assms by (auto simp: accounts_of_def fun_eq_iff)

lemma metered_world:
  assumes "as_backend s = PersistentBackend"
    and "\<And>h. view P master hist w (record_key h) = view P master hist (as_world s) (record_key h)"
  shows "metered_of P master hist (s\<lparr> as_world := w \<rparr>) = metered_of P master hist s"
  using assms by (simp add: metered_of_def)

text \<open>A durable write of one account is an update of the specification, or the
  row was not writable.\<close>

lemma persistent_put:
  assumes good: "store_good P master hist durable (as_world s)" and p: "as_backend s = PersistentBackend"
    and t: "try_then f (put_val P master (bal_key h) (p_enc_balance P rec') True (as_world s))
      (\<lambda>u w. (Inr n, w)) = (r, w')"
    and f: "\<forall>e. g (f e) = DebitUnknown"
  shows "store_good P master hist durable w'
    \<and> metered_of P master hist (s\<lparr> as_world := w' \<rparr>) = metered_of P master hist s
    \<and> ((r = Inr n \<and> accounts_of P master hist (s\<lparr> as_world := w' \<rparr>)
          = (accounts_of P master hist s)(h \<mapsto> record_from_balance rec'))
       \<or> ((\<exists>e. r = Inl e \<and> g e = DebitUnknown)
          \<and> row_unwritable P master True (bal_key h) (p_enc_balance P rec') (as_world s)
          \<and> accounts_of P master hist (s\<lparr> as_world := w' \<rparr>) = accounts_of P master hist s))"
  using t
proof (cases rule: try_then_cases)
  case (err e)
  show ?thesis
    using put_val_Inl [OF good err(1)] err unwritableI [OF err(1)] accounts_world(1) [OF p]
      metered_world [OF p] f by simp
next
  case (ok u w1)
  show ?thesis
    using put_val_Inr(1,2) [OF good ok(1)] ok accounts_world(2) [OF p] metered_world [OF p]
      acct_upd [OF platform_okD(3) [OF store_good_platform [OF good]]] by simp
qed

lemma keys_debit_refines:
  assumes good: "keys_good P master hist durable s" and d: "keys_debit P master k a s = (r, s')"
  shows "keys_good P master hist durable s'
    \<and> ((r, accounts_of P master hist s') = spec_debit (hash_key_id P k) a (accounts_of P master hist s)
       \<or> store_fault P master hist (account_fault P master hist (hash_key_id P k) (\<lambda>b. b - a)) s r s')"
proof (cases "as_backend s")
  case (MemoryBackend m)
  with d show ?thesis
    by (auto simp: keys_debit_def keys_good_def spec_debit_def accounts_of_def update_conv'
        split: option.splits if_splits)
next
  case PersistentBackend
  let ?h = "hash_key_id P k" and ?w = "as_world s"
  obtain r0 w where dw: "debit_balance P master k a ?w = (r0, w)" by fastforce
  have r: "r = map_sum debit_of_balance id r0" "s' = s\<lparr> as_world := w \<rparr>"
    using d dw PersistentBackend by (simp_all add: keys_debit_def)
  have g: "store_good P master hist durable ?w" using good PersistentBackend by (simp add: keys_good_def)
  show ?thesis
  proof (cases "read_balance P master ?h ?w")
    case (Inl e)
    then have "r0 = Inl e" "w = ?w" using dw by (simp_all add: debit_balance_def Let_def)
    with r good PersistentBackend read_balance_Inl [OF g Inl] show ?thesis
      by (auto simp: store_fault_def account_fault_def accounts_of_def spec_debit_def)
  next
    case (Inr rec)
    then have a: "acct P (view P master hist ?w) ?h = Some rec"
      using read_balance_Inr [OF g Inr] by simp
    then have A: "accounts_of P master hist s ?h = Some (record_from_balance rec)"
      using PersistentBackend by (simp add: accounts_of_def)
    show ?thesis
    proof (cases "br_revoked rec \<or> br_balance rec < a")
      case True
      with dw Inr have "w = ?w
        \<and> r0 = Inl (if br_revoked rec then BalRevoked else BalInsufficient (br_balance rec))"
        by (cases "br_revoked rec") (simp_all add: debit_balance_def Let_def)
      with r True A good PersistentBackend show ?thesis by (auto simp: spec_debit_def)
    next
      case False
      with dw Inr have "try_then balance_of_val (put_val P master (bal_key ?h)
          (p_enc_balance P (set_balance rec (br_balance rec - a))) True ?w)
          (\<lambda>u w. (Inr (br_balance rec - a), w)) = (r0, w)"
        by (simp add: debit_balance_def Let_def)
      from persistent_put [OF g PersistentBackend this, of debit_of_balance] show ?thesis
        using r False A a PersistentBackend
        by (auto simp: spec_debit_def keys_good_def store_fault_def account_fault_def)
    qed
  qed
qed

lemma keys_refund_refines:
  assumes good: "keys_good P master hist durable s" and d: "keys_refund P master k a s = (r, s')"
  shows "keys_good P master hist durable s'
    \<and> ((r, accounts_of P master hist s') = spec_refund (hash_key_id P k) a (accounts_of P master hist s)
       \<or> store_fault P master hist (account_fault P master hist (hash_key_id P k) (\<lambda>b. sat_add b a)) s r s')"
proof (cases "as_backend s")
  case (MemoryBackend m)
  with d show ?thesis
    by (auto simp: keys_refund_def keys_good_def spec_refund_def accounts_of_def update_conv' Let_def
        split: option.splits)
next
  case PersistentBackend
  let ?h = "hash_key_id P k" and ?w = "as_world s"
  obtain r0 w where dw: "refund_balance P master k a ?w = (r0, w)" by fastforce
  have r: "r = map_sum debit_of_balance id r0" "s' = s\<lparr> as_world := w \<rparr>"
    using d dw PersistentBackend by (simp_all add: keys_refund_def)
  have g: "store_good P master hist durable ?w" using good PersistentBackend by (simp add: keys_good_def)
  show ?thesis
  proof (cases "read_balance P master ?h ?w")
    case (Inl e)
    then have "r0 = Inl e" "w = ?w" using dw by (simp_all add: refund_balance_def Let_def)
    with r good PersistentBackend read_balance_Inl [OF g Inl] show ?thesis
      by (auto simp: store_fault_def account_fault_def accounts_of_def spec_refund_def)
  next
    case (Inr rec)
    then have a: "acct P (view P master hist ?w) ?h = Some rec"
      using read_balance_Inr [OF g Inr] by simp
    then have A: "accounts_of P master hist s ?h = Some (record_from_balance rec)"
      using PersistentBackend by (simp add: accounts_of_def)
    from dw Inr have "try_then balance_of_val (put_val P master (bal_key ?h)
        (p_enc_balance P (set_balance rec (sat_add (br_balance rec) a))) True ?w)
        (\<lambda>u w. (Inr (sat_add (br_balance rec) a), w)) = (r0, w)"
      by (simp add: refund_balance_def Let_def)
    from persistent_put [OF g PersistentBackend this, of debit_of_balance] show ?thesis
      using r A a PersistentBackend
      by (auto simp: spec_refund_def keys_good_def store_fault_def account_fault_def)
  qed
qed

text \<open>A revocation on the durable store, by what the two rows hold.\<close>

lemma persistent_revoke:
  assumes g: "store_good P master hist durable (as_world s)" and p: "as_backend s = PersistentBackend"
    and d: "revoke_hash P master h (as_world s) = (r0, w)"
    and r: "r = map_sum (\<lambda>e. DebitUnknown) id r0" and s': "s' = s\<lparr> as_world := w \<rparr>"
  shows "(r, metered_of P master hist s', accounts_of P master hist s')
        = spec_revoke h (metered_of P master hist s, accounts_of P master hist s)
      \<or> store_fault P master hist (revoke_fault P master hist h) s r s'"
proof -
  let ?w = "as_world s" let ?m = "view P master hist ?w"
  note c = platform_okD(3) [OF store_good_platform [OF g]]
  note val = sealed.get_val [OF g]
  note spec = spec_revoke_def metered_of_def accounts_of_def
  consider (unreadable) e where "get_val P master (record_key h) ?w = Inl e"
    | (garbled) b e where "get_val P master (record_key h) ?w = Inr (Some b)" "p_dec_key P b = Inl e"
    | (metered) b rec where "get_val P master (record_key h) ?w = Inr (Some b)" "p_dec_key P b = Inr rec"
    | (unread) e where "get_val P master (record_key h) ?w = Inr None"
        "get_val P master (bal_key h) ?w = Inl e"
    | (unknown) b where "get_val P master (record_key h) ?w = Inr None"
        "get_val P master (bal_key h) ?w = Inr b" "\<forall>v rec. b = Some v \<longrightarrow> p_dec_balance P v \<noteq> Inr rec"
    | (account) b rec where "get_val P master (record_key h) ?w = Inr None"
        "get_val P master (bal_key h) ?w = Inr (Some b)" "p_dec_balance P b = Inr rec"
    by (metis sum.exhaust option.exhaust)
  then show ?thesis
  proof cases
    case unreadable
    with d have "w = ?w" "\<exists>e. r0 = Inl e" by (auto simp: revoke_hash_def)
    with p r s' unreadableI [OF unreadable] show ?thesis
      by (auto simp: store_fault_def revoke_fault_def)
  next
    case garbled
    with d have "w = ?w" "\<exists>e. r0 = Inl e" by (auto simp: revoke_hash_def)
    with p r s' garbled val [OF garbled(1), symmetric] show ?thesis by (auto simp: spec)
  next
    case metered
    with d have t: "try_then store_of_val (put_val P master (record_key h)
        (p_enc_key P (rec\<lparr> kr_revoked := True \<rparr>)) False ?w) (\<lambda>u w. (Inr (), w)) = (r0, w)"
      by (simp add: revoke_hash_def)
    have k: "?m (record_key h) = Some b" "key_rec P ?m h = Some rec"
      using metered val [OF metered(1), symmetric] by (simp_all add: key_rec_def)
    from t show ?thesis
    proof (cases rule: try_then_cases)
      case (err e)
      with put_val_Inl(2) [OF g err(1)] unwritableI [OF err(1)] p r s' k(2)
        accounts_world(1) [OF p] metered_world [OF p] show ?thesis
        by (auto simp: store_fault_def revoke_fault_def)
    next
      case (ok u w1)
      have v: "view P master hist w = ?m(record_key h \<mapsto> p_enc_key P (rec\<lparr> kr_revoked := True \<rparr>))"
        using put_val_Inr(2) [OF g ok(1)] ok by simp
      have "metered_of P master hist s'
          = (metered_of P master hist s)(h \<mapsto> Inr (rec\<lparr> kr_revoked := True \<rparr>))"
        using p by (simp add: s' metered_of_def v fun_eq_iff codecs(2) [OF c])
      moreover have "accounts_of P master hist s' = accounts_of P master hist s"
        unfolding s' by (rule accounts_world(1) [OF p]) (simp add: v acct_upd_other)
      moreover have "metered_of P master hist s h = Some (Inr rec)"
        using p k(1) metered(2) by (simp add: metered_of_def)
      ultimately show ?thesis using r ok by (auto simp: spec_revoke_def)
    qed
  next
    case unread
    with d have "w = ?w" "\<exists>e. r0 = Inl e" by (auto simp: revoke_hash_def)
    with p r s' unreadableI [OF unread(2)] val [OF unread(1), symmetric] show ?thesis
      by (auto simp: store_fault_def revoke_fault_def)
  next
    case unknown
    with d have "w = ?w" "\<exists>e. r0 = Inl e"
      by (auto simp: revoke_hash_def split: option.splits sum.splits)
    moreover have "acct P ?m h = None"
      using unknown(3) val [OF unknown(2), symmetric]
      by (auto simp: acct_def split: option.splits sum.splits)
    ultimately show ?thesis using p r s' val [OF unknown(1), symmetric] by (auto simp: spec)
  next
    case account
    have a: "acct P ?m h = Some rec" "?m (record_key h) = None"
      using account val [OF account(1), symmetric] val [OF account(2), symmetric]
      by (simp_all add: acct_def)
    from d account have "try_then store_of_val (put_val P master (bal_key h)
        (p_enc_balance P (rec\<lparr> br_revoked := True \<rparr>)) True ?w) (\<lambda>u w. (Inr (), w)) = (r0, w)"
      by (simp add: revoke_hash_def)
    note put = persistent_put [OF g p this, of "\<lambda>e. DebitUnknown", simplified, folded s']
    have "metered_of P master hist s h = None"
      "accounts_of P master hist s h = Some (record_from_balance rec)"
      using p a by (simp_all add: metered_of_def accounts_of_def)
    with put p a r show ?thesis
      by (elim conjE disjE exE) (simp_all add: spec_revoke_def store_fault_def revoke_fault_def)
  qed
qed

lemma keys_revoke_refines:
  assumes good: "keys_good P master hist durable s" and d: "keys_revoke P master k s = (r, s')"
  shows "keys_good P master hist durable s'
    \<and> ((r, metered_of P master hist s', accounts_of P master hist s')
          = spec_revoke (hash_key_id P k) (metered_of P master hist s, accounts_of P master hist s)
       \<or> store_fault P master hist (revoke_fault P master hist (hash_key_id P k)) s r s')"
proof (cases "as_backend s")
  case (MemoryBackend m)
  with d show ?thesis
    by (auto simp: keys_revoke_def keys_good_def spec_revoke_def accounts_of_def metered_of_def
        update_conv' Let_def split: option.splits)
next
  case PersistentBackend
  obtain r0 w where dw: "revoke_hash P master (hash_key_id P k) (as_world s) = (r0, w)" by fastforce
  have r: "r = map_sum (\<lambda>e. DebitUnknown) id r0" "s' = s\<lparr> as_world := w \<rparr>"
    using d dw PersistentBackend by (simp_all add: keys_revoke_def revoke_key_def)
  have g: "store_good P master hist durable (as_world s)"
    using good PersistentBackend by (simp add: keys_good_def)
  have "keys_good P master hist durable s'"
    using conjunct1 [OF revoke_hash_outcome [OF g dw]] r(2) by (simp add: keys_good_def)
  with persistent_revoke [OF g PersistentBackend dw r] show ?thesis by blast
qed

lemma keys_get_refines:
  assumes "keys_good P master hist durable s"
  shows "keys_get P master k s = accounts_of P master hist s (hash_key_id P k)
    \<or> (as_backend s = PersistentBackend \<and> keys_get P master k s = None)"
proof (cases "as_backend s")
  case PersistentBackend
  then have g: "store_good P master hist durable (as_world s)" using assms by (simp add: keys_good_def)
  show ?thesis
  proof (cases "get_balance_record P master k (as_world s)")
    case (Inr r)
    then have "get_val P master (bal_key (hash_key_id P k)) (as_world s)
        = Inr (view P master hist (as_world s) (bal_key (hash_key_id P k)))"
      using sealed.get_val [OF g]
      by (auto simp: get_balance_record_def split: sum.splits)
    with Inr PersistentBackend show ?thesis
      by (auto simp: keys_get_def accounts_of_def get_balance_record_def acct_def
          split: option.splits sum.splits)
  qed (simp add: keys_get_def PersistentBackend)
qed (simp add: keys_get_def accounts_of_def)

section \<open>Both backends are stores of balances\<close>

definition key_balances ::
  "'w platform \<Rightarrow> bytes \<Rightarrow> ('w \<Rightarrow> history) \<Rightarrow> 'w key_store \<Rightarrow> string \<Rightarrow> u256 option" where
  "key_balances P master hist s h = map_option ak_balance_grains (accounts_of P master hist s h)"

interpretation keys: money_store "keys_debit P master" "keys_refund P master"
  "key_balances P master hist" "hash_key_id P" "keys_good P master hist durable"
  for P :: "'w platform" and master hist durable
proof (unfold_locales, goal_cases)
  case (1 s k a r s')
  then show ?case using keys_debit_refines by blast
next
  case (2 s k a r s')
  then show ?case using keys_refund_refines by blast
next
  case (3 s k a e s')
  with keys_debit_refines [OF 3] show ?case
    by (auto simp: key_balances_def fun_eq_iff spec_debit_def store_fault_def
        split: option.splits if_splits)
next
  case (4 s k a e s')
  with keys_refund_refines [OF 4] show ?case
    by (auto simp: key_balances_def fun_eq_iff spec_refund_def store_fault_def split: option.splits)
next
  case (5 s k a n s')
  with keys_debit_refines [OF 5] show ?case
    by (auto simp: key_balances_def fun_eq_iff spec_debit_def store_fault_def
        split: option.splits if_splits)
next
  case (6 s k a n s')
  with keys_refund_refines [OF 6] show ?case
    by (auto simp: key_balances_def fun_eq_iff spec_refund_def store_fault_def split: option.splits)
qed

section \<open>What the store promises\<close>

text \<open>C18. On either backend a debit, a refund and a revocation answer and change
  the accounts as the one specification says, which keeps a plain map from
  accounts to records; a revocation acts on the metered key of the hash where the
  durable store has one, and on the account otherwise. The only other outcome is
  a fault of the durable store: a row the operation needs cannot be read, or the
  row it writes back cannot be written; it is reported as an unknown key and
  leaves every account and every metered key as it was.\<close>

theorem backends_refine_accounts:
  assumes good: "keys_good P master hist durable s"
    and d: "keys_debit P master k a s = (r1, s1)"
    and f: "keys_refund P master k a s = (r2, s2)"
    and v: "keys_revoke P master k s = (r3, s3)"
    and h: "h = hash_key_id P k"
  shows "((r1, accounts_of P master hist s1) = spec_debit h a (accounts_of P master hist s)
        \<or> store_fault P master hist (account_fault P master hist h (\<lambda>b. b - a)) s r1 s1)
    \<and> ((r2, accounts_of P master hist s2) = spec_refund h a (accounts_of P master hist s)
        \<or> store_fault P master hist (account_fault P master hist h (\<lambda>b. sat_add b a)) s r2 s2)
    \<and> ((r3, metered_of P master hist s3, accounts_of P master hist s3)
          = spec_revoke h (metered_of P master hist s, accounts_of P master hist s)
        \<or> store_fault P master hist (revoke_fault P master hist h) s r3 s3)"
  unfolding h using keys_debit_refines [OF good d] keys_refund_refines [OF good f]
    keys_revoke_refines [OF good v] by blast

lemma insert_accounts:
  assumes good: "keys_good P master hist durable s"
    and i: "keys_insert P master label balance deposit backing s = (Inr k, s')"
  shows "\<exists>now. keys_good P master hist durable s'
    \<and> accounts_of P master hist s' = (accounts_of P master hist s)(hash_key_id P k \<mapsto>
        \<lparr> ak_label = label, ak_balance_grains = balance, ak_deposit_address = deposit,
          ak_revoked = False, ak_backing = backing, ak_created_at = now, ak_model_budgets = [] \<rparr>)"
proof (cases "as_backend s")
  case (MemoryBackend m)
  with i show ?thesis
    by (auto simp: keys_insert_def keys_good_def accounts_of_def set_memory_def update_conv' Let_def
        split: prod.splits)
next
  case PersistentBackend
  then have g: "store_good P master hist durable (as_world s)" using good by (simp add: keys_good_def)
  obtain w where c: "create_balance_key P master label balance deposit (backing_as_u8 backing)
      (as_world s) = (Inr k, w)" and s': "s' = s\<lparr> as_world := w \<rparr>"
    using i PersistentBackend by (auto simp: keys_insert_def split: prod.splits)
  obtain u w1 where u: "p_uuid P (as_world s) = (u, w1)" by fastforce
  obtain now w2 where n: "p_now P w1 = (now, w2)" by fastforce
  note host = platform_okD(2) [OF store_good_platform [OF g]]
  have h: "hist w2 = hist (as_world s)" using host_state(2) [OF host u] host_state(3) [OF host n] by simp
  with g have g2: "store_good P master hist durable w2"
    by (simp add: store_good_hist [of hist w2 "as_world s"])
  define rec where "rec = \<lparr> br_label = label, br_created_at = now, br_revoked = False,
      br_backing = backing_as_u8 backing, br_deposit_address = be_bytes 20 (unat deposit),
      br_balance_be = u256_to_be_bytes balance \<rparr>"
  obtain x where p: "put_val P master (bal_key (hash_key_id P k)) (p_enc_balance P rec) True w2 = (Inr x, w)"
    using c by (auto simp: create_balance_key_def u n rec_def Let_def elim!: try_then_InrE)
  note W = put_val_Inr(1,2) [OF g2 p]
  have "acct P (view P master hist w)
      = (acct P (view P master hist (as_world s)))(hash_key_id P k \<mapsto> rec)"
    using W(2) h acct_upd [OF platform_okD(3) [OF store_good_platform [OF g]]] by simp
  moreover have "(word_from_slice (be_bytes 20 (unat deposit)) :: h160) = deposit"
    using unat_less_length [of deposit] by (intro word_from_be_bytes) simp
  ultimately show ?thesis using accounts_world(2) [OF PersistentBackend, of P master hist w] W(1)
    by (auto simp: s' keys_good_def rec_def record_from_balance_def br_balance_def)
qed

text \<open>A key minted with a label, a balance, a deposit address and a backing
  reads back with exactly those, unrevoked, whatever form the backend stores
  them in; the other accounts are untouched. A durable store that cannot be
  read answers as if the key were unknown.\<close>

theorem minted_key_reads_back:
  assumes good: "keys_good P master hist durable s"
    and i: "create_key_with_backing P master label balance deposit backing s = (Inr k, s')"
  shows "((\<exists>rec. keys_get P master k s' = Some rec
          \<and> ak_label rec = label \<and> ak_balance_grains rec = balance \<and> ak_deposit_address rec = deposit
          \<and> \<not> ak_revoked rec \<and> ak_backing rec = backing)
        \<or> as_backend s' = PersistentBackend \<and> keys_get P master k s' = None)
    \<and> (\<forall>h. h \<noteq> hash_key_id P k \<longrightarrow> accounts_of P master hist s' h = accounts_of P master hist s h)"
proof -
  obtain now where g: "keys_good P master hist durable s'"
    and A: "accounts_of P master hist s' = (accounts_of P master hist s)(hash_key_id P k \<mapsto>
        \<lparr> ak_label = label, ak_balance_grains = balance, ak_deposit_address = deposit,
          ak_revoked = False, ak_backing = backing, ak_created_at = now, ak_model_budgets = [] \<rparr>)"
    using insert_accounts [OF good i [unfolded create_key_with_backing_def]] by blast
  from keys_get_refines [OF g, of k] show ?thesis unfolding A by auto
qed

section \<open>Sample stores\<close>

definition sample_key_store :: "ref_world key_store" where
  "sample_key_store = with_persistent sample_store"

lemma sample_key_store_good:
  "keys_good ref_platform ref_master ref_hist ref_durable sample_key_store"
  by (simp add: keys_good_def sample_key_store_def with_persistent_def sample_store_good)

theorem backends_refine_accounts_witness:
  "\<exists>s'. keys_debit ref_platform ref_master sample_key 300 sample_key_store = (Inr 700, s')
    \<and> (Inr 700, accounts_of ref_platform ref_master ref_hist s')
        = spec_debit sample_hash 300 (accounts_of ref_platform ref_master ref_hist sample_key_store)"
proof -
  obtain w where "debit_balance ref_platform ref_master sample_key 300 sample_store = (Inr 700, w)"
    using sample_debit by blast
  then obtain s1 where d: "keys_debit ref_platform ref_master sample_key 300 sample_key_store
      = (Inr 700, s1)"
    by (simp add: keys_debit_def sample_key_store_def with_persistent_def)
  obtain r2 s2 r3 s3 where
    "keys_refund ref_platform ref_master sample_key 300 sample_key_store = (r2, s2)"
    and "keys_revoke ref_platform ref_master sample_key sample_key_store = (r3, s3)"
    by (metis surj_pair)
  from backends_refine_accounts [OF sample_key_store_good d this sample_hash_def] d show ?thesis
    by (simp add: store_fault_def)
qed

theorem minted_key_reads_back_witness:
  "\<exists>k s' rec. create_key_with_backing ref_platform ref_master ''ci'' 50 7 Credits (keys_new ref_start)
      = (Inr k, s')
    \<and> keys_get ref_platform ref_master k s' = Some rec \<and> ak_balance_grains rec = 50
    \<and> ak_backing rec = Credits"
proof -
  obtain k s' where c: "create_key_with_backing ref_platform ref_master ''ci'' 50 7 Credits
      (keys_new ref_start) = (Inr k, s')" and "as_backend s' \<noteq> PersistentBackend"
    by (cases "p_uuid ref_platform ref_start"; cases "p_now ref_platform (snd (p_uuid ref_platform ref_start))")
      (auto simp: create_key_with_backing_def keys_insert_def keys_new_def Let_def)
  moreover have "keys_good ref_platform ref_master ref_hist ref_durable (keys_new ref_start)"
    by (simp add: keys_good_def keys_new_def)
  ultimately show ?thesis using minted_key_reads_back [of ref_platform ref_master] by blast
qed

end
