(* ===== verification/Api_Key_Layer.thy ===== *)
theory Api_Key_Layer
  imports Key_Backends X402_Layer Rust_Text
begin

text \<open>
  The bearer-key middleware of \<open>gateway/src/auth.rs\<close>, which stands in front of
  the payment layer: a request with a funded key is charged to the key's
  balance and marked as paid, so that the payment layer lets it through; after
  the answer the key is refunded what it did not owe. The middleware uses the
  store through three calls, the fields of \<open>key_api\<close>; that it charges exactly
  what it should is proved once, inside the locale \<open>money_store\<close>.
\<close>

section \<open>The store as the layer sees it\<close>

record ('s, 'd) key_api =
  ka_get :: "string \<Rightarrow> 's \<Rightarrow> api_key_record option"
  ka_debit :: "string \<Rightarrow> u256 \<Rightarrow> 's \<Rightarrow> ('d + u256) \<times> 's"
  ka_refund :: "string \<Rightarrow> u256 \<Rightarrow> 's \<Rightarrow> ('d + u256) \<times> 's"

definition store_api :: "'w platform \<Rightarrow> bytes \<Rightarrow> ('w key_store, debit_error) key_api" where
  "store_api P master =
     \<lparr> ka_get = keys_get P master, ka_debit = keys_debit P master, ka_refund = keys_refund P master \<rparr>"

section \<open>The bearer token\<close>

definition extract_bearer :: "(string \<times> string) list \<Rightarrow> string option" where
  "extract_bearer headers =
     (case Option.bind (Option.bind (map_of headers ''authorization'') header_to_str)
             (strip_prefix ''Bearer '') of
        None \<Rightarrow> None
      | Some t \<Rightarrow> let s = str_trim t in if s = [] then None else Some s)"

section \<open>Answers\<close>

definition error_message_json :: "string \<Rightarrow> json" where
  "error_message_json msg = JObj [(''error'', JObj [(''message'', JStr msg)])]"

definition key_401 :: "x402_lib \<Rightarrow> string \<Rightarrow> response" where
  "key_401 X msg = json_response X 401 content_json (error_message_json msg)"

definition key_400 :: "x402_lib \<Rightarrow> string \<Rightarrow> response" where
  "key_400 X msg = json_response X 400 content_json (error_message_json msg)"

text \<open>The parser of JSON text is a parameter. A body that cannot be read to its
  end comes back empty.\<close>

definition attach_deposit_hint ::
  "x402_lib \<Rightarrow> (string \<Rightarrow> json option) \<Rightarrow> response \<Rightarrow> h160 \<Rightarrow> response" where
  "attach_deposit_hint X parse resp deposit =
     (if rs_status resp \<noteq> 402 then resp
      else if rs_body_broken resp then resp\<lparr> rs_body := [], rs_body_broken := False \<rparr>
      else
        case parse (rs_body resp) of
          None \<Rightarrow> resp
        | Some v \<Rightarrow>
            let v = (case v of
                       JObj obj \<Rightarrow>
                         JObj (AList.update ''deposit_instructions''
                           (JObj [(''address'', JStr (''0x'' @ hex_encode X (be_bytes 20 (unat deposit)))),
                                  (''message'', JStr ''Send SALT to this address to top up the key'')])
                           obj)
                     | v \<Rightarrow> v)
            in resp\<lparr> rs_body := json_text X v,
                     rs_headers := filter (\<lambda>(k, x). k \<noteq> ''content-length'') (rs_headers resp) \<rparr>)"

section \<open>Settling with the key\<close>

definition settle_api_key_response ::
  "('s, 'd) key_api \<Rightarrow> string \<Rightarrow> u256 \<Rightarrow> response \<Rightarrow> 's \<Rightarrow> 's" where
  "settle_api_key_response K key_id taken resp s =
     (if is_success (rs_status resp)
      then
        case rs_charge resp of
          None \<Rightarrow> s
        | Some charge \<Rightarrow>
            if charge < taken then snd (ka_refund K key_id (taken - charge) s) else s
      else snd (ka_refund K key_id taken s))"

definition mark_key_paid :: "api_key_record \<Rightarrow> string \<Rightarrow> u256 \<Rightarrow> request \<Rightarrow> request" where
  "mark_key_paid rec key_id price req =
     req\<lparr> rq_paid := Some \<lparr> paid_payer = ak_deposit_address rec, paid_amount_wei = price,
                            paid_nonce = 0, paid_settle_tx_hash = 0 \<rparr>,
          rq_api_key := Some \<lparr> kc_key_id = key_id, kc_backing = ak_backing rec \<rparr> \<rparr>"

text \<open>The unfunded path: the payment layer answers, and a challenge gets a
  pointer to the key's deposit address.\<close>

definition unfunded_call ::
  "x402_lib \<Rightarrow> (string \<Rightarrow> json option) \<Rightarrow> (request \<Rightarrow> 's \<Rightarrow> ('e + response) \<times> 's) \<Rightarrow> request \<Rightarrow> h160
    \<Rightarrow> 's \<Rightarrow> ('e + response) \<times> 's" where
  "unfunded_call X parse inner req deposit s =
     (case inner req s of
        (Inl e, s) \<Rightarrow> (Inl e, s)
      | (Inr resp, s) \<Rightarrow> (Inr (attach_deposit_hint X parse resp deposit), s))"

definition funded_call ::
  "('s, 'd) key_api \<Rightarrow> (request \<Rightarrow> 's \<Rightarrow> ('e + response) \<times> 's) \<Rightarrow> request \<Rightarrow> api_key_record \<Rightarrow> string \<Rightarrow> u256
    \<Rightarrow> 's \<Rightarrow> ('e + response) \<times> 's" where
  "funded_call K inner req rec key_id price s =
     (case inner (mark_key_paid rec key_id price req) s of
        (Inl e, s) \<Rightarrow> (Inl e, s)
      | (Inr resp, s) \<Rightarrow> (Inr resp, settle_api_key_response K key_id price resp s))"

definition api_key_call ::
  "x402_lib \<Rightarrow> (string \<Rightarrow> json option) \<Rightarrow> ('s, 'd) key_api
    \<Rightarrow> (request \<Rightarrow> bytes \<Rightarrow> 's \<Rightarrow> (pricing_error + u256) \<times> 's)
    \<Rightarrow> (request \<Rightarrow> 's \<Rightarrow> ('e + response) \<times> 's) \<Rightarrow> request \<Rightarrow> 's \<Rightarrow> ('e + response) \<times> 's" where
  "api_key_call X parse K pricing inner req s =
     (case extract_bearer (rq_headers req) of
        None \<Rightarrow> inner req s
      | Some key_id \<Rightarrow>
          (case ka_get K key_id s of
             None \<Rightarrow> (Inr (key_401 X ''unknown api key''), s)
           | Some rec \<Rightarrow>
               if ak_revoked rec then (Inr (key_401 X ''api key revoked''), s)
               else
                 case buffer_request_body X req of
                   Inl e \<Rightarrow> (Inr (key_400 X e), s)
                 | Inr body \<Rightarrow>
                     (case pricing req body s of
                        (Inl e, s) \<Rightarrow> (Inr (key_400 X (pricing_display e)), s)
                      | (Inr price, s) \<Rightarrow>
                          if ak_balance_grains rec < price
                          then unfunded_call X parse inner req (ak_deposit_address rec) s
                          else
                            case ka_debit K key_id price s of
                              (Inr n, s) \<Rightarrow> funded_call K inner req rec key_id price s
                            | (Inl e, s) \<Rightarrow> unfunded_call X parse inner req (ak_deposit_address rec) s)))"

section \<open>What a key pays\<close>

definition charge_due :: "u256 \<Rightarrow> response \<Rightarrow> u256" where
  "charge_due price resp =
     (if \<not> is_success (rs_status resp) then 0
      else case rs_charge resp of None \<Rightarrow> price | Some c \<Rightarrow> min c price)"

lemma charge_due_le: "charge_due price resp \<le> price"
  by (simp add: charge_due_def split: option.split)

text \<open>One paid request, on any store of balances. The handler may do what it
  likes as long as it leaves this account alone.\<close>

context money_store
begin

lemma settle_charges:
  assumes good: "good s" and b: "balance s (account k) = Some (b - price)" and le: "price \<le> b"
    and refund: "ka_refund K = refund"
    and s': "settle_api_key_response K k price resp s = s'"
  shows "good s' \<and> (balance s' (account k) = Some (b - charge_due price resp)
    \<or> (\<exists>e. fst (refund k (price - charge_due price resp) s) = Inl e
         \<and> balance s' (account k) = Some (b - price)))"
proof (cases "is_success (rs_status resp) \<and> (\<forall>c. rs_charge resp = Some c \<longrightarrow> price \<le> c)")
  case True
  then have "charge_due price resp = price" "s' = s"
    using s' by (auto simp: charge_due_def settle_api_key_response_def min_def split: option.splits)
  with good b show ?thesis by simp
next
  case False
  define x where "x = price - charge_due price resp"
  have s'': "s' = snd (refund k x s)"
    using False s' refund
    by (auto simp: settle_api_key_response_def x_def charge_due_def min_def not_le split: option.splits)
  obtain r where r: "refund k x s = (r, s')" using s'' by (metis prod.collapse)
  show ?thesis
  proof (cases r)
    case (Inl e)
    with r refund_error [OF good] b refund_good [OF good r] show ?thesis by (simp add: x_def)
  next
    case (Inr n)
    obtain b0 where "balance s (account k) = Some b0"
      and "balance s' = (balance s)(account k \<mapsto> sat_add b0 x)"
      using refund_ok [OF good r [unfolded Inr]] by blast
    with b have "balance s' (account k) = Some (sat_add (b - price) x)" by simp
    moreover have "sat_add (b - price) x = b - charge_due price resp"
    proof -
      have c: "charge_due price resp \<le> b" using le charge_due_le order.trans by blast
      have "unat (sat_add (b - price) x) = unat (b - charge_due price resp)"
        using le c charge_due_le [of price resp] unat_less_length [of b]
        by (simp add: unat_sat_add x_def unat_sub word_le_nat_alt)
      then show ?thesis by (simp add: word_unat_eq_iff)
    qed
    ultimately show ?thesis using refund_good [OF good r] by simp
  qed
qed

lemma funded_call_charges:
  assumes good: "good s" and b: "balance s (account k) = Some b" and refund: "ka_refund K = refund"
    and d: "debit k price s = (Inr n, s1)"
    and inner: "inner (mark_key_paid rec k price req) s1 = (Inr resp, s2)"
    and keeps: "good s2" "balance s2 (account k) = balance s1 (account k)"
    and c: "funded_call K inner req rec k price s1 = (r, s')"
  shows "r = Inr resp \<and> price \<le> b \<and> good s'
    \<and> (balance s' (account k) = Some (b - charge_due price resp)
       \<or> (\<exists>e. fst (refund k (price - charge_due price resp) s2) = Inl e
            \<and> balance s' (account k) = Some (b - price)))"
proof -
  obtain b0 where "balance s (account k) = Some b0" "price \<le> b0"
    and "balance s1 = (balance s)(account k \<mapsto> b0 - price)"
    using debit_ok [OF good d] by blast
  with b have le: "price \<le> b" and b1: "balance s2 (account k) = Some (b - price)"
    using keeps(2) by simp_all
  have "r = Inr resp" "settle_api_key_response K k price resp s2 = s'"
    using c inner by (simp_all add: funded_call_def)
  with settle_charges [OF keeps(1) b1 le refund this(2)] le show ?thesis by simp
qed

end

section \<open>What the layer promises\<close>

text \<open>A refund to an account the store has fails only when its row cannot be
  read, or the refunded balance cannot be written to it.\<close>

lemma refund_fails:
  assumes good: "keys_good P master hist durable s"
    and b: "key_balances P master hist s (hash_key_id P k) = Some b"
    and e: "fst (keys_refund P master k a s) = Inl e"
  shows "as_backend s = PersistentBackend
    \<and> account_fault P master hist (hash_key_id P k) (\<lambda>b. sat_add b a) s"
proof -
  obtain s' where "keys_refund P master k a s = (Inl e, s')" using e by (metis prod.collapse)
  from keys_refund_refines [OF good this] b show ?thesis
    by (auto simp: spec_refund_def store_fault_def key_balances_def split: option.splits)
qed

text \<open>C13. A request with a funded key is charged what it owes and no more: the price
  when it succeeded, what the handler says it cost when that is less, nothing
  when it failed. It never costs more than the price, which the balance
  covered; the handler itself is taken not to move the account's balance. The
  one exception is a refund that fails: part of the price was to be
  given back, the balances are in the durable store, and there, after the
  handler, the account's row cannot be read or the refunded balance cannot be
  written to it; then the whole price stays charged.\<close>

theorem funded_request_charged_exactly:
  assumes bearer: "extract_bearer (rq_headers req) = Some k"
    and rec: "keys_get P master k s = Some rec" "\<not> ak_revoked rec" "price \<le> ak_balance_grains rec"
    and body: "buffer_request_body X req = Inr body"
    and price: "pricing req body s = (Inr price, s0)"
    and good: "keys_good P master hist durable s0"
    and b: "key_balances P master hist s0 (hash_key_id P k) = Some b"
    and debit: "keys_debit P master k price s0 = (Inr n, s1)"
    and inner: "inner (mark_key_paid rec k price req) s1 = (Inr resp, s2)"
    and keeps: "keys_good P master hist durable s2"
      "key_balances P master hist s2 (hash_key_id P k) = key_balances P master hist s1 (hash_key_id P k)"
    and call: "api_key_call X parse (store_api P master) pricing inner req s = (r, s')"
    and surplus: "surplus = price - charge_due price resp"
  shows "r = Inr resp \<and> price \<le> b \<and> charge_due price resp \<le> price
    \<and> (key_balances P master hist s' (hash_key_id P k) = Some (b - charge_due price resp)
       \<or> (surplus \<noteq> 0 \<and> as_backend s2 = PersistentBackend
          \<and> (\<exists>e. fst (keys_refund P master k surplus s2) = Inl e)
          \<and> account_fault P master hist (hash_key_id P k) (\<lambda>b. sat_add b surplus) s2
          \<and> key_balances P master hist s' (hash_key_id P k) = Some (b - price)))"
proof -
  have api: "ka_refund (store_api P master) = keys_refund P master" by (simp add: store_api_def)
  have "funded_call (store_api P master) inner req rec k price s1 = (r, s')"
    using call bearer rec(1,2) body price debit leD [OF rec(3)]
    by (simp add: api_key_call_def store_api_def)
  note F = keys.funded_call_charges [OF good b api debit inner keeps this, folded surplus]
  obtain b1 where "key_balances P master hist s2 (hash_key_id P k) = Some b1"
    using keys.debit_ok [OF good debit] keeps(2) by force
  note refund_fails [OF keeps(1) this]
  moreover have "charge_due price resp = price" if "surplus = 0" using that surplus by simp
  ultimately show ?thesis using F charge_due_le by (cases "surplus = 0") auto
qed

definition sample_key_request :: request where
  "sample_key_request =
     \<lparr> rq_method = ''POST'', rq_path = ''/v1/chat/completions'', rq_path_and_query = None,
       rq_headers = [(''authorization'', ''Bearer cgk_a'')], rq_body = Inr [1, 2, 3],
       rq_paid = None, rq_api_key = None \<rparr>"

definition sample_memory_store :: "ref_world key_store" where
  "sample_memory_store =
     \<lparr> as_backend = MemoryBackend [(hash_key_id ref_platform sample_key,
          \<lparr> ak_label = ''ci'', ak_balance_grains = 100, ak_deposit_address = 7, ak_revoked = False,
            ak_backing = Salt, ak_created_at = 7, ak_model_budgets = [] \<rparr>)],
       as_world = ref_start \<rparr>"

text \<open>A handler that serves for 25 of the 40 grains the request was priced at.\<close>

definition sample_key_handler ::
  "request \<Rightarrow> ref_world key_store \<Rightarrow> (string + response) \<times> ref_world key_store" where
  "sample_key_handler req s =
     (Inr \<lparr> rs_status = 200, rs_headers = [], rs_body = ''ok'', rs_body_broken = False,
            rs_charge = Some 25 \<rparr>, s)"

lemma sample_key_trim: "str_trim ''cgk_a'' = ''cgk_a''"
  by (simp add: str_trim_visible)

theorem funded_request_charged_exactly_witness:
  "\<exists>resp s'. api_key_call sample_lib (\<lambda>s. None) (store_api ref_platform ref_master) (\<lambda>req body s. (Inr 40, s))
      sample_key_handler sample_key_request sample_memory_store = (Inr resp, s')
    \<and> key_balances ref_platform ref_master ref_hist s' (hash_key_id ref_platform sample_key)
      = Some 75"
proof -
  let ?h = "hash_key_id ref_platform sample_key"
  define rec where "rec = \<lparr> ak_label = ''ci'', ak_balance_grains = 100 :: u256,
    ak_deposit_address = 7 :: h160, ak_revoked = False, ak_backing = Salt, ak_created_at = 7 :: u64,
    ak_model_budgets = [] \<rparr>"
  have s: "sample_memory_store = \<lparr> as_backend = MemoryBackend [(?h, rec)], as_world = ref_start \<rparr>"
    by (simp add: sample_memory_store_def rec_def)
  have bearer: "extract_bearer (rq_headers sample_key_request) = Some sample_key"
    by (simp add: extract_bearer_def sample_key_request_def header_to_str_def strip_prefix_def
        sample_key_trim sample_key_def of_char_def)
  have get: "keys_get ref_platform ref_master sample_key sample_memory_store = Some rec"
    by (simp add: keys_get_def s)
  have rec: "\<not> ak_revoked rec" "40 \<le> ak_balance_grains rec" by (simp_all add: rec_def)
  have body: "buffer_request_body sample_lib sample_key_request = Inr [1, 2, 3]"
    by (simp add: buffer_request_body_def sample_key_request_def max_pricing_body_bytes_def)
  have good: "keys_good ref_platform ref_master ref_hist ref_durable t"
    if "as_backend t \<noteq> PersistentBackend" for t
    using that by (simp add: keys_good_def)
  define s1 where "s1 = set_memory [(?h, rec\<lparr> ak_balance_grains := 60 \<rparr>)] sample_memory_store"
  have d: "keys_debit ref_platform ref_master sample_key 40 sample_memory_store = (Inr 60, s1)"
    by (simp add: keys_debit_def s s1_def rec_def Let_def)
  obtain r s' where c: "api_key_call sample_lib (\<lambda>s. None) (store_api ref_platform ref_master)
      (\<lambda>req body s. (Inr 40, s)) sample_key_handler sample_key_request sample_memory_store = (r, s')"
    by fastforce
  have b: "key_balances ref_platform ref_master ref_hist sample_memory_store ?h = Some 100"
    by (simp add: key_balances_def accounts_of_def s rec_def)
  obtain resp where h: "sample_key_handler (mark_key_paid rec sample_key 40 sample_key_request) s1
      = (Inr resp, s1)" and resp: "rs_status resp = 200" "rs_charge resp = Some 25"
    by (simp add: sample_key_handler_def)
  have m: "as_backend s1 \<noteq> PersistentBackend" "as_backend sample_memory_store \<noteq> PersistentBackend"
    by (simp_all add: s s1_def)
  have "charge_due 40 resp = 25" using resp by (simp add: charge_due_def is_success_def)
  with funded_request_charged_exactly [OF bearer get rec body refl good [OF m(2)] b d h good [OF m(1)]
      refl c refl] m(1) c show ?thesis
    by auto
qed

end
