(* ===== verification/Chat.thy ===== *)
theory Chat
  imports Dispatch Api_Key_Layer
begin

text \<open>
  Chat completions: the handler of \<open>gateway/src/chat.rs\<close> with its token
  estimate, its recharge against what was paid, the per-model budget and the
  failover over providers; and the pricing strategy of \<open>gateway/src/pricing.rs\<close>,
  by which the payment layers ask for the price before the handler runs.
\<close>

section \<open>The state the handlers share\<close>

text \<open>\<open>GatewayState\<close>: everything it calls, as functions of the state. Recording
  usage is \<open>None\<close> when its sum overflows, which panics.\<close>

record 's gateway =
  gw_lib :: x402_lib
  gw_env :: "string \<Rightarrow> string option"
  gw_queries :: "'s chain_queries"
  gw_net :: "'s net"
  gw_results :: result_lib
  gw_debit_model_budget :: "string \<Rightarrow> string \<Rightarrow> u256 \<Rightarrow> 's \<Rightarrow> (model_budget_error + unit) \<times> 's"
  gw_refund_model_budget :: "string \<Rightarrow> string \<Rightarrow> u256 \<Rightarrow> 's \<Rightarrow> 's"
  gw_record_usage :: "string \<Rightarrow> u32 \<Rightarrow> u32 \<Rightarrow> u256 \<Rightarrow> 's \<Rightarrow> 's option"
  gw_uuid :: "'s \<Rightarrow> string \<times> 's"
  gw_now_secs :: "'s \<Rightarrow> u64 \<times> 's"
  gw_sse :: "string list \<Rightarrow> response"

section \<open>Token budgets\<close>

definition default_max_tokens :: u32 where
  "default_max_tokens = 512"

definition default_max_tokens_ceiling :: u32 where
  "default_max_tokens_ceiling = 8192"

definition assumed_input_tokens :: u32 where
  "assumed_input_tokens = 256"

definition assumed_output_tokens :: u32 where
  "assumed_output_tokens = 512"

definition default_tier :: u8 where
  "default_tier = 0"

definition max_tokens_ceiling :: "(string \<Rightarrow> string option) \<Rightarrow> u32" where
  "max_tokens_ceiling env =
     (case Option.bind (env ''CITRATE_GATEWAY_MAX_TOKENS'')
             (\<lambda>v. parse_uint (2 ^ 32 - 1) (str_trim v)) of
        None \<Rightarrow> default_max_tokens_ceiling
      | Some v \<Rightarrow> if 0 < v then of_nat v else default_max_tokens_ceiling)"

definition clamp_max_tokens :: "u32 option \<Rightarrow> u32 \<Rightarrow> u32 option" where
  "clamp_max_tokens requested ceiling = map_option (\<lambda>mt. min mt ceiling) requested"

definition requested_tokens :: "(string \<Rightarrow> string option) \<Rightarrow> chat_request \<Rightarrow> u32" where
  "requested_tokens env req =
     (case clamp_max_tokens (cr_max_tokens req) (max_tokens_ceiling env) of
        None \<Rightarrow> default_max_tokens | Some t \<Rightarrow> t)"

text \<open>\<open>div_ceil\<close> by three, with the fixed overhead of a message.\<close>

definition body_tokens :: "chat_message \<Rightarrow> u64" where
  "body_tokens m =
     (let b = of_nat (length (cm_role m)) + of_nat (length (cm_content m)) :: u64
      in if b mod 3 = 0 then b div 3 else b div 3 + 1)"

definition estimate_input_tokens :: "chat_message list \<Rightarrow> u32" where
  "estimate_input_tokens messages =
     (let total = foldl (\<lambda>t m. sat_add (sat_add t (body_tokens m)) 4) (0 :: u64) messages;
          estimate = max total (ucast assumed_input_tokens)
      in if ucast (- 1 :: u32) < estimate then - 1 else ucast estimate)"

definition bounded_provider_token_counts ::
  "(string \<Rightarrow> string option) \<Rightarrow> chat_request \<Rightarrow> string \<Rightarrow> provider_response \<Rightarrow> u32 \<times> u32" where
  "bounded_provider_token_counts env req prompt resp =
     (min (case pp_input_tokens resp of Some t \<Rightarrow> t | None \<Rightarrow> of_nat (count_words False prompt))
          (estimate_input_tokens (cr_messages req)),
      min (case pp_output_tokens resp of Some t \<Rightarrow> t | None \<Rightarrow> of_nat (count_words False (pp_output resp)))
          (requested_tokens env req))"

section \<open>The price of a request\<close>

definition quote_chat_request_cost ::
  "'s gateway \<Rightarrow> chat_request \<Rightarrow> 's \<Rightarrow> (gateway_error + (u256 \<times> u32)) \<times> 's" where
  "quote_chat_request_cost G req s =
     (let requested = requested_tokens (gw_env G) req;
          real_input = estimate_input_tokens (cr_messages req)
      in case resolve_model_name (gw_queries G) (cr_model req) s of
           (Inl e, s) \<Rightarrow> (Inl (UnknownModel (cr_model req)), s)
         | (Inr model_hash, s) \<Rightarrow>
             (case estimate_cost (gw_queries G) model_hash real_input requested default_tier s of
                (Inl e, s) \<Rightarrow> (Inl (PricingUnavailable (gateway_display e)), s)
              | (Inr cost, s) \<Rightarrow> (Inr (cost, requested), s)))"

section \<open>Dispatch with failover\<close>

record dispatch_outcome =
  do_output :: string
  do_prompt :: string
  do_prompt_tokens :: u32
  do_completion_tokens :: u32

definition max_provider_attempts :: nat where
  "max_provider_attempts = 3"

definition rejected_result :: gateway_error where
  "rejected_result = ProviderUnavailable ''provider returned an unverified or empty result''"

text \<open>\<open>attempts\<close> is what is left of the loop's range; both a failed call and a
  result that is not acceptable take the provider out of the candidates.\<close>

fun failover ::
  "nat \<Rightarrow> (provider_info \<Rightarrow> 's \<Rightarrow> (gateway_error + provider_response) \<times> 's)
    \<Rightarrow> (provider_info \<Rightarrow> provider_response \<Rightarrow> bool) \<Rightarrow> gateway_error option \<Rightarrow> provider_info list \<Rightarrow> 's
    \<Rightarrow> (gateway_error + provider_response) \<times> 's" where
  "failover 0 call ok last_err providers s =
     (Inl (case last_err of None \<Rightarrow> NoProviders | Some e \<Rightarrow> e), s)"
| "failover (Suc attempts) call ok last_err providers s =
     (case select_provider providers of
        None \<Rightarrow> (Inl (case last_err of None \<Rightarrow> NoProviders | Some e \<Rightarrow> e), s)
      | Some chosen \<Rightarrow>
          (let others = filter (\<lambda>p. pi_address p \<noteq> pi_address chosen) providers
           in case call chosen s of
                (Inr resp, s) \<Rightarrow>
                  if ok chosen resp then (Inr resp, s)
                  else failover attempts call ok (Some rejected_result) others s
              | (Inl e, s) \<Rightarrow> failover attempts call ok (Some e) others s))"

fun join_lines :: "string list \<Rightarrow> string" where
  "join_lines [] = []"
| "join_lines [l] = l"
| "join_lines (l # ls) = l @ char_of (10 :: nat) # join_lines ls"

definition build_prompt :: "chat_message list \<Rightarrow> string" where
  "build_prompt messages = join_lines (map (\<lambda>m. cm_role m @ '': '' @ cm_content m) messages)"

definition result_ok ::
  "'s gateway \<Rightarrow> h256 \<Rightarrow> string \<Rightarrow> provider_info \<Rightarrow> provider_response \<Rightarrow> bool" where
  "result_ok G model_hash prompt chosen resp \<longleftrightarrow>
     pp_output resp \<noteq> [] \<and>
     result_acceptable
       (map_option
         (verify_result_binding (gw_results G) (pi_address chosen) model_hash prompt (pp_output resp))
         (pp_signature resp))
       (require_signed_results (gw_env G))"

definition provider_request_of :: "(string \<Rightarrow> string option) \<Rightarrow> chat_request \<Rightarrow> provider_request" where
  "provider_request_of env req =
     \<lparr> pr_model = cr_model req, pr_prompt = build_prompt (cr_messages req),
       pr_max_tokens = requested_tokens env req \<rparr>"

definition dispatch_outcome_of ::
  "(string \<Rightarrow> string option) \<Rightarrow> chat_request \<Rightarrow> provider_response \<Rightarrow> dispatch_outcome" where
  "dispatch_outcome_of env req resp =
     (case bounded_provider_token_counts env req (build_prompt (cr_messages req)) resp of
        (p, c) \<Rightarrow>
          \<lparr> do_output = pp_output resp, do_prompt = build_prompt (cr_messages req),
            do_prompt_tokens = p, do_completion_tokens = c \<rparr>)"

definition run_dispatch ::
  "'s gateway \<Rightarrow> chat_request \<Rightarrow> 's \<Rightarrow> (failure + dispatch_outcome) \<times> 's" where
  "run_dispatch G req s =
     (case resolve_model_name (gw_queries G) (cr_model req) s of
        (Inl e, s) \<Rightarrow> (Inl (Failed (UnknownModel (cr_model req))), s)
      | (Inr model_hash, s) \<Rightarrow>
          (case list_providers (gw_queries G) model_hash s of
             (Inl e, s) \<Rightarrow> (Inl (Failed (ChainUnavailable (gateway_display e))), s)
           | (Inr providers, s) \<Rightarrow>
               (case list_pools (gw_queries G) model_hash s of
                  (pools_answer, s) \<Rightarrow>
                    (let pools = (case pools_answer of Inl e \<Rightarrow> [] | Inr ps \<Rightarrow> ps)
                     in if providers = [] \<and> pools = [] then (Inl (Failed NoProviders), s)
                        else
                          case select_dispatch_target providers pools of
                            None \<Rightarrow> (Inl Panicked, s)
                          | Some (Some (Pool pl)) \<Rightarrow>
                              (Inl (Failed (PoolDispatchUnimplemented (po_name pl))), s)
                          | Some t \<Rightarrow>
                              if providers = [] then (Inl (Failed NoProviders), s)
                              else
                                (case failover max_provider_attempts
                                        (\<lambda>p. dispatch_to_provider (gw_net G) (gw_env G) p
                                               (provider_request_of (gw_env G) req))
                                        (result_ok G model_hash (build_prompt (cr_messages req)))
                                        None providers s of
                                   (Inl e, s) \<Rightarrow> (Inl (Failed e), s)
                                 | (Inr resp, s) \<Rightarrow>
                                     (Inr (dispatch_outcome_of (gw_env G) req resp), s))))))"

section \<open>Answers\<close>

definition gateway_into_response :: "x402_lib \<Rightarrow> gateway_error \<Rightarrow> response" where
  "gateway_into_response X e =
     json_response X (gateway_status e) content_json (error_message_json (gateway_display e))"

definition completion_id :: "string \<Rightarrow> string" where
  "completion_id u = ''chatcmpl-'' @ u"

definition chat_completion ::
  "'s gateway \<Rightarrow> chat_request \<Rightarrow> dispatch_outcome \<Rightarrow> 's \<Rightarrow> chat_response \<times> 's" where
  "chat_completion G req d s =
     (case gw_uuid G s of
        (u, s) \<Rightarrow>
          (case gw_now_secs G s of
             (now, s) \<Rightarrow>
               (\<lparr> cp_id = completion_id u, cp_object = ''chat.completion'', cp_created = now,
                  cp_model = cr_model req,
                  cp_choices = [\<lparr> ch_index = 0,
                    ch_message = \<lparr> cm_role = ''assistant'', cm_content = do_output d \<rparr>,
                    ch_finish_reason = ''stop'' \<rparr>],
                  cp_usage = usage_new (do_prompt_tokens d) (do_completion_tokens d) \<rparr>, s)))"

definition message_json :: "chat_message \<Rightarrow> json" where
  "message_json m = JObj [(''role'', JStr (cm_role m)), (''content'', JStr (cm_content m))]"

definition choice_json :: "chat_choice \<Rightarrow> json" where
  "choice_json c =
     JObj [(''index'', JUint (unat (ch_index c))), (''message'', message_json (ch_message c)),
           (''finish_reason'', JStr (ch_finish_reason c))]"

definition usage_json :: "chat_usage \<Rightarrow> json" where
  "usage_json u =
     JObj [(''prompt_tokens'', JUint (unat (us_prompt_tokens u))),
           (''completion_tokens'', JUint (unat (us_completion_tokens u))),
           (''total_tokens'', JUint (unat (us_total_tokens u)))]"

definition chat_response_json :: "chat_response \<Rightarrow> json" where
  "chat_response_json r =
     JObj [(''id'', JStr (cp_id r)), (''object'', JStr (cp_object r)),
           (''created'', JUint (unat (cp_created r))), (''model'', JStr (cp_model r)),
           (''choices'', JArr (map choice_json (cp_choices r))),
           (''usage'', usage_json (cp_usage r))]"

definition stream_response ::
  "'s gateway \<Rightarrow> chat_request \<Rightarrow> dispatch_outcome \<Rightarrow> 's \<Rightarrow> response \<times> 's" where
  "stream_response G req d s =
     (case gw_uuid G s of
        (u, s) \<Rightarrow>
          (case gw_now_secs G s of
             (created, s) \<Rightarrow>
               (gw_sse G
                  [json_text (gw_lib G)
                     (JObj [(''id'', JStr (completion_id u)),
                            (''object'', JStr ''chat.completion.chunk''),
                            (''created'', JUint (unat created)), (''model'', JStr (cr_model req)),
                            (''choices'', JArr [JObj
                               [(''index'', JUint 0),
                                (''delta'', JObj [(''role'', JStr ''assistant''),
                                                  (''content'', JStr (do_output d))]),
                                (''finish_reason'', JStr ''stop'')]])]),
                   ''[DONE]''], s)))"

section \<open>The handler\<close>

text \<open>What a paid request is charged, and whether its model budget was debited.
  A budget store that fails does not stop a paying caller.\<close>

definition recharge ::
  "'s gateway \<Rightarrow> api_key_context option \<Rightarrow> x402_paid option \<Rightarrow> chat_request \<Rightarrow> 's
    \<Rightarrow> (gateway_error + (u256 option \<times> bool)) \<times> 's" where
  "recharge G api_key paid req s =
     (case paid of
        None \<Rightarrow> (Inr (None, False), s)
      | Some pay \<Rightarrow>
          (case quote_chat_request_cost G req s of
             (Inl e, s) \<Rightarrow> (Inl e, s)
           | (Inr (actual_cost, requested), s) \<Rightarrow>
               if paid_amount_wei pay < actual_cost
               then (Inl (Underfunded (u256_to_dec (gw_lib G) (paid_amount_wei pay))
                            (u256_to_dec (gw_lib G) actual_cost) requested), s)
               else
                 case api_key of
                   None \<Rightarrow> (Inr (Some actual_cost, False), s)
                 | Some ctx \<Rightarrow>
                     (case gw_debit_model_budget G (kc_key_id ctx) (cr_model req) actual_cost s of
                        (Inr u, s) \<Rightarrow> (Inr (Some actual_cost, True), s)
                      | (Inl e, s) \<Rightarrow>
                          (case e of
                             BudgetExceededBy remaining \<Rightarrow>
                               (Inl (ModelBudgetExceeded (cr_model req)
                                  (u256_to_dec (gw_lib G) remaining)), s)
                           | _ \<Rightarrow> (Inr (Some actual_cost, False), s)))))"

definition refund_failed_dispatch ::
  "'s gateway \<Rightarrow> api_key_context option \<Rightarrow> chat_request \<Rightarrow> u256 option \<Rightarrow> bool \<Rightarrow> 's \<Rightarrow> 's" where
  "refund_failed_dispatch G api_key req charge model_debited s =
     (if model_debited
      then case (api_key, charge) of
             (Some ctx, Some cost) \<Rightarrow> gw_refund_model_budget G (kc_key_id ctx) (cr_model req) cost s
           | _ \<Rightarrow> s
      else s)"

definition emit_usage ::
  "'s gateway \<Rightarrow> api_key_context option \<Rightarrow> u256 option \<Rightarrow> dispatch_outcome \<Rightarrow> 's \<Rightarrow> 's option" where
  "emit_usage G api_key charge d s =
     (case (api_key, charge) of
        (Some ctx, Some c) \<Rightarrow>
          gw_record_usage G (kc_key_id ctx) (do_prompt_tokens d) (do_completion_tokens d) c s
      | _ \<Rightarrow> Some s)"

definition chat_answer ::
  "'s gateway \<Rightarrow> chat_request \<Rightarrow> dispatch_outcome \<Rightarrow> 's \<Rightarrow> response \<times> 's" where
  "chat_answer G req d s =
     (if cr_stream req then stream_response G req d s
      else
        case chat_completion G req d s of
          (c, s) \<Rightarrow> (json_response (gw_lib G) 200 content_json (chat_response_json c), s))"

definition chat_completions_handler ::
  "'s gateway \<Rightarrow> api_key_context option \<Rightarrow> x402_paid option \<Rightarrow> chat_request \<Rightarrow> 's
    \<Rightarrow> (failure + response) \<times> 's" where
  "chat_completions_handler G api_key paid req0 s =
     (if cr_messages req0 = [] then (Inl (Failed (BadRequest ''messages must be non-empty'')), s)
      else
        let req = req0\<lparr> cr_max_tokens := clamp_max_tokens (cr_max_tokens req0)
                          (max_tokens_ceiling (gw_env G)) \<rparr>
        in case recharge G api_key paid req s of
             (Inl e, s) \<Rightarrow> (Inl (Failed e), s)
           | (Inr (charge, model_debited), s) \<Rightarrow>
               (case run_dispatch G req s of
                  (Inl Panicked, s) \<Rightarrow> (Inl Panicked, s)
                | (Inl e, s) \<Rightarrow> (Inl e, refund_failed_dispatch G api_key req charge model_debited s)
                | (Inr d, s) \<Rightarrow>
                    (case emit_usage G api_key charge d s of
                       None \<Rightarrow> (Inl Panicked, s)
                     | Some s \<Rightarrow>
                         (case chat_answer G req d s of
                            (resp, s) \<Rightarrow>
                              (Inr (if api_key \<noteq> None \<and> charge \<noteq> None
                                    then resp\<lparr> rs_charge := charge \<rparr> else resp), s)))))"

text \<open>The handler as the service behind the payment layers: errors become
  answers, only a panic is left. The extractor of the body is axum's.\<close>

definition chat_service ::
  "'s gateway \<Rightarrow> (bytes \<Rightarrow> response + chat_request) \<Rightarrow> request \<Rightarrow> 's \<Rightarrow> (failure + response) \<times> 's" where
  "chat_service G decode_body req s =
     (case rq_body req of
        Inl e \<Rightarrow> (Inr (json_response (gw_lib G) 400 content_json (error_message_json e)), s)
      | Inr body \<Rightarrow>
          (case decode_body body of
             Inl rejection \<Rightarrow> (Inr rejection, s)
           | Inr chat \<Rightarrow>
               (case chat_completions_handler G (rq_api_key req) (rq_paid req) chat s of
                  (Inl (Failed e), s) \<Rightarrow> (Inr (gateway_into_response (gw_lib G) e), s)
                | (Inl Panicked, s) \<Rightarrow> (Inl Panicked, s)
                | (Inr resp, s) \<Rightarrow> (Inr resp, s))))"

section \<open>The pricing strategy\<close>

record batch_submit_request =
  bq_requests :: "chat_request list"

record token_pricing =
  tp_default_model :: string
  tp_parse_body :: "bytes \<Rightarrow> string + json"
  tp_as_chat :: "json \<Rightarrow> chat_request option"
  tp_as_batch :: "json \<Rightarrow> string + batch_submit_request"

definition max_batch_size :: nat where
  "max_batch_size = 1000"

definition max_distinct_batch_models :: nat where
  "max_distinct_batch_models = 32"

definition priced ::
  "'s gateway \<Rightarrow> string \<Rightarrow> u32 \<Rightarrow> u32 \<Rightarrow> 's \<Rightarrow> (pricing_error + u256) \<times> 's" where
  "priced G model input output s =
     (case resolve_model_name (gw_queries G) model s of
        (Inl e, s) \<Rightarrow> (Inl (OracleUnavailable (gateway_display e)), s)
      | (Inr model_hash, s) \<Rightarrow>
          (case estimate_cost (gw_queries G) model_hash input output default_tier s of
             (Inl e, s) \<Rightarrow> (Inl (OracleUnavailable (gateway_display e)), s)
           | (Inr cost, s) \<Rightarrow> (Inr cost, s)))"

definition fallback_quote :: "'s gateway \<Rightarrow> token_pricing \<Rightarrow> 's \<Rightarrow> (pricing_error + u256) \<times> 's" where
  "fallback_quote G T s = priced G (tp_default_model T) assumed_input_tokens assumed_output_tokens s"

definition quote_chat :: "'s gateway \<Rightarrow> chat_request \<Rightarrow> 's \<Rightarrow> (pricing_error + u256) \<times> 's" where
  "quote_chat G req s =
     priced G (cr_model req) (estimate_input_tokens (cr_messages req))
       (requested_tokens (gw_env G) req) s"

text \<open>The loop over a batch: the total so far, the fallback on a malformed
  request, an error on overflow.\<close>

fun quote_batch ::
  "'s gateway \<Rightarrow> token_pricing \<Rightarrow> u256 \<Rightarrow> chat_request list \<Rightarrow> 's \<Rightarrow> (pricing_error + u256) \<times> 's" where
  "quote_batch G T running [] s = (Inr running, s)"
| "quote_batch G T running (chat # chats) s =
     (if cr_messages chat = [] \<or>
         (case cr_max_tokens chat of None \<Rightarrow> False | Some v \<Rightarrow> max_tokens_ceiling (gw_env G) < v)
      then fallback_quote G T s
      else
        case quote_chat G chat s of
          (Inl e, s) \<Rightarrow> (Inl e, s)
        | (Inr q, s) \<Rightarrow>
            (case checked_add running q of
               None \<Rightarrow> (Inl (NotPriceable ''quoted cost overflow''), s)
             | Some t \<Rightarrow> quote_batch G T t chats s))"

definition distinct_models :: "chat_request list \<Rightarrow> string list" where
  "distinct_models reqs = remdups (map cr_model reqs)"

definition price_for ::
  "'s gateway \<Rightarrow> token_pricing \<Rightarrow> request \<Rightarrow> bytes \<Rightarrow> 's \<Rightarrow> (pricing_error + u256) \<times> 's" where
  "price_for G T req body s =
     (case tp_parse_body T body of
        Inl e \<Rightarrow> (Inl (NotPriceable (''request body is not valid JSON: '' @ e)), s)
      | Inr v \<Rightarrow>
          (case tp_as_chat T v of
             Some chat \<Rightarrow> quote_chat G chat s
           | None \<Rightarrow>
               (case tp_as_batch T v of
                  Inl e \<Rightarrow> (Inl (NotPriceable (''request shape is not priceable: '' @ e)), s)
                | Inr b \<Rightarrow>
                    (let reqs = bq_requests b; models = length (distinct_models reqs)
                     in if reqs = [] then fallback_quote G T s
                        else if max_batch_size < length reqs then fallback_quote G T s
                        else if max_distinct_batch_models < models
                        then (Inl (NotPriceable
                               (''max '' @ dec_string max_distinct_batch_models
                                @ '' distinct models per batch (got '' @ dec_string models @ '')'')), s)
                        else quote_batch G T 0 reqs s))))"

section \<open>The token estimate\<close>

lemma body_tokens_exact:
  assumes "length (cm_role m) < 2 ^ 63" "length (cm_content m) < 2 ^ 63"
  shows "unat (body_tokens m) = (length (cm_role m) + length (cm_content m) + 2) div 3"
proof -
  define b :: u64 where "b = of_nat (length (cm_role m)) + of_nat (length (cm_content m))"
  have b: "unat b = length (cm_role m) + length (cm_content m)"
    using assms by (simp add: b_def unat_word_ariths unat_of_nat take_bit_eq_mod)
  have lt: "unat b div 3 + 1 < 2 ^ 64" using unat_less_length [of b] by simp
  have "b mod 3 = 0 \<longleftrightarrow> unat b mod 3 = 0" by (simp add: word_unat_eq_iff unat_mod)
  then have "unat (body_tokens m) = (if unat b mod 3 = 0 then unat b div 3 else unat b div 3 + 1)"
    using lt by (simp add: body_tokens_def b_def [symmetric] unat_div unat_word_ariths)
  also have "\<dots> = (unat b + 2) div 3" by presburger
  finally show ?thesis by (simp add: b)
qed

lemma estimate_fold:
  "unat (foldl (\<lambda>t m. sat_add (sat_add t (body_tokens m)) 4) t ms)
     = min (unat t + (\<Sum>m\<leftarrow>ms. unat (body_tokens m) + 4)) (2 ^ 64 - 1)"
proof (induction ms arbitrary: t)
  case Nil
  then show ?case using unat_less_length [of t] by simp
next
  case (Cons m ms)
  show ?case by (simp add: Cons.IH unat_sat_add)
qed

text \<open>The input estimate is the sum, over the messages, of a third of their bytes
  rounded up and four more, raised to the floor of 256 and cut off at the
  largest 32-bit number; the 64-bit arithmetic never wraps below it.\<close>

theorem input_estimate_exact:
  assumes "list_all (\<lambda>m. length (cm_role m) < 2 ^ 63 \<and> length (cm_content m) < 2 ^ 63) ms"
  shows "unat (estimate_input_tokens ms)
     = min (2 ^ 32 - 1)
         (max 256 (\<Sum>m\<leftarrow>ms. (length (cm_role m) + length (cm_content m) + 2) div 3 + 4))"
proof -
  define T where "T = foldl (\<lambda>t m. sat_add (sat_add t (body_tokens m)) 4) (0 :: u64) ms"
  define n where "n = (\<Sum>m\<leftarrow>ms. (length (cm_role m) + length (cm_content m) + 2) div 3 + 4)"
  have "(\<Sum>m\<leftarrow>ms. unat (body_tokens m) + 4) = n"
    using assms unfolding n_def
    by (intro arg_cong [where f = sum_list] map_cong) (auto simp: body_tokens_exact list_all_iff)
  then have T: "unat T = min n (2 ^ 64 - 1)" by (simp add: T_def estimate_fold)
  define e where "e = max T (ucast assumed_input_tokens)"
  have e: "unat e = max (unat T) 256"
    by (simp add: e_def assumed_input_tokens_def max_def word_le_nat_alt)
  have m: "unat (ucast (- 1 :: u32) :: u64) = 2 ^ 32 - 1"
    by (simp add: unsigned_ucast_eq unat_minus_one_word_nat take_bit_eq_mod)
  have "estimate_input_tokens ms = (if ucast (- 1 :: u32) < e then - 1 else ucast e)"
    by (simp add: estimate_input_tokens_def T_def [symmetric] e_def [symmetric] Let_def)
  moreover have "unat (ucast e :: u32) = unat e" if "unat e \<le> 2 ^ 32 - 1"
    using that by (simp add: unsigned_ucast_eq take_bit_eq_mod)
  ultimately have "unat (estimate_input_tokens ms) = min (2 ^ 32 - 1) (unat e)"
    by (auto simp: word_less_nat_alt m unat_minus_one_word_nat)
  then show ?thesis unfolding n_def [symmetric] e T by (auto simp: min_def max_def)
qed

section \<open>Failover\<close>

text \<open>A provider call that also notes whom it calls.\<close>

definition logged ::
  "(provider_info \<Rightarrow> 's \<Rightarrow> 'a \<times> 's) \<Rightarrow> provider_info \<Rightarrow> 's \<times> provider_info list
    \<Rightarrow> 'a \<times> ('s \<times> provider_info list)" where
  "logged call p = (\<lambda>(s, l). case call p s of (r, s) \<Rightarrow> (r, (s, l @ [p])))"

definition attempts_ok :: "provider_info list \<Rightarrow> provider_info list \<Rightarrow> bool" where
  "attempts_ok providers l \<longleftrightarrow>
     set l \<subseteq> set providers \<and> list_all (\<lambda>p. 0 < capacity_remaining p) l \<and>
     distinct (map pi_address l) \<and> sorted_wrt (\<lambda>p q. provider_key q \<le> provider_key p) l"

lemma select_provider_mem:
  "select_provider ps = Some p \<Longrightarrow> p \<in> set ps \<and> 0 < capacity_remaining p"
  by (auto simp: select_provider_def dest: max_by_key_mem)

lemma select_provider_greatest:
  "select_provider ps = Some p \<Longrightarrow> q \<in> set ps \<Longrightarrow> 0 < capacity_remaining q
    \<Longrightarrow> provider_key q \<le> provider_key p"
  by (auto simp: select_provider_def intro: max_by_key_greatest)

lemma select_provider_None:
  "select_provider ps = None \<longleftrightarrow> (\<forall>p\<in>set ps. capacity_remaining p = 0)"
  by (auto simp: select_provider_def filter_empty_conv simp flip: word_neq_0_conv)

lemma attempts_ok_Cons:
  assumes p: "select_provider ps = Some p"
    and l: "attempts_ok (filter (\<lambda>q. pi_address q \<noteq> pi_address p) ps) l"
  shows "attempts_ok ps (p # l)"
proof -
  have "q \<in> set ps \<and> pi_address q \<noteq> pi_address p \<and> 0 < capacity_remaining q" if "q \<in> set l" for q
    using l that by (auto simp: attempts_ok_def list_all_iff)
  with l select_provider_mem [OF p] select_provider_greatest [OF p] show ?thesis
    by (auto simp: attempts_ok_def)
qed

lemma failover_log:
  "\<exists>l'. failover n (logged call) ok e ps (s, l)
        = (fst (failover n call ok e ps s), (snd (failover n call ok e ps s), l @ l'))
     \<and> length l' \<le> n \<and> attempts_ok ps l'
     \<and> ((\<exists>x. fst (failover n call ok e ps s) = Inl x) \<longrightarrow> length l' = n
        \<or> (\<forall>p\<in>set ps. 0 < capacity_remaining p \<longrightarrow> pi_address p \<in> pi_address ` set l'))"
proof (induction n call ok e ps s arbitrary: l rule: failover.induct)
  case (1 call ok e ps s)
  then show ?case by (auto simp: attempts_ok_def)
next
  case (2 n call ok e ps s)
  show ?case
  proof (cases "select_provider ps")
    case None
    then have "\<forall>p\<in>set ps. capacity_remaining p = 0" by (simp only: select_provider_None)
    with None show ?thesis by (auto simp: attempts_ok_def)
  next
    case (Some p)
    define others where "others = filter (\<lambda>q. pi_address q \<noteq> pi_address p) ps"
    obtain r s1 where c: "call p s = (r, s1)" by fastforce
    have lc: "logged call p (s, l) = (r, (s1, l @ [p]))" by (simp add: logged_def c)
    have step: ?thesis if e': "failover (Suc n) call ok e ps s = failover n call ok e' others s1"
        and le': "failover (Suc n) (logged call) ok e ps (s, l)
          = failover n (logged call) ok e' others (s1, l @ [p])"
        and ih: "\<exists>l'. failover n (logged call) ok e' others (s1, l @ [p])
            = (fst (failover n call ok e' others s1), (snd (failover n call ok e' others s1), (l @ [p]) @ l'))
          \<and> length l' \<le> n \<and> attempts_ok others l'
          \<and> ((\<exists>x. fst (failover n call ok e' others s1) = Inl x) \<longrightarrow> length l' = n
             \<or> (\<forall>p\<in>set others. 0 < capacity_remaining p \<longrightarrow> pi_address p \<in> pi_address ` set l'))"
      for e'
    proof -
      from ih obtain l' where l': "failover n (logged call) ok e' others (s1, l @ [p])
            = (fst (failover n call ok e' others s1), (snd (failover n call ok e' others s1), l @ p # l'))"
          "length l' \<le> n" "attempts_ok others l'"
        and ex: "(\<exists>x. fst (failover n call ok e' others s1) = Inl x) \<longrightarrow> length l' = n
             \<or> (\<forall>p\<in>set others. 0 < capacity_remaining p \<longrightarrow> pi_address p \<in> pi_address ` set l')"
        by auto
      have "attempts_ok ps (p # l')"
        using attempts_ok_Cons [OF Some] l'(3) by (simp add: others_def)
      moreover have "(\<exists>x. fst (failover n call ok e' others s1) = Inl x) \<longrightarrow> length (p # l') = Suc n
             \<or> (\<forall>q\<in>set ps. 0 < capacity_remaining q \<longrightarrow> pi_address q \<in> pi_address ` set (p # l'))"
        using ex by (auto simp: others_def)
      ultimately show ?thesis unfolding e' le' using l' by (intro exI [of _ "p # l'"]) auto
    qed
    show ?thesis
    proof (cases r)
      case (Inl x)
      show ?thesis
        by (rule step [of "Some x"])
          (use "2.IH"(1) [OF Some others_def c [symmetric] Inl, of "l @ [p]"] in
            \<open>simp_all add: Some c lc Inl others_def\<close>)
    next
      case (Inr resp)
      show ?thesis
      proof (cases "ok p resp")
        case True
        with Inr Some c lc select_provider_mem [OF Some] show ?thesis
          by (auto simp: attempts_ok_def intro!: exI [of _ "[p]"])
      next
        case False
        show ?thesis
          by (rule step [of "Some rejected_result"])
            (use "2.IH"(2) [OF Some others_def c [symmetric] Inr False, of "l @ [p]"] False in
              \<open>simp_all add: Some c lc Inr others_def\<close>)
      qed
    qed
  qed
qed

text \<open>The failover calls at most three providers, all of them listed, with capacity
  left and at different addresses, each at least as good as the next; and when
  it fails it has made three calls or has called every address that has a
  provider with capacity. Noting the calls changes nothing.\<close>

theorem failover_bounded:
  assumes "failover max_provider_attempts (logged call) ok None providers (s, []) = (r, (s', l))"
  shows "failover max_provider_attempts call ok None providers s = (r, s')
    \<and> length l \<le> 3 \<and> attempts_ok providers l
    \<and> ((\<exists>e. r = Inl e) \<longrightarrow> length l = 3
       \<or> (\<forall>p\<in>set providers. 0 < capacity_remaining p \<longrightarrow> pi_address p \<in> pi_address ` set l))"
proof -
  obtain l' where l': "failover 3 (logged call) ok None providers (s, [])
        = (fst (failover 3 call ok None providers s), (snd (failover 3 call ok None providers s), l'))"
      "length l' \<le> 3 \<and> attempts_ok providers l'
     \<and> ((\<exists>x. fst (failover 3 call ok None providers s) = Inl x) \<longrightarrow> length l' = 3
        \<or> (\<forall>p\<in>set providers. 0 < capacity_remaining p \<longrightarrow> pi_address p \<in> pi_address ` set l'))"
    using failover_log [of 3 call ok None providers s "[]"] by auto
  with assms have "r = fst (failover 3 call ok None providers s)"
      "s' = snd (failover 3 call ok None providers s)" "l = l'"
    by (simp_all add: max_provider_attempts_def)
  with l'(2) show ?thesis by (simp add: max_provider_attempts_def)
qed

section \<open>Accepted results\<close>

lemma failover_ok:
  "failover n call ok e ps s = (Inr resp, s')
    \<Longrightarrow> \<exists>p s0. p \<in> set ps \<and> 0 < capacity_remaining p \<and> call p s0 = (Inr resp, s') \<and> ok p resp"
proof (induction n call ok e ps s rule: failover.induct)
  case (2 n call ok e ps s)
  then obtain p where p: "select_provider ps = Some p" by (auto split: option.splits)
  obtain r s1 where c: "call p s = (r, s1)" by fastforce
  show ?case
  proof (cases r)
    case (Inl x)
    with "2.prems" p c "2.IH"(1) [OF p refl c [symmetric] Inl] show ?thesis by auto
  next
    case (Inr y)
    with "2.prems" p c "2.IH"(2) [OF p refl c [symmetric] Inr] select_provider_mem [OF p]
    show ?thesis by (cases "ok p y") auto
  qed
qed simp

lemma run_dispatch_ok:
  assumes "run_dispatch G req s = (Inr d, s')"
  shows "\<exists>h s1 providers s2 s3 resp.
    resolve_model_name (gw_queries G) (cr_model req) s = (Inr h, s1)
    \<and> list_providers (gw_queries G) h s1 = (Inr providers, s2)
    \<and> failover max_provider_attempts
        (\<lambda>p. dispatch_to_provider (gw_net G) (gw_env G) p (provider_request_of (gw_env G) req))
        (result_ok G h (build_prompt (cr_messages req))) None providers s3 = (Inr resp, s')
    \<and> d = dispatch_outcome_of (gw_env G) req resp"
  using assms
  by (auto simp: run_dispatch_def Let_def split: prod.splits sum.splits if_splits option.splits
      dispatch_target.splits)

lemma token_counts_bounded:
  "do_prompt_tokens (dispatch_outcome_of env req resp) \<le> estimate_input_tokens (cr_messages req)"
  "do_completion_tokens (dispatch_outcome_of env req resp) \<le> requested_tokens env req"
  by (simp_all add: dispatch_outcome_of_def bounded_provider_token_counts_def)

text \<open>C17. A completion is the non-empty answer of one provider, listed for the resolved
  model and with capacity left. If the answer was signed, the signature binds
  this model, this prompt and this output to that provider's address; if
  signatures are required, it was signed. The tokens it is billed for are
  within the gateway's own estimate and the request's limit, whatever the
  provider reported.\<close>

theorem completion_bound_to_provider:
  assumes "run_dispatch G req s = (Inr d, s')"
  shows "\<exists>h s1 providers s2 p s3 resp.
    resolve_model_name (gw_queries G) (cr_model req) s = (Inr h, s1)
    \<and> list_providers (gw_queries G) h s1 = (Inr providers, s2)
    \<and> p \<in> set providers \<and> 0 < capacity_remaining p
    \<and> dispatch_to_provider (gw_net G) (gw_env G) p (provider_request_of (gw_env G) req) s3
        = (Inr resp, s')
    \<and> do_output d = pp_output resp \<and> do_output d \<noteq> []
    \<and> (case pp_signature resp of
         None \<Rightarrow> \<not> require_signed_results (gw_env G)
       | Some sg \<Rightarrow> verify_result_binding (gw_results G) (pi_address p) h
                     (build_prompt (cr_messages req)) (do_output d) sg)
    \<and> do_prompt_tokens d \<le> estimate_input_tokens (cr_messages req)
    \<and> do_completion_tokens d \<le> requested_tokens (gw_env G) req"
proof -
  obtain h s1 providers s2 s3 resp
    where r: "resolve_model_name (gw_queries G) (cr_model req) s = (Inr h, s1)"
      and l: "list_providers (gw_queries G) h s1 = (Inr providers, s2)"
      and f: "failover max_provider_attempts
        (\<lambda>p. dispatch_to_provider (gw_net G) (gw_env G) p (provider_request_of (gw_env G) req))
        (result_ok G h (build_prompt (cr_messages req))) None providers s3 = (Inr resp, s')"
      and d: "d = dispatch_outcome_of (gw_env G) req resp"
    using run_dispatch_ok [OF assms] by blast
  obtain p s4 where p: "p \<in> set providers" "0 < capacity_remaining p"
      "dispatch_to_provider (gw_net G) (gw_env G) p (provider_request_of (gw_env G) req) s4 = (Inr resp, s')"
      "result_ok G h (build_prompt (cr_messages req)) p resp"
    using failover_ok [OF f] by blast
  have out: "do_output d = pp_output resp"
    by (simp add: d dispatch_outcome_of_def bounded_provider_token_counts_def)
  have "pp_output resp \<noteq> [] \<and> (case pp_signature resp of
         None \<Rightarrow> \<not> require_signed_results (gw_env G)
       | Some sg \<Rightarrow> verify_result_binding (gw_results G) (pi_address p) h
                     (build_prompt (cr_messages req)) (pp_output resp) sg)"
    using p(4) by (auto simp: result_ok_def result_acceptable_def split: option.splits)
  with r l p out token_counts_bounded show ?thesis unfolding d by metis
qed

section \<open>Errors\<close>

lemma validate_error:
  "validate_provider_endpoint N e a s = (Inl x, s') \<Longrightarrow> \<exists>m. x = ProviderUnavailable m"
  by (auto simp: validate_provider_endpoint_def check_addrs_def Let_def
      split: sum.splits if_splits option.splits prod.splits list.splits)

lemma read_chunks_error: "read_chunks e acc cs = Inl x \<Longrightarrow> \<exists>m. x = ProviderUnavailable m"
  by (induction e acc cs rule: read_chunks.induct) (auto split: if_splits)

lemma read_reply_error: "read_reply N e r = Inl x \<Longrightarrow> \<exists>m. x = ProviderUnavailable m"
  by (auto simp: read_reply_def dest: read_chunks_error split: sum.splits if_splits option.splits)

lemma dispatch_error:
  "dispatch_to_provider N env p req s = (Inl x, s') \<Longrightarrow> \<exists>m. x = ProviderUnavailable m"
  by (auto simp: dispatch_to_provider_def dest: validate_error read_reply_error
      split: sum.splits option.splits prod.splits)

lemma failover_error:
  assumes call: "\<And>p s x s'. call p s = (Inl x, s') \<Longrightarrow> \<exists>m. x = ProviderUnavailable m"
  shows "failover n call ok e ps s = (Inl x, s') \<Longrightarrow> e = None \<or> (\<exists>m. e = Some (ProviderUnavailable m))
    \<Longrightarrow> x = NoProviders \<or> (\<exists>m. x = ProviderUnavailable m)"
  using call
proof (induction n call ok e ps s rule: failover.induct)
  case (2 n call ok e ps s)
  show ?case
  proof (cases "select_provider ps")
    case None
    with "2.prems" show ?thesis by auto
  next
    case (Some p)
    obtain r s1 where c: "call p s = (r, s1)" by fastforce
    show ?thesis
    proof (cases r)
      case (Inl y)
      obtain m where "y = ProviderUnavailable m" using "2.prems"(3) c Inl by blast
      with "2.prems" Some c Inl show ?thesis
        using "2.IH"(1) [OF Some refl c [symmetric] Inl _ _ "2.prems"(3)] by auto
    next
      case (Inr y)
      with "2.prems" Some c show ?thesis
        using "2.IH"(2) [OF Some refl c [symmetric] Inr _ _ _ "2.prems"(3)]
        by (cases "ok p y") (auto simp: rejected_result_def)
    qed
  qed
qed auto

lemma run_dispatch_error:
  "run_dispatch G req s = (Inl (Failed e), s') \<Longrightarrow>
     e = NoProviders \<or> e = UnknownModel (cr_model req)
     \<or> (\<exists>m. e = ProviderUnavailable m \<or> e = ChainUnavailable m \<or> e = PoolDispatchUnimplemented m)"
  by (auto simp: run_dispatch_def Let_def dest!: failover_error [OF dispatch_error, rotated]
      split: prod.splits sum.splits if_splits option.splits dispatch_target.splits)

lemma recharge_error:
  "recharge G k paid req s = (Inl e, s') \<Longrightarrow>
     e = UnknownModel (cr_model req) \<or> (\<exists>m. e = PricingUnavailable m)
     \<or> (\<exists>a b c. e = Underfunded a b c) \<or> (\<exists>m. e = ModelBudgetExceeded (cr_model req) m)"
  by (auto simp: recharge_def quote_chat_request_cost_def Let_def
      split: option.splits prod.splits sum.splits if_splits model_budget_error.splits)

lemma error_not_success: "\<not> is_success (gateway_status e)"
  by (cases e) (simp_all add: is_success_def)

lemma handler_error:
  assumes "chat_completions_handler G k paid req s = (Inl (Failed e), s')"
  shows "e = BadRequest ''messages must be non-empty'' \<or> e = NoProviders
     \<or> e = UnknownModel (cr_model req) \<or> (\<exists>a b c. e = Underfunded a b c)
     \<or> (\<exists>m. e = ProviderUnavailable m \<or> e = ChainUnavailable m \<or> e = PoolDispatchUnimplemented m
          \<or> e = PricingUnavailable m \<or> e = ModelBudgetExceeded (cr_model req) m)"
  using assms
  by (auto simp: chat_completions_handler_def Let_def dest!: run_dispatch_error recharge_error
      split: if_splits prod.splits sum.splits failure.splits option.splits)

text \<open>C33. A chat request that fails is answered with its error's own status, which is
  400, 402, 503 and never a success, so that the layers before the handler
  settle nothing and give a key its money back. It fails with 402 only for an
  amount below the recharge or an exhausted model budget.\<close>

theorem failed_chat_is_free:
  assumes "rq_body req = Inr body" and "decode_body body = Inr chat"
    and h: "chat_completions_handler G (rq_api_key req) (rq_paid req) chat s = (Inl (Failed e), s')"
  shows "\<exists>resp. chat_service G decode_body req s = (Inr resp, s')
    \<and> rs_status resp = gateway_status e \<and> rs_status resp \<in> {400, 402, 503}
    \<and> \<not> is_success (rs_status resp) \<and> charge_due price resp = 0
    \<and> (rs_status resp = 402 \<longleftrightarrow>
         (\<exists>a b c. e = Underfunded a b c) \<or> (\<exists>m. e = ModelBudgetExceeded (cr_model chat) m))"
proof -
  have "chat_service G decode_body req s = (Inr (gateway_into_response (gw_lib G) e), s')"
    using assms by (simp add: chat_service_def)
  moreover have "rs_status (gateway_into_response (gw_lib G) e) = gateway_status e"
    by (simp add: gateway_into_response_def json_response_def)
  ultimately show ?thesis
    using handler_error [OF h] error_not_success [of e] by (auto simp: charge_due_def)
qed

section \<open>The layer's price and the handler's\<close>

text \<open>The oracle's answers do not change between the layer's question and the
  handler's.\<close>

definition steady_prices :: "'s gateway \<Rightarrow> bool" where
  "steady_prices G \<longleftrightarrow>
     (\<forall>m s t. fst (resolve_model_name (gw_queries G) m s) = fst (resolve_model_name (gw_queries G) m t)) \<and>
     (\<forall>h i j v s t. fst (estimate_cost (gw_queries G) h i j v s) = fst (estimate_cost (gw_queries G) h i j v t))"

lemma clamp_idem [simp]: "clamp_max_tokens (clamp_max_tokens r c) c = clamp_max_tokens r c"
  by (cases r) (simp_all add: clamp_max_tokens_def)

lemma requested_clamped [simp]:
  "requested_tokens env (req\<lparr> cr_max_tokens := clamp_max_tokens (cr_max_tokens req) (max_tokens_ceiling env) \<rparr>)
     = requested_tokens env req"
  by (simp add: requested_tokens_def)

lemma quotes_agree:
  assumes q: "quote_chat G req s = (Inr price, s1)" and steady: "steady_prices G"
  shows "\<exists>s3. quote_chat_request_cost G req s2 = (Inr (price, requested_tokens (gw_env G) req), s3)"
proof -
  obtain h t where r: "resolve_model_name (gw_queries G) (cr_model req) s = (Inr h, t)"
    and e: "fst (estimate_cost (gw_queries G) h (estimate_input_tokens (cr_messages req))
        (requested_tokens (gw_env G) req) default_tier t) = Inr price"
    using q by (auto simp: quote_chat_def priced_def split: prod.splits sum.splits)
  obtain t2 where r2: "resolve_model_name (gw_queries G) (cr_model req) s2 = (Inr h, t2)"
    using r steady by (metis fst_conv prod.collapse steady_prices_def)
  obtain s3 where "estimate_cost (gw_queries G) h (estimate_input_tokens (cr_messages req))
        (requested_tokens (gw_env G) req) default_tier t2 = (Inr price, s3)"
    using e steady by (metis prod.collapse steady_prices_def)
  with r2 show ?thesis by (simp add: quote_chat_request_cost_def Let_def)
qed

text \<open>The payment layers and the handler price a chat request alike: while the
  oracle's answers stay the same, what the layer asked for is exactly what the
  handler charges, so that a request paid at the layer's price is never turned
  away as underfunded.\<close>

theorem layer_price_is_the_recharge:
  assumes body: "tp_parse_body T body = Inr v" "tp_as_chat T v = Some chat"
    and layer: "price_for G T req body s = (Inr price, s1)" and steady: "steady_prices G"
    and paid: "price \<le> paid_amount_wei pay"
  shows "(\<exists>s3. quote_chat_request_cost G chat s2
            = (Inr (price, requested_tokens (gw_env G) chat), s3))
    \<and> fst (chat_completions_handler G k (Some pay) chat s2) \<noteq> Inl (Failed (Underfunded a b c))"
proof -
  define req' where "req' = chat\<lparr> cr_max_tokens := clamp_max_tokens (cr_max_tokens chat)
                          (max_tokens_ceiling (gw_env G)) \<rparr>"
  have q: "quote_chat G chat s = (Inr price, s1)"
    using body layer by (simp add: price_for_def)
  then have "quote_chat G req' s = (Inr price, s1)" by (simp add: quote_chat_def req'_def)
  then obtain s3 where r: "quote_chat_request_cost G req' s2
      = (Inr (price, requested_tokens (gw_env G) req'), s3)"
    using quotes_agree [OF _ steady] by blast
  have "fst (recharge G k (Some pay) req' s2) \<noteq> Inl (Underfunded a b c)"
    using leD [OF paid]
    by (auto simp: recharge_def r split: option.split prod.split sum.split model_budget_error.split)
  then have "fst (chat_completions_handler G k (Some pay) chat s2) \<noteq> Inl (Failed (Underfunded a b c))"
    by (auto simp: chat_completions_handler_def req'_def [symmetric] Let_def dest!: run_dispatch_error
        split: prod.split sum.split failure.split option.split)
  with quotes_agree [OF q steady] show ?thesis by blast
qed

section \<open>A sample gateway\<close>

definition sample_queries :: "'s chain_queries" where
  "sample_queries =
     \<lparr> resolve_model_name = (\<lambda>m s. (Inr 7, s)), estimate_cost = (\<lambda>h i j v s. (Inr 40, s)),
       list_providers = (\<lambda>h s. (Inr [sample_provider 9000 0 10], s)),
       list_pools = (\<lambda>h s. (Inr [], s)), list_models = (\<lambda>s. (Inr [], s)) \<rparr>"

definition base_gateway :: "'s gateway" where
  "base_gateway =
     \<lparr> gw_lib = sample_lib, gw_env = (\<lambda>v. None), gw_queries = sample_queries, gw_net = sample_net,
       gw_results = \<lparr> rl_keccak = id, rl_hex_decode = (\<lambda>s. None), rl_signature_ok = (\<lambda>b. True),
                      rl_recover = (\<lambda>d b r. None) \<rparr>,
       gw_debit_model_budget = (\<lambda>k m a s. (Inr (), s)), gw_refund_model_budget = (\<lambda>k m a s. s),
       gw_record_usage = (\<lambda>k i j c s. Some s), gw_uuid = (\<lambda>s. (''u'', s)),
       gw_now_secs = (\<lambda>s. (7, s)),
       gw_sse = (\<lambda>ds. json_response sample_lib 200 [] (JArr (map JStr ds))) \<rparr>"

definition sample_gateway :: "ref_world key_store gateway" where
  "sample_gateway = base_gateway
     \<lparr> gw_debit_model_budget := keys_debit_model_budget ref_platform ref_master,
       gw_refund_model_budget := keys_refund_model_budget ref_platform ref_master \<rparr>"

definition sample_chat :: chat_request where
  "sample_chat =
     \<lparr> cr_model = ''m'', cr_messages = [\<lparr> cm_role = ''user'', cm_content = ''hello'' \<rparr>],
       cr_max_tokens = Some 100000, cr_stream = False \<rparr>"

definition sample_pricing :: token_pricing where
  "sample_pricing =
     \<lparr> tp_default_model = ''m'', tp_parse_body = (\<lambda>b. Inr JNull), tp_as_chat = (\<lambda>j. Some sample_chat),
       tp_as_batch = (\<lambda>j. Inl ''no batch'') \<rparr>"

lemma base_gateway_simps [simp]:
  "gw_env base_gateway = (\<lambda>v. None)" "gw_queries base_gateway = sample_queries"
  "gw_net base_gateway = sample_net" "gw_lib base_gateway = sample_lib"
  "gw_uuid base_gateway s = (''u'', s)" "gw_now_secs base_gateway s = (7, s)"
  by (simp_all add: base_gateway_def)

lemma sample_gateway_simps [simp]:
  "gw_env sample_gateway = (\<lambda>v. None)" "gw_queries sample_gateway = sample_queries"
  "gw_net sample_gateway = sample_net" "gw_lib sample_gateway = sample_lib"
  by (simp_all add: sample_gateway_def)

lemma sample_queries_simps [simp]:
  "resolve_model_name sample_queries m s = (Inr 7, s)"
  "estimate_cost sample_queries h i j v s = (Inr 40, s)"
  "list_providers sample_queries h s = (Inr [sample_provider 9000 0 10], s)"
  "list_pools sample_queries h s = (Inr [], s)"
  by (simp_all add: sample_queries_def)

lemma sample_capacity: "capacity_remaining (sample_provider r 0 10) = 10"
  by (simp add: capacity_remaining_def sample_provider_def sat_sub_def)

lemma sample_select: "select_provider [sample_provider 9000 0 10] = Some (sample_provider 9000 0 10)"
  by (simp add: select_provider_def sample_capacity)

lemma base_run_dispatch:
  fixes s :: 's
  shows "\<exists>d. run_dispatch base_gateway req s = (Inr d, s)"
proof -
  have "result_ok (base_gateway :: 's gateway) 7 p (sample_provider 9000 0 10) sample_result" for p
    by (simp add: result_ok_def result_acceptable_def sample_result_def require_signed_results_def)
  then have "failover max_provider_attempts
        (\<lambda>p. dispatch_to_provider sample_net (\<lambda>v. None) p rq) (result_ok (base_gateway :: 's gateway) 7 p)
        None [sample_provider 9000 0 10] s = (Inr sample_result, s)" for p rq
    by (simp add: max_provider_attempts_def numeral_3_eq_3 sample_select sample_answer)
  then show ?thesis
    by (simp add: run_dispatch_def select_dispatch_target_def Let_def)
qed

lemma run_dispatch_budgets [simp]:
  "run_dispatch (G\<lparr> gw_debit_model_budget := d, gw_refund_model_budget := r \<rparr>) = run_dispatch G"
proof -
  let ?G = "G\<lparr> gw_debit_model_budget := d, gw_refund_model_budget := r \<rparr>"
  have f: "gw_queries ?G = gw_queries G" "gw_net ?G = gw_net G" "gw_env ?G = gw_env G" by simp_all
  have r: "result_ok ?G = result_ok G" by (intro ext) (simp add: result_ok_def)
  show ?thesis by (intro ext) (unfold run_dispatch_def f r, rule refl)
qed

lemma sample_run_dispatch: "\<exists>d. run_dispatch sample_gateway req s = (Inr d, s)"
  using base_run_dispatch [of req s] by (simp add: sample_gateway_def)

theorem input_estimate_exact_witness:
  "unat (estimate_input_tokens (cr_messages sample_chat)) = 256"
proof -
  have "list_all (\<lambda>m. length (cm_role m) < 2 ^ 63 \<and> length (cm_content m) < 2 ^ 63)
      (cr_messages sample_chat)"
    by (simp add: sample_chat_def)
  from input_estimate_exact [OF this] show ?thesis by (simp add: sample_chat_def)
qed

theorem failover_bounded_witness:
  "\<exists>r l. failover max_provider_attempts (logged (\<lambda>p s. (Inl NoProviders :: gateway_error + provider_response, s)))
      (\<lambda>p r. True) None [sample_provider 9000 0 10, sample_provider 8000 0 10] ((), []) = (r, ((), l))
    \<and> length l \<le> 3 \<and> attempts_ok [sample_provider 9000 0 10, sample_provider 8000 0 10] l"
proof -
  obtain r s l where f: "failover max_provider_attempts
      (logged (\<lambda>p s. (Inl NoProviders :: gateway_error + provider_response, s)))
      (\<lambda>p r. True) None [sample_provider 9000 0 10, sample_provider 8000 0 10] ((), []) = (r, (s, l))"
    by (metis prod.collapse)
  from failover_bounded [OF f] f show ?thesis by (cases s) auto
qed

theorem completion_bound_to_provider_witness:
  "\<exists>d. run_dispatch sample_gateway sample_chat sample_memory_store = (Inr d, sample_memory_store)
     \<and> do_output d \<noteq> [] \<and> do_completion_tokens d \<le> 8192"
proof -
  obtain d where d: "run_dispatch sample_gateway sample_chat sample_memory_store
      = (Inr d, sample_memory_store)"
    using sample_run_dispatch by blast
  have "requested_tokens (\<lambda>v. None) sample_chat = 8192"
    by (simp add: requested_tokens_def sample_chat_def clamp_max_tokens_def max_tokens_ceiling_def
        default_max_tokens_ceiling_def)
  with completion_bound_to_provider [OF d] d show ?thesis by auto
qed

theorem failed_chat_is_free_witness:
  "\<exists>resp. chat_service sample_gateway (\<lambda>b. Inr (sample_chat\<lparr> cr_messages := [] \<rparr>))
      sample_key_request sample_memory_store = (Inr resp, sample_memory_store)
    \<and> rs_status resp = 400 \<and> charge_due 40 resp = 0"
proof -
  have b: "rq_body sample_key_request = Inr [1, 2, 3]" by (simp add: sample_key_request_def)
  have h: "chat_completions_handler sample_gateway (rq_api_key sample_key_request)
      (rq_paid sample_key_request) (sample_chat\<lparr> cr_messages := [] \<rparr>) sample_memory_store
    = (Inl (Failed (BadRequest ''messages must be non-empty'')), sample_memory_store)"
    by (simp add: chat_completions_handler_def)
  note e = failed_chat_is_free [where price = "40", OF b _ h, where decode_body = "\<lambda>b. Inr (sample_chat\<lparr> cr_messages := [] \<rparr>)", OF refl]
  from e show ?thesis by auto
qed

theorem layer_price_is_the_recharge_witness:
  "\<exists>s3. quote_chat_request_cost sample_gateway sample_chat sample_memory_store
      = (Inr (40, requested_tokens (\<lambda>v. None) sample_chat), s3)"
proof -
  define T where "T = sample_pricing"
  have T: "tp_parse_body T [] = Inr JNull" "tp_as_chat T JNull = Some sample_chat"
    by (simp_all add: T_def sample_pricing_def)
  have p: "price_for sample_gateway T sample_key_request [] sample_memory_store
      = (Inr 40, sample_memory_store)"
    using T by (simp add: price_for_def quote_chat_def priced_def)
  have st: "steady_prices sample_gateway" by (simp add: steady_prices_def)
  define pay where "pay = \<lparr> paid_payer = 0, paid_amount_wei = 40 :: u256, paid_nonce = 0,
    paid_settle_tx_hash = 0 \<rparr>"
  have le: "40 \<le> paid_amount_wei pay" by (simp add: pay_def)
  from layer_price_is_the_recharge [OF T p st le] show ?thesis by auto
qed

end
