(* ===== verification/Model_Budgets.thy ===== *)
theory Model_Budgets
  imports Chat
begin

text \<open>
  The per-model budget of a key across a chat request: debited by the handler
  before dispatch, given back when the dispatch fails. The handler needs two
  calls of the key store, whose contract is the locale \<open>budget_store\<close>; both
  backends of the store provide it, the durable one except that a write may
  fail.
\<close>

section \<open>The contract\<close>

text \<open>A model without a row is \<open>uncapped\<close>; \<open>budget\<close> is what a row holds, when it
  can be read; a refund \<open>fails\<close> for the amount the row should have held when
  the store cannot read the row or cannot write that amount.\<close>

locale budget_store =
  fixes good :: "'s \<Rightarrow> bool" and fails :: "'s \<Rightarrow> string \<Rightarrow> string \<Rightarrow> u256 \<Rightarrow> bool"
    and account :: "string \<Rightarrow> string"
    and uncapped :: "'s \<Rightarrow> string \<Rightarrow> string \<Rightarrow> bool"
    and budget :: "'s \<Rightarrow> string \<Rightarrow> string \<Rightarrow> u256 option"
    and debit :: "string \<Rightarrow> string \<Rightarrow> u256 \<Rightarrow> 's \<Rightarrow> (model_budget_error + unit) \<times> 's"
    and refund :: "string \<Rightarrow> string \<Rightarrow> u256 \<Rightarrow> 's \<Rightarrow> 's"
  assumes no_row: "uncapped s h m \<Longrightarrow> budget s h m = None"
    and debit_ok: "good s \<Longrightarrow> debit k m a s = (Inr u, s') \<Longrightarrow>
      good s' \<and> (uncapped s (account k) m \<and> uncapped s' (account k) m
        \<or> (\<exists>b. budget s (account k) m = Some b \<and> a \<le> b \<and> budget s' (account k) m = Some (b - a)))"
    and debit_error: "good s \<Longrightarrow> debit k m a s = (Inl e, s') \<Longrightarrow>
      good s' \<and> budget s' (account k) m = budget s (account k) m"
    and refund_uncapped: "good s \<Longrightarrow> uncapped s (account k) m \<Longrightarrow> refund k m a s = s' \<Longrightarrow>
      good s' \<and> uncapped s' (account k) m"
    and refund_capped: "good s \<Longrightarrow> budget s (account k) m = Some b \<Longrightarrow> refund k m a s = s' \<Longrightarrow>
      good s' \<and> (budget s' (account k) m = Some (sat_add b a)
        \<or> fails s (account k) m (sat_add b a) \<and> budget s' (account k) m = Some b)"
begin

lemma refund_undoes_debit:
  assumes good: "good s" and d: "debit k m a s = (Inr u, s1)" and r: "refund k m a s1 = s2"
  shows "good s2 \<and> (budget s2 (account k) m = budget s (account k) m
    \<or> (\<exists>b. budget s (account k) m = Some b \<and> a \<le> b \<and> fails s1 (account k) m b
         \<and> budget s2 (account k) m = Some (b - a)))"
proof -
  from debit_ok [OF good d] consider
      (none) "good s1" "uncapped s (account k) m" "uncapped s1 (account k) m"
    | (row) b where "good s1" "budget s (account k) m = Some b" "a \<le> b"
        "budget s1 (account k) m = Some (b - a)"
    by blast
  then show ?thesis
  proof cases
    case none
    with refund_uncapped [OF none(1,3) r] show ?thesis by (simp add: no_row)
  next
    case row
    have "sat_add (b - a) a = b"
      using row(3) unat_less_length [of b]
      by (simp add: word_unat_eq_iff unat_sat_add unat_sub word_le_nat_alt)
    with refund_capped [OF row(1,4) r] row show ?thesis by auto
  qed
qed

end

section \<open>Both backends keep it\<close>

definition budget_row ::
  "'w platform \<Rightarrow> bytes \<Rightarrow> ('w \<Rightarrow> history) \<Rightarrow> 'w key_store \<Rightarrow> string \<Rightarrow> string \<Rightarrow> u256 option option" where
  "budget_row P master hist s h m =
     (case as_backend s of
        MemoryBackend keys \<Rightarrow>
          map_option Some (Option.bind (map_of keys h) (\<lambda>r. map_of (ak_model_budgets r) m))
      | PersistentBackend \<Rightarrow>
          map_option parse_u256_be (view P master hist (as_world s) (mbudget_key h m)))"

definition model_budget ::
  "'w platform \<Rightarrow> bytes \<Rightarrow> ('w \<Rightarrow> history) \<Rightarrow> 'w key_store \<Rightarrow> string \<Rightarrow> string \<Rightarrow> u256 option" where
  "model_budget P master hist s h m = Option.bind (budget_row P master hist s h m) id"

definition refund_fault ::
  "'w platform \<Rightarrow> bytes \<Rightarrow> 'w key_store \<Rightarrow> string \<Rightarrow> string \<Rightarrow> u256 \<Rightarrow> bool" where
  "refund_fault P master s h m n \<longleftrightarrow>
     as_backend s = PersistentBackend
     \<and> (row_unreadable P master (mbudget_key h m) (as_world s)
        \<or> row_unwritable P master True (mbudget_key h m) (u256_to_be_bytes n) (as_world s))"

lemma parse_u256_bytes [simp]: "parse_u256_be (u256_to_be_bytes n) = Some n"
  by (simp add: parse_u256_be_def)

lemma memory_debit_ok:
  assumes "as_backend s = MemoryBackend keys" "keys_debit_model_budget P master k m a s = (Inr u, s')"
  shows "(\<exists>keys'. as_backend s' = MemoryBackend keys') \<and>
     (budget_row P master hist s (hash_key_id P k) m = None
        \<and> budget_row P master hist s' (hash_key_id P k) m = None
      \<or> (\<exists>b. budget_row P master hist s (hash_key_id P k) m = Some (Some b) \<and> a \<le> b
           \<and> budget_row P master hist s' (hash_key_id P k) m = Some (Some (b - a))))"
  using assms
  by (auto simp: keys_debit_model_budget_def budget_row_def set_memory_def update_conv' Let_def not_less
      split: option.splits if_splits)

lemma memory_refund:
  assumes "as_backend s = MemoryBackend keys" "keys_refund_model_budget P master k m a s = s'"
  shows "(\<exists>keys'. as_backend s' = MemoryBackend keys') \<and>
     budget_row P master hist s' (hash_key_id P k) m
       = map_option (map_option (\<lambda>b. sat_add b a)) (budget_row P master hist s (hash_key_id P k) m)"
  using assms
  by (auto simp: keys_refund_model_budget_def budget_row_def set_memory_def update_conv' Let_def
      split: option.splits)

interpretation budgets: budget_store "keys_good P master hist durable"
  "refund_fault P master" "hash_key_id P"
  "\<lambda>s h m. budget_row P master hist s h m = None" "model_budget P master hist"
  "keys_debit_model_budget P master" "keys_refund_model_budget P master"
  for P :: "'w platform" and master hist durable
proof (unfold_locales, goal_cases)
  case (1 s h m)
  then show ?case by (simp add: model_budget_def)
next
  case (2 s k m a u s')
  show ?case
  proof (cases "as_backend s")
    case (MemoryBackend keys)
    from memory_debit_ok [OF this 2(2), of hist] MemoryBackend show ?thesis
      by (auto simp: keys_good_def model_budget_def)
  next
    case PersistentBackend
    then obtain w where d: "debit_model_budget P master k m a (as_world s) = (Inr u, w)"
      and s': "s' = s\<lparr> as_world := w \<rparr>"
      using 2(2) by (auto simp: keys_debit_model_budget_def split: prod.splits)
    have "store_good P master hist durable (as_world s)"
      using 2(1) PersistentBackend by (simp add: keys_good_def)
    from budget_debit_rows [OF this d] PersistentBackend s' show ?thesis
      by (auto simp: keys_good_def model_budget_def budget_row_def split: option.splits)
  qed
next
  case (3 s k m a e s')
  show ?case
  proof (cases "as_backend s")
    case (MemoryBackend keys)
    with 3 show ?thesis
      by (auto simp: keys_debit_model_budget_def Let_def split: option.splits if_splits)
  next
    case PersistentBackend
    then obtain w where d: "debit_model_budget P master k m a (as_world s) = (Inl e, w)"
      and s': "s' = s\<lparr> as_world := w \<rparr>"
      using 3(2) by (auto simp: keys_debit_model_budget_def split: prod.splits)
    have "store_good P master hist durable (as_world s)"
      using 3(1) PersistentBackend by (simp add: keys_good_def)
    from budget_debit_rows [OF this d] PersistentBackend s' show ?thesis
      by (auto simp: keys_good_def model_budget_def budget_row_def)
  qed
next
  case (4 s k m a s')
  show ?case
  proof (cases "as_backend s")
    case (MemoryBackend keys)
    from memory_refund [OF this 4(3), of hist] MemoryBackend 4(2) show ?thesis
      by (auto simp: keys_good_def)
  next
    case PersistentBackend
    obtain r w where d: "refund_model_budget P master k m a (as_world s) = (r, w)" by fastforce
    have s': "s' = s\<lparr> as_world := w \<rparr>"
      using 4(3) d PersistentBackend by (auto simp: keys_refund_model_budget_def)
    have "store_good P master hist durable (as_world s)"
      using 4(1) PersistentBackend by (simp add: keys_good_def)
    from budget_refund_rows [OF this d refl] PersistentBackend s' 4(2) show ?thesis
      by (auto simp: keys_good_def budget_row_def)
  qed
next
  case (5 s k m b a s')
  show ?case
  proof (cases "as_backend s")
    case (MemoryBackend keys)
    from memory_refund [OF this 5(3), of hist] MemoryBackend 5(2) show ?thesis
      by (auto simp: keys_good_def model_budget_def bind_eq_Some_conv)
  next
    case PersistentBackend
    obtain r w where d: "refund_model_budget P master k m a (as_world s) = (r, w)" by fastforce
    have s': "s' = s\<lparr> as_world := w \<rparr>"
      using 5(3) d PersistentBackend by (auto simp: keys_refund_model_budget_def)
    have "store_good P master hist durable (as_world s)"
      using 5(1) PersistentBackend by (simp add: keys_good_def)
    note rows = budget_refund_rows [OF this d refl]
    obtain bs where row: "view P master hist (as_world s) (mbudget_key (hash_key_id P k) m) = Some bs"
      "parse_u256_be bs = Some b"
      using 5(2) PersistentBackend by (auto simp: model_budget_def budget_row_def bind_eq_Some_conv)
    from rows [unfolded row option.case Let_def] PersistentBackend s' row show ?thesis
      by (auto simp: keys_good_def model_budget_def budget_row_def refund_fault_def)
  qed
qed

section \<open>The handler on the store\<close>

text \<open>A gateway whose state holds a key store, read by \<open>get\<close> and replaced by
  \<open>put\<close>. Only the two budget calls touch it; the chain, the network, the usage
  rows and the clock leave it alone.\<close>

definition leaves :: "('s \<Rightarrow> 'k) \<Rightarrow> ('s \<Rightarrow> 'a \<times> 's) \<Rightarrow> bool" where
  "leaves get f \<longleftrightarrow> (\<forall>s. get (snd (f s)) = get s)"

definition net_leaves :: "('s \<Rightarrow> 'k) \<Rightarrow> 's net \<Rightarrow> bool" where
  "net_leaves get N \<longleftrightarrow>
     (\<forall>h p. leaves get (nt_lookup N h p)) \<and> (\<forall>g r. leaves get (nt_post N g r))"

definition queries_leave :: "('s \<Rightarrow> 'k) \<Rightarrow> 's chain_queries \<Rightarrow> bool" where
  "queries_leave get Q \<longleftrightarrow>
     (\<forall>m. leaves get (resolve_model_name Q m)) \<and> (\<forall>h i j v. leaves get (estimate_cost Q h i j v)) \<and>
     (\<forall>h. leaves get (list_providers Q h)) \<and> (\<forall>h. leaves get (list_pools Q h))"

definition wired ::
  "'w platform \<Rightarrow> bytes \<Rightarrow> ('s \<Rightarrow> 'w key_store) \<Rightarrow> ('w key_store \<Rightarrow> 's \<Rightarrow> 's) \<Rightarrow> 's gateway \<Rightarrow> bool" where
  "wired P master get put G \<longleftrightarrow>
     (\<forall>t s. get (put t s) = t) \<and>
     (\<forall>k m a s. gw_debit_model_budget G k m a s
        = (case keys_debit_model_budget P master k m a (get s) of (r, t) \<Rightarrow> (r, put t s))) \<and>
     (\<forall>k m a s. gw_refund_model_budget G k m a s
        = put (keys_refund_model_budget P master k m a (get s)) s) \<and>
     queries_leave get (gw_queries G) \<and> net_leaves get (gw_net G) \<and>
     (\<forall>k i j c s s'. gw_record_usage G k i j c s = Some s' \<longrightarrow> get s' = get s) \<and>
     leaves get (gw_uuid G) \<and> leaves get (gw_now_secs G)"

lemma leavesD: "leaves get f \<Longrightarrow> f s = (r, s') \<Longrightarrow> get s' = get s"
  by (metis leaves_def snd_conv)

lemma net_leavesD:
  assumes "net_leaves get N"
  shows "nt_lookup N h p s = (r, s') \<Longrightarrow> get s' = get s"
    and "nt_post N g q s = (r2, s') \<Longrightarrow> get s' = get s"
  by (erule leavesD [rotated], use assms in \<open>auto simp: net_leaves_def\<close>)+

lemma queries_leaveD:
  assumes "queries_leave get Q"
  shows "resolve_model_name Q m s = (r, s') \<Longrightarrow> get s' = get s"
    and "estimate_cost Q h i j v s = (r2, s') \<Longrightarrow> get s' = get s"
    and "list_providers Q h s = (r3, s') \<Longrightarrow> get s' = get s"
    and "list_pools Q h s = (r4, s') \<Longrightarrow> get s' = get s"
  by (erule leavesD [rotated], use assms in \<open>auto simp: queries_leave_def\<close>)+

lemma validate_leaves:
  "net_leaves get N \<Longrightarrow> validate_provider_endpoint N e a s = (r, s') \<Longrightarrow> get s' = get s"
  by (auto simp: validate_provider_endpoint_def Let_def dest: net_leavesD(1)
      split: sum.splits if_splits option.splits prod.splits)

lemma dispatch_leaves:
  assumes n: "net_leaves get N" and d: "dispatch_to_provider N env p req s = (r, s')"
  shows "get s' = get s"
proof -
  obtain v s1 where v: "validate_provider_endpoint N (pi_endpoint p)
      (allow_private_provider_endpoints env) s = (v, s1)" by fastforce
  from d v have "s' = s1 \<or> (\<exists>g x. nt_post N g req s1 = (x, s'))"
    by (auto simp: dispatch_to_provider_def split: sum.splits option.splits prod.splits)
  with validate_leaves [OF n v] net_leavesD(2) [OF n] show ?thesis by metis
qed

lemma failover_leaves:
  assumes call: "\<And>p s r s'. call p s = (r, s') \<Longrightarrow> get s' = get s"
  shows "failover n call ok e ps s = (r, s') \<Longrightarrow> get s' = get s"
  using call
proof (induction n call ok e ps s rule: failover.induct)
  case (2 n call ok e ps s)
  show ?case
  proof (cases "select_provider ps")
    case None
    with "2.prems" show ?thesis by auto
  next
    case (Some p)
    obtain x s1 where c: "call p s = (x, s1)" by (cases "call p s")
    have k: "get s1 = get s" using "2.prems"(2) [OF c] .
    show ?thesis
    proof (cases x)
      case (Inl y)
      with "2.prems" Some c k "2.IH"(1) [OF Some refl c [symmetric] Inl _ "2.prems"(2)]
      show ?thesis by auto
    next
      case (Inr y)
      with "2.prems" Some c k "2.IH"(2) [OF Some refl c [symmetric] Inr _ _ "2.prems"(2)]
      show ?thesis by (cases "ok p y") auto
    qed
  qed
qed auto

lemma run_dispatch_leaves:
  assumes q: "queries_leave get (gw_queries G)" and n: "net_leaves get (gw_net G)"
    and r: "run_dispatch G req s = (r, s')"
  shows "get s' = get s"
proof -
  have f: "get t' = get t"
    if "failover k (\<lambda>p. dispatch_to_provider (gw_net G) env p rq) ok e ps t = (x, t')"
    for k env rq ok e ps t x t'
    using failover_leaves [OF dispatch_leaves [OF n] that] .
  show ?thesis
    using r
    by (auto simp: run_dispatch_def Let_def dest!: f queries_leaveD [OF q]
        split: prod.splits sum.splits if_splits option.splits dispatch_target.splits)
qed

lemma quote_leaves:
  assumes q: "queries_leave get (gw_queries G)" and r: "quote_chat_request_cost G req s = (r, s')"
  shows "get s' = get s"
  using r by (auto simp: quote_chat_request_cost_def Let_def dest!: queries_leaveD [OF q]
      split: prod.splits sum.splits)

lemma wiredD:
  assumes "wired P master get put G"
  shows "queries_leave get (gw_queries G)" "net_leaves get (gw_net G)" "get (put t s) = t"
    "gw_refund_model_budget G k m a s = put (keys_refund_model_budget P master k m a (get s)) s"
    "gw_debit_model_budget G k m a s = (x, s') \<Longrightarrow>
       keys_debit_model_budget P master k m a (get s) = (x, get s')"
    "gw_record_usage G k i j c s = Some s' \<Longrightarrow> get s' = get s"
    "gw_uuid G s = (u, s') \<Longrightarrow> get s' = get s" "gw_now_secs G s = (now, s') \<Longrightarrow> get s' = get s"
  using assms by (auto simp: wired_def intro: leavesD split: prod.splits)

lemma recharge_budget:
  assumes w: "wired P master get put G"
    and r: "recharge G (Some ctx) (Some pay) req s = (Inr (charge, deb), s1)"
  shows "\<exists>c. charge = Some c \<and> c \<le> paid_amount_wei pay
    \<and> (if deb then keys_debit_model_budget P master (kc_key_id ctx) (cr_model req) c (get s)
              = (Inr (), get s1)
       else \<exists>e. keys_debit_model_budget P master (kc_key_id ctx) (cr_model req) c (get s)
              = (Inl e, get s1))"
  using r quote_leaves [OF wiredD(1) [OF w]]
  by (auto simp: recharge_def not_less dest!: wiredD(5) [OF w]
      split: prod.splits sum.splits if_splits model_budget_error.splits)

lemma recharge_refused:
  assumes w: "wired P master get put G"
    and r: "recharge G (Some ctx) (Some pay) req s = (Inl x, s1)"
  shows "get s1 = get s
    \<or> (\<exists>c e. keys_debit_model_budget P master (kc_key_id ctx) (cr_model req) c (get s)
              = (Inl e, get s1))"
  using r quote_leaves [OF wiredD(1) [OF w]]
  by (auto simp: recharge_def not_less dest!: wiredD(5) [OF w]
      split: prod.splits sum.splits if_splits model_budget_error.splits)

lemma answer_leaves:
  assumes w: "wired P master get put G" and a: "chat_answer G req d s = (resp, s')"
  shows "get s' = get s"
  using a by (auto simp: chat_answer_def stream_response_def chat_completion_def
      dest!: wiredD(7,8) [OF w] split: if_splits prod.splits)

lemma emit_leaves:
  assumes w: "wired P master get put G" and a: "emit_usage G k charge d s = Some s'"
  shows "get s' = get s"
  using a by (auto simp: emit_usage_def dest!: wiredD(6) [OF w] split: option.splits)

text \<open>What a request with a key does to the store, by its answer.\<close>

definition store_steps ::
  "'w platform \<Rightarrow> bytes \<Rightarrow> string \<Rightarrow> string \<Rightarrow> (failure + response) \<Rightarrow> u256 \<Rightarrow> 'w key_store \<Rightarrow> 'w key_store
    \<Rightarrow> bool" where
  "store_steps P master k m r most t t' \<longleftrightarrow>
     (case r of
        Inl Panicked \<Rightarrow> True
      | Inl (Failed x) \<Rightarrow>
          t' = t \<or> (\<exists>c e. keys_debit_model_budget P master k m c t = (Inl e, t'))
          \<or> (\<exists>c t1. c \<le> most \<and> keys_debit_model_budget P master k m c t = (Inr (), t1)
               \<and> keys_refund_model_budget P master k m c t1 = t')
      | Inr resp \<Rightarrow> (\<exists>c. rs_charge resp = Some c \<and> c \<le> most
          \<and> ((\<exists>e. keys_debit_model_budget P master k m c t = (Inl e, t'))
             \<or> keys_debit_model_budget P master k m c t = (Inr (), t'))))"

lemma dispatched_steps:
  assumes w: "wired P master get put G" and m: "cr_model req = m" and le: "c \<le> most"
    and debit: "if deb then keys_debit_model_budget P master (kc_key_id ctx) m c t = (Inr (), get s1)
       else \<exists>e. keys_debit_model_budget P master (kc_key_id ctx) m c t = (Inl e, get s1)"
    and d: "run_dispatch G req s1 = (x, s2)"
    and r: "(case x of
        Inl Panicked \<Rightarrow> (Inl Panicked, s2)
      | Inl e \<Rightarrow> (Inl e, refund_failed_dispatch G (Some ctx) req (Some c) deb s2)
      | Inr o' \<Rightarrow>
          (case emit_usage G (Some ctx) (Some c) o' s2 of
             None \<Rightarrow> (Inl Panicked, s2)
           | Some s3 \<Rightarrow>
               (case chat_answer G req o' s3 of
                  (resp, s4) \<Rightarrow> (Inr (resp\<lparr> rs_charge := Some c \<rparr>), s4)))) = (r, s')"
  shows "store_steps P master (kc_key_id ctx) m r most t (get s')"
proof -
  have k: "get s2 = get s1" by (rule run_dispatch_leaves [OF wiredD(1) [OF w] wiredD(2) [OF w] d])
  consider (panic) "r = Inl Panicked"
    | (failed) e where "r = Inl (Failed e)"
        "s' = refund_failed_dispatch G (Some ctx) req (Some c) deb s2"
    | (served) o' s3 resp where "emit_usage G (Some ctx) (Some c) o' s2 = Some s3"
        "chat_answer G req o' s3 = (resp, s')" "r = Inr (resp\<lparr> rs_charge := Some c \<rparr>)"
    using r by (auto split: sum.splits failure.splits option.splits prod.splits)
  then show ?thesis
  proof cases
    case failed
    then have "get s' = (if deb then keys_refund_model_budget P master (kc_key_id ctx) m c (get s1)
        else get s1)"
      using k m by (simp add: refund_failed_dispatch_def wiredD(3,4) [OF w])
    with failed(1) debit le show ?thesis by (cases deb) (auto simp: store_steps_def)
  next
    case served
    have "get s' = get s1" using answer_leaves [OF w served(2)] emit_leaves [OF w served(1)] k by simp
    with served(3) le debit show ?thesis by (cases deb) (auto simp: store_steps_def)
  qed (simp add: store_steps_def)
qed

lemma handler_steps:
  assumes w: "wired P master get put G"
    and h: "chat_completions_handler G (Some ctx) (Some pay) req s = (r, s')"
  shows "store_steps P master (kc_key_id ctx) (cr_model req) r (paid_amount_wei pay) (get s) (get s')"
proof (cases "cr_messages req = []")
  case True
  with h show ?thesis by (auto simp: chat_completions_handler_def store_steps_def)
next
  case False
  define req' where "req' = req\<lparr> cr_max_tokens := clamp_max_tokens (cr_max_tokens req)
                          (max_tokens_ceiling (gw_env G)) \<rparr>"
  have m: "cr_model req' = cr_model req" by (simp add: req'_def)
  obtain q s1 where q: "recharge G (Some ctx) (Some pay) req' s = (q, s1)"
    by (cases "recharge G (Some ctx) (Some pay) req' s")
  note H = h [unfolded chat_completions_handler_def Let_def, folded req'_def]
  show ?thesis
  proof (cases q)
    case (Inl x)
    with H False have "r = Inl (Failed x)" "s' = s1" by (simp_all add: q)
    with recharge_refused [OF w q [unfolded Inl]] show ?thesis by (auto simp: store_steps_def m)
  next
    case (Inr cd)
    obtain charge deb where cd: "cd = (charge, deb)" by (cases cd)
    obtain c where c: "charge = Some c" "c \<le> paid_amount_wei pay"
      and debit: "if deb then keys_debit_model_budget P master (kc_key_id ctx) (cr_model req) c (get s)
              = (Inr (), get s1)
       else \<exists>e. keys_debit_model_budget P master (kc_key_id ctx) (cr_model req) c (get s)
              = (Inl e, get s1)"
      using recharge_budget [OF w q [unfolded Inr cd], unfolded m] by blast
    obtain x s2 where d: "run_dispatch G req' s1 = (x, s2)" by (cases "run_dispatch G req' s1")
    show ?thesis
      by (rule dispatched_steps [OF w m c(2) debit d])
        (use H False in \<open>simp add: q Inr cd c(1) d cong: option.case_cong sum.case_cong failure.case_cong\<close>)
  qed
qed

lemma debit_moves_budget:
  assumes good: "keys_good P master hist durable s"
    and d: "keys_debit_model_budget P master k model c s = (res, t)"
  shows "model_budget P master hist t (hash_key_id P k) model
        = map_option (\<lambda>n. n - c) (model_budget P master hist s (hash_key_id P k) model)
      \<and> (\<forall>n. model_budget P master hist s (hash_key_id P k) model = Some n \<longrightarrow> c \<le> n)
    \<or> model_budget P master hist t (hash_key_id P k) model
        = model_budget P master hist s (hash_key_id P k) model \<and> (\<exists>e. res = Inl e)"
proof (cases res)
  case (Inl e)
  with budgets.debit_error [OF good d [unfolded Inl]] show ?thesis by simp
next
  case (Inr u)
  with d have "keys_debit_model_budget P master k model c s = (Inr (), t)" by simp
  from budgets.debit_ok [OF good this] have
    "model_budget P master hist s (hash_key_id P k) model = None
       \<and> model_budget P master hist t (hash_key_id P k) model = None
     \<or> (\<exists>n. model_budget P master hist s (hash_key_id P k) model = Some n \<and> c \<le> n
          \<and> model_budget P master hist t (hash_key_id P k) model = Some (n - c))"
    by (elim conjE disjE exE) (simp_all add: model_budget_def)
  then show ?thesis by auto
qed

text \<open>C16. The model budget of a key follows the answer of its chat request. When the
  request fails, the budget is what it was before, the handler having given back
  what it took - unless that refund failed: the budgets are in the durable store,
  and in the state the debit left them in the model's row cannot be read, or the
  old budget cannot be written to it; then the quoted cost, no more than what
  was paid, stays debited. When it succeeds, the answer carries the
  charge, no more than what was paid, and a capped model's budget is smaller by
  exactly that charge and never overdrawn - or the store could not be reached
  for the debit and the budget is untouched.\<close>

theorem model_budget_follows_answer:
  fixes get :: "'s \<Rightarrow> 'w key_store"
  assumes w: "wired P master get put G" and good: "keys_good P master hist durable (get s)"
    and h: "chat_completions_handler G (Some ctx) (Some pay) req s = (r, s')"
    and b: "before = model_budget P master hist (get s) (hash_key_id P (kc_key_id ctx)) (cr_model req)"
    and a: "after = model_budget P master hist (get s') (hash_key_id P (kc_key_id ctx)) (cr_model req)"
  shows "(\<forall>e. r = Inl (Failed e) \<longrightarrow> after = before
      \<or> (\<exists>n c t. before = Some n \<and> c \<le> n \<and> c \<le> paid_amount_wei pay
           \<and> keys_debit_model_budget P master (kc_key_id ctx) (cr_model req) c (get s) = (Inr (), t)
           \<and> keys_refund_model_budget P master (kc_key_id ctx) (cr_model req) c t = get s'
           \<and> refund_fault P master t (hash_key_id P (kc_key_id ctx)) (cr_model req) n
           \<and> after = Some (n - c)))
    \<and> (\<forall>resp. r = Inr resp \<longrightarrow> (\<exists>c. rs_charge resp = Some c \<and> c \<le> paid_amount_wei pay
         \<and> (after = map_option (\<lambda>n. n - c) before \<and> (\<forall>n. before = Some n \<longrightarrow> c \<le> n)
            \<or> after = before \<and> (\<exists>e. fst (keys_debit_model_budget P master (kc_key_id ctx)
                                          (cr_model req) c (get s)) = Inl e))))"
proof -
  note steps = handler_steps [OF w h]
  show ?thesis
  proof (intro conjI allI impI)
    fix e assume "r = Inl (Failed e)"
    with steps consider "get s' = get s"
      | (refused) c x where "keys_debit_model_budget P master (kc_key_id ctx) (cr_model req) c (get s)
          = (Inl x, get s')"
      | (undone) c t where "c \<le> paid_amount_wei pay" "keys_debit_model_budget P master (kc_key_id ctx) (cr_model req) c (get s)
          = (Inr (), t)"
          "keys_refund_model_budget P master (kc_key_id ctx) (cr_model req) c t = get s'"
      by (auto simp: store_steps_def)
    then show "after = before
      \<or> (\<exists>n c t. before = Some n \<and> c \<le> n \<and> c \<le> paid_amount_wei pay
           \<and> keys_debit_model_budget P master (kc_key_id ctx) (cr_model req) c (get s) = (Inr (), t)
           \<and> keys_refund_model_budget P master (kc_key_id ctx) (cr_model req) c t = get s'
           \<and> refund_fault P master t (hash_key_id P (kc_key_id ctx)) (cr_model req) n
           \<and> after = Some (n - c))"
    proof cases
      case refused
      with budgets.debit_error [OF good refused] a b show ?thesis by simp
    next
      case undone
      with budgets.refund_undoes_debit [OF good undone(2,3)] a b show ?thesis by blast
    qed (use a b in simp)
  next
    fix resp assume "r = Inr resp"
    with steps obtain c res where c: "rs_charge resp = Some c" "c \<le> paid_amount_wei pay"
      and d: "keys_debit_model_budget P master (kc_key_id ctx) (cr_model req) c (get s) = (res, get s')"
      by (auto simp: store_steps_def)
    from debit_moves_budget [OF good d] c d
    show "\<exists>c. rs_charge resp = Some c \<and> c \<le> paid_amount_wei pay
         \<and> (after = map_option (\<lambda>n. n - c) before \<and> (\<forall>n. before = Some n \<longrightarrow> c \<le> n)
            \<or> after = before \<and> (\<exists>e. fst (keys_debit_model_budget P master (kc_key_id ctx)
                                          (cr_model req) c (get s)) = Inl e))"
      unfolding a b by auto
  qed
qed

section \<open>A sample budget\<close>

definition sample_budget_store :: "ref_world key_store" where
  "sample_budget_store =
     \<lparr> as_backend = MemoryBackend [(hash_key_id ref_platform sample_key,
          \<lparr> ak_label = ''ci'', ak_balance_grains = 100, ak_deposit_address = 7, ak_revoked = False,
            ak_backing = Salt, ak_created_at = 7, ak_model_budgets = [(''m'', 100)] \<rparr>)],
       as_world = ref_start \<rparr>"

lemma sample_gateway_wired: "wired ref_platform ref_master id (\<lambda>t s. t) sample_gateway"
  by (auto simp: wired_def leaves_def queries_leave_def net_leaves_def sample_gateway_def
      base_gateway_def sample_queries_def sample_net_def split: prod.splits)

theorem model_budget_follows_answer_witness:
  "\<exists>resp s' c. chat_completions_handler sample_gateway (Some \<lparr> kc_key_id = sample_key, kc_backing = Salt \<rparr>)
      (Some \<lparr> paid_payer = 0, paid_amount_wei = 40, paid_nonce = 0, paid_settle_tx_hash = 0 \<rparr>)
      sample_chat sample_budget_store = (Inr resp, s')
    \<and> rs_charge resp = Some c \<and> c \<le> 40
    \<and> model_budget ref_platform ref_master ref_hist s' (hash_key_id ref_platform sample_key) ''m''
        = Some (100 - c)"
proof -
  let ?pay = "\<lparr> paid_payer = 0, paid_amount_wei = 40, paid_nonce = 0, paid_settle_tx_hash = 0 \<rparr>"
  let ?ctx = "\<lparr> kc_key_id = sample_key, kc_backing = Salt \<rparr>"
  let ?h = "hash_key_id ref_platform sample_key"
  have good: "keys_good ref_platform ref_master ref_hist ref_durable (id sample_budget_store)"
    by (simp add: keys_good_def sample_budget_store_def)
  have ne: "cr_messages sample_chat \<noteq> []" and m: "cr_model sample_chat = ''m''"
    by (simp_all add: sample_chat_def)
  obtain r s' where h: "chat_completions_handler sample_gateway (Some ?ctx) (Some ?pay) sample_chat
      sample_budget_store = (r, s')"
    by (cases "chat_completions_handler sample_gateway (Some ?ctx) (Some ?pay) sample_chat
      sample_budget_store")
  have before: "model_budget ref_platform ref_master ref_hist (id sample_budget_store) ?h ''m'' = Some 100"
    by (simp add: model_budget_def budget_row_def sample_budget_store_def)
  have debit: "fst (keys_debit_model_budget ref_platform ref_master sample_key ''m'' c
      sample_budget_store) = Inr ()" if "c \<le> 40" for c
    using that by (simp add: keys_debit_model_budget_def sample_budget_store_def Let_def not_less
        order.trans [of c 40 100])
  have "\<exists>resp. r = Inr resp"
  proof -
    define req where "req = sample_chat\<lparr> cr_max_tokens := clamp_max_tokens (cr_max_tokens sample_chat)
           (max_tokens_ceiling (\<lambda>v. None)) \<rparr>"
    have mr: "cr_model req = ''m''" by (simp add: req_def m)
    obtain t where "keys_debit_model_budget ref_platform ref_master sample_key ''m'' 40 sample_budget_store
        = (Inr (), t)"
      using debit [of 40] by (metis order.refl prod.collapse)
    then have q: "recharge sample_gateway (Some ?ctx) (Some ?pay) req sample_budget_store
        = (Inr (Some 40, True), t)"
      by (simp add: recharge_def quote_chat_request_cost_def Let_def mr)
        (simp add: sample_gateway_def base_gateway_def)
    obtain d where d: "run_dispatch sample_gateway req t = (Inr d, t)" using sample_run_dispatch by blast
    have "emit_usage sample_gateway (Some ?ctx) (Some 40) d t = Some t"
      by (simp add: emit_usage_def sample_gateway_def base_gateway_def)
    with h ne q d show ?thesis
      by (auto simp: chat_completions_handler_def Let_def req_def [symmetric] split: prod.splits)
  qed
  then obtain resp where resp: "r = Inr resp" by blast
  from model_budget_follows_answer [OF sample_gateway_wired good h refl refl] before m debit h resp
  show ?thesis by fastforce
qed

end
