(* ===== verification/Batch.thy ===== *)
theory Batch
  imports Chat
begin

text \<open>
  The batch endpoint of \<open>gateway/src/batch.rs\<close>: the records and their durable
  form, the store with its write-through and boot recovery, submission, the
  reads bound to the submitter, and the task that walks a batch to its terminal
  state and settles its escrow. The state holds the key store, whose world is
  also the batches' durable store, and the live batches; the other handlers'
  state is the record's extension.
\<close>

section \<open>Records\<close>

datatype batch_status = Submitted | Running | Completed | PartialFailure | AllFailed

fun is_terminal :: "batch_status \<Rightarrow> bool" where
  "is_terminal Completed = True"
| "is_terminal PartialFailure = True"
| "is_terminal AllFailed = True"
| "is_terminal s = False"

datatype request_status = Pending | Dispatched | Done | Errored

record request_slot =
  sl_state :: request_status
  sl_request :: chat_request
  sl_quoted_cost_grains :: u256
  sl_response :: "chat_response option"
  sl_error :: "string option"

record batch_record =
  ba_id :: string
  ba_status :: batch_status
  ba_paid_escrow_grains :: u256
  ba_released_grains :: u256
  ba_refunded_grains :: u256
  ba_payer_api_key_id :: "string option"
  ba_x402_payer :: "h160 option"
  ba_read_token_hash :: "string option"
  ba_slots :: "request_slot list"
  ba_created_at :: u64

definition request_count :: "batch_record \<Rightarrow> nat" where
  "request_count r = length (ba_slots r)"

definition completed_count :: "batch_record \<Rightarrow> nat" where
  "completed_count r = length (filter (\<lambda>s. sl_state s = Done) (ba_slots r))"

definition errored_count :: "batch_record \<Rightarrow> nat" where
  "errored_count r = length (filter (\<lambda>s. sl_state s = Errored) (ba_slots r))"

definition slot_terminal :: "request_slot \<Rightarrow> bool" where
  "slot_terminal s \<longleftrightarrow> sl_state s = Done \<or> sl_state s = Errored"

definition all_terminal :: "batch_record \<Rightarrow> bool" where
  "all_terminal r \<longleftrightarrow> list_all slot_terminal (ba_slots r)"

section \<open>The durable form\<close>

record persisted_slot =
  ps_state :: request_status
  ps_request :: chat_request
  ps_quoted_cost_grains :: string
  ps_error :: "string option"

record persisted_batch =
  pb_id :: string
  pb_status :: batch_status
  pb_paid_escrow_grains :: string
  pb_released_grains :: string
  pb_refunded_grains :: string
  pb_payer_api_key_id :: "string option"
  pb_x402_payer :: "string option"
  pb_read_token_hash :: "string option"
  pb_slots :: "persisted_slot list"
  pb_created_at :: u64
  pb_refund_settled :: bool

definition from_record :: "x402_lib \<Rightarrow> batch_record \<Rightarrow> bool \<Rightarrow> persisted_batch" where
  "from_record X r refund_settled =
     \<lparr> pb_id = ba_id r, pb_status = ba_status r,
       pb_paid_escrow_grains = u256_to_dec X (ba_paid_escrow_grains r),
       pb_released_grains = u256_to_dec X (ba_released_grains r),
       pb_refunded_grains = u256_to_dec X (ba_refunded_grains r),
       pb_payer_api_key_id = ba_payer_api_key_id r,
       pb_x402_payer = map_option (\<lambda>p. ''0x'' @ hex_encode X (h160_bytes p)) (ba_x402_payer r),
       pb_read_token_hash = ba_read_token_hash r,
       pb_slots = map (\<lambda>s. \<lparr> ps_state = sl_state s, ps_request = sl_request s,
           ps_quoted_cost_grains = u256_to_dec X (sl_quoted_cost_grains s),
           ps_error = sl_error s \<rparr>) (ba_slots r),
       pb_created_at = ba_created_at r, pb_refund_settled = refund_settled \<rparr>"

definition parse_grains :: "x402_lib \<Rightarrow> string \<Rightarrow> u256" where
  "parse_grains X s = (case u256_of_dec X s of Inl e \<Rightarrow> 0 | Inr n \<Rightarrow> n)"

definition parse_h160_hex :: "x402_lib \<Rightarrow> string \<Rightarrow> h160 option" where
  "parse_h160_hex X s =
     (case hex_decode X (case strip_prefix ''0x'' s of None \<Rightarrow> s | Some r \<Rightarrow> r) of
        Inl e \<Rightarrow> None
      | Inr b \<Rightarrow> if length b = 20 then Some (word_from_slice b) else None)"

definition into_record :: "x402_lib \<Rightarrow> persisted_batch \<Rightarrow> batch_record" where
  "into_record X p =
     \<lparr> ba_id = pb_id p, ba_status = pb_status p,
       ba_paid_escrow_grains = parse_grains X (pb_paid_escrow_grains p),
       ba_released_grains = parse_grains X (pb_released_grains p),
       ba_refunded_grains = parse_grains X (pb_refunded_grains p),
       ba_payer_api_key_id = pb_payer_api_key_id p,
       ba_x402_payer = Option.bind (pb_x402_payer p) (parse_h160_hex X),
       ba_read_token_hash = pb_read_token_hash p,
       ba_slots = map (\<lambda>s. \<lparr> sl_state = ps_state s, sl_request = ps_request s,
           sl_quoted_cost_grains = parse_grains X (ps_quoted_cost_grains s),
           sl_response = None, sl_error = ps_error s \<rparr>) (pb_slots p),
       ba_created_at = pb_created_at p \<rparr>"

section \<open>The store\<close>

record 'w batch_state =
  bs_keys :: "'w key_store"
  bs_persistent :: bool
  bs_live :: "(string \<times> batch_record) list"

text \<open>The platform of the durable store with its master key, the text codecs and
  the JSON form of a persisted batch.\<close>

record 'w batch_env =
  be_platform :: "'w platform"
  be_master :: bytes
  be_lib :: x402_lib
  be_encode :: "persisted_batch \<Rightarrow> bytes"
  be_decode :: "bytes \<Rightarrow> string + persisted_batch"

definition on_store ::
  "('w \<Rightarrow> 'a \<times> 'w) \<Rightarrow> ('w, 'z) batch_state_scheme \<Rightarrow> 'a \<times> ('w, 'z) batch_state_scheme" where
  "on_store f s =
     (case f (as_world (bs_keys s)) of
        (r, w) \<Rightarrow> (r, s\<lparr> bs_keys := (bs_keys s)\<lparr> as_world := w \<rparr> \<rparr>))"

definition publish :: "batch_record \<Rightarrow> ('w, 'z) batch_state_scheme \<Rightarrow> ('w, 'z) batch_state_scheme" where
  "publish r s = s\<lparr> bs_live := AList.update (ba_id r) r (bs_live s) \<rparr>"

definition save_batch ::
  "'w batch_env \<Rightarrow> batch_record \<Rightarrow> bool \<Rightarrow> ('w, 'z) batch_state_scheme \<Rightarrow> ('w, 'z) batch_state_scheme"
where
  "save_batch E r settled s =
     snd (on_store (persist_batch (be_platform E) (be_master E) (ba_id r)
            (be_encode E (from_record (be_lib E) r settled))) s)"

definition batch_insert ::
  "'w batch_env \<Rightarrow> batch_record \<Rightarrow> ('w, 'z) batch_state_scheme \<Rightarrow> ('w, 'z) batch_state_scheme" where
  "batch_insert E r s = publish r (if bs_persistent s then save_batch E r False s else s)"

definition batch_get :: "string \<Rightarrow> ('w, 'z) batch_state_scheme \<Rightarrow> batch_record option" where
  "batch_get i s = map_of (bs_live s) i"

definition was_settled :: "'w batch_env \<Rightarrow> string \<Rightarrow> ('w, 'z) batch_state_scheme \<Rightarrow> bool" where
  "was_settled E i s =
     (case batch_was_settled (be_platform E) i (as_world (bs_keys s)) of
        Inl e \<Rightarrow> False | Inr b \<Rightarrow> b)"

definition checkpoint ::
  "'w batch_env \<Rightarrow> batch_record \<Rightarrow> ('w, 'z) batch_state_scheme \<Rightarrow> ('w, 'z) batch_state_scheme" where
  "checkpoint E r s =
     (if bs_persistent s then save_batch E r (was_settled E (ba_id r) s) s else s)"

section \<open>Settling the escrow\<close>

fun split_quoted_escrow :: "u256 \<Rightarrow> u256 \<Rightarrow> request_slot list \<Rightarrow> u256 \<times> u256" where
  "split_quoted_escrow released refund_sum [] = (released, refund_sum)"
| "split_quoted_escrow released refund_sum (s # slots) =
     (case sl_state s of
        Done \<Rightarrow> split_quoted_escrow (sat_add released (sl_quoted_cost_grains s)) refund_sum slots
      | Errored \<Rightarrow> split_quoted_escrow released (sat_add refund_sum (sl_quoted_cost_grains s)) slots
      | _ \<Rightarrow> split_quoted_escrow released refund_sum slots)"

text \<open>The durable settlement: one atomic write in each case. What is owed to a
  payer without a key is recorded as an obligation.\<close>

definition settle_durably ::
  "'w batch_env \<Rightarrow> string \<Rightarrow> string option \<Rightarrow> h160 option \<Rightarrow> u256 \<Rightarrow> bytes
    \<Rightarrow> ('w, 'z) batch_state_scheme \<Rightarrow> bool \<times> ('w, 'z) batch_state_scheme" where
  "settle_durably E batch_id payer x402_payer refund terminal_bytes s =
     (case (payer, 0 < refund) of
        (Some key_id, True) \<Rightarrow>
          (case on_store (settle_batch_refund (be_platform E) (be_master E) key_id refund batch_id
                            terminal_bytes) s of
             (r, s) \<Rightarrow> (\<not> isl r, s))
      | (None, True) \<Rightarrow>
          (case on_store (record_refund_owed (be_platform E) (be_master E) batch_id x402_payer refund
                            terminal_bytes) s of
             (r, s) \<Rightarrow> (\<not> isl r, s))
      | _ \<Rightarrow>
          (case on_store (mark_batch_settled (be_platform E) (be_master E) batch_id terminal_bytes) s of
             (r, s) \<Rightarrow> (\<not> isl r, s)))"

definition settle_batch ::
  "'w batch_env \<Rightarrow> string \<Rightarrow> string option \<Rightarrow> h160 option \<Rightarrow> u256 \<Rightarrow> bytes
    \<Rightarrow> ('w, 'z) batch_state_scheme \<Rightarrow> ('w, 'z) batch_state_scheme" where
  "settle_batch E batch_id payer x402_payer refund terminal_bytes s =
     (if bs_persistent s
      then snd (settle_durably E batch_id payer x402_payer refund terminal_bytes s)
      else if 0 < refund
      then case payer of
             Some key_id \<Rightarrow>
               s\<lparr> bs_keys := snd (keys_refund (be_platform E) (be_master E) key_id refund (bs_keys s)) \<rparr>
           | None \<Rightarrow> s
      else s)"

section \<open>Boot recovery\<close>

text \<open>One persisted batch reconciled: what was not done is refunded.\<close>

fun reconcile_slots :: "u256 \<Rightarrow> u256 \<Rightarrow> request_slot list \<Rightarrow> u256 \<times> u256 \<times> request_slot list" where
  "reconcile_slots released refund_sum [] = (released, refund_sum, [])"
| "reconcile_slots released refund_sum (s # slots) =
     (if sl_state s = Done
      then case reconcile_slots (sat_add released (sl_quoted_cost_grains s)) refund_sum slots of
             (a, b, out) \<Rightarrow> (a, b, s # out)
      else case reconcile_slots released (sat_add refund_sum (sl_quoted_cost_grains s)) slots of
             (a, b, out) \<Rightarrow>
               (a, b, s\<lparr> sl_state := Errored,
                   sl_error := Some (case sl_error s of
                     None \<Rightarrow> ''interrupted by gateway restart'' | Some e \<Rightarrow> e) \<rparr> # out))"

definition reconcile :: "batch_record \<Rightarrow> batch_record" where
  "reconcile r =
     (let total = request_count r; dones = completed_count r
      in case reconcile_slots 0 0 (ba_slots r) of
           (released, refund_sum, slots) \<Rightarrow>
             r\<lparr> ba_slots := slots, ba_released_grains := released, ba_refunded_grains := refund_sum,
                ba_status := (if dones = total then Completed
                              else if dones = 0 then AllFailed else PartialFailure) \<rparr>)"

definition recover_one ::
  "'w batch_env \<Rightarrow> string \<Rightarrow> persisted_batch \<Rightarrow> ('w, 'z) batch_state_scheme
    \<Rightarrow> nat \<times> ('w, 'z) batch_state_scheme" where
  "recover_one E i pb s =
     (let record = into_record (be_lib E) pb
      in if was_settled E i s then (0, s\<lparr> bs_live := AList.update i record (bs_live s) \<rparr>)
         else
           let record = reconcile record;
               bytes = be_encode E (from_record (be_lib E) record True);
               s = snd (settle_durably E i (ba_payer_api_key_id record) (ba_x402_payer record)
                          (ba_refunded_grains record) bytes s)
           in (1, s\<lparr> bs_live := AList.update i record (bs_live s) \<rparr>))"

fun recover_rows ::
  "'w batch_env \<Rightarrow> (string \<times> bytes) list \<Rightarrow> nat \<Rightarrow> nat \<Rightarrow> ('w, 'z) batch_state_scheme
    \<Rightarrow> (nat \<times> nat) \<times> ('w, 'z) batch_state_scheme" where
  "recover_rows E [] rehydrated settled s = ((rehydrated, settled), s)"
| "recover_rows E ((i, b) # rows) rehydrated settled s =
     (case be_decode E b of
        Inl e \<Rightarrow> recover_rows E rows rehydrated settled s
      | Inr pb \<Rightarrow>
          (case recover_one E i pb s of
             (n, s) \<Rightarrow> recover_rows E rows (rehydrated + 1) (settled + n) s))"

definition recover ::
  "'w batch_env \<Rightarrow> ('w, 'z) batch_state_scheme \<Rightarrow> (nat \<times> nat) \<times> ('w, 'z) batch_state_scheme" where
  "recover E s =
     (if \<not> bs_persistent s then ((0, 0), s)
      else
        case load_batches (be_platform E) (be_master E) (as_world (bs_keys s)) of
          Inl e \<Rightarrow> ((0, 0), s)
        | Inr rows \<Rightarrow> recover_rows E rows 0 0 s)"

section \<open>Submission\<close>

definition too_many_requests :: "nat \<Rightarrow> gateway_error" where
  "too_many_requests n =
     BadRequest (''max '' @ dec_string max_batch_size @ '' requests per batch (got ''
                 @ dec_string n @ '')'')"

definition too_many_models :: "nat \<Rightarrow> gateway_error" where
  "too_many_models n =
     BadRequest (''max '' @ dec_string max_distinct_batch_models
                 @ '' distinct models per batch (got '' @ dec_string n @ '')'')"

fun check_requests :: "u32 \<Rightarrow> nat \<Rightarrow> chat_request list \<Rightarrow> gateway_error option" where
  "check_requests ceiling i [] = None"
| "check_requests ceiling i (r # rs) =
     (if cr_messages r = []
      then Some (BadRequest (''requests['' @ dec_string i @ ''].messages must be non-empty''))
      else if (case cr_max_tokens r of None \<Rightarrow> False | Some t \<Rightarrow> ceiling < t)
      then Some (BadRequest (''requests['' @ dec_string i
                   @ ''].max_tokens exceeds the maximum output-token ceiling of ''
                   @ dec_string (unat ceiling)))
      else check_requests ceiling (i + 1) rs)"

text \<open>The quotes: the slots with the total and the largest output budget, in the
  order of the requests.\<close>

fun quote_slots ::
  "'s gateway \<Rightarrow> u32 \<Rightarrow> u256 \<Rightarrow> u32 \<Rightarrow> request_slot list \<Rightarrow> chat_request list \<Rightarrow> 's
    \<Rightarrow> (gateway_error + (u256 \<times> u32 \<times> request_slot list)) \<times> 's" where
  "quote_slots G ceiling running largest slots [] s = (Inr (running, largest, slots), s)"
| "quote_slots G ceiling running largest slots (r # rs) s =
     (let request = r\<lparr> cr_max_tokens := clamp_max_tokens (cr_max_tokens r) ceiling \<rparr>
      in case quote_chat_request_cost G request s of
           (Inl e, s) \<Rightarrow> (Inl e, s)
         | (Inr (quoted, requested), s) \<Rightarrow>
             (case checked_add running quoted of
                None \<Rightarrow> (Inl (PricingUnavailable ''batch quote overflow''), s)
              | Some next \<Rightarrow>
                  quote_slots G ceiling next (max largest requested)
                    (slots @ [\<lparr> sl_state = Pending, sl_request = request,
                                sl_quoted_cost_grains = quoted, sl_response = None,
                                sl_error = None \<rparr>]) rs s))"

definition status_text :: "batch_status \<Rightarrow> string" where
  "status_text st =
     (case st of Submitted \<Rightarrow> ''submitted'' | Running \<Rightarrow> ''running'' | Completed \<Rightarrow> ''completed''
      | PartialFailure \<Rightarrow> ''partial_failure'' | AllFailed \<Rightarrow> ''failed'')"

definition build_status :: "x402_lib \<Rightarrow> batch_record \<Rightarrow> string option \<Rightarrow> json" where
  "build_status X r read_token =
     JObj ([(''object'', JStr ''batch''), (''batch_id'', JStr (ba_id r)),
            (''status'', JStr (status_text (ba_status r))),
            (''request_count'', JUint (request_count r)),
            (''completed_count'', JUint (completed_count r)),
            (''errored_count'', JUint (errored_count r)),
            (''created_at'', JUint (unat (ba_created_at r))),
            (''paid_escrow_grains'', JStr (u256_to_dec X (ba_paid_escrow_grains r))),
            (''released_grains'', JStr (u256_to_dec X (ba_released_grains r))),
            (''refunded_grains'', JStr (u256_to_dec X (ba_refunded_grains r)))]
           @ opt_field ''read_token'' read_token)"

text \<open>An accepted submission: the answer and the record its task will process.\<close>

definition accept_batch ::
  "'w batch_env \<Rightarrow> ('w, 'z) batch_state_scheme gateway \<Rightarrow> x402_paid \<Rightarrow> api_key_context option \<Rightarrow> u256
    \<Rightarrow> request_slot list \<Rightarrow> ('w, 'z) batch_state_scheme
    \<Rightarrow> (response \<times> batch_record) \<times> ('w, 'z) batch_state_scheme" where
  "accept_batch E G paid api_key required slots s =
     (case gw_uuid G s of
        (u, s) \<Rightarrow>
          (case (case api_key of
                   Some ctx \<Rightarrow> (None, s)
                 | None \<Rightarrow> (case gw_uuid G s of (t, s) \<Rightarrow> (Some (''brt_'' @ t), s))) of
             (read_token, s) \<Rightarrow>
               (case gw_now_secs G s of
                  (now, s) \<Rightarrow>
                    (let r = \<lparr> ba_id = ''batch_'' @ u, ba_status = Submitted,
                               ba_paid_escrow_grains = required, ba_released_grains = 0,
                               ba_refunded_grains = 0,
                               ba_payer_api_key_id = map_option kc_key_id api_key,
                               ba_x402_payer = (if api_key = None then Some (paid_payer paid) else None),
                               ba_read_token_hash = map_option (hash_key_id (be_platform E)) read_token,
                               ba_slots = slots, ba_created_at = now \<rparr>;
                         resp = json_response (be_lib E) 200 content_json
                                  (build_status (be_lib E) r read_token)
                     in ((if api_key \<noteq> None then resp\<lparr> rs_charge := Some required \<rparr> else resp, r),
                         batch_insert E r s)))))"

definition submit_batch_handler ::
  "'w batch_env \<Rightarrow> ('w, 'z) batch_state_scheme gateway \<Rightarrow> x402_paid \<Rightarrow> api_key_context option
    \<Rightarrow> batch_submit_request \<Rightarrow> ('w, 'z) batch_state_scheme
    \<Rightarrow> (gateway_error + (response \<times> batch_record)) \<times> ('w, 'z) batch_state_scheme" where
  "submit_batch_handler E G paid api_key req s =
     (let reqs = bq_requests req; ceiling = max_tokens_ceiling (gw_env G)
      in if reqs = [] then (Inl (BadRequest ''requests must be non-empty''), s)
         else if max_batch_size < length reqs then (Inl (too_many_requests (length reqs)), s)
         else if max_distinct_batch_models < length (distinct_models reqs)
         then (Inl (too_many_models (length (distinct_models reqs))), s)
         else
           case check_requests ceiling 0 reqs of
             Some e \<Rightarrow> (Inl e, s)
           | None \<Rightarrow>
               (case quote_slots G ceiling 0 default_max_tokens [] reqs s of
                  (Inl e, s) \<Rightarrow> (Inl e, s)
                | (Inr (required, largest, slots), s) \<Rightarrow>
                    if paid_amount_wei paid < required
                    then (Inl (Underfunded (u256_to_dec (be_lib E) (paid_amount_wei paid))
                                 (u256_to_dec (be_lib E) required) largest), s)
                    else
                      case accept_batch E G paid api_key required slots s of
                        (out, s) \<Rightarrow> (Inr out, s)))"

section \<open>Reads\<close>

definition batch_not_found :: "x402_lib \<Rightarrow> string \<Rightarrow> response" where
  "batch_not_found X i =
     json_response X 404 content_json (error_message_json (''unknown batch_id: '' @ i))"

definition presented_credential :: "(string \<times> string) list \<Rightarrow> string option" where
  "presented_credential headers =
     (case extract_bearer headers of
        Some b \<Rightarrow> Some b
      | None \<Rightarrow>
          (case Option.bind (map_of headers ''x-batch-read-token'') header_to_str of
             None \<Rightarrow> None
           | Some v \<Rightarrow> let t = str_trim v in if t = [] then None else Some t))"

definition batch_read_authorized ::
  "'w batch_env \<Rightarrow> batch_record \<Rightarrow> (string \<times> string) list \<Rightarrow> bool" where
  "batch_read_authorized E r headers =
     (let H = hash_key_id (be_platform E)
      in case presented_credential headers of
           None \<Rightarrow> False
         | Some presented \<Rightarrow>
             (case ba_payer_api_key_id r of
                Some owner \<Rightarrow> H presented = H owner
              | None \<Rightarrow>
                  (case ba_read_token_hash r of
                     Some token_hash \<Rightarrow> H presented = token_hash
                   | None \<Rightarrow> False)))"

definition get_batch_handler ::
  "'w batch_env \<Rightarrow> string \<Rightarrow> (string \<times> string) list \<Rightarrow> ('w, 'z) batch_state_scheme \<Rightarrow> response" where
  "get_batch_handler E i headers s =
     (case batch_get i s of
        Some r \<Rightarrow>
          if \<not> batch_read_authorized E r headers then batch_not_found (be_lib E) i
          else json_response (be_lib E) 200 content_json (build_status (be_lib E) r None)
      | None \<Rightarrow> batch_not_found (be_lib E) i)"

definition slot_line :: "nat \<Rightarrow> request_slot \<Rightarrow> json" where
  "slot_line i s =
     JObj ((''request_index'', JUint i) #
       (case sl_state s of
          Done \<Rightarrow> [(''status'', JStr ''completed''),
                  (''response'', case sl_response s of None \<Rightarrow> JNull | Some c \<Rightarrow> chat_response_json c)]
        | Errored \<Rightarrow> [(''status'', JStr ''errored''),
                     (''error'', JStr (case sl_error s of None \<Rightarrow> [] | Some e \<Rightarrow> e))]
        | Pending \<Rightarrow> [(''status'', JStr ''pending'')]
        | Dispatched \<Rightarrow> [(''status'', JStr ''dispatched'')]))"

definition get_batch_output_handler ::
  "'w batch_env \<Rightarrow> string \<Rightarrow> (string \<times> string) list \<Rightarrow> ('w, 'z) batch_state_scheme \<Rightarrow> response" where
  "get_batch_output_handler E i headers s =
     (case batch_get i s of
        None \<Rightarrow> batch_not_found (be_lib E) i
      | Some r \<Rightarrow>
          if \<not> batch_read_authorized E r headers then batch_not_found (be_lib E) i
          else
            \<lparr> rs_status = 200, rs_headers = [(''content-type'', ''application/x-ndjson'')],
              rs_body = concat (map (\<lambda>(j, sl). json_text (be_lib E) (slot_line j sl) @ [char_of (10 :: nat)])
                          (enumerate 0 (ba_slots r))),
              rs_body_broken = False, rs_charge = None \<rparr>)"

section \<open>The task\<close>

definition set_slot :: "nat \<Rightarrow> request_slot \<Rightarrow> batch_record \<Rightarrow> batch_record" where
  "set_slot i sl r = r\<lparr> ba_slots := (ba_slots r)[i := sl] \<rparr>"

definition finish_slot ::
  "'w batch_env \<Rightarrow> nat \<Rightarrow> request_slot \<Rightarrow> batch_record \<Rightarrow> ('w, 'z) batch_state_scheme
    \<Rightarrow> batch_record option \<times> ('w, 'z) batch_state_scheme" where
  "finish_slot E i sl r s =
     (let r = set_slot i sl r in (Some r, checkpoint E r (publish r s)))"

text \<open>One slot. The task is the only writer of its record, which polls read
  through the live map. \<open>None\<close> is the task's panic.\<close>

definition process_slot ::
  "'w batch_env \<Rightarrow> ('w, 'z) batch_state_scheme gateway \<Rightarrow> nat \<Rightarrow> batch_record
    \<Rightarrow> ('w, 'z) batch_state_scheme \<Rightarrow> batch_record option \<times> ('w, 'z) batch_state_scheme" where
  "process_slot E G i r s =
     (let sl = ba_slots r ! i
      in if slot_terminal sl then (Some r, s)
         else
           let sl = sl\<lparr> sl_state := Dispatched \<rparr>; r = set_slot i sl r; s = publish r s;
               req = (sl_request sl)\<lparr> cr_stream := False \<rparr>
           in case run_dispatch G req s of
                (Inr outcome, s) \<Rightarrow>
                  (case chat_completion G req outcome s of
                     (resp, s) \<Rightarrow>
                       finish_slot E i (sl\<lparr> sl_state := Done, sl_response := Some resp \<rparr>) r s)
              | (Inl (Failed e), s) \<Rightarrow>
                  finish_slot E i (sl\<lparr> sl_state := Errored, sl_error := Some (gateway_display e) \<rparr>) r s
              | (Inl Panicked, s) \<Rightarrow> (None, s))"

fun process_slots ::
  "'w batch_env \<Rightarrow> ('w, 'z) batch_state_scheme gateway \<Rightarrow> nat list \<Rightarrow> batch_record
    \<Rightarrow> ('w, 'z) batch_state_scheme \<Rightarrow> batch_record option \<times> ('w, 'z) batch_state_scheme" where
  "process_slots E G [] r s = (Some r, s)"
| "process_slots E G (i # is) r s =
     (case process_slot E G i r s of
        (None, s) \<Rightarrow> (None, s)
      | (Some r, s) \<Rightarrow> process_slots E G is r s)"

definition close_batch :: "batch_record \<Rightarrow> batch_record" where
  "close_batch r =
     (let total = request_count r; dones = completed_count r; errs = errored_count r
      in case split_quoted_escrow 0 0 (ba_slots r) of
           (released, refund_sum) \<Rightarrow>
             r\<lparr> ba_released_grains := released, ba_refunded_grains := refund_sum,
                ba_status := (if dones = total then Completed
                              else if errs = total then AllFailed else PartialFailure) \<rparr>)"

definition process_batch ::
  "'w batch_env \<Rightarrow> ('w, 'z) batch_state_scheme gateway \<Rightarrow> batch_record
    \<Rightarrow> ('w, 'z) batch_state_scheme \<Rightarrow> batch_record option \<times> ('w, 'z) batch_state_scheme" where
  "process_batch E G r s =
     (let r = r\<lparr> ba_status := Running \<rparr>; s = publish r s
      in case process_slots E G [0 ..< length (ba_slots r)] r s of
           (None, s) \<Rightarrow> (None, s)
         | (Some r, s) \<Rightarrow>
             let r = close_batch r; s = publish r s;
                 bytes = be_encode E (from_record (be_lib E) r True)
             in (Some r, settle_batch E (ba_id r) (ba_payer_api_key_id r) (ba_x402_payer r)
                           (ba_refunded_grains r) bytes s))"

end
