(* ===== verification/Batch_Escrow.thy ===== *)
theory Batch_Escrow
  imports Batch
begin

text \<open>
  What holds of a batch's record at every moment of its life: it is well formed
  from its submission on, its escrow is the sum of its slots' quotes, a slot
  that is done stays as it is, and when the task ends every slot is done or
  errored and the escrow is split without remainder.
\<close>

section \<open>Well-formed batches\<close>

definition quotes :: "request_slot list \<Rightarrow> nat" where
  "quotes slots = (\<Sum>sl\<leftarrow>slots. unat (sl_quoted_cost_grains sl))"

text \<open>Completed means that all slots are done, failed that all are errored, and
  a terminal batch has no open slot.\<close>

definition status_ok :: "batch_record \<Rightarrow> bool" where
  "status_ok r \<longleftrightarrow>
     (is_terminal (ba_status r) \<longrightarrow> all_terminal r) \<and>
     (ba_status r = Completed \<longrightarrow> list_all (\<lambda>sl. sl_state sl = Done) (ba_slots r)) \<and>
     (ba_status r = AllFailed \<longrightarrow> list_all (\<lambda>sl. sl_state sl = Errored) (ba_slots r))"

text \<open>Between one and a thousand slots; an escrow that is exactly their quotes; a
  single owner, a key or else a payer with a read token; and no more released
  and refunded than was paid.\<close>

definition batch_ok :: "batch_record \<Rightarrow> bool" where
  "batch_ok r \<longleftrightarrow>
     ba_slots r \<noteq> [] \<and> length (ba_slots r) \<le> max_batch_size \<and>
     quotes (ba_slots r) = unat (ba_paid_escrow_grains r) \<and>
     (ba_payer_api_key_id r = None \<longleftrightarrow> ba_x402_payer r \<noteq> None) \<and>
     (ba_read_token_hash r = None \<longleftrightarrow> ba_x402_payer r = None) \<and>
     unat (ba_released_grains r) + unat (ba_refunded_grains r) \<le> unat (ba_paid_escrow_grains r) \<and>
     status_ok r"

lemma quotes_simps [simp]:
  "quotes [] = 0" "quotes (sl # slots) = unat (sl_quoted_cost_grains sl) + quotes slots"
  "quotes (slots @ slots') = quotes slots + quotes slots'"
  by (simp_all add: quotes_def)

lemma quotes_cong:
  "map sl_quoted_cost_grains slots = map sl_quoted_cost_grains slots' \<Longrightarrow> quotes slots = quotes slots'"
proof -
  have "quotes slots = (\<Sum>q\<leftarrow>map sl_quoted_cost_grains slots. unat q)" for slots
    by (simp add: quotes_def o_def)
  then show "map sl_quoted_cost_grains slots = map sl_quoted_cost_grains slots' \<Longrightarrow> ?thesis" by metis
qed

section \<open>Submission\<close>

lemma quote_slots_Inr:
  assumes "quote_slots G ceiling running largest slots reqs s = (Inr (required, big, out), s')"
    and "quotes slots = unat running"
  shows "quotes out = unat required \<and> (\<exists>new. out = slots @ new
    \<and> map sl_request new = map (\<lambda>r. r\<lparr> cr_max_tokens := clamp_max_tokens (cr_max_tokens r) ceiling \<rparr>) reqs
    \<and> list_all (\<lambda>sl. sl_state sl = Pending \<and> sl_response sl = None \<and> sl_error sl = None) new)"
  using assms
proof (induction G ceiling running largest slots reqs s
    arbitrary: required big out s' rule: quote_slots.induct)
  case (2 G ceiling running largest slots r rs s)
  define req where "req = r\<lparr> cr_max_tokens := clamp_max_tokens (cr_max_tokens r) ceiling \<rparr>"
  obtain quoted requested s1 nxt
    where q: "quote_chat_request_cost G req s = (Inr (quoted, requested), s1)"
      and c: "checked_add running quoted = Some nxt"
      and rest: "quote_slots G ceiling nxt (max largest requested)
        (slots @ [\<lparr> sl_state = Pending, sl_request = req, sl_quoted_cost_grains = quoted,
                    sl_response = None, sl_error = None \<rparr>]) rs s1 = (Inr (required, big, out), s')"
    using "2.prems"(1)
    by (auto simp: req_def [symmetric] Let_def split: prod.splits sum.splits option.splits)
  have "unat nxt = unat running + unat quoted" using c by (simp add: arith_word)
  with "2.prems"(2) have "quotes (slots @ [\<lparr> sl_state = Pending, sl_request = req,
      sl_quoted_cost_grains = quoted, sl_response = None, sl_error = None \<rparr>]) = unat nxt" by simp
  from "2.IH" [OF req_def q [symmetric] refl refl c rest this]
  show ?case by (auto simp: req_def)
qed simp

lemma accept_batch_record:
  assumes "accept_batch E G paid api_key required slots s = ((resp, r), s')"
  shows "\<exists>u token now t. r = \<lparr> ba_id = ''batch_'' @ u, ba_status = Submitted,
      ba_paid_escrow_grains = required, ba_released_grains = 0, ba_refunded_grains = 0,
      ba_payer_api_key_id = map_option kc_key_id api_key,
      ba_x402_payer = (if api_key = None then Some (paid_payer paid) else None),
      ba_read_token_hash = map_option (hash_key_id (be_platform E)) token,
      ba_slots = slots, ba_created_at = now \<rparr>
    \<and> (token = None \<longleftrightarrow> api_key \<noteq> None) \<and> s' = batch_insert E r t
    \<and> rs_charge resp = (if api_key = None then None else Some required) \<and> rs_status resp = 200"
proof -
  obtain u s1 where u: "gw_uuid G s = (u, s1)" by (cases "gw_uuid G s")
  obtain token s2 where t: "(case api_key of Some ctx \<Rightarrow> (None, s1)
      | None \<Rightarrow> (case gw_uuid G s1 of (t, s) \<Rightarrow> (Some (''brt_'' @ t), s))) = (token, s2)"
      "token = None \<longleftrightarrow> api_key \<noteq> None"
    by (cases api_key; cases "gw_uuid G s1") auto
  obtain now s3 where n: "gw_now_secs G s2 = (now, s3)" by (cases "gw_now_secs G s2")
  show ?thesis
    using assms t(2)
    by (intro exI [of _ u] exI [of _ token] exI [of _ now] exI [of _ s3])
      (simp add: accept_batch_def Let_def u t(1) n json_response_def; auto)
qed

lemma batch_get_inserted [simp]: "batch_get (ba_id r) (batch_insert E r s) = Some r"
  by (simp add: batch_insert_def publish_def batch_get_def update_conv')

lemma submit_Inr:
  assumes "submit_batch_handler E G paid api_key req s = (Inr (resp, r), s')"
  shows "\<exists>required big slots s1.
    quote_slots G (max_tokens_ceiling (gw_env G)) 0 default_max_tokens [] (bq_requests req) s
      = (Inr (required, big, slots), s1)
    \<and> required \<le> paid_amount_wei paid \<and> bq_requests req \<noteq> []
    \<and> length (bq_requests req) \<le> max_batch_size
    \<and> length (distinct_models (bq_requests req)) \<le> max_distinct_batch_models
    \<and> check_requests (max_tokens_ceiling (gw_env G)) 0 (bq_requests req) = None
    \<and> accept_batch E G paid api_key required slots s1 = ((resp, r), s')"
  using assms
  by (auto simp: submit_batch_handler_def Let_def not_less split: if_splits option.splits prod.splits sum.splits)

lemma submitted_ok:
  assumes "submit_batch_handler E G paid api_key req s = (Inr (resp, r), s')"
  shows "batch_ok r \<and> ba_status r = Submitted \<and> ba_paid_escrow_grains r \<le> paid_amount_wei paid
    \<and> map sl_request (ba_slots r) = map (\<lambda>q. q\<lparr> cr_max_tokens :=
        clamp_max_tokens (cr_max_tokens q) (max_tokens_ceiling (gw_env G)) \<rparr>) (bq_requests req)
    \<and> list_all (\<lambda>sl. sl_state sl = Pending) (ba_slots r)
    \<and> ba_payer_api_key_id r = map_option kc_key_id api_key
    \<and> rs_charge resp = (if api_key = None then None else Some (ba_paid_escrow_grains r))
    \<and> batch_get (ba_id r) s' = Some r"
proof -
  obtain required big slots s1
    where q: "quote_slots G (max_tokens_ceiling (gw_env G)) 0 default_max_tokens [] (bq_requests req) s
      = (Inr (required, big, slots), s1)"
      and n: "required \<le> paid_amount_wei paid" "bq_requests req \<noteq> []"
        "length (bq_requests req) \<le> max_batch_size"
      and a: "accept_batch E G paid api_key required slots s1 = ((resp, r), s')"
    using submit_Inr [OF assms] by blast
  have slots: "quotes slots = unat required"
      "map sl_request slots = map (\<lambda>q. q\<lparr> cr_max_tokens :=
        clamp_max_tokens (cr_max_tokens q) (max_tokens_ceiling (gw_env G)) \<rparr>) (bq_requests req)"
      "list_all (\<lambda>sl. sl_state sl = Pending \<and> sl_response sl = None \<and> sl_error sl = None) slots"
    using quote_slots_Inr [OF q] by auto
  have l: "length slots = length (bq_requests req)" using arg_cong [OF slots(2), of length] by simp
  have p: "list_all (\<lambda>sl. sl_state sl = Pending) slots" using slots(3) by (simp add: list_all_iff)
  obtain u token now t where r: "r = \<lparr> ba_id = ''batch_'' @ u, ba_status = Submitted,
      ba_paid_escrow_grains = required, ba_released_grains = 0, ba_refunded_grains = 0,
      ba_payer_api_key_id = map_option kc_key_id api_key,
      ba_x402_payer = (if api_key = None then Some (paid_payer paid) else None),
      ba_read_token_hash = map_option (hash_key_id (be_platform E)) token,
      ba_slots = slots, ba_created_at = now \<rparr>"
    and t: "token = None \<longleftrightarrow> api_key \<noteq> None" "s' = batch_insert E r t"
      "rs_charge resp = (if api_key = None then None else Some required)"
    using accept_batch_record [OF a] by blast
  have "batch_get (ba_id r) s' = Some r" unfolding t(2) by (rule batch_get_inserted)
  with slots(1,2) p n l t show ?thesis
    by (auto simp: batch_ok_def status_ok_def r)
qed

text \<open>C19. An accepted batch is well formed: its record has one pending slot for each
  request, in order, with the output budget cut to the ceiling; its escrow is
  exactly the sum of the slots' quotes and no more than what was paid; it
  belongs to the key that submitted it or else to the payer with a fresh read
  token; a key is charged exactly the escrow; and the record is in the store
  under its identifier.\<close>

theorem submission_well_formed:
  assumes "submit_batch_handler E G paid api_key req s = (Inr (resp, r), s')"
  shows "batch_ok r \<and> ba_status r = Submitted \<and> ba_paid_escrow_grains r \<le> paid_amount_wei paid
    \<and> map sl_request (ba_slots r) = map (\<lambda>q. q\<lparr> cr_max_tokens :=
        clamp_max_tokens (cr_max_tokens q) (max_tokens_ceiling (gw_env G)) \<rparr>) (bq_requests req)
    \<and> list_all (\<lambda>sl. sl_state sl = Pending) (ba_slots r)
    \<and> ba_payer_api_key_id r = map_option kc_key_id api_key
    \<and> rs_charge resp = (if api_key = None then None else Some (ba_paid_escrow_grains r))
    \<and> batch_get (ba_id r) s' = Some r"
  by (rule submitted_ok [OF assms])

section \<open>Progress of the slots\<close>

text \<open>The slots may change their state and outcome, never their request or
  quote; what is terminal stays.\<close>

definition advances :: "batch_record \<Rightarrow> batch_record \<Rightarrow> bool" where
  "advances r r' \<longleftrightarrow>
     r' = r\<lparr> ba_slots := ba_slots r' \<rparr> \<and> length (ba_slots r') = length (ba_slots r) \<and>
     (\<forall>j<length (ba_slots r).
        sl_quoted_cost_grains (ba_slots r' ! j) = sl_quoted_cost_grains (ba_slots r ! j) \<and>
        sl_request (ba_slots r' ! j) = sl_request (ba_slots r ! j) \<and>
        (slot_terminal (ba_slots r ! j) \<longrightarrow> ba_slots r' ! j = ba_slots r ! j))"

lemma advances_refl [simp]: "advances r r"
  by (simp add: advances_def)

lemma advances_fields:
  assumes "advances r r'"
  shows "ba_id r' = ba_id r" "ba_status r' = ba_status r"
    "ba_paid_escrow_grains r' = ba_paid_escrow_grains r" "ba_x402_payer r' = ba_x402_payer r"
    "ba_payer_api_key_id r' = ba_payer_api_key_id r" "ba_read_token_hash r' = ba_read_token_hash r"
    "ba_released_grains r' = ba_released_grains r" "ba_refunded_grains r' = ba_refunded_grains r"
    "length (ba_slots r') = length (ba_slots r)"
  using assms
  by (metis advances_def batch_record.select_convs batch_record.surjective batch_record.update_convs(9))+

lemma advances_nth:
  assumes "advances r r'" "j < length (ba_slots r)"
  shows "sl_quoted_cost_grains (ba_slots r' ! j) = sl_quoted_cost_grains (ba_slots r ! j)"
    and "slot_terminal (ba_slots r ! j) \<Longrightarrow> ba_slots r' ! j = ba_slots r ! j"
  using assms unfolding advances_def by blast+

lemma advances_trans: "advances r r1 \<Longrightarrow> advances r1 r2 \<Longrightarrow> advances r r2"
  by (cases r; cases r1; cases r2) (auto simp: advances_def)

lemma advances_quotes:
  assumes "advances r r'"
  shows "quotes (ba_slots r') = quotes (ba_slots r)"
  by (rule quotes_cong, rule nth_equalityI)
    (use advances_nth(1) [OF assms] advances_fields(9) [OF assms] in simp_all)

lemma set_slot_twice [simp]: "set_slot i sl (set_slot i sl' r) = set_slot i sl r"
  by (simp add: set_slot_def)

lemma set_slot_id [simp]: "ba_id (set_slot i sl r) = ba_id r"
  by (simp add: set_slot_def)

lemma process_slot_cases:
  assumes "process_slot E G i r s = (Some r', s')"
  obtains (skipped) "slot_terminal (ba_slots r ! i)" "r' = r" "s' = s"
  | (worked) sl where "\<not> slot_terminal (ba_slots r ! i)" "r' = set_slot i sl r" "slot_terminal sl"
      "sl_quoted_cost_grains sl = sl_quoted_cost_grains (ba_slots r ! i)"
      "sl_request sl = sl_request (ba_slots r ! i)"
proof (cases "slot_terminal (ba_slots r ! i)")
  case True
  with assms show thesis by (intro skipped) (simp_all add: process_slot_def)
next
  case False
  define sl where "sl = (ba_slots r ! i)\<lparr> sl_state := Dispatched \<rparr>"
  define r1 where "r1 = set_slot i sl r"
  define s1 where "s1 = publish r1 s"
  obtain x s2 where d: "run_dispatch G ((sl_request sl)\<lparr> cr_stream := False \<rparr>) s1 = (x, s2)"
    by (cases "run_dispatch G ((sl_request sl)\<lparr> cr_stream := False \<rparr>) s1")
  note A = assms [unfolded process_slot_def Let_def, folded sl_def, folded r1_def, folded s1_def,
      unfolded d]
  have "\<exists>sl'. r' = set_slot i sl' r1 \<and> slot_terminal sl' \<and> sl_quoted_cost_grains sl' = sl_quoted_cost_grains sl
      \<and> sl_request sl' = sl_request sl"
  proof (cases x)
    case (Inl f)
    with A False obtain e where
      "finish_slot E i (sl\<lparr> sl_state := Errored, sl_error := Some (gateway_display e) \<rparr>) r1 s2 = (Some r', s')"
      by (cases f) auto
    then show ?thesis
      by (intro exI [of _ "sl\<lparr> sl_state := Errored, sl_error := Some (gateway_display e) \<rparr>"])
        (simp add: finish_slot_def Let_def slot_terminal_def)
  next
    case (Inr o')
    obtain resp s3 where "chat_completion G ((sl_request sl)\<lparr> cr_stream := False \<rparr>) o' s2 = (resp, s3)"
      by (cases "chat_completion G ((sl_request sl)\<lparr> cr_stream := False \<rparr>) o' s2")
    with A False Inr have
      "finish_slot E i (sl\<lparr> sl_state := Done, sl_response := Some resp \<rparr>) r1 s3 = (Some r', s')"
      by simp
    then show ?thesis
      by (intro exI [of _ "sl\<lparr> sl_state := Done, sl_response := Some resp \<rparr>"])
        (simp add: finish_slot_def Let_def slot_terminal_def)
  qed
  then obtain sl' where "r' = set_slot i sl' r1" "slot_terminal sl'"
      "sl_quoted_cost_grains sl' = sl_quoted_cost_grains sl" "sl_request sl' = sl_request sl"
    by blast
  with False show thesis by (intro worked [of sl']) (simp_all add: sl_def r1_def)
qed

lemma process_slot_advances:
  assumes p: "process_slot E G i r s = (Some r', s')" and i: "i < length (ba_slots r)"
  shows "advances r r' \<and> slot_terminal (ba_slots r' ! i)"
  by (rule process_slot_cases [OF p])
    (use i in \<open>auto simp: advances_def set_slot_def nth_list_update\<close>)

lemma process_slots_advances:
  assumes "process_slots E G is r s = (Some r', s')" and "\<forall>i\<in>set is. i < length (ba_slots r)"
  shows "advances r r' \<and> (\<forall>i\<in>set is. slot_terminal (ba_slots r' ! i))"
  using assms
proof (induction "is" arbitrary: r s)
  case (Cons i "is")
  obtain r1 s1 where p: "process_slot E G i r s = (Some r1, s1)"
    and rest: "process_slots E G is r1 s1 = (Some r', s')"
    using Cons.prems(1) by (auto split: prod.splits option.splits)
  have i: "i < length (ba_slots r)" using Cons.prems(2) by simp
  note a = process_slot_advances [OF p i]
  have l: "length (ba_slots r1) = length (ba_slots r)" using a advances_fields(9) by blast
  have ih: "advances r1 r' \<and> (\<forall>i\<in>set is. slot_terminal (ba_slots r' ! i))"
    using Cons.IH [OF rest] Cons.prems(2) l by auto
  have "ba_slots r' ! i = ba_slots r1 ! i" using advances_nth(2) [of r1 r' i] ih a i l by simp
  with ih a advances_trans [of r r1 r'] show ?case by simp
qed simp

section \<open>Splitting the escrow\<close>

abbreviation done_slots :: "request_slot list \<Rightarrow> request_slot list" where
  "done_slots slots \<equiv> filter (\<lambda>sl. sl_state sl = Done) slots"

abbreviation errored_slots :: "request_slot list \<Rightarrow> request_slot list" where
  "errored_slots slots \<equiv> filter (\<lambda>sl. sl_state sl = Errored) slots"

lemma split_escrow:
  assumes "split_quoted_escrow a b slots = (a', b')"
    and "unat a + unat b + quotes slots < 2 ^ 256"
  shows "unat a' = unat a + quotes (done_slots slots) \<and> unat b' = unat b + quotes (errored_slots slots)"
  using assms
proof (induction a b slots rule: split_quoted_escrow.induct)
  case (2 a b sl slots)
  show ?case
  proof (cases "sl_state sl")
    case Done
    have "unat (sat_add a (sl_quoted_cost_grains sl)) = unat a + unat (sl_quoted_cost_grains sl)"
      using "2.prems"(2) by (intro sat_add_exact) simp
    with 2 Done show ?thesis by simp
  next
    case Errored
    have "unat (sat_add b (sl_quoted_cost_grains sl)) = unat b + unat (sl_quoted_cost_grains sl)"
      using "2.prems"(2) by (intro sat_add_exact) simp
    with 2 Errored show ?thesis by simp
  qed (use 2 in simp_all)
qed simp

lemma quotes_parts:
  "quotes (done_slots slots) + quotes (errored_slots slots) \<le> quotes slots"
  "list_all slot_terminal slots \<Longrightarrow>
     quotes (done_slots slots) + quotes (errored_slots slots) = quotes slots"
  by (induction slots) (auto simp: slot_terminal_def)

lemma close_batch_escrow:
  assumes "quotes (ba_slots r) = unat (ba_paid_escrow_grains r)"
  shows "unat (ba_released_grains (close_batch r)) = quotes (done_slots (ba_slots r))"
    "unat (ba_refunded_grains (close_batch r)) = quotes (errored_slots (ba_slots r))"
proof -
  obtain a b where s: "split_quoted_escrow 0 0 (ba_slots r) = (a, b)" by fastforce
  have "quotes (ba_slots r) < 2 ^ 256"
    using assms unat_less_length [of "ba_paid_escrow_grains r"] by simp
  with split_escrow [OF s] s
  show "unat (ba_released_grains (close_batch r)) = quotes (done_slots (ba_slots r))"
    and "unat (ba_refunded_grains (close_batch r)) = quotes (errored_slots (ba_slots r))"
    by (simp_all add: close_batch_def Let_def)
qed

lemma count_all: "length (filter P xs) = length xs \<longleftrightarrow> list_all P xs"
  by (metis filter_True length_filter_less list_all_iff nat_less_le)

lemma close_batch_fields [simp]:
  "ba_id (close_batch r) = ba_id r" "ba_slots (close_batch r) = ba_slots r"
  "ba_paid_escrow_grains (close_batch r) = ba_paid_escrow_grains r"
  "ba_payer_api_key_id (close_batch r) = ba_payer_api_key_id r"
  "ba_x402_payer (close_batch r) = ba_x402_payer r"
  "ba_read_token_hash (close_batch r) = ba_read_token_hash r"
  by (simp_all add: close_batch_def Let_def split: prod.split)

lemma close_batch_status:
  "ba_status (close_batch r) = (if list_all (\<lambda>sl. sl_state sl = Done) (ba_slots r) then Completed
     else if list_all (\<lambda>sl. sl_state sl = Errored) (ba_slots r) then AllFailed else PartialFailure)"
  by (simp add: close_batch_def Let_def request_count_def completed_count_def errored_count_def
      count_all split: prod.split)

lemma close_batch_ok:
  assumes ok: "batch_ok r" and t: "all_terminal r"
  shows "batch_ok (close_batch r)" "is_terminal (ba_status (close_batch r))"
    "unat (ba_released_grains (close_batch r)) + unat (ba_refunded_grains (close_batch r))
       = unat (ba_paid_escrow_grains r)"
proof -
  have q: "quotes (ba_slots r) = unat (ba_paid_escrow_grains r)" using ok by (simp add: batch_ok_def)
  show e: "unat (ba_released_grains (close_batch r)) + unat (ba_refunded_grains (close_batch r))
       = unat (ba_paid_escrow_grains r)"
    using close_batch_escrow [OF q] quotes_parts(2) [of "ba_slots r"] t q by (simp add: all_terminal_def)
  show "is_terminal (ba_status (close_batch r))" by (simp add: close_batch_status)
  show "batch_ok (close_batch r)"
    using ok t e by (auto simp: batch_ok_def status_ok_def close_batch_status all_terminal_def)
qed

section \<open>The whole task\<close>

lemma batch_ok_advances:
  assumes ok: "batch_ok r" and a: "advances r r'"
  shows "batch_ok r'"
proof -
  note F = advances_fields [OF a] advances_quotes [OF a]
  have same: "ba_slots r' = ba_slots r" if "all_terminal r"
    by (rule nth_equalityI)
      (use that advances_nth(2) [OF a] F(9) in \<open>auto simp: all_terminal_def list_all_length\<close>)
  have st: "is_terminal (ba_status r) \<Longrightarrow> all_terminal r" using ok by (simp add: batch_ok_def status_ok_def)
  have "status_ok r'"
  proof (cases "is_terminal (ba_status r)")
    case True
    with same st have "ba_slots r' = ba_slots r" by blast
    with ok F(2) show ?thesis by (simp add: batch_ok_def status_ok_def all_terminal_def)
  next
    case False
    then show ?thesis by (cases "ba_status r") (simp_all add: status_ok_def F(2))
  qed
  moreover have "ba_slots r' \<noteq> []" using ok F(9) by (auto simp: batch_ok_def)
  ultimately show ?thesis using ok by (simp add: batch_ok_def F)
qed

lemma batch_ok_running: "batch_ok r \<Longrightarrow> batch_ok (r\<lparr> ba_status := Running \<rparr>)"
  by (simp add: batch_ok_def status_ok_def)

lemma process_batch_Some:
  assumes "process_batch E G r s = (Some r', s')"
  shows "\<exists>r1 s1. process_slots E G [0 ..< length (ba_slots r)] (r\<lparr> ba_status := Running \<rparr>)
      (publish (r\<lparr> ba_status := Running \<rparr>) s) = (Some r1, s1)
    \<and> r' = close_batch r1
    \<and> s' = settle_batch E (ba_id r') (ba_payer_api_key_id r') (ba_x402_payer r') (ba_refunded_grains r')
             (be_encode E (from_record (be_lib E) r' True)) (publish r' s1)"
  using assms by (auto simp: process_batch_def Let_def split: prod.splits option.splits)

text \<open>C20. When its task ends, a well-formed batch is terminal with every slot done or
  errored, and the escrow is settled without remainder: what is released is the
  sum of the quotes of the done slots, what is refunded the sum of the quotes
  of the errored ones, and together they are exactly what was paid. Slots that
  were already terminal, as after a recovery, have not been run again.\<close>

theorem finished_batch_settles_escrow:
  assumes ok: "batch_ok r" and p: "process_batch E G r s = (Some r', s')"
  shows "batch_ok r' \<and> is_terminal (ba_status r') \<and> all_terminal r'
    \<and> ba_paid_escrow_grains r' = ba_paid_escrow_grains r
    \<and> unat (ba_released_grains r') = quotes (done_slots (ba_slots r'))
    \<and> unat (ba_refunded_grains r') = quotes (errored_slots (ba_slots r'))
    \<and> unat (ba_released_grains r') + unat (ba_refunded_grains r') = unat (ba_paid_escrow_grains r)
    \<and> (\<forall>j<length (ba_slots r). slot_terminal (ba_slots r ! j) \<longrightarrow> ba_slots r' ! j = ba_slots r ! j)"
proof -
  define r0 where "r0 = r\<lparr> ba_status := Running \<rparr>"
  obtain r1 s1 where run: "process_slots E G [0 ..< length (ba_slots r)] r0 (publish r0 s) = (Some r1, s1)"
    and r': "r' = close_batch r1"
    using process_batch_Some [OF p] by (auto simp: r0_def)
  have l: "ba_slots r0 = ba_slots r" by (simp add: r0_def)
  have a: "advances r0 r1" and t: "\<forall>i<length (ba_slots r). slot_terminal (ba_slots r1 ! i)"
    using process_slots_advances [OF run] l by simp_all
  have ok1: "batch_ok r1" using batch_ok_advances [OF _ a] batch_ok_running [OF ok] by (simp add: r0_def)
  have all: "all_terminal r1" using t advances_fields(9) [OF a] l by (simp add: all_terminal_def list_all_length)
  have q: "quotes (ba_slots r1) = unat (ba_paid_escrow_grains r1)" using ok1 by (simp add: batch_ok_def)
  have paid: "ba_paid_escrow_grains r1 = ba_paid_escrow_grains r"
    using advances_fields(3) [OF a] by (simp add: r0_def)
  have kept: "\<forall>j<length (ba_slots r). slot_terminal (ba_slots r ! j) \<longrightarrow> ba_slots r1 ! j = ba_slots r ! j"
    using advances_nth(2) [OF a] by (simp add: l)
  show ?thesis
    using close_batch_ok [OF ok1 all] close_batch_escrow [OF q] all paid kept
    unfolding r' by (auto simp: all_terminal_def)
qed

section \<open>The durable form\<close>

definition without_responses :: "batch_record \<Rightarrow> batch_record" where
  "without_responses r = r\<lparr> ba_slots := map (\<lambda>sl. sl\<lparr> sl_response := None \<rparr>) (ba_slots r) \<rparr>"

lemma parse_grains_dec: "text_codecs_ok X \<Longrightarrow> parse_grains X (u256_to_dec X n) = n"
  by (simp add: parse_grains_def text_codecs_ok_def)

lemma parse_h160_prefixed: "text_codecs_ok X \<Longrightarrow> parse_h160_hex X (''0x'' @ hex_encode X (h160_bytes p)) = Some p"
  by (simp add: parse_h160_hex_def strip_prefix_def text_codecs_ok_def)

lemma reload:
  assumes "text_codecs_ok (be_lib E)" and "\<forall>p. be_decode E (be_encode E p) = Inr p"
  shows "\<exists>p. be_decode E (be_encode E (from_record (be_lib E) r settled)) = Inr p
    \<and> into_record (be_lib E) p = without_responses r"
proof -
  have "Option.bind (map_option (\<lambda>p. ''0x'' @ hex_encode (be_lib E) (h160_bytes p)) (ba_x402_payer r))
      (parse_h160_hex (be_lib E)) = ba_x402_payer r"
    using parse_h160_prefixed [OF assms(1)] by (cases "ba_x402_payer r") simp_all
  with assms show ?thesis
    by (simp add: from_record_def into_record_def without_responses_def parse_grains_dec)
qed

text \<open>C24. A batch reads back from its durable form as it was written, except that the
  bodies of its responses are not kept: states, requests, quotes, errors, the
  escrow, the owner and the payer all survive.\<close>

theorem reloaded_batch_is_the_batch:
  assumes "text_codecs_ok (be_lib E)" and "\<forall>p. be_decode E (be_encode E p) = Inr p"
  shows "\<exists>p. be_decode E (be_encode E (from_record (be_lib E) r settled)) = Inr p
    \<and> into_record (be_lib E) p = without_responses r"
  by (rule reload [OF assms])

section \<open>Every record there is\<close>

text \<open>The records of a batch over its life: submitted, started, published with a
  slot dispatched - which is also what a panic of the task leaves -, worked on slot by
  slot, closed when its slots are terminal, read back after a restart and, if
  it had not been settled, reconciled.\<close>

inductive batch_reachable ::
  "'w batch_env \<Rightarrow> ('w, 'z) batch_state_scheme gateway \<Rightarrow> batch_record \<Rightarrow> bool"
  for E G where
  submitted: "submit_batch_handler E G paid api_key req s = (Inr (resp, r), s')
    \<Longrightarrow> batch_reachable E G r"
| started: "batch_reachable E G r \<Longrightarrow> batch_reachable E G (r\<lparr> ba_status := Running \<rparr>)"
| dispatched: "batch_reachable E G r \<Longrightarrow> i < length (ba_slots r) \<Longrightarrow> \<not> slot_terminal (ba_slots r ! i)
    \<Longrightarrow> batch_reachable E G (set_slot i ((ba_slots r ! i)\<lparr> sl_state := Dispatched \<rparr>) r)"
| worked: "batch_reachable E G r \<Longrightarrow> i < length (ba_slots r)
    \<Longrightarrow> process_slot E G i r s = (Some r', s') \<Longrightarrow> batch_reachable E G r'"
| closed: "batch_reachable E G r \<Longrightarrow> all_terminal r \<Longrightarrow> batch_reachable E G (close_batch r)"
| reloaded: "batch_reachable E G r
    \<Longrightarrow> be_decode E (be_encode E (from_record (be_lib E) r settled)) = Inr p
    \<Longrightarrow> batch_reachable E G (into_record (be_lib E) p)"
| reconciled: "batch_reachable E G r \<Longrightarrow> batch_reachable E G (reconcile r)"

lemma without_responses_simps [simp]:
  "list_all (\<lambda>sl. sl_state sl = st) (map (\<lambda>sl. sl\<lparr> sl_response := None \<rparr>) slots)
     = list_all (\<lambda>sl. sl_state sl = st) slots"
  "list_all slot_terminal (map (\<lambda>sl. sl\<lparr> sl_response := None \<rparr>) slots) = list_all slot_terminal slots"
  "quotes (map (\<lambda>sl. sl\<lparr> sl_response := None \<rparr>) slots) = quotes slots"
  by (induction slots) (auto simp: slot_terminal_def)

lemma batch_ok_without_responses: "batch_ok r \<Longrightarrow> batch_ok (without_responses r)"
  by (simp add: batch_ok_def status_ok_def without_responses_def all_terminal_def)

lemma reconcile_slots_facts:
  assumes "reconcile_slots a b slots = (a', b', out)" and "unat a + unat b + quotes slots < 2 ^ 256"
  shows "unat a' = unat a + quotes (done_slots slots)"
    and "unat a' + unat b' = unat a + unat b + quotes slots"
    and "list_all slot_terminal out \<and> quotes out = quotes slots \<and> length out = length slots
      \<and> (list_all (\<lambda>sl. sl_state sl = Done) out \<longleftrightarrow> list_all (\<lambda>sl. sl_state sl = Done) slots)
      \<and> (list_all (\<lambda>sl. sl_state sl = Errored) out \<longleftrightarrow> done_slots slots = [])"
  using assms
proof (induction a b slots arbitrary: a' b' out rule: reconcile_slots.induct)
  case (2 a b sl slots)
  {
    case 1
    have "unat (sat_add a (sl_quoted_cost_grains sl)) = unat a + unat (sl_quoted_cost_grains sl)"
      "unat (sat_add b (sl_quoted_cost_grains sl)) = unat b + unat (sl_quoted_cost_grains sl)"
      using 1(2) by (intro sat_add_exact; simp)+
    with 1 "2.IH"(1,4) show ?case by (auto split: if_splits prod.splits)
  next
    case 2
    have "unat (sat_add a (sl_quoted_cost_grains sl)) = unat a + unat (sl_quoted_cost_grains sl)"
      "unat (sat_add b (sl_quoted_cost_grains sl)) = unat b + unat (sl_quoted_cost_grains sl)"
      using 2(2) by (intro sat_add_exact; simp)+
    with 2 "2.IH"(2,5) show ?case by (auto split: if_splits prod.splits)
  next
    case 3
    have "unat (sat_add a (sl_quoted_cost_grains sl)) = unat a + unat (sl_quoted_cost_grains sl)"
      "unat (sat_add b (sl_quoted_cost_grains sl)) = unat b + unat (sl_quoted_cost_grains sl)"
      using 3(2) by (intro sat_add_exact; simp)+
    with 3 "2.IH"(3,6) show ?case by (auto simp: slot_terminal_def split: if_splits prod.splits)
  }
qed simp_all

lemma reconcile_Inr:
  assumes ok: "batch_ok r"
  shows "ba_payer_api_key_id (reconcile r) = ba_payer_api_key_id r"
    and "ba_paid_escrow_grains (reconcile r) = ba_paid_escrow_grains r"
    and "unat (ba_released_grains (reconcile r)) = quotes (done_slots (ba_slots r))"
    and "unat (ba_released_grains (reconcile r)) + unat (ba_refunded_grains (reconcile r))
       = unat (ba_paid_escrow_grains r)"
    and "all_terminal (reconcile r) \<and> is_terminal (ba_status (reconcile r)) \<and> batch_ok (reconcile r)"
proof -
  obtain a b out where s: "reconcile_slots 0 0 (ba_slots r) = (a, b, out)" by (metis prod_cases3)
  have q: "quotes (ba_slots r) = unat (ba_paid_escrow_grains r)" using ok by (simp add: batch_ok_def)
  have lt: "unat (0 :: u256) + unat (0 :: u256) + quotes (ba_slots r) < 2 ^ 256"
    using q unat_less_length [of "ba_paid_escrow_grains r"] by simp
  note F = reconcile_slots_facts [OF s lt]
  have r: "ba_slots (reconcile r) = out" "ba_released_grains (reconcile r) = a"
      "ba_refunded_grains (reconcile r) = b"
      "ba_status (reconcile r) = (if list_all (\<lambda>sl. sl_state sl = Done) (ba_slots r) then Completed
         else if done_slots (ba_slots r) = [] then AllFailed else PartialFailure)"
    using s by (simp_all add: reconcile_def Let_def request_count_def completed_count_def count_all)
  show keep: "ba_payer_api_key_id (reconcile r) = ba_payer_api_key_id r"
    and paid: "ba_paid_escrow_grains (reconcile r) = ba_paid_escrow_grains r"
    by (simp_all add: reconcile_def Let_def s)
  have keep2: "ba_x402_payer (reconcile r) = ba_x402_payer r"
      "ba_read_token_hash (reconcile r) = ba_read_token_hash r"
    by (simp_all add: reconcile_def Let_def s)
  show "unat (ba_released_grains (reconcile r)) = quotes (done_slots (ba_slots r))"
    using F(1) r(2) by simp
  show sum: "unat (ba_released_grains (reconcile r)) + unat (ba_refunded_grains (reconcile r))
       = unat (ba_paid_escrow_grains r)"
    using F(2) r(2,3) q by simp
  have t: "all_terminal (reconcile r)" using F(3) r(1) by (simp add: all_terminal_def)
  moreover have "is_terminal (ba_status (reconcile r))" using r(4) by simp
  moreover have "batch_ok (reconcile r)"
    using ok F(3) sum t by (auto simp: batch_ok_def status_ok_def keep paid keep2 r(1,4))
  ultimately show "all_terminal (reconcile r) \<and> is_terminal (ba_status (reconcile r))
      \<and> batch_ok (reconcile r)" by simp
qed

text \<open>C23. Every record a batch ever has is well formed: from its submission, through
  every slot the task dispatches and works on, its closing, any number of restarts that read
  an older snapshot back, and the reconciliation of an interrupted batch.\<close>

theorem batch_always_well_formed:
  assumes r: "batch_reachable E G r" and codecs: "text_codecs_ok (be_lib E)"
    and json: "\<forall>p. be_decode E (be_encode E p) = Inr p"
  shows "batch_ok r"
  using r
proof (induction rule: batch_reachable.induct)
  case (submitted paid api_key req s resp r s')
  then show ?case using submitted_ok by blast
next
  case (dispatched r i)
  then have "advances r (set_slot i ((ba_slots r ! i)\<lparr> sl_state := Dispatched \<rparr>) r)"
    by (auto simp: advances_def set_slot_def nth_list_update)
  with dispatched.IH show ?case using batch_ok_advances by blast
next
  case (worked r i s r' s')
  then show ?case using process_slot_advances batch_ok_advances by blast
next
  case (reloaded r settled p)
  then have "into_record (be_lib E) p = without_responses r"
    using reload [OF codecs json, of r settled] by auto
  with reloaded.IH show ?case using batch_ok_without_responses by simp
next
  case (reconciled r)
  then show ?case using reconcile_Inr(5) by blast
qed (simp_all add: batch_ok_running close_batch_ok(1))

section \<open>The layer's price of a batch\<close>

lemma batch_quotes_agree:
  assumes "quote_batch G T running reqs s = (Inr price, s1)"
    and "check_requests (max_tokens_ceiling (gw_env G)) i reqs = None" and steady: "steady_prices G"
  shows "\<exists>big out s3. quote_slots G (max_tokens_ceiling (gw_env G)) running largest slots reqs s2
    = (Inr (price, big, out), s3)"
  using assms(1,2)
proof (induction reqs arbitrary: running s i largest slots s2)
  case (Cons r rs)
  define req where "req = r\<lparr> cr_max_tokens := clamp_max_tokens (cr_max_tokens r)
    (max_tokens_ceiling (gw_env G)) \<rparr>"
  have ok: "\<not> (cr_messages r = [] \<or>
         (case cr_max_tokens r of None \<Rightarrow> False | Some v \<Rightarrow> max_tokens_ceiling (gw_env G) < v))"
    and rest: "check_requests (max_tokens_ceiling (gw_env G)) (i + 1) rs = None"
    using Cons.prems(2) by (auto split: if_splits)
  obtain q t n where q: "quote_chat G r s = (Inr q, t)" and n: "checked_add running q = Some n"
    and b: "quote_batch G T n rs t = (Inr price, s1)"
    using Cons.prems(1) ok by (auto split: if_splits prod.splits sum.splits option.splits)
  have "quote_chat G req s = (Inr q, t)" using q by (simp add: quote_chat_def req_def)
  then obtain t2 where "quote_chat_request_cost G req s2
      = (Inr (q, requested_tokens (gw_env G) req), t2)"
    using quotes_agree [OF _ steady] by blast
  with n Cons.IH [OF b rest] show ?case by (simp add: req_def [symmetric] Let_def)
qed simp

lemma check_requests_error: "check_requests c i rs = Some e \<Longrightarrow> \<exists>msg. e = BadRequest msg"
  by (induction c i rs rule: check_requests.induct) (auto split: if_splits)

text \<open>The payment layers price a batch at exactly its escrow: while the oracle's
  answers stay the same, a batch paid at the layer's price is never turned away
  as underfunded, and when it is accepted the escrow is that price.\<close>

theorem layer_price_is_the_escrow:
  assumes body: "tp_parse_body T body = Inr v" "tp_as_chat T v = None" "tp_as_batch T v = Inr b"
    and layer: "price_for G T req body s = (Inr price, s1)" and steady: "steady_prices G"
    and paid: "price \<le> paid_amount_wei pay"
    and submit: "submit_batch_handler E G pay k b s2 = (x, s')"
  shows "x \<noteq> Inl (Underfunded m n t) \<and> (\<forall>resp r. x = Inr (resp, r) \<longrightarrow> ba_paid_escrow_grains r = price)"
proof (cases "bq_requests b = [] \<or> max_batch_size < length (bq_requests b)
    \<or> max_distinct_batch_models < length (distinct_models (bq_requests b))")
  case True
  with submit show ?thesis
    by (auto simp: submit_batch_handler_def too_many_requests_def too_many_models_def Let_def
        split: if_splits)
next
  case False
  let ?c = "max_tokens_ceiling (gw_env G)"
  have q: "quote_batch G T 0 (bq_requests b) s = (Inr price, s1)"
    using body layer False by (simp add: price_for_def Let_def)
  show ?thesis
  proof (cases "check_requests ?c 0 (bq_requests b)")
    case (Some e)
    obtain msg where "e = BadRequest msg" using check_requests_error [OF Some] by blast
    with Some submit False show ?thesis by (auto simp: submit_batch_handler_def Let_def)
  next
    case None
    obtain big out s3 where "quote_slots G ?c 0 default_max_tokens [] (bq_requests b) s2
        = (Inr (price, big, out), s3)"
      using batch_quotes_agree [OF q None steady] by blast
    note q = this
    obtain resp r t where acc: "accept_batch E G pay k price out s3 = ((resp, r), t)"
      by (metis prod.collapse)
    from submit False None leD [OF paid] q acc have "x = Inr (resp, r)"
      by (auto simp: submit_batch_handler_def Let_def)
    moreover have "ba_paid_escrow_grains r = price" using accept_batch_record [OF acc] by auto
    ultimately show ?thesis by simp
  qed
qed

section \<open>Who may read\<close>

text \<open>C22. A batch can be read only by its submitter. Both read handlers answer anyone
  else exactly as if the batch did not exist: an answer other than not-found
  means that the batch is live and the caller presented, as a bearer token or
  in the read-token header, a credential with the digest of the owning key, or,
  for a batch without a key, with the stored digest of its read token.\<close>

theorem batch_reads_bound_to_submitter:
  assumes "get_batch_handler E i headers s \<noteq> batch_not_found (be_lib E) i
    \<or> get_batch_output_handler E i headers s \<noteq> batch_not_found (be_lib E) i"
  shows "\<exists>r presented. batch_get i s = Some r \<and> presented_credential headers = Some presented
    \<and> (case ba_payer_api_key_id r of
         Some owner \<Rightarrow> hash_key_id (be_platform E) presented = hash_key_id (be_platform E) owner
       | None \<Rightarrow> ba_read_token_hash r = Some (hash_key_id (be_platform E) presented))"
  using assms
  by (auto simp: get_batch_handler_def get_batch_output_handler_def batch_read_authorized_def Let_def
      split: option.splits if_splits)

end
