(* ===== verification/Batch_Recovery.thy ===== *)
theory Batch_Recovery
  imports Batch_Escrow
begin

text \<open>
  Boot recovery and the accounts: what a settlement does to the balances and to
  the settled markers, and what the walk over all persisted batches adds up to.
\<close>

section \<open>One settlement\<close>

text \<open>The batch's marker was set between two states of the store.\<close>

definition newly_settled ::
  "'w platform \<Rightarrow> bytes \<Rightarrow> ('w \<Rightarrow> history) \<Rightarrow> 'w \<Rightarrow> 'w \<Rightarrow> string \<Rightarrow> bool" where
  "newly_settled P master hist w w' i \<longleftrightarrow>
     view P master hist w (batch_settled_key i) = None \<and>
     view P master hist w' (batch_settled_key i) \<noteq> None"

text \<open>What a settlement of batch \<open>i\<close> may do: the marker of no other batch moves,
  and the balances move only together with this batch's marker, by the refund
  to the payer's key.\<close>

definition settled_by ::
  "'w platform \<Rightarrow> bytes \<Rightarrow> ('w \<Rightarrow> history) \<Rightarrow> ('w \<Rightarrow> nat) \<Rightarrow> string \<Rightarrow> string option \<Rightarrow> u256 \<Rightarrow> 'w \<Rightarrow> 'w \<Rightarrow> bool"
where
  "settled_by P master hist durable i payer refund w w' \<longleftrightarrow>
     store_good P master hist durable w' \<and>
     (\<forall>j. j \<noteq> i \<longrightarrow> view P master hist w' (batch_settled_key j) = view P master hist w (batch_settled_key j)) \<and>
     balances P master hist w' =
       (case payer of
          Some k \<Rightarrow>
            if newly_settled P master hist w w' i
            then (balances P master hist w)(hash_key_id P k :=
                    map_option (\<lambda>b. sat_add b refund) (balances P master hist w (hash_key_id P k)))
            else balances P master hist w
        | None \<Rightarrow> balances P master hist w)"

lemma settled_by_same:
  assumes "store_good P master hist durable w'" and "view P master hist w' = view P master hist w"
  shows "settled_by P master hist durable i payer refund w w'"
  using assms balances_cong [OF assms(2)]
  by (auto simp: settled_by_def newly_settled_def split: option.split)

lemma view_other_marker [simp]:
  "batch_settled_key j \<noteq> bal_key h" "batch_settled_key j \<noteq> batch_key i"
  "batch_settled_key j = batch_settled_key i \<longleftrightarrow> j = i" "batch_settled_key j \<noteq> refund_owed_key i"
  "refund_owed_key i \<notin> range bal_key"
  by (auto simp: row_key_defs)

lemma write_marker:
  assumes good: "store_good P master hist durable w"
    and w: "write_sealed P master True kvs w = (r, w')"
    and kvs: "kvs = [(batch_key i, bs), (batch_settled_key i, [1])]
      \<or> (\<exists>o'. kvs = [(batch_key i, bs), (batch_settled_key i, [1]), (refund_owed_key i, o')])"
  shows "store_good P master hist durable w'
    \<and> (\<forall>j. j \<noteq> i \<longrightarrow> view P master hist w' (batch_settled_key j) = view P master hist w (batch_settled_key j))
    \<and> balances P master hist w' = balances P master hist w"
proof (cases r)
  case (Inl e)
  with sealed.write_error [OF good] sealed.write_good [OF good w] w balances_cong show ?thesis by metis
next
  case (Inr u)
  have v: "view P master hist w' = apply_batch kvs (view P master hist w)"
    using sealed.write_ok [OF good] w Inr by blast
  have "acct P (view P master hist w') = acct P (view P master hist w)"
    unfolding v using kvs by (auto simp: acct_upd_other apply_batch_def)
  moreover have "\<forall>j. j \<noteq> i \<longrightarrow> view P master hist w' (batch_settled_key j)
      = view P master hist w (batch_settled_key j)"
    unfolding v using kvs by (auto simp: apply_batch_def)
  ultimately show ?thesis
    using sealed.write_good [OF good w] by (auto simp: balances_def fun_eq_iff)
qed

lemma settle_refund_settled:
  assumes good: "store_good P master hist durable w"
    and s: "settle_batch_refund P master k refund i bs w = (r, w')"
  shows "settled_by P master hist durable i (Some k) refund w w'"
proof -
  note ok = store_good_platform [OF good]
  show ?thesis
  proof (rule settle_cases [OF good s])
    fix e assume h: "hist w' = hist w"
    show ?thesis
      by (rule settled_by_same) (use good in \<open>simp_all add: h store_good_def\<close>)
  next
    fix raw assume m: "replay (hist w) (batch_settled_key i) \<noteq> None"
      and h: "hist w' = hist w @ [[(batch_key i, raw)]]"
      and o: "open_value P master (batch_key i) raw = Inr bs"
    have v: "view P master hist w' = (view P master hist w)(batch_key i \<mapsto> bs)"
      unfolding h using plain_upd [OF o] by simp
    have "store_good P master hist durable w'"
      using good all_sealed_upd [OF o] by (simp add: store_good_def h)
    moreover have "\<not> newly_settled P master hist w w' i"
      using m marker_view [OF good] by (simp add: newly_settled_def)
    moreover have "balances P master hist w' = balances P master hist w"
      unfolding balances_def v by (simp add: acct_upd_other)
    ultimately show ?thesis by (simp add: settled_by_def v)
  next
    fix rec assume n: "replay (hist w) (batch_settled_key i) = None"
      and a: "acct P (view P master hist w) (hash_key_id P k) = Some rec"
      and g: "store_good P master hist durable w'"
      and v: "view P master hist w' = (view P master hist w)
         (bal_key (hash_key_id P k) \<mapsto> p_enc_balance P (set_balance rec (sat_add (br_balance rec) refund)),
          batch_key i \<mapsto> bs, batch_settled_key i \<mapsto> [1])"
    have c: "codecs_ok P" using platform_okD(3) [OF ok] .
    have "newly_settled P master hist w w' i"
      using n marker_view [OF good] by (simp add: newly_settled_def v)
    moreover have "balances P master hist w' = (balances P master hist w)(hash_key_id P k :=
        map_option (\<lambda>b. sat_add b refund) (balances P master hist w (hash_key_id P k)))"
      unfolding balances_def v by (rule ext) (simp add: acct_upd_other acct_upd [OF c] a)
    ultimately show ?thesis using g by (simp add: settled_by_def v)
  qed
qed

abbreviation store_of :: "('w, 'z) batch_state_scheme \<Rightarrow> 'w" where
  "store_of s \<equiv> as_world (bs_keys s)"

lemma on_store_world [simp]: "store_of (snd (on_store f s)) = snd (f (store_of s))"
  and on_store_fst [simp]: "fst (on_store f s) = fst (f (store_of s))"
  by (simp_all add: on_store_def split: prod.split)

text \<open>Without a refund, or without a key, the balances stay as they are.\<close>

lemma settle_durably_settled:
  assumes good: "store_good (be_platform E) (be_master E) hist durable (store_of s)"
    and s: "settle_durably E i payer x402 refund bs s = (ok, s')"
  shows "settled_by (be_platform E) (be_master E) hist durable i payer refund (store_of s) (store_of s')"
proof -
  let ?P = "be_platform E" and ?m = "be_master E" and ?w = "store_of s"
  consider (key) k where "payer = Some k" "0 < refund"
    | (owed) "payer = None" "0 < refund" | (mark) "refund = 0"
    by (cases payer) (auto simp: word_gt_0)
  then show ?thesis
  proof cases
    case key
    then have "store_of s' = snd (settle_batch_refund ?P ?m k refund i bs ?w)"
      using s by (auto simp: settle_durably_def on_store_def split: prod.splits)
    then show ?thesis
      using settle_refund_settled [OF good] key(1) by (metis prod.collapse)
  next
    case owed
    obtain now w1 where n: "p_now ?P ?w = (now, w1)" by fastforce
    have h: "hist w1 = hist ?w"
      using host_state(3) [OF platform_okD(2) [OF store_good_platform [OF good]] n] by simp
    have good1: "store_good ?P ?m hist durable w1" using good store_good_hist [of hist, OF h] by blast
    have w': "store_of s' = snd (record_refund_owed ?P ?m i x402 refund bs ?w)"
      using s owed by (auto simp: settle_durably_def on_store_def split: prod.splits)
    then obtain o' r where
      "write_sealed ?P ?m True [(batch_key i, bs), (batch_settled_key i, [1]), (refund_owed_key i, o')] w1
        = (r, store_of s')"
      using n by (auto simp: record_refund_owed_def Let_def try_then_def split: prod.splits sum.splits)
    from write_marker [OF good1 this] show ?thesis
      using balances_cong [of ?P ?m hist w1 ?w] by (simp add: settled_by_def owed(1) h)
  next
    case mark
    have w': "store_of s' = snd (mark_batch_settled ?P ?m i bs ?w)"
      using s mark by (auto simp: settle_durably_def on_store_def split: prod.splits option.splits)
    then obtain r where
      "write_sealed ?P ?m True [(batch_key i, bs), (batch_settled_key i, [1])] ?w = (r, store_of s')"
      by (auto simp: mark_batch_settled_def try_then_def split: prod.splits sum.splits)
    moreover have "sat_add b refund = b" for b
      using unat_less_length [of b] by (simp add: mark word_unat_eq_iff unat_sat_add)
    then have "map_option (\<lambda>b. sat_add b refund) x = x" for x by (cases x) simp_all
    ultimately show ?thesis
      using write_marker [OF good] by (auto simp: settled_by_def split: option.split)
  qed
qed

section \<open>All persisted batches\<close>

abbreviation undone_slots :: "request_slot list \<Rightarrow> request_slot list" where
  "undone_slots slots \<equiv> filter (\<lambda>sl. sl_state sl \<noteq> Done) slots"

text \<open>What a persisted row owes an account if it has to be reconciled: the quotes
  of its slots that were not done, when the account's key paid.\<close>

definition refund_due :: "'w batch_env \<Rightarrow> string \<Rightarrow> string \<times> bytes \<Rightarrow> nat" where
  "refund_due E h row =
     (case be_decode E (snd row) of
        Inl e \<Rightarrow> 0
      | Inr pb \<Rightarrow>
          let r = into_record (be_lib E) pb
          in if map_option (hash_key_id (be_platform E)) (ba_payer_api_key_id r) = Some h
             then quotes (undone_slots (ba_slots r)) else 0)"

lemma reconcile_slots_refund:
  assumes "reconcile_slots a b slots = (a', b', out)" and "unat b + quotes (undone_slots slots) < 2 ^ 256"
  shows "unat b' = unat b + quotes (undone_slots slots)"
  using assms
proof (induction a b slots arbitrary: a' b' out rule: reconcile_slots.induct)
  case (2 a b sl slots)
  show ?case
  proof (cases "sl_state sl = Done")
    case True
    with 2 show ?thesis by (auto split: prod.splits)
  next
    case False
    have "unat (sat_add b (sl_quoted_cost_grains sl)) = unat b + unat (sl_quoted_cost_grains sl)"
      using "2.prems"(2) False by (intro sat_add_exact) simp
    with 2 False show ?thesis by (auto split: prod.splits)
  qed
qed simp

lemma reconcile_payer [simp]: "ba_payer_api_key_id (reconcile r) = ba_payer_api_key_id r"
  by (simp add: reconcile_def Let_def split: prod.split)

lemma reconcile_refund:
  assumes "quotes (undone_slots (ba_slots r)) < 2 ^ 256"
  shows "unat (ba_refunded_grains (reconcile r)) = quotes (undone_slots (ba_slots r))"
proof -
  obtain a b out where s: "reconcile_slots 0 0 (ba_slots r) = (a, b, out)" by (metis prod_cases3)
  with reconcile_slots_refund [OF s] assms show ?thesis by (simp add: reconcile_def Let_def)
qed

lemma live_update_store [simp]: "bs_keys (s\<lparr> bs_live := L \<rparr>) = bs_keys s"
  by simp

lemma settled_by_balance:
  assumes s: "settled_by P master hist durable i payer refund w w'"
    and b: "balances P master hist w h = Some b"
    and due: "due = (if map_option (hash_key_id P) payer = Some h then unat refund else 0)"
    and fits: "unat b + due < 2 ^ 256"
  shows "\<exists>b'. balances P master hist w' h = Some b'
    \<and> unat b' = unat b + (if newly_settled P master hist w w' i then due else 0)"
proof (cases "newly_settled P master hist w w' i \<and> map_option (hash_key_id P) payer = Some h")
  case True
  then obtain k where k: "payer = Some k" "hash_key_id P k = h" by auto
  have "balances P master hist w' h = Some (sat_add b refund)"
    using s True k b by (simp add: settled_by_def)
  moreover have "unat (sat_add b refund) = unat b + unat refund"
    using fits due True by (intro sat_add_exact) simp
  ultimately show ?thesis using True due by simp
next
  case False
  then have "balances P master hist w' h = Some b"
    using s b by (auto simp: settled_by_def split: option.splits if_splits)
  with False due show ?thesis by auto
qed

lemma recover_one_balance:
  assumes good: "store_good (be_platform E) (be_master E) hist durable (store_of s)"
    and r: "recover_one E i pb s = (n, s')" and d: "be_decode E bs = Inr pb"
    and b: "balances (be_platform E) (be_master E) hist (store_of s) h = Some b"
    and fits: "unat b + refund_due E h (i, bs) < 2 ^ 256"
  shows "store_good (be_platform E) (be_master E) hist durable (store_of s')
    \<and> (\<forall>j. j \<noteq> i \<longrightarrow> view (be_platform E) (be_master E) hist (store_of s') (batch_settled_key j)
          = view (be_platform E) (be_master E) hist (store_of s) (batch_settled_key j))
    \<and> (\<exists>b'. balances (be_platform E) (be_master E) hist (store_of s') h = Some b'
        \<and> unat b' = unat b + (if newly_settled (be_platform E) (be_master E) hist (store_of s) (store_of s') i
                              then refund_due E h (i, bs) else 0))"
proof (cases "was_settled E i s")
  case True
  then have "store_of s' = store_of s" using r by (auto simp: recover_one_def Let_def)
  with good b show ?thesis by (auto simp: newly_settled_def)
next
  case False
  let ?P = "be_platform E"
  define rec where "rec = reconcile (into_record (be_lib E) pb)"
  obtain ok t where t: "settle_durably E i (ba_payer_api_key_id rec) (ba_x402_payer rec)
      (ba_refunded_grains rec) (be_encode E (from_record (be_lib E) rec True)) s = (ok, t)"
    by fastforce
  have w: "store_of s' = store_of t"
    using r False t by (auto simp: recover_one_def Let_def rec_def)
  note S = settle_durably_settled [OF good t, folded w]
  have due: "refund_due E h (i, bs) = (if map_option (hash_key_id ?P) (ba_payer_api_key_id rec) = Some h
      then quotes (undone_slots (ba_slots (into_record (be_lib E) pb))) else 0)"
    by (simp add: refund_due_def d rec_def Let_def)
  have "unat (ba_refunded_grains rec) = quotes (undone_slots (ba_slots (into_record (be_lib E) pb)))"
    if "map_option (hash_key_id ?P) (ba_payer_api_key_id rec) = Some h"
    unfolding rec_def by (rule reconcile_refund) (use fits due that in simp)
  with due have "refund_due E h (i, bs) = (if map_option (hash_key_id ?P) (ba_payer_api_key_id rec) = Some h
      then unat (ba_refunded_grains rec) else 0)" by auto
  from settled_by_balance [OF S b this fits] S show ?thesis by (auto simp: settled_by_def)
qed

text \<open>The sum over the rows whose marker this recovery set.\<close>

definition paid_by_recovery ::
  "'w batch_env \<Rightarrow> ('w \<Rightarrow> history) \<Rightarrow> string \<Rightarrow> (string \<times> bytes) list \<Rightarrow> 'w \<Rightarrow> 'w \<Rightarrow> nat" where
  "paid_by_recovery E hist h rows w w' =
     (\<Sum>row\<leftarrow>rows. if newly_settled (be_platform E) (be_master E) hist w w' (fst row)
                  then refund_due E h row else 0)"

lemma recover_rows_balance:
  assumes "recover_rows E rows m c s = (counts, s')" and "distinct (map fst rows)"
    and "store_good (be_platform E) (be_master E) hist durable (store_of s)"
    and "balances (be_platform E) (be_master E) hist (store_of s) h = Some b"
    and "unat b + (\<Sum>row\<leftarrow>rows. refund_due E h row) < 2 ^ 256"
  shows "store_good (be_platform E) (be_master E) hist durable (store_of s')
    \<and> (\<forall>j. j \<notin> fst ` set rows \<longrightarrow>
         view (be_platform E) (be_master E) hist (store_of s') (batch_settled_key j)
          = view (be_platform E) (be_master E) hist (store_of s) (batch_settled_key j))
    \<and> (\<exists>b'. balances (be_platform E) (be_master E) hist (store_of s') h = Some b'
        \<and> unat b' = unat b + paid_by_recovery E hist h rows (store_of s) (store_of s'))"
  using assms
proof (induction E rows m c s arbitrary: b rule: recover_rows.induct)
  case (1 E m c s)
  then show ?case by (auto simp: paid_by_recovery_def)
next
  case (2 E i x rows m c s)
  let ?v = "\<lambda>t j. view (be_platform E) (be_master E) hist (store_of t) (batch_settled_key j)"
  show ?case
  proof (cases "be_decode E x")
    case (Inl e)
    have z: "refund_due E h (i, x) = 0" by (simp add: refund_due_def Inl)
    from "2.IH"(1) [OF Inl, of b] "2.prems" show ?thesis
      by (auto simp: Inl z paid_by_recovery_def)
  next
    case (Inr pb)
    obtain n s1 where one: "recover_one E i pb s = (n, s1)" by fastforce
    have rest: "recover_rows E rows (m + 1) (c + n) s1 = (counts, s')"
      using "2.prems"(1) by (simp add: Inr one)
    have fits: "unat b + refund_due E h (i, x) < 2 ^ 256" using "2.prems"(5) by simp
    obtain b1 where g1: "store_good (be_platform E) (be_master E) hist durable (store_of s1)"
      and v1: "\<forall>j. j \<noteq> i \<longrightarrow> ?v s1 j = ?v s j"
      and b1: "balances (be_platform E) (be_master E) hist (store_of s1) h = Some b1"
        "unat b1 = unat b + (if newly_settled (be_platform E) (be_master E) hist (store_of s) (store_of s1) i
                              then refund_due E h (i, x) else 0)"
      using recover_one_balance [OF "2.prems"(3) one Inr "2.prems"(4) fits] by blast
    have "unat b1 + (\<Sum>row\<leftarrow>rows. refund_due E h row) < 2 ^ 256"
      using "2.prems"(5) b1(2) by (auto split: if_splits)
    from "2.IH"(2) [OF Inr one [symmetric] rest _ g1 b1(1) this] "2.prems"(2)
    obtain b' where g': "store_good (be_platform E) (be_master E) hist durable (store_of s')"
      and v': "\<forall>j. j \<notin> fst ` set rows \<longrightarrow> ?v s' j = ?v s1 j"
      and b': "balances (be_platform E) (be_master E) hist (store_of s') h = Some b'"
        "unat b' = unat b1 + paid_by_recovery E hist h rows (store_of s1) (store_of s')"
      by auto
    have i: "i \<notin> fst ` set rows" using "2.prems"(2) by auto
    have "newly_settled (be_platform E) (be_master E) hist (store_of s) (store_of s') i
        = newly_settled (be_platform E) (be_master E) hist (store_of s) (store_of s1) i"
      using v' i by (simp add: newly_settled_def)
    moreover have "paid_by_recovery E hist h rows (store_of s1) (store_of s')
        = paid_by_recovery E hist h rows (store_of s) (store_of s')"
      unfolding paid_by_recovery_def
      by (intro arg_cong [where f = sum_list] map_cong refl)
        (use v1 i in \<open>auto simp: newly_settled_def\<close>)
    ultimately have "unat b' = unat b + paid_by_recovery E hist h ((i, x) # rows) (store_of s) (store_of s')"
      using b'(2) b1(2) by (simp add: paid_by_recovery_def)
    moreover have "\<forall>j. j \<notin> fst ` set ((i, x) # rows) \<longrightarrow> ?v s' j = ?v s j" using v1 v' by auto
    ultimately show ?thesis using g' b'(1) by blast
  qed
qed

text \<open>C21. Boot recovery pays every account exactly what its interrupted batches owe it.
  Over all persisted batches, a key's balance grows by the quotes of the slots
  that were not done, summed over the batches of that key whose settled marker
  this recovery set; a batch that was already settled, that cannot be decoded
  or whose settlement failed adds nothing, so no refund is paid twice.\<close>

theorem recovery_pays_what_is_owed:
  assumes persistent: "bs_persistent s"
    and good: "store_good (be_platform E) (be_master E) hist durable (store_of s)"
    and load: "load_batches (be_platform E) (be_master E) (store_of s) = Inr rows"
    and r: "recover E s = (counts, s')"
    and b: "balances (be_platform E) (be_master E) hist (store_of s) h = Some b"
    and fits: "unat b + (\<Sum>row\<leftarrow>rows. refund_due E h row) < 2 ^ 256"
  shows "store_good (be_platform E) (be_master E) hist durable (store_of s')
    \<and> (\<exists>b'. balances (be_platform E) (be_master E) hist (store_of s') h = Some b'
        \<and> unat b' = unat b + paid_by_recovery E hist h rows (store_of s) (store_of s'))"
proof -
  have "recover_rows E rows 0 0 s = (counts, s')"
    using r persistent load by (simp add: recover_def)
  moreover have "distinct (map fst rows)"
    using scan_complete(2) [OF good load [unfolded load_batches_def]] .
  ultimately show ?thesis using recover_rows_balance [OF _ _ good b fits] by blast
qed

end
