(* ===== verification/Reference_Batches.thy ===== *)
theory Reference_Batches
  imports Batch_Recovery
begin

text \<open>
  A concrete durable form of batches and a sample batch: they show that the
  hypotheses of the batch theorems hold together.
\<close>

section \<open>A self-delimiting form\<close>

definition enc_str :: "string \<Rightarrow> bytes" where "enc_str s = enc_list (as_bytes s)"

definition dec_str :: "bytes \<Rightarrow> string \<times> bytes" where
  "dec_str b = (case dec_list b of (s, r) \<Rightarrow> (chars_of s, r))"

definition enc_opt :: "('a \<Rightarrow> bytes) \<Rightarrow> 'a option \<Rightarrow> bytes" where
  "enc_opt e v = (case v of None \<Rightarrow> [0] | Some x \<Rightarrow> 1 # e x)"

definition dec_opt :: "(bytes \<Rightarrow> 'a \<times> bytes) \<Rightarrow> bytes \<Rightarrow> 'a option \<times> bytes" where
  "dec_opt d b = (if hd b = 0 then (None, tl b) else case d (tl b) of (x, r) \<Rightarrow> (Some x, r))"

fun enc_count :: "nat \<Rightarrow> bytes" where
  "enc_count 0 = [0]"
| "enc_count (Suc n) = 1 # enc_count n"

fun dec_count :: "bytes \<Rightarrow> nat \<times> bytes" where
  "dec_count [] = (0, [])"
| "dec_count (b # bs) = (if b = 0 then (0, bs) else case dec_count bs of (n, r) \<Rightarrow> (Suc n, r))"

fun dec_many :: "nat \<Rightarrow> (bytes \<Rightarrow> 'a \<times> bytes) \<Rightarrow> bytes \<Rightarrow> 'a list \<times> bytes" where
  "dec_many 0 d b = ([], b)"
| "dec_many (Suc n) d b =
     (case d b of (x, r) \<Rightarrow> (case dec_many n d r of (xs, r) \<Rightarrow> (x # xs, r)))"

definition enc_seq :: "('a \<Rightarrow> bytes) \<Rightarrow> 'a list \<Rightarrow> bytes" where
  "enc_seq e xs = enc_count (length xs) @ concat (map e xs)"

definition dec_seq :: "(bytes \<Rightarrow> 'a \<times> bytes) \<Rightarrow> bytes \<Rightarrow> 'a list \<times> bytes" where
  "dec_seq d b = (case dec_count b of (n, r) \<Rightarrow> dec_many n d r)"

definition enc_word :: "nat \<Rightarrow> 'a::len word \<Rightarrow> bytes" where
  "enc_word n x = be_bytes n (unat x)"

definition dec_word :: "nat \<Rightarrow> bytes \<Rightarrow> 'a::len word \<times> bytes" where
  "dec_word n b = (of_nat (be_val (take n b)), drop n b)"

definition decodes :: "('a \<Rightarrow> bytes) \<Rightarrow> (bytes \<Rightarrow> 'a \<times> bytes) \<Rightarrow> bool" where
  "decodes e d \<longleftrightarrow> (\<forall>x r. d (e x @ r) = (x, r))"

named_theorems codec \<open>self-delimiting codecs\<close>

lemma decodesD [codec]: "decodes e d \<Longrightarrow> d (e x @ r) = (x, r)"
  by (simp add: decodes_def)

lemma decodes_str [codec]: "decodes enc_str dec_str"
  by (simp add: decodes_def enc_str_def dec_str_def)

lemma decodes_opt [codec]: "decodes e d \<Longrightarrow> decodes (enc_opt e) (dec_opt d)"
  by (auto simp: decodes_def enc_opt_def dec_opt_def split: option.split)

lemma dec_enc_count: "dec_count (enc_count n @ r) = (n, r)"
  by (induction n) simp_all

lemma decodes_seq [codec]:
  assumes "decodes e d"
  shows "decodes (enc_seq e) (dec_seq d)"
proof -
  have "dec_many (length xs) d (concat (map e xs) @ r) = (xs, r)" for xs r
    by (induction xs) (simp_all add: decodesD [OF assms])
  then show ?thesis by (simp add: decodes_def enc_seq_def dec_seq_def dec_enc_count)
qed

lemma decodes_u32 [codec]: "decodes (enc_word 4 :: u32 \<Rightarrow> bytes) (dec_word 4)"
  and decodes_u64 [codec]: "decodes (enc_word 8 :: u64 \<Rightarrow> bytes) (dec_word 8)"
  by (simp_all add: decodes_def enc_word_def dec_word_def)

definition status_code :: "batch_status \<Rightarrow> u8" where
  "status_code st = (case st of Submitted \<Rightarrow> 0 | Running \<Rightarrow> 1 | Completed \<Rightarrow> 2 | PartialFailure \<Rightarrow> 3 | AllFailed \<Rightarrow> 4)"

definition code_status :: "u8 \<Rightarrow> batch_status" where
  "code_status c = (if c = 0 then Submitted else if c = 1 then Running else if c = 2 then Completed
     else if c = 3 then PartialFailure else AllFailed)"

definition slot_code :: "request_status \<Rightarrow> u8" where
  "slot_code st = (case st of Pending \<Rightarrow> 0 | Dispatched \<Rightarrow> 1 | Done \<Rightarrow> 2 | Errored \<Rightarrow> 3)"

definition code_slot :: "u8 \<Rightarrow> request_status" where
  "code_slot c = (if c = 0 then Pending else if c = 1 then Dispatched else if c = 2 then Done else Errored)"

lemma code_inverse [simp]: "code_status (status_code st) = st" "code_slot (slot_code x) = x"
  by (cases st; simp add: status_code_def code_status_def)
    (cases x; simp add: slot_code_def code_slot_def)

definition enc_message :: "chat_message \<Rightarrow> bytes" where
  "enc_message m = enc_str (cm_role m) @ enc_str (cm_content m)"

definition dec_message :: "bytes \<Rightarrow> chat_message \<times> bytes" where
  "dec_message b = (case dec_str b of (r, b) \<Rightarrow> (case dec_str b of (c, b) \<Rightarrow> (\<lparr> cm_role = r, cm_content = c \<rparr>, b)))"

definition enc_chat :: "chat_request \<Rightarrow> bytes" where
  "enc_chat c = enc_str (cr_model c) @ enc_seq enc_message (cr_messages c)
     @ enc_opt (enc_word 4) (cr_max_tokens c) @ [of_bool (cr_stream c)]"

definition dec_chat :: "bytes \<Rightarrow> chat_request \<times> bytes" where
  "dec_chat b = (case dec_str b of (m, b) \<Rightarrow> (case dec_seq dec_message b of (ms, b) \<Rightarrow>
     (case dec_opt (dec_word 4) b of (t, b) \<Rightarrow>
       (\<lparr> cr_model = m, cr_messages = ms, cr_max_tokens = t, cr_stream = (hd b = 1) \<rparr>, tl b))))"

definition enc_slot :: "persisted_slot \<Rightarrow> bytes" where
  "enc_slot s = slot_code (ps_state s) # enc_chat (ps_request s) @ enc_str (ps_quoted_cost_grains s)
     @ enc_opt enc_str (ps_error s)"

definition dec_slot :: "bytes \<Rightarrow> persisted_slot \<times> bytes" where
  "dec_slot b = (case dec_chat (tl b) of (c, r) \<Rightarrow> (case dec_str r of (q, r) \<Rightarrow> (case dec_opt dec_str r of (e, r) \<Rightarrow>
     (\<lparr> ps_state = code_slot (hd b), ps_request = c, ps_quoted_cost_grains = q, ps_error = e \<rparr>, r))))"

lemma decodes_message [codec]: "decodes enc_message dec_message"
  unfolding decodes_def by (simp add: enc_message_def dec_message_def codec)

lemma decodes_chat [codec]: "decodes enc_chat dec_chat"
  unfolding decodes_def by (simp add: enc_chat_def dec_chat_def codec)

lemma decodes_slot [codec]: "decodes enc_slot dec_slot"
  unfolding decodes_def by (simp add: enc_slot_def dec_slot_def codec)

definition enc_batch :: "persisted_batch \<Rightarrow> bytes" where
  "enc_batch p = status_code (pb_status p) # of_bool (pb_refund_settled p) # enc_str (pb_id p)
     @ enc_str (pb_paid_escrow_grains p) @ enc_str (pb_released_grains p) @ enc_str (pb_refunded_grains p)
     @ enc_opt enc_str (pb_payer_api_key_id p) @ enc_opt enc_str (pb_x402_payer p)
     @ enc_opt enc_str (pb_read_token_hash p) @ enc_seq enc_slot (pb_slots p) @ enc_word 8 (pb_created_at p)"

definition dec_batch :: "bytes \<Rightarrow> string + persisted_batch" where
  "dec_batch b =
     (let st = code_status (hd b); settled = (hd (tl b) = 1); (i, r) = dec_str (tl (tl b));
          (paid, r) = dec_str r; (rel, r) = dec_str r; (ref, r) = dec_str r;
          (k, r) = dec_opt dec_str r; (x, r) = dec_opt dec_str r; (t, r) = dec_opt dec_str r;
          (slots, r) = dec_seq dec_slot r; (at, r) = dec_word 8 (r @ [])
      in Inr \<lparr> pb_id = i, pb_status = st, pb_paid_escrow_grains = paid, pb_released_grains = rel,
               pb_refunded_grains = ref, pb_payer_api_key_id = k, pb_x402_payer = x,
               pb_read_token_hash = t, pb_slots = slots, pb_created_at = at,
               pb_refund_settled = settled \<rparr>)"

lemma dec_enc_batch: "dec_batch (enc_batch p) = Inr p"
proof -
  have "dec_word 8 (enc_word 8 (x :: u64)) = (x, [])" for x
    using decodesD [OF decodes_u64, of x "[]"] by simp
  then show ?thesis by (simp add: dec_batch_def enc_batch_def codec)
qed

section \<open>A sample batch\<close>

definition ref_env :: "ref_world batch_env" where
  "ref_env = \<lparr> be_platform = ref_platform, be_master = ref_master, be_lib = sample_lib,
     be_encode = enc_batch, be_decode = dec_batch \<rparr>"

lemma ref_env_simps [simp]:
  "be_platform ref_env = ref_platform" "be_master ref_env = ref_master" "be_lib ref_env = sample_lib"
  "be_encode ref_env = enc_batch" "be_decode ref_env = dec_batch"
  by (simp_all add: ref_env_def)

definition sample_item :: chat_request where
  "sample_item = sample_chat\<lparr> cr_max_tokens := None \<rparr>"

definition sample_submission :: batch_submit_request where
  "sample_submission = \<lparr> bq_requests = [sample_item, sample_item] \<rparr>"

definition sample_paid :: x402_paid where
  "sample_paid = \<lparr> paid_payer = 3, paid_amount_wei = 100, paid_nonce = 0, paid_settle_tx_hash = 0 \<rparr>"

definition sample_batches :: "ref_world batch_state" where
  "sample_batches = \<lparr> bs_keys = sample_memory_store, bs_persistent = False, bs_live = [] \<rparr>"

abbreviation batch_gateway :: "ref_world batch_state gateway" where
  "batch_gateway \<equiv> base_gateway"

lemma sample_item_quote:
  "\<exists>t. quote_chat_request_cost base_gateway c s = (Inr (40, t), s)"
  by (simp add: quote_chat_request_cost_def)

lemma sample_item_simps [simp]:
  "cr_messages sample_item \<noteq> []" "cr_max_tokens sample_item = None"
  by (simp_all add: sample_item_def sample_chat_def)

lemma sample_sums: "checked_add 0 (40 :: u256) = Some 40" "checked_add 40 (40 :: u256) = Some 80"
  by (simp_all add: checked_add_def)

lemma sample_step:
  "\<exists>m sl. quote_slots (base_gateway :: 's gateway) c n l slots (q # qs) s =
     (case checked_add n 40 of
        None \<Rightarrow> (Inl (PricingUnavailable ''batch quote overflow''), s)
      | Some k \<Rightarrow> quote_slots base_gateway c k m (slots @ [sl]) qs s)"
proof -
  let ?q = "q\<lparr> cr_max_tokens := clamp_max_tokens (cr_max_tokens q) c \<rparr>"
  obtain t where t: "quote_chat_request_cost (base_gateway :: 's gateway) ?q s = (Inr (40, t), s)"
    using sample_item_quote [of ?q s] by blast
  show ?thesis
    unfolding quote_slots.simps Let_def t prod.case sum.case by (intro exI, rule refl)
qed

lemma sample_item_slots:
  "\<exists>m slots. quote_slots (base_gateway :: 's gateway) c 0 l [] [q, q'] s = (Inr (80, m, slots), s)"
proof -
  obtain m sl where 1: "quote_slots (base_gateway :: 's gateway) c 0 l [] [q, q'] s
      = quote_slots base_gateway c 40 m [sl] [q'] s"
    using sample_step [of c 0 l "[]" q "[q']" s] by (auto simp: sample_sums)
  obtain m' sl' where "quote_slots (base_gateway :: 's gateway) c 40 m [sl] [q'] s
      = quote_slots base_gateway c 80 m' [sl, sl'] [] s"
    using sample_step [of c 40 m "[sl]" q' "[]" s] by (auto simp: sample_sums)
  with 1 show ?thesis by simp
qed

lemma sample_submit:
  fixes s :: "ref_world batch_state"
  shows "\<exists>resp r s'. submit_batch_handler ref_env batch_gateway sample_paid None sample_submission s
     = (Inr (resp, r), s')"
proof -
  define c where "c = max_tokens_ceiling (\<lambda>v. None)"
  obtain m slots where q: "quote_slots batch_gateway c 0 default_max_tokens []
      [sample_item, sample_item] s = (Inr (80, m, slots), s)"
    using sample_item_slots [of c default_max_tokens sample_item sample_item s] by blast
  have ok: "\<not> paid_amount_wei sample_paid < 80" by (simp add: sample_paid_def)
  obtain out s' where "accept_batch ref_env batch_gateway sample_paid None 80 slots s = (out, s')"
    by fastforce
  moreover have "check_requests c 0 [sample_item, sample_item] = None" by simp
  moreover have "length (distinct_models [sample_item, sample_item]) \<le> max_distinct_batch_models"
    by (simp add: distinct_models_def max_distinct_batch_models_def)
  ultimately show ?thesis using q ok
    by (cases out) (simp add: submit_batch_handler_def sample_submission_def max_batch_size_def
        Let_def c_def [symmetric] leD)
qed

theorem submission_well_formed_witness:
  "\<exists>resp r s'. submit_batch_handler ref_env batch_gateway sample_paid None sample_submission sample_batches
      = (Inr (resp, r), s')
    \<and> batch_ok r \<and> batch_get (ba_id r) s' = Some r \<and> length (ba_slots r) = 2"
proof -
  obtain resp r s' where h: "submit_batch_handler ref_env batch_gateway sample_paid None
      sample_submission sample_batches = (Inr (resp, r), s')"
    using sample_submit by blast
  note w = submission_well_formed [OF h]
  then have "length (map sl_request (ba_slots r)) = 2" by (simp add: sample_submission_def)
  then have "length (ba_slots r) = 2" by (simp only: length_map)
  with w h show ?thesis by blast
qed

lemma base_panic_free:
  "snd (run_dispatch base_gateway req s) = s \<and> (\<exists>d. fst (run_dispatch base_gateway req s) = Inr d)"
  using base_run_dispatch [of req s] by auto

lemma sample_process_slot: "\<exists>r' s'. process_slot ref_env batch_gateway i r s = (Some r', s')"
proof (cases "slot_terminal (ba_slots r ! i)")
  case False
  let ?sl = "(ba_slots r ! i)\<lparr> sl_state := Dispatched \<rparr>"
  let ?t = "publish (set_slot i ?sl r) s"
  obtain d where d: "run_dispatch batch_gateway ((sl_request ?sl)\<lparr> cr_stream := False \<rparr>) ?t = (Inr d, ?t)"
    using base_run_dispatch [of "(sl_request ?sl)\<lparr> cr_stream := False \<rparr>" ?t] by blast
  show ?thesis
    using False unfolding process_slot_def Let_def d
    by (simp add: finish_slot_def Let_def split: prod.split)
qed (simp add: process_slot_def)

lemma sample_process_slots: "\<exists>r' s'. process_slots ref_env batch_gateway is r s = (Some r', s')"
proof (induction "is" arbitrary: r s)
  case (Cons i "is")
  obtain r1 s1 where "process_slot ref_env batch_gateway i r s = (Some r1, s1)"
    using sample_process_slot by blast
  with Cons.IH show ?case by simp
qed simp

lemma sample_process: "\<exists>r' s'. process_batch ref_env batch_gateway r s = (Some r', s')"
proof -
  let ?r = "r\<lparr> ba_status := Running \<rparr>"
  obtain r1 s1 where "process_slots ref_env batch_gateway [0 ..< length (ba_slots ?r)] ?r (publish ?r s)
      = (Some r1, s1)"
    using sample_process_slots by blast
  then show ?thesis by (simp add: process_batch_def Let_def)
qed

lemma sample_record_ok:
  "\<exists>resp r s'. submit_batch_handler ref_env batch_gateway sample_paid None sample_submission sample_batches
      = (Inr (resp, r), s') \<and> batch_ok r"
  using sample_submit submitted_ok by blast

theorem finished_batch_settles_escrow_witness:
  "\<exists>r r' s'. batch_ok r \<and> process_batch ref_env batch_gateway r sample_batches = (Some r', s')
    \<and> is_terminal (ba_status r')
    \<and> unat (ba_released_grains r') + unat (ba_refunded_grains r') = unat (ba_paid_escrow_grains r)"
proof -
  obtain r where r: "batch_ok r" using sample_record_ok by blast
  obtain r' s' where p: "process_batch ref_env batch_gateway r sample_batches = (Some r', s')"
    using sample_process by blast
  from finished_batch_settles_escrow [OF r p] r p show ?thesis by blast
qed

theorem reloaded_batch_is_the_batch_witness:
  "\<forall>r. \<exists>p. dec_batch (enc_batch (from_record sample_lib r False)) = Inr p
    \<and> into_record sample_lib p = without_responses r"
proof
  fix r
  show "\<exists>p. dec_batch (enc_batch (from_record sample_lib r False)) = Inr p
    \<and> into_record sample_lib p = without_responses r"
    using reloaded_batch_is_the_batch [of ref_env r False] sample_codecs_ok dec_enc_batch by simp
qed

theorem batch_always_well_formed_witness:
  "\<exists>r. batch_reachable ref_env batch_gateway r \<and> batch_ok (close_batch r) \<and> all_terminal r"
proof -
  obtain resp r s' where h: "submit_batch_handler ref_env batch_gateway sample_paid None
      sample_submission sample_batches = (Inr (resp, r), s')"
    using sample_submit by blast
  have "batch_reachable ref_env batch_gateway (reconcile r)"
    by (rule batch_reachable.reconciled [OF batch_reachable.submitted [OF h]])
  moreover from submitted_ok [OF h] have t: "all_terminal (reconcile r)" using reconcile_Inr by blast
  ultimately have c: "batch_reachable ref_env batch_gateway (close_batch (reconcile r))"
    by (rule batch_reachable.closed)
  have X: "text_codecs_ok (be_lib ref_env)" using sample_codecs_ok by simp
  have J: "\<forall>p. be_decode ref_env (be_encode ref_env p) = Inr p" by (simp add: dec_enc_batch)
  show ?thesis
    using batch_always_well_formed [OF c X J] t
      batch_reachable.reconciled [OF batch_reachable.submitted [OF h]] by blast
qed

theorem layer_price_is_the_escrow_witness:
  "\<exists>T s1. price_for batch_gateway T sample_key_request [] sample_batches = (Inr 80, s1)
    \<and> (\<exists>resp r s'. submit_batch_handler ref_env batch_gateway sample_paid None sample_submission s1
          = (Inr (resp, r), s') \<and> ba_paid_escrow_grains r = 80)"
proof -
  define T where "T = sample_pricing\<lparr> tp_as_chat := \<lambda>j. None, tp_as_batch := \<lambda>j. Inr sample_submission \<rparr>"
  have T: "tp_parse_body T [] = Inr JNull" "tp_as_chat T JNull = None"
    "tp_as_batch T JNull = Inr sample_submission"
    by (simp_all add: T_def sample_pricing_def)
  have q: "quote_chat batch_gateway c s = (Inr 40, s)" for c s
    by (simp add: quote_chat_def priced_def)
  have p: "price_for batch_gateway T sample_key_request [] sample_batches = (Inr 80, sample_batches)"
    using T by (simp add: price_for_def sample_submission_def max_batch_size_def distinct_models_def
        max_distinct_batch_models_def q sample_sums Let_def)
  have st: "steady_prices batch_gateway" by (simp add: steady_prices_def)
  have le: "80 \<le> paid_amount_wei sample_paid" by (simp add: sample_paid_def)
  obtain resp r s' where h: "submit_batch_handler ref_env batch_gateway sample_paid None
      sample_submission sample_batches = (Inr (resp, r), s')"
    using sample_submit by blast
  from layer_price_is_the_escrow [OF T p st le h] p h show ?thesis by blast
qed

section \<open>A reader and a recovery\<close>

definition sample_batch :: batch_record where
  "sample_batch =
     \<lparr> ba_id = ''b1'', ba_status = Running, ba_paid_escrow_grains = 40, ba_released_grains = 0,
       ba_refunded_grains = 0, ba_payer_api_key_id = Some sample_key, ba_x402_payer = None,
       ba_read_token_hash = None,
       ba_slots = [\<lparr> sl_state = Dispatched, sl_request = sample_item, sl_quoted_cost_grains = 40,
                     sl_response = None, sl_error = None \<rparr>],
       ba_created_at = 7 \<rparr>"

theorem batch_reads_bound_to_submitter_witness:
  "get_batch_handler ref_env ''b1'' (rq_headers sample_key_request) (publish sample_batch sample_batches)
     \<noteq> batch_not_found sample_lib ''b1''
   \<and> presented_credential (rq_headers sample_key_request) = Some sample_key"
proof -
  let ?s = "publish sample_batch sample_batches"
  have bearer: "extract_bearer (rq_headers sample_key_request) = Some sample_key"
    by (simp add: extract_bearer_def sample_key_request_def header_to_str_def strip_prefix_def
        sample_key_trim sample_key_def of_char_def)
  have live: "batch_get ''b1'' ?s = Some sample_batch"
    by (simp add: batch_get_def publish_def sample_batch_def sample_batches_def)
  have "get_batch_handler ref_env ''b1'' (rq_headers sample_key_request) ?s
      = json_response sample_lib 200 content_json (build_status sample_lib sample_batch None)"
    using live bearer
    by (simp add: get_batch_handler_def batch_read_authorized_def presented_credential_def
        sample_batch_def Let_def)
  then have n: "get_batch_handler ref_env ''b1'' (rq_headers sample_key_request) ?s
      \<noteq> batch_not_found (be_lib ref_env) ''b1''"
    by (simp add: batch_not_found_def json_response_def)
  from batch_reads_bound_to_submitter [OF disjI1 [OF n]] n bearer show ?thesis
    by (auto simp: presented_credential_def)
qed

text \<open>A store with one account and one batch that a restart interrupted.\<close>

definition interrupted_store :: ref_world where
  "interrupted_store = snd (persist_batch ref_platform ref_master ''b1''
     (enc_batch (from_record sample_lib sample_batch False)) sample_store)"

definition interrupted :: "ref_world batch_state" where
  "interrupted = \<lparr> bs_keys = \<lparr> as_backend = PersistentBackend, as_world = interrupted_store \<rparr>,
     bs_persistent = True, bs_live = [] \<rparr>"

lemma interrupted_simps [simp]:
  "bs_persistent interrupted" "as_world (bs_keys interrupted) = interrupted_store"
  by (simp_all add: interrupted_def)

lemma interrupted_good: "ref_good interrupted_store"
  and interrupted_view: "ref_view interrupted_store = (ref_view sample_store)
    (batch_key ''b1'' \<mapsto> enc_batch (from_record sample_lib sample_batch False))"
proof -
  let ?b = "enc_batch (from_record sample_lib sample_batch False)"
  obtain w where "put_val ref_platform ref_master (batch_key ''b1'') ?b False sample_store = (Inr (), w)"
    using ref_write [of ref_master False "[(batch_key ''b1'', ?b)]" sample_store]
    by (auto simp: put_val_write)
  moreover from this have "interrupted_store = w"
    by (simp add: interrupted_store_def persist_batch_def try_then_def)
  ultimately have p: "put_val ref_platform ref_master (batch_key ''b1'') ?b False sample_store
    = (Inr (), interrupted_store)" by simp
  show "ref_good interrupted_store" "ref_view interrupted_store = (ref_view sample_store)(batch_key ''b1'' \<mapsto> ?b)"
    using put_val_Inr [OF sample_store_good p] by simp_all
qed

lemma interrupted_balance:
  "balances ref_platform ref_master ref_hist interrupted_store sample_hash = Some 1000"
proof -
  have "acct ref_platform (ref_view interrupted_store) sample_hash = Some sample_record"
    using sample_acct by (simp add: interrupted_view acct_upd_other)
  then show ?thesis by (simp add: balances_def sample_balance)
qed

lemma interrupted_due:
  "refund_due ref_env sample_hash (''b1'', enc_batch (from_record sample_lib sample_batch False)) = 40"
proof -
  let ?p = "from_record sample_lib sample_batch False"
  have "into_record sample_lib ?p = without_responses sample_batch"
    using reload [of ref_env sample_batch False] sample_codecs_ok by (auto simp: dec_enc_batch)
  then show ?thesis
    by (simp add: refund_due_def dec_enc_batch Let_def without_responses_def sample_batch_def
        sample_hash_def)
qed

lemma single_row:
  assumes "set rows = {(i, b)}" and "distinct (map fst rows)"
  shows "rows = [(i, b)]"
proof (cases rows)
  case (Cons r rest)
  with assms have "r = (i, b)" "set rest \<subseteq> {(i, b)}" by auto
  with assms Cons show ?thesis by (cases rest) auto
qed (use assms in simp)

lemma interrupted_rows:
  assumes l: "load_batches ref_platform ref_master interrupted_store = Inr rows"
  shows "rows = [(''b1'', enc_batch (from_record sample_lib sample_batch False))]"
proof (rule single_row)
  have "ref_view interrupted_store (''batch:'' @ i) = Some b
      \<longleftrightarrow> i = ''b1'' \<and> b = enc_batch (from_record sample_lib sample_batch False)" for i b
    by (auto simp: interrupted_view sample_store_view batch_key_def bal_key_def)
  then show "set rows = {(''b1'', enc_batch (from_record sample_lib sample_batch False))}"
    using scan_complete(1) [OF interrupted_good l [unfolded load_batches_def]] by auto
  show "distinct (map fst rows)"
    by (rule scan_complete(2) [OF interrupted_good l [unfolded load_batches_def]])
qed

theorem recovery_pays_what_is_owed_witness:
  "\<exists>rows counts s' b'. load_batches ref_platform ref_master interrupted_store = Inr rows
    \<and> (''b1'', enc_batch (from_record sample_lib sample_batch False)) \<in> set rows
    \<and> refund_due ref_env sample_hash (''b1'', enc_batch (from_record sample_lib sample_batch False)) = 40
    \<and> recover ref_env interrupted = (counts, s')
    \<and> balances ref_platform ref_master ref_hist (as_world (bs_keys s')) sample_hash = Some b'
    \<and> unat b' = 1000 + paid_by_recovery ref_env ref_hist sample_hash rows interrupted_store
        (as_world (bs_keys s'))"
proof -
  let ?b = "enc_batch (from_record sample_lib sample_batch False)"
  obtain rows where l: "load_batches ref_platform ref_master interrupted_store = Inr rows"
    using ref_load [OF interrupted_good] by blast
  have due: "refund_due ref_env sample_hash (''b1'', ?b) = 40"
    by (rule interrupted_due)
  have only: "rows = [(''b1'', ?b)]" by (rule interrupted_rows [OF l])
  obtain counts s' where r: "recover ref_env interrupted = (counts, s')" by fastforce
  have fits: "unat (1000 :: u256) + (\<Sum>row\<leftarrow>rows. refund_due ref_env sample_hash row) < 2 ^ 256"
    using due by (simp add: only)
  have "\<exists>b'. balances ref_platform ref_master ref_hist (as_world (bs_keys s')) sample_hash = Some b'
    \<and> unat b' = unat (1000 :: u256) + paid_by_recovery ref_env ref_hist sample_hash rows interrupted_store
        (as_world (bs_keys s'))"
    using recovery_pays_what_is_owed [of interrupted ref_env ref_hist ref_durable rows counts s' sample_hash 1000]
      interrupted_good l r interrupted_balance fits by simp
  with l due only r show ?thesis by auto
qed

end
