(* ===== verification/Proxy_Requests.thy ===== *)
theory Proxy_Requests
  imports Api_Key_Layer
begin

text \<open>
  The local proxy's view of a request, \<open>gateway/src/local_proxy.rs\<close>: which
  paths may be forwarded, which headers are, and how a generation request's
  body is cut to the proxy's budget.
\<close>

section \<open>Paths\<close>

definition starts_at :: "string \<Rightarrow> string \<Rightarrow> bool" where
  "starts_at p s \<longleftrightarrow> strip_prefix p s \<noteq> None"

fun contains_text :: "string \<Rightarrow> string \<Rightarrow> bool" where
  "contains_text p [] = (p = [])"
| "contains_text p (c # s) = (starts_at p (c # s) \<or> contains_text p s)"

definition ascii_lower :: "char \<Rightarrow> char" where
  "ascii_lower c = (if 65 \<le> char_nat c \<and> char_nat c \<le> 90 then char_of (char_nat c + 32) else c)"

fun split_on :: "char \<Rightarrow> string \<Rightarrow> string list" where
  "split_on d [] = [[]]"
| "split_on d (c # s) =
     (if c = d then [] # split_on d s
      else case split_on d s of [] \<Rightarrow> [[c]] | x # xs \<Rightarrow> (c # x) # xs)"

definition hex_value :: "char \<Rightarrow> nat option" where
  "hex_value c =
     (let b = char_nat c
      in if 48 \<le> b \<and> b \<le> 57 then Some (b - 48)
         else if 97 \<le> b \<and> b \<le> 102 then Some (b - 97 + 10)
         else if 65 \<le> b \<and> b \<le> 70 then Some (b - 65 + 10) else None)"

text \<open>\<open>String::from_utf8_lossy\<close>: each maximal ill-formed part becomes U+FFFD.\<close>

definition utf8_need :: "nat \<Rightarrow> nat" where
  "utf8_need b = (if 194 \<le> b \<and> b \<le> 223 then 1 else if 224 \<le> b \<and> b \<le> 239 then 2
     else if 240 \<le> b \<and> b \<le> 244 then 3 else 0)"

definition utf8_second :: "nat \<Rightarrow> nat \<Rightarrow> bool" where
  "utf8_second b c \<longleftrightarrow>
     (if b = 224 then 160 else if b = 240 then 144 else 128) \<le> c \<and>
     c \<le> (if b = 237 then 159 else if b = 244 then 143 else 191)"

definition utf8_run :: "nat \<Rightarrow> nat list \<Rightarrow> nat" where
  "utf8_run b r =
     (if utf8_need b = 0 \<or> r = [] \<or> \<not> utf8_second b (hd r) then 0
      else 1 + length (takeWhile (\<lambda>c. 128 \<le> c \<and> c \<le> 191) (take (utf8_need b - 1) (tl r))))"

function utf8_lossy :: "nat list \<Rightarrow> nat list" where
  "utf8_lossy [] = []"
| "utf8_lossy (b # r) =
     (let n = utf8_run b r
      in (if b < 128 \<or> 0 < n \<and> n = utf8_need b then b # take n r else [239, 191, 189])
           @ utf8_lossy (drop n r))"
  by pat_completeness auto

termination by (relation "measure length") auto

fun percent_bytes :: "string \<Rightarrow> string" where
  "percent_bytes (c # h # l # s) =
     (if c = CHR ''%''
      then (case (hex_value h, hex_value l) of
              (Some a, Some b) \<Rightarrow> char_of (a * 16 + b) # percent_bytes s
            | _ \<Rightarrow> c # percent_bytes (h # l # s))
      else c # percent_bytes (h # l # s))"
| "percent_bytes s = s"

definition percent_decode_path :: "string \<Rightarrow> string" where
  "percent_decode_path p = map char_of (utf8_lossy (map char_nat (percent_bytes p)))"

definition contains_dot_segment :: "string \<Rightarrow> bool" where
  "contains_dot_segment p \<longleftrightarrow>
     list_ex (\<lambda>seg. seg = ''.'' \<or> seg = ''..'') (split_on (CHR ''/'') (percent_decode_path p))"

definition backslash :: char where
  "backslash = char_of (92 :: nat)"

definition path_is_unsafe :: "string \<Rightarrow> bool" where
  "path_is_unsafe p \<longleftrightarrow>
     backslash \<in> set p \<or>
     list_ex (\<lambda>enc. contains_text enc (map ascii_lower p)) [''%2e'', ''%2f'', ''%5c''] \<or>
     contains_dot_segment p"

definition stt_transcriptions_path :: string where
  "stt_transcriptions_path = ''/v1/audio/transcriptions''"

definition allowed_upstream_paths :: "string list" where
  "allowed_upstream_paths =
     [''/v1/chat/completions'', ''/v1/completions'', ''/v1/embeddings'', ''/v1/models'',
      stt_transcriptions_path]"

definition is_generation :: "string \<Rightarrow> string \<Rightarrow> bool" where
  "is_generation method path \<longleftrightarrow>
     method = ''POST'' \<and> path \<in> {''/v1/chat/completions'', ''/v1/completions''}"

definition is_stt_transcriptions :: "string \<Rightarrow> string \<Rightarrow> bool" where
  "is_stt_transcriptions method path \<longleftrightarrow> method = ''POST'' \<and> path = stt_transcriptions_path"

definition is_embeddings :: "string \<Rightarrow> bool" where
  "is_embeddings path \<longleftrightarrow> last (split_on (CHR ''/'') path) = ''embeddings''"

section \<open>Headers\<close>

definition hop_by_hop :: "string list" where
  "hop_by_hop = [''connection'', ''keep-alive'', ''proxy-authenticate'', ''proxy-authorization'',
     ''te'', ''trailers'', ''transfer-encoding'', ''upgrade'']"

definition remove_header :: "string \<Rightarrow> (string \<times> string) list \<Rightarrow> (string \<times> string) list" where
  "remove_header name hs = filter (\<lambda>h. fst h \<noteq> name) hs"

definition strip_hop_by_hop :: "(string \<times> string) list \<Rightarrow> (string \<times> string) list" where
  "strip_hop_by_hop hs = fold remove_header hop_by_hop hs"

definition forward_headers :: "(string \<times> string) list \<Rightarrow> (string \<times> string) list" where
  "forward_headers hs =
     strip_hop_by_hop (remove_header ''content-length'' (remove_header ''host''
       (remove_header ''authorization'' hs)))"

definition proxy_bearer :: "(string \<times> string) list \<Rightarrow> string option" where
  "proxy_bearer headers =
     (case Option.bind (Option.bind (map_of headers ''authorization'') header_to_str)
             (strip_prefix ''Bearer '') of
        None \<Rightarrow> None
      | Some t \<Rightarrow> let s = str_trim t in if s = [] then None else Some s)"

section \<open>The generation budget\<close>

definition max_generations_per_request :: nat where
  "max_generations_per_request = 8"

definition generation_limit_fields :: "string list" where
  "generation_limit_fields = [''max_tokens'', ''max_completion_tokens'', ''n_predict'']"

fun is_number :: "json \<Rightarrow> bool" where
  "is_number (JUint n) = True"
| "is_number (JNeg i) = True"
| "is_number (JFloat f) = True"
| "is_number v = False"

definition prompt_count :: "(string \<times> json) list \<Rightarrow> nat" where
  "prompt_count obj =
     (case map_of obj ''prompt'' of
        Some (JArr items) \<Rightarrow> if list_all is_number items then 1 else length items
      | _ \<Rightarrow> 1)"

text \<open>The loop over \<open>n\<close> and \<open>best_of\<close>.\<close>

fun per_prompt :: "nat \<Rightarrow> string list \<Rightarrow> (string \<times> json) list \<Rightarrow> string + nat" where
  "per_prompt k [] obj = Inr k"
| "per_prompt k (f # fs) obj =
     (case map_of obj f of
        None \<Rightarrow> per_prompt k fs obj
      | Some JNull \<Rightarrow> per_prompt k fs obj
      | Some v \<Rightarrow>
          (case json_u64 v of
             Some j \<Rightarrow> per_prompt (max k j) fs obj
           | None \<Rightarrow> Inl ''n / best_of must be a non-negative integer''))"

definition generation_count :: "(string \<times> json) list \<Rightarrow> string + nat" where
  "generation_count obj =
     (case per_prompt 1 [''n'', ''best_of''] obj of
        Inl e \<Rightarrow> Inl e
      | Inr k \<Rightarrow> Inr (min (2 ^ 64 - 1) (max 1 (prompt_count obj) * max 1 k)))"

definition within_budget :: "nat \<Rightarrow> json \<Rightarrow> bool" where
  "within_budget per v \<longleftrightarrow> (case json_u64 v of Some n \<Rightarrow> n \<le> per | None \<Rightarrow> False)"

fun clamp_fields :: "nat \<Rightarrow> string list \<Rightarrow> bool \<times> (string \<times> json) list \<Rightarrow> bool \<times> (string \<times> json) list" where
  "clamp_fields per [] (named, obj) = (named, obj)"
| "clamp_fields per (f # fs) (named, obj) =
     (case map_of obj f of
        None \<Rightarrow> clamp_fields per fs (named, obj)
      | Some v \<Rightarrow>
          clamp_fields per fs
            (True, if within_budget per v then obj else AList.update f (JUint per) obj))"

text \<open>The parser and the printer of the JSON library: bytes in and out, an error
  value for what it refuses.\<close>

record json_codec =
  jc_parse :: "bytes \<Rightarrow> json option"
  jc_print :: "json \<Rightarrow> bytes option"

definition generation_budget :: "u64 \<Rightarrow> nat \<Rightarrow> nat" where
  "generation_budget cap generations = max 1 (unat cap div generations)"

definition clamp_object :: "nat \<Rightarrow> (string \<times> json) list \<Rightarrow> (string \<times> json) list" where
  "clamp_object per obj =
     (case clamp_fields per generation_limit_fields (False, obj) of
        (named, obj) \<Rightarrow> if named then obj else AList.update ''max_tokens'' (JUint per) obj)"

definition clamp_generation_budget :: "json_codec \<Rightarrow> bytes \<Rightarrow> u64 \<Rightarrow> string + bytes" where
  "clamp_generation_budget J body cap =
     (case jc_parse J body of
        Some (JObj obj) \<Rightarrow>
          (case generation_count obj of
             Inl e \<Rightarrow> Inl e
           | Inr generations \<Rightarrow>
               if max_generations_per_request < generations
               then Inl ''too many generations in one request (prompts x n)''
               else
                 (case jc_print J (JObj (clamp_object (generation_budget cap generations) obj)) of
                    None \<Rightarrow> Inl ''request body could not be re-encoded''
                  | Some b \<Rightarrow> Inr b))
      | _ \<Rightarrow> Inl ''request body must be a JSON object'')"

section \<open>Facts about paths\<close>

lemma contains_text_iff: "contains_text p s \<longleftrightarrow> (\<exists>a b. s = a @ p @ b)"
proof (induction s)
  case (Cons c s)
  have "starts_at p (c # s) \<longleftrightarrow> (\<exists>b. c # s = p @ b)"
    by (auto simp: starts_at_def strip_prefix_def) (metis append_take_drop_id)
  with Cons show ?case by (auto simp: Cons_eq_append_conv)
qed simp

lemma allowed_all_safe: "list_all (\<lambda>p. \<not> path_is_unsafe p) allowed_upstream_paths"
  by code_simp

lemma allowed_paths_safe: "p \<in> set allowed_upstream_paths \<Longrightarrow> \<not> path_is_unsafe p"
  using allowed_all_safe by (simp add: list_all_iff)

text \<open>What a path looks like to the test for dot segments: the state of the scan
  through the current segment.\<close>

datatype segment = Fresh | Dot | Dots | Other

fun scan_char :: "char \<Rightarrow> segment \<Rightarrow> segment" where
  "scan_char c q =
     (if c = CHR ''/'' then Fresh
      else if c = CHR ''.'' then (case q of Fresh \<Rightarrow> Dot | Dot \<Rightarrow> Dots | _ \<Rightarrow> Other)
      else Other)"

fun dot_segment :: "segment \<Rightarrow> string \<Rightarrow> bool" where
  "dot_segment q [] = (q = Dot \<or> q = Dots)"
| "dot_segment q (c # s) = ((c = CHR ''/'' \<and> (q = Dot \<or> q = Dots)) \<or> dot_segment (scan_char c q) s)"

fun segment_of :: "string \<Rightarrow> segment" where
  "segment_of s = (if s = [] then Fresh else if s = ''.'' then Dot else if s = ''..'' then Dots else Other)"

lemma split_on_Cons: "\<exists>x xs. split_on d s = x # xs"
  by (cases s) (auto split: list.splits)

lemma dot_segment_split:
  "split_on (CHR ''/'') s = x # xs \<Longrightarrow>
     dot_segment (segment_of w) s
       \<longleftrightarrow> segment_of (w @ x) = Dot \<or> segment_of (w @ x) = Dots
         \<or> list_ex (\<lambda>seg. seg = ''.'' \<or> seg = ''..'') xs"
proof (induction s arbitrary: w x xs)
  case (Cons c s)
  obtain y ys where s: "split_on (CHR ''/'') s = y # ys"
    using split_on_Cons by blast
  show ?case
  proof (cases "c = CHR ''/''")
    case True
    with Cons.prems s have "x = []" "xs = y # ys" by auto
    with True Cons.IH [OF s, of "[]"] show ?thesis by auto
  next
    case False
    have "segment_of (w @ [c]) = scan_char c (segment_of w)"
      using False by (auto simp: append_eq_Cons_conv)
    with False Cons.prems s Cons.IH [OF s, of "w @ [c]"] show ?thesis by (simp del: segment_of.simps)
  qed
qed auto

lemma dot_segments_scan:
  "list_ex (\<lambda>seg. seg = ''.'' \<or> seg = ''..'') (split_on (CHR ''/'') s) \<longleftrightarrow> dot_segment Fresh s"
proof -
  obtain x xs where s: "split_on (CHR ''/'') s = x # xs" using split_on_Cons by blast
  from dot_segment_split [OF s, of "[]"] show ?thesis by (simp add: s)
qed

text \<open>A character that is neither a slash nor a dot makes the segment an ordinary
  one; so do all the characters of a block of them.\<close>

definition plain :: "char \<Rightarrow> bool" where
  "plain c \<longleftrightarrow> c \<noteq> CHR ''/'' \<and> c \<noteq> CHR ''.''"

lemma dot_segment_plain:
  "cs \<noteq> [] \<Longrightarrow> list_all plain cs \<Longrightarrow> dot_segment q (cs @ s) = dot_segment Other s"
proof (induction cs arbitrary: q)
  case (Cons c cs)
  then show ?case by (cases "cs = []") (auto simp: plain_def)
qed simp

lemma plain_byte: "128 \<le> n \<Longrightarrow> n < 256 \<Longrightarrow> plain (char_of (n :: nat))"
  by (auto simp: plain_def char_of_eq_iff take_bit_eq_mod)

lemma utf8_run_high:
  assumes "0 < utf8_run b r"
  shows "\<forall>c \<in> set (take (utf8_run b r) r). 128 \<le> c"
proof -
  let ?t = "takeWhile (\<lambda>c. 128 \<le> c \<and> c \<le> 191) (take (utf8_need b - 1) (tl r))"
  from assms have r: "r \<noteq> []" "utf8_second b (hd r)" and n: "utf8_run b r = 1 + length ?t"
    by (auto simp: utf8_run_def split: if_splits)
  have le: "length ?t \<le> utf8_need b - 1"
    by (rule order_trans [OF length_takeWhile_le]) simp
  have "take (length ?t) (tl r) = take (length ?t) (take (utf8_need b - 1) (tl r))"
    using le by (simp add: min_absorb1)
  also have "\<dots> = ?t" by (rule takeWhile_eq_take [symmetric])
  finally have "take (length ?t) (tl r) = ?t" .
  with r n have "take (utf8_run b r) r = hd r # ?t" by (cases r) simp_all
  moreover have "128 \<le> hd r" using r(2) by (auto simp: utf8_second_def split: if_splits)
  ultimately show ?thesis by (auto dest: set_takeWhileD)
qed

lemma dot_segment_lossy:
  "list_all (\<lambda>c. c < 256) s
     \<Longrightarrow> dot_segment q (map char_of (utf8_lossy s)) = dot_segment q (map char_of s)"
proof (induction s arbitrary: q rule: utf8_lossy.induct)
  case (2 b r)
  let ?n = "utf8_run b r"
  have rest: "dot_segment q (map char_of (utf8_lossy (drop ?n r))) = dot_segment q (map char_of (drop ?n r))" for q
    using "2.IH" [OF refl] "2.prems" by (auto simp: list_all_iff dest: in_set_dropD)
  have split: "map char_of r = map char_of (take ?n r) @ map char_of (drop ?n r)"
    by (simp flip: map_append)
  show ?case
  proof (cases "b < 128")
    case True
    then have "?n = 0" by (auto simp: utf8_run_def utf8_need_def)
    with True rest show ?thesis by simp
  next
    case False
    have high: "list_all plain (map char_of (b # take ?n r))"
      using False utf8_run_high [of b r] "2.prems"
      by (cases "?n = 0") (auto simp: list_all_iff intro!: plain_byte dest: in_set_takeD)
    have "dot_segment q (map char_of (b # r)) = dot_segment Other (map char_of (drop ?n r))"
      using dot_segment_plain [OF _ high, of q] by (simp add: split)
    moreover have "dot_segment q (map char_of (utf8_lossy (b # r)))
        = dot_segment Other (map char_of (utf8_lossy (drop ?n r)))"
    proof -
      have "list_all plain (map char_of [239, 191, 189 :: nat])"
        by (simp add: plain_byte)
      then show ?thesis
        using False dot_segment_plain [OF _ high, of q]
          dot_segment_plain [of "map char_of [239, 191, 189]" q]
        by (auto simp: Let_def simp del: list.map(2))
    qed
    ultimately show ?thesis using rest by simp
  qed
qed simp

lemma hex_value_less: "hex_value c = Some a \<Longrightarrow> a < 16"
  by (auto simp: hex_value_def Let_def split: if_splits)

lemma hex_value_plain: "hex_value c = Some a \<Longrightarrow> plain c"
  by (auto simp: plain_def hex_value_def Let_def)

lemma char_nat_inject: "char_nat c = char_nat d \<longleftrightarrow> c = d"
  by simp

lemma hex_value_2: "hex_value h = Some 2 \<Longrightarrow> h = CHR ''2''"
  by (rule iffD1 [OF char_nat_inject]) (auto simp: hex_value_def Let_def split: if_splits)

lemma hex_value_lower:
  "hex_value l = Some 14 \<Longrightarrow> ascii_lower l = CHR ''e''"
  "hex_value l = Some 15 \<Longrightarrow> ascii_lower l = CHR ''f''"
  by (rule iffD1 [OF char_nat_inject],
      auto simp: hex_value_def ascii_lower_def Let_def split: if_splits)+

abbreviation encoded_dot_or_slash :: "string \<Rightarrow> bool" where
  "encoded_dot_or_slash p \<equiv>
     contains_text ''%2e'' (map ascii_lower p) \<or> contains_text ''%2f'' (map ascii_lower p)"

lemma decoded_plain:
  assumes h: "hex_value h = Some a" and l: "hex_value l = Some b"
    and e: "\<not> encoded_dot_or_slash (CHR ''%'' # h # l # s)"
  shows "plain (char_of (a * 16 + b))"
proof (rule ccontr)
  assume "\<not> ?thesis"
  moreover have "a * 16 + b < 256" using hex_value_less [OF h] hex_value_less [OF l] by simp
  ultimately have n: "a * 16 + b = 47 \<or> a * 16 + b = 46"
    by (auto simp: plain_def char_of_eq_iff take_bit_eq_mod)
  then have "a = 2" "b = 14 \<or> b = 15" using hex_value_less [OF l] by presburger+
  with h l have "h = CHR ''2''" "ascii_lower l = CHR ''e'' \<or> ascii_lower l = CHR ''f''"
    using hex_value_2 hex_value_lower by blast+
  then show False using e
    by (auto simp: starts_at_def strip_prefix_def ascii_lower_def)
qed

lemma dot_segment_percent:
  "\<not> encoded_dot_or_slash p \<Longrightarrow> dot_segment q (percent_bytes p) = dot_segment q p"
proof (induction p arbitrary: q rule: percent_bytes.induct)
  case (1 c h l s)
  have tl: "\<not> encoded_dot_or_slash (h # l # s)" "\<not> encoded_dot_or_slash s"
    using "1.prems" by auto
  show ?case
  proof (cases "c = CHR ''%'' \<and> hex_value h \<noteq> None \<and> hex_value l \<noteq> None")
    case True
    then obtain a b where c: "c = CHR ''%''" and h: "hex_value h = Some a" and l: "hex_value l = Some b"
      by auto
    have "plain (char_of (a * 16 + b))" using decoded_plain [OF h l] "1.prems" c by blast
    then have "dot_segment q (char_of (a * 16 + b) # percent_bytes s) = dot_segment Other (percent_bytes s)"
      using dot_segment_plain [of "[char_of (a * 16 + b)]"] by simp
    moreover have "dot_segment q (c # h # l # s) = dot_segment Other s"
      using dot_segment_plain [of "[c, h, l]" q s] hex_value_plain [OF h] hex_value_plain [OF l] c
      by (simp add: plain_def)
    moreover have "dot_segment Other (percent_bytes s) = dot_segment Other s"
      using "1.IH" c h l tl(2) by simp
    ultimately show ?thesis using c h l by simp
  next
    case False
    then have "percent_bytes (c # h # l # s) = c # percent_bytes (h # l # s)"
      by (auto split: option.split)
    moreover have "dot_segment q' (percent_bytes (h # l # s)) = dot_segment q' (h # l # s)" for q'
      using False "1.IH" tl(1) by (cases "c = CHR ''%''"; cases "hex_value h"; cases "hex_value l") auto
    ultimately show ?thesis by simp
  qed
qed simp_all

text \<open>The guard refuses a path exactly when it has a backslash, a percent-encoded
  dot, slash or backslash, or a segment of one or two dots as it stands:
  decoding the path finds no further traversal.\<close>

lemma path_guard_reference:
  "path_is_unsafe p \<longleftrightarrow>
     backslash \<in> set p \<or>
     list_ex (\<lambda>enc. contains_text enc (map ascii_lower p)) [''%2e'', ''%2f'', ''%5c''] \<or>
     list_ex (\<lambda>seg. seg = ''.'' \<or> seg = ''..'') (split_on (CHR ''/'') p)"
proof -
  have "contains_dot_segment p \<longleftrightarrow> list_ex (\<lambda>seg. seg = ''.'' \<or> seg = ''..'') (split_on (CHR ''/'') p)"
    if "\<not> encoded_dot_or_slash p"
  proof -
    have "list_all (\<lambda>c. c < 256) (map char_nat (percent_bytes p))" by (simp add: list_all_iff)
    from dot_segment_lossy [OF this, of Fresh] dot_segment_percent [OF that, of Fresh]
    show ?thesis
      by (simp add: contains_dot_segment_def percent_decode_path_def dot_segments_scan comp_def)
  qed
  then show ?thesis unfolding path_is_unsafe_def by auto
qed

section \<open>Facts about bodies\<close>

text \<open>What the proxy relies on of the JSON library: what it prints parses, with
  the floating-point numbers only approximately.\<close>

primrec erase_floats :: "json \<Rightarrow> json" where
  "erase_floats JNull = JNull"
| "erase_floats (JBool b) = JBool b"
| "erase_floats (JUint n) = JUint n"
| "erase_floats (JNeg i) = JNeg i"
| "erase_floats (JFloat f) = JFloat []"
| "erase_floats (JStr s) = JStr s"
| "erase_floats (JArr vs) = JArr (map erase_floats vs)"
| "erase_floats (JObj m) = JObj (map (map_prod id erase_floats) m)"

definition prints_parse :: "json_codec \<Rightarrow> bool" where
  "prints_parse J \<longleftrightarrow>
     (\<forall>v b. jc_print J v = Some b \<longrightarrow> (\<exists>v'. jc_parse J b = Some v' \<and> erase_floats v' = erase_floats v))"

definition erase_fields :: "(string \<times> json) list \<Rightarrow> (string \<times> json) list" where
  "erase_fields m = map (map_prod id erase_floats) m"

lemma erase_JObj [simp]: "erase_floats (JObj m) = JObj (erase_fields m)"
  by (simp add: erase_fields_def)

declare erase_floats.simps(8) [simp del]

lemma map_of_erase: "map_of (erase_fields m) k = map_option erase_floats (map_of m k)"
  unfolding erase_fields_def by (induction m) auto

lemma is_number_erase [simp]: "is_number (erase_floats v) = is_number v"
  by (cases v) simp_all

lemma json_u64_erase [simp]: "json_u64 (erase_floats v) = json_u64 v"
  by (cases v) simp_all

lemma erase_eq_JUint [simp]: "erase_floats v = JUint n \<longleftrightarrow> v = JUint n"
  by (cases v) simp_all

lemma erase_eq_JNull [simp]: "erase_floats v = JNull \<longleftrightarrow> v = JNull"
  by (cases v) simp_all

lemma erase_eq_JObj: "erase_floats v = JObj m \<longleftrightarrow> (\<exists>o'. v = JObj o' \<and> erase_fields o' = m)"
  by (cases v) auto

lemma prompt_count_erase: "prompt_count (erase_fields obj) = prompt_count obj"
proof (cases "map_of obj ''prompt''")
  case (Some v)
  then show ?thesis by (cases v) (simp_all add: prompt_count_def map_of_erase list_all_iff)
qed (simp add: prompt_count_def map_of_erase)

lemma per_prompt_erase: "per_prompt k fs (erase_fields obj) = per_prompt k fs obj"
proof (induction fs arbitrary: k)
  case (Cons f fs)
  show ?case
  proof (cases "map_of obj f")
    case (Some v)
    then show ?thesis by (cases v) (simp_all add: map_of_erase Cons)
  qed (simp add: map_of_erase Cons)
qed simp

lemma generation_count_erase: "generation_count (erase_fields obj) = generation_count obj"
  by (simp only: generation_count_def per_prompt_erase prompt_count_erase)

lemma map_of_update_alist [simp]: "map_of (AList.update k v m) j = (if j = k then Some v else map_of m j)"
  by (simp add: update_conv')

lemma within_budget_JUint [simp]: "within_budget per (JUint n) \<longleftrightarrow> n \<le> per"
  by (simp add: within_budget_def)

lemma within_budget_iff: "within_budget per v \<longleftrightarrow> (\<exists>n. v = JUint n \<and> n \<le> per)"
  by (cases v) (simp_all add: within_budget_def)

lemma clamp_fields_facts:
  assumes "clamp_fields per fs (named, obj) = (named', obj')"
  shows "named' = (named \<or> (\<exists>f\<in>set fs. map_of obj f \<noteq> None))"
    and "map_of obj' k = (if k \<in> set fs
       then map_option (\<lambda>v. if within_budget per v then v else JUint per) (map_of obj k) else map_of obj k)"
  using assms
proof (induction fs arbitrary: named obj)
  case (Cons f fs)
  { case 1
    show ?case
    proof (cases "map_of obj f")
      case None
      with 1 Cons.IH(1) [of named obj] show ?thesis by simp
    next
      case (Some v)
      define o' where "o' = (if within_budget per v then obj else AList.update f (JUint per) obj)"
      have "clamp_fields per fs (True, o') = (named', obj')" using 1 Some by (simp add: o'_def)
      from Cons.IH(1) [OF this] Some show ?thesis by simp
    qed
  next
    case 2
    show ?case
    proof (cases "map_of obj f")
      case None
      with 2 Cons.IH(2) [of named obj] show ?thesis by auto
    next
      case (Some v)
      define o' where "o' = (if within_budget per v then obj else AList.update f (JUint per) obj)"
      have "clamp_fields per fs (True, o') = (named', obj')" using 2 Some by (simp add: o'_def)
      with Cons.IH(2) [of True o'] Some show ?thesis by (auto simp: o'_def split: if_splits)
    qed
  }
qed simp_all

lemma clamp_object_lookup:
  "map_of (clamp_object per obj) k =
     (if k \<in> set generation_limit_fields
      then (case map_of obj k of
              Some v \<Rightarrow> Some (if within_budget per v then v else JUint per)
            | None \<Rightarrow> if k = ''max_tokens'' \<and> (\<forall>f\<in>set generation_limit_fields. map_of obj f = None)
                     then Some (JUint per) else None)
      else map_of obj k)"
proof -
  obtain named o' where c: "clamp_fields per generation_limit_fields (False, obj) = (named, o')"
    by fastforce
  note F = clamp_fields_facts [OF c]
  have "''max_tokens'' \<in> set generation_limit_fields" by (simp add: generation_limit_fields_def)
  with F show ?thesis
    by (cases "map_of obj k") (auto simp: clamp_object_def c)
qed

lemma clamp_object_limits:
  "\<exists>f\<in>set generation_limit_fields. map_of (clamp_object per obj) f \<noteq> None"
  "f \<in> set generation_limit_fields \<Longrightarrow> map_of (clamp_object per obj) f = Some v \<Longrightarrow> \<exists>n. v = JUint n \<and> n \<le> per"
proof -
  have mt: "''max_tokens'' \<in> set generation_limit_fields" by (simp add: generation_limit_fields_def)
  show "\<exists>f\<in>set generation_limit_fields. map_of (clamp_object per obj) f \<noteq> None"
  proof (cases "\<forall>f\<in>set generation_limit_fields. map_of obj f = None")
    case True
    with mt show ?thesis by (intro bexI [OF _ mt]) (simp add: clamp_object_lookup)
  next
    case False
    then obtain f v where f: "f \<in> set generation_limit_fields" and v: "map_of obj f = Some v" by auto
    then have "map_of (clamp_object per obj) f \<noteq> None" by (simp add: clamp_object_lookup)
    with f show ?thesis by blast
  qed
  show "\<exists>n. v = JUint n \<and> n \<le> per"
    if "f \<in> set generation_limit_fields" "map_of (clamp_object per obj) f = Some v"
    using that by (auto simp: clamp_object_lookup within_budget_iff split: option.splits if_splits)
qed

lemma generation_count_cong:
  assumes "\<And>k. k \<in> {''prompt'', ''n'', ''best_of''} \<Longrightarrow> map_of a k = map_of b k"
  shows "generation_count a = generation_count b"
proof -
  have "per_prompt j fs a = per_prompt j fs b" if "set fs \<subseteq> {''n'', ''best_of''}" for j fs
    using that assms by (induction fs arbitrary: j) (auto split: option.split json.split)
  then have "per_prompt 1 [''n'', ''best_of''] a = per_prompt 1 [''n'', ''best_of''] b"
    by (simp del: per_prompt.simps)
  moreover have "prompt_count a = prompt_count b" using assms [of "''prompt''"] by (simp add: prompt_count_def)
  ultimately show ?thesis by (simp only: generation_count_def)
qed

lemma generation_count_clamped: "generation_count (clamp_object per obj) = generation_count obj"
  by (rule generation_count_cong) (auto simp: clamp_object_lookup generation_limit_fields_def)

lemma generation_count_pos: "generation_count obj = Inr g \<Longrightarrow> 0 < g"
  by (auto simp: generation_count_def split: sum.splits)

lemma budget_total: "0 < g \<Longrightarrow> g * generation_budget cap g \<le> max (unat cap) g"
proof (cases "unat cap div g = 0")
  case False
  then have "generation_budget cap g = unat cap div g" by (simp add: generation_budget_def)
  then show ?thesis using times_div_less_eq_dividend [of g "unat cap"]
    by (simp add: le_max_iff_disj)
qed (simp add: generation_budget_def)

text \<open>C28. Whatever body a generation request has, the body the proxy forwards for it
  parses to an object that asks for between one and eight generations, names a
  length limit, and names only limits that are numbers within the budget of one
  generation; the generations together may use the configured number of tokens
  (or one token each, when there are more generations than that). Every other
  field is as the client sent it.\<close>

theorem generation_budget_enforced:
  assumes J: "prints_parse J" and c: "clamp_generation_budget J body cap = Inr b"
  shows "\<exists>obj obj' g. jc_parse J body = Some (JObj obj) \<and> jc_parse J b = Some (JObj obj')
    \<and> generation_count obj' = Inr g \<and> 1 \<le> g \<and> g \<le> max_generations_per_request
    \<and> (\<exists>f\<in>set generation_limit_fields. map_of obj' f \<noteq> None)
    \<and> (\<forall>f\<in>set generation_limit_fields. \<forall>v. map_of obj' f = Some v
         \<longrightarrow> (\<exists>n. v = JUint n \<and> n \<le> generation_budget cap g))
    \<and> g * generation_budget cap g \<le> max (unat cap) g
    \<and> (\<forall>k. k \<notin> set generation_limit_fields
         \<longrightarrow> map_option erase_floats (map_of obj' k) = map_option erase_floats (map_of obj k))"
proof -
  obtain obj g where obj: "jc_parse J body = Some (JObj obj)" and g: "generation_count obj = Inr g"
    and le: "g \<le> max_generations_per_request"
    and p: "jc_print J (JObj (clamp_object (generation_budget cap g) obj)) = Some b"
    using c by (auto simp: clamp_generation_budget_def split: option.splits json.splits sum.splits if_splits)
  let ?c = "clamp_object (generation_budget cap g) obj"
  obtain v where v: "jc_parse J b = Some v" "erase_floats v = erase_floats (JObj ?c)"
    using J p unfolding prints_parse_def by blast
  then obtain obj' where v': "v = JObj obj'" and e: "erase_fields obj' = erase_fields ?c"
    by (cases v) auto
  have look: "map_option erase_floats (map_of obj' k) = map_option erase_floats (map_of ?c k)" for k
    using e map_of_erase by metis
  have "generation_count obj' = Inr g"
    using generation_count_erase [of obj'] generation_count_erase [of ?c] e g
    by (simp add: generation_count_clamped)
  moreover have "\<exists>f\<in>set generation_limit_fields. map_of obj' f \<noteq> None"
    using clamp_object_limits(1) [of "generation_budget cap g" obj] look by (metis option.map_disc_iff)
  moreover have "\<exists>n. x = JUint n \<and> n \<le> generation_budget cap g"
    if f: "f \<in> set generation_limit_fields" "map_of obj' f = Some x" for f x
  proof -
    obtain y where y: "map_of ?c f = Some y" "erase_floats x = erase_floats y"
      using look [of f] f(2) by (cases "map_of ?c f") auto
    then obtain n where "y = JUint n" "n \<le> generation_budget cap g"
      using clamp_object_limits(2) [OF f(1)] by blast
    with y show ?thesis by simp
  qed
  ultimately show ?thesis
    using obj v v' le generation_count_pos [OF g] budget_total look
    by (intro exI [of _ obj] exI [of _ obj'] exI [of _ g]) (auto simp: clamp_object_lookup Suc_le_eq)
qed

end
