(* ===== verification/Local_Proxy.thy ===== *)
theory Local_Proxy
  imports Proxy_Requests
begin

text \<open>
  The local proxy of \<open>gateway/src/local_proxy.rs\<close>: one request from its bearer
  key to the streamed answer, and the concurrent requests with the permits they
  hold. The state is the metered key store, the free permits of every key and
  of the upstreams, and the network, whose sending is a parameter.
\<close>

section \<open>Configuration and state\<close>

record 'w proxy_config =
  px_lib :: x402_lib
  px_platform :: "'w platform"
  px_master :: bytes
  px_json :: json_codec
  px_upstreams :: "string list"
  px_embed_upstreams :: "string list"
  px_stt_upstreams :: "string list"
  px_stt_subpath :: string
  px_max_tokens :: u64
  px_max_concurrent_per_key :: nat
  px_member_concurrent :: "nat option"
  px_max_concurrent_upstream :: nat

record ('w, 'n) proxy_state =
  ps_keys :: "'w keystore"
  ps_slots :: "(string \<times> nat) list"
  ps_upstream_free :: nat
  ps_net :: 'n

definition max_request_body :: nat where "max_request_body = 8 * 1024 * 1024"
definition max_stt_body :: nat where "max_stt_body = 32 * 1024 * 1024"
definition default_stt_subpath :: string where "default_stt_subpath = ''/v1/audio/transcriptions''"
definition default_proxy_max_tokens :: u64 where "default_proxy_max_tokens = 2048"
definition default_max_concurrent_per_key :: nat where "default_max_concurrent_per_key = 4"
definition default_max_concurrent_upstream :: nat where "default_max_concurrent_upstream = 32"

text \<open>The constructor asserts that there is an upstream: \<open>None\<close> is its panic.\<close>

definition local_proxy_new ::
  "x402_lib \<Rightarrow> 'w platform \<Rightarrow> bytes \<Rightarrow> json_codec \<Rightarrow> string list \<Rightarrow> 'w proxy_config option" where
  "local_proxy_new X P master J upstreams =
     (if upstreams = [] then None
      else Some \<lparr> px_lib = X, px_platform = P, px_master = master, px_json = J,
        px_upstreams = upstreams, px_embed_upstreams = [], px_stt_upstreams = [],
        px_stt_subpath = default_stt_subpath, px_max_tokens = default_proxy_max_tokens,
        px_max_concurrent_per_key = default_max_concurrent_per_key, px_member_concurrent = None,
        px_max_concurrent_upstream = default_max_concurrent_upstream \<rparr>)"

definition with_limits :: "u64 \<Rightarrow> nat \<Rightarrow> nat \<Rightarrow> 'w proxy_config \<Rightarrow> 'w proxy_config" where
  "with_limits tokens per_key upstream cfg =
     cfg\<lparr> px_max_tokens := max tokens 1, px_max_concurrent_per_key := max per_key 1,
          px_max_concurrent_upstream := max upstream 1 \<rparr>"

definition with_embed_upstreams :: "string list \<Rightarrow> 'w proxy_config \<Rightarrow> 'w proxy_config" where
  "with_embed_upstreams us cfg = cfg\<lparr> px_embed_upstreams := us \<rparr>"

definition with_stt :: "string list \<Rightarrow> string option \<Rightarrow> 'w proxy_config \<Rightarrow> 'w proxy_config" where
  "with_stt us subpath cfg =
     (let cfg = cfg\<lparr> px_stt_upstreams := us \<rparr>
      in case subpath of
           None \<Rightarrow> cfg
         | Some sub \<Rightarrow> if str_trim sub = [] then cfg else cfg\<lparr> px_stt_subpath := sub \<rparr>)"

section \<open>Answers\<close>

definition json_error :: "x402_lib \<Rightarrow> nat \<Rightarrow> string \<Rightarrow> response" where
  "json_error X code msg = json_response X code content_json (error_message_json msg)"

definition rate_limited :: "x402_lib \<Rightarrow> nat \<Rightarrow> string \<Rightarrow> response" where
  "rate_limited X secs msg =
     (json_error X 429 msg)\<lparr> rs_headers := content_json @ [(''retry-after'', dec_string secs)] \<rparr>"

definition stt_unavailable :: "x402_lib \<Rightarrow> response" where
  "stt_unavailable X =
     json_response X 503 content_json
       (JObj [(''error'', JObj [(''message'', JStr ''STT not configured''),
                                (''type'', JStr ''stt_unavailable'')])])"

fun consume_refusal :: "x402_lib \<Rightarrow> consume_error \<Rightarrow> response" where
  "consume_refusal X ConsumeUnknown = json_error X 401 ''unknown api key''"
| "consume_refusal X ConsumeRevoked = json_error X 401 ''api key revoked''"
| "consume_refusal X (RateLimited s) = rate_limited X s ''rate limit exceeded''"
| "consume_refusal X (DailyQuotaExceeded s) = rate_limited X s ''daily quota exceeded''"
| "consume_refusal X (ConsumeStore e) = json_error X 500 ''internal''"
| "consume_refusal X (ConsumeCrypt e) = json_error X 500 ''internal''"

section \<open>Permits\<close>

definition concurrency_limit_for :: "'w proxy_config \<Rightarrow> string \<Rightarrow> nat" where
  "concurrency_limit_for cfg label =
     (case px_member_concurrent cfg of
        Some limit \<Rightarrow>
          if starts_with member_label_prefix label
          then max 1 (min limit (px_max_concurrent_per_key cfg))
          else px_max_concurrent_per_key cfg
      | None \<Rightarrow> px_max_concurrent_per_key cfg)"

text \<open>The key's semaphore is created with its limit on the first request.\<close>

definition try_key_slot ::
  "'w proxy_config \<Rightarrow> string \<Rightarrow> string \<Rightarrow> ('w, 'n) proxy_state \<Rightarrow> bool \<times> ('w, 'n) proxy_state" where
  "try_key_slot cfg label h s =
     (let available = (case map_of (ps_slots s) h of
            None \<Rightarrow> concurrency_limit_for cfg label | Some n \<Rightarrow> n)
      in (0 < available, s\<lparr> ps_slots := AList.update h (available - 1) (ps_slots s) \<rparr>))"

definition drop_key_slot :: "string \<Rightarrow> ('w, 'n) proxy_state \<Rightarrow> ('w, 'n) proxy_state" where
  "drop_key_slot h s =
     (case map_of (ps_slots s) h of
        None \<Rightarrow> s
      | Some n \<Rightarrow> s\<lparr> ps_slots := AList.update h (n + 1) (ps_slots s) \<rparr>)"

definition try_upstream_slot :: "('w, 'n) proxy_state \<Rightarrow> bool \<times> ('w, 'n) proxy_state" where
  "try_upstream_slot s =
     (0 < ps_upstream_free s, s\<lparr> ps_upstream_free := ps_upstream_free s - 1 \<rparr>)"

definition drop_upstream_slot :: "('w, 'n) proxy_state \<Rightarrow> ('w, 'n) proxy_state" where
  "drop_upstream_slot s = s\<lparr> ps_upstream_free := ps_upstream_free s + 1 \<rparr>"

section \<open>The handler's phases\<close>

text \<open>Up to the key's slot: the bearer, the path, the meter. The request is
  refused, or admitted with what the meter says of the key.\<close>

definition proxy_admit ::
  "'w proxy_config \<Rightarrow> request \<Rightarrow> ('w, 'n) proxy_state
    \<Rightarrow> (response + consumed_key) \<times> ('w, 'n) proxy_state" where
  "proxy_admit cfg req s =
     (let X = px_lib cfg
      in case proxy_bearer (rq_headers req) of
           None \<Rightarrow> (Inl (json_error X 401 ''missing api key''), s)
         | Some key_id \<Rightarrow>
             if path_is_unsafe (rq_path req) then (Inl (json_error X 400 ''path is not allowed''), s)
             else if rq_path req \<notin> set allowed_upstream_paths
             then (Inl (json_error X 404 ''unknown route''), s)
             else
               case try_consume (px_platform cfg) (px_master cfg) key_id (ps_keys s) of
                 (Inl e, ks) \<Rightarrow> (Inl (consume_refusal X e), s\<lparr> ps_keys := ks \<rparr>)
               | (Inr c, ks) \<Rightarrow>
                   (case try_key_slot cfg (ck_label c) (ck_hash c) (s\<lparr> ps_keys := ks \<rparr>) of
                      (True, s) \<Rightarrow> (Inr c, s)
                    | (False, s) \<Rightarrow>
                        (Inl (rate_limited X 1 ''too many concurrent requests for this api key''), s)))"

text \<open>The body: buffered up to the route's cap, and clamped for generations.\<close>

definition proxy_body :: "'w proxy_config \<Rightarrow> request \<Rightarrow> response + bytes" where
  "proxy_body cfg req =
     (let X = px_lib cfg;
          max_body = (if is_stt_transcriptions (rq_method req) (rq_path req) then max_stt_body
                      else max_request_body)
      in case rq_body req of
           Inl e \<Rightarrow> Inl (json_error X 400 (''body read: '' @ e))
         | Inr b \<Rightarrow>
             if max_body < length b then Inl (json_error X 400 (''body read: '' @ body_limit_error X))
             else if is_generation (rq_method req) (rq_path req)
             then (case clamp_generation_budget (px_json cfg) b (px_max_tokens cfg) of
                     Inl msg \<Rightarrow> Inl (json_error X 400 msg)
                   | Inr b \<Rightarrow> Inr b)
             else Inr b)"

text \<open>The upstreams for the route, and the fixed subpath if it has one.\<close>

definition proxy_route :: "'w proxy_config \<Rightarrow> request \<Rightarrow> response + (string list \<times> string option)" where
  "proxy_route cfg req =
     (if is_stt_transcriptions (rq_method req) (rq_path req)
      then if px_stt_upstreams cfg = [] then Inl (stt_unavailable (px_lib cfg))
           else Inr (px_stt_upstreams cfg, Some (px_stt_subpath cfg))
      else if is_embeddings (rq_path req) \<and> px_embed_upstreams cfg \<noteq> []
      then Inr (px_embed_upstreams cfg, None)
      else Inr (px_upstreams cfg, None))"

record forwarded =
  fw_url :: string
  fw_method :: string
  fw_headers :: "(string \<times> string) list"
  fw_body :: bytes

record upstream_reply =
  ur_status :: nat
  ur_headers :: "(string \<times> string) list"
  ur_body :: string
  ur_body_broken :: bool

definition trim_end_slashes :: "string \<Rightarrow> string" where
  "trim_end_slashes s = rev (dropWhile (\<lambda>c. c = CHR ''/'') (rev s))"

definition forwarded_to :: "request \<Rightarrow> bytes \<Rightarrow> string option \<Rightarrow> string \<Rightarrow> forwarded" where
  "forwarded_to req body subpath upstream =
     \<lparr> fw_url = trim_end_slashes upstream @
         (case subpath of
            Some p \<Rightarrow> p
          | None \<Rightarrow> (case rq_path_and_query req of Some p \<Rightarrow> p | None \<Rightarrow> rq_path req)),
       fw_method = rq_method req, fw_headers = forward_headers (rq_headers req), fw_body = body \<rparr>"

text \<open>The loop over the upstreams: a failed connection or a 5xx falls over to the
  next.\<close>

fun try_upstreams ::
  "(forwarded \<Rightarrow> 'n \<Rightarrow> (string + upstream_reply) \<times> 'n) \<Rightarrow> (string \<Rightarrow> forwarded) \<Rightarrow> string list \<Rightarrow> 'n
    \<Rightarrow> upstream_reply option \<times> 'n" where
  "try_upstreams send mk [] n = (None, n)"
| "try_upstreams send mk (u # us) n =
     (case send (mk u) n of
        (Inr r, n) \<Rightarrow>
          if 500 \<le> ur_status r \<and> ur_status r < 600 then try_upstreams send mk us n else (Some r, n)
      | (Inl e, n) \<Rightarrow> try_upstreams send mk us n)"

definition proxy_answer :: "upstream_reply \<Rightarrow> response" where
  "proxy_answer r =
     \<lparr> rs_status = ur_status r,
       rs_headers = remove_header ''content-length'' (strip_hop_by_hop (ur_headers r)),
       rs_body = ur_body r, rs_body_broken = ur_body_broken r, rs_charge = None \<rparr>"

text \<open>\<open>Inr\<close> is the answer whose stream keeps the permits.\<close>

definition proxy_dispatch ::
  "'w proxy_config \<Rightarrow> (forwarded \<Rightarrow> 'n \<Rightarrow> (string + upstream_reply) \<times> 'n) \<Rightarrow> request \<Rightarrow> bytes \<Rightarrow> 'n
    \<Rightarrow> (response + response) \<times> 'n" where
  "proxy_dispatch cfg send req body n =
     (case proxy_route cfg req of
        Inl r \<Rightarrow> (Inl r, n)
      | Inr (upstreams, subpath) \<Rightarrow>
          (case try_upstreams send (forwarded_to req body subpath) upstreams n of
             (None, n) \<Rightarrow> (Inl (json_error (px_lib cfg) 502 ''upstream unreachable''), n)
           | (Some r, n) \<Rightarrow> (Inr (proxy_answer r), n)))"

text \<open>The whole handler on its own. Nobody returns a permit while it waits, so
  that with no upstream permit free it times out. A streamed answer leaves with
  the permits.\<close>

definition proxy_handler ::
  "'w proxy_config \<Rightarrow> (forwarded \<Rightarrow> 'n \<Rightarrow> (string + upstream_reply) \<times> 'n) \<Rightarrow> request
    \<Rightarrow> ('w, 'n) proxy_state \<Rightarrow> response \<times> ('w, 'n) proxy_state" where
  "proxy_handler cfg send req s =
     (case proxy_admit cfg req s of
        (Inl r, s) \<Rightarrow> (r, s)
      | (Inr c, s) \<Rightarrow>
          (case proxy_body cfg req of
             Inl r \<Rightarrow> (r, drop_key_slot (ck_hash c) s)
           | Inr body \<Rightarrow>
               (case try_upstream_slot s of
                  (False, t) \<Rightarrow> (json_error (px_lib cfg) 503 ''upstream busy'', drop_key_slot (ck_hash c) s)
                | (True, s) \<Rightarrow>
                    (case proxy_dispatch cfg send req body (ps_net s) of
                       (Inl r, n) \<Rightarrow>
                         (r, drop_upstream_slot (drop_key_slot (ck_hash c) (s\<lparr> ps_net := n \<rparr>)))
                     | (Inr r, n) \<Rightarrow> (r, s\<lparr> ps_net := n \<rparr>)))))"

section \<open>Concurrent requests\<close>

datatype phase = Reading | Waiting bytes | Forwarding bytes | Streaming

record task =
  tk_key :: string
  tk_request :: request
  tk_phase :: phase

fun holds_upstream :: "phase \<Rightarrow> bool" where
  "holds_upstream (Forwarding b) = True"
| "holds_upstream Streaming = True"
| "holds_upstream p = False"

text \<open>A task ends: its stream is through, its wait timed out, its client went
  away. It returns what it holds.\<close>

definition end_task :: "task \<Rightarrow> ('w, 'n) proxy_state \<Rightarrow> ('w, 'n) proxy_state" where
  "end_task t s =
     (let s = drop_key_slot (tk_key t) s
      in if holds_upstream (tk_phase t) then drop_upstream_slot s else s)"

text \<open>The steps of the requests, in any order between the awaits of the handler.\<close>

inductive proxy_step ::
  "'w proxy_config \<Rightarrow> (forwarded \<Rightarrow> 'n \<Rightarrow> (string + upstream_reply) \<times> 'n)
    \<Rightarrow> ('w, 'n) proxy_state \<times> task list \<Rightarrow> ('w, 'n) proxy_state \<times> task list \<Rightarrow> bool"
  for cfg send where
  refused: "proxy_admit cfg req s = (Inl r, s') \<Longrightarrow> proxy_step cfg send (s, ts) (s', ts)"
| admitted: "proxy_admit cfg req s = (Inr c, s')
    \<Longrightarrow> proxy_step cfg send (s, ts) (s', \<lparr> tk_key = ck_hash c, tk_request = req, tk_phase = Reading \<rparr> # ts)"
| read: "tk_phase t = Reading \<Longrightarrow> proxy_body cfg (tk_request t) = Inr b
    \<Longrightarrow> proxy_step cfg send (s, us @ t # vs) (s, us @ t\<lparr> tk_phase := Waiting b \<rparr> # vs)"
| started: "tk_phase t = Waiting b \<Longrightarrow> try_upstream_slot s = (True, s')
    \<Longrightarrow> proxy_step cfg send (s, us @ t # vs) (s', us @ t\<lparr> tk_phase := Forwarding b \<rparr> # vs)"
| failed: "tk_phase t = Forwarding b
    \<Longrightarrow> proxy_dispatch cfg send (tk_request t) b (ps_net s) = (Inl r, n)
    \<Longrightarrow> proxy_step cfg send (s, us @ t # vs) (end_task t (s\<lparr> ps_net := n \<rparr>), us @ vs)"
| streamed: "tk_phase t = Forwarding b
    \<Longrightarrow> proxy_dispatch cfg send (tk_request t) b (ps_net s) = (Inr r, n)
    \<Longrightarrow> proxy_step cfg send (s, us @ t # vs) (s\<lparr> ps_net := n \<rparr>, us @ t\<lparr> tk_phase := Streaming \<rparr> # vs)"
| ended: "proxy_step cfg send (s, us @ t # vs) (end_task t s, us @ vs)"

definition proxy_start :: "'w proxy_config \<Rightarrow> 'w keystore \<Rightarrow> 'n \<Rightarrow> ('w, 'n) proxy_state" where
  "proxy_start cfg ks n =
     \<lparr> ps_keys = ks, ps_slots = [], ps_upstream_free = px_max_concurrent_upstream cfg, ps_net = n \<rparr>"

inductive proxy_reachable ::
  "'w proxy_config \<Rightarrow> (forwarded \<Rightarrow> 'n \<Rightarrow> (string + upstream_reply) \<times> 'n)
    \<Rightarrow> ('w, 'n) proxy_state \<times> task list \<Rightarrow> bool" for cfg send where
  start: "proxy_reachable cfg send (proxy_start cfg ks n, [])"
| step: "proxy_reachable cfg send c \<Longrightarrow> proxy_step cfg send c c' \<Longrightarrow> proxy_reachable cfg send c'"

section \<open>Permits bound what is in flight\<close>

text \<open>Permits for each of several resources: acquiring takes one away, returning
  gives at most one back, and neither gives any to another resource.\<close>

locale permits =
  fixes acquire :: "'k \<Rightarrow> 's \<Rightarrow> bool \<times> 's" and release :: "'k \<Rightarrow> 's \<Rightarrow> 's" and free :: "'k \<Rightarrow> 's \<Rightarrow> nat"
  assumes granted: "acquire k s = (True, s') \<Longrightarrow> Suc (free k s') \<le> free k s"
    and denied: "acquire k s = (False, s') \<Longrightarrow> free k s' \<le> free k s"
    and acquire_other: "j \<noteq> k \<Longrightarrow> free j (snd (acquire k s)) \<le> free j s"
    and released: "free k (release k s) \<le> Suc (free k s)"
    and release_other: "j \<noteq> k \<Longrightarrow> free j (release k s) \<le> free j s"
begin

text \<open>What is free and what is held of each resource is no more than the cap.\<close>

definition balanced :: "nat \<Rightarrow> 's \<Rightarrow> 'k list \<Rightarrow> bool" where
  "balanced cap s held \<longleftrightarrow> (\<forall>k. free k s + count_list held k \<le> cap)"

lemma balancedD: "balanced cap s held \<Longrightarrow> free k s + count_list held k \<le> cap"
  by (simp add: balanced_def)

lemma balanced_granted:
  assumes b: "balanced cap s held" and a: "acquire k s = (True, s')"
  shows "balanced cap s' (k # held)"
  unfolding balanced_def
proof
  fix j
  show "free j s' + count_list (k # held) j \<le> cap"
    using balancedD [OF b, of j] granted [OF a] acquire_other [of j k s] a by (cases "j = k") auto
qed

lemma balanced_denied:
  assumes b: "balanced cap s held" and a: "acquire k s = (False, s')"
  shows "balanced cap s' held"
  unfolding balanced_def
proof
  fix j
  show "free j s' + count_list held j \<le> cap"
    using balancedD [OF b, of j] denied [OF a] acquire_other [of j k s] a by (cases "j = k") auto
qed

lemma balanced_released:
  assumes b: "balanced cap s (us @ k # vs)"
  shows "balanced cap (release k s) (us @ vs)"
  unfolding balanced_def
proof
  fix j
  show "free j (release k s) + count_list (us @ vs) j \<le> cap"
    using balancedD [OF b, of j] released [of k s] release_other [of j k s] by (cases "j = k") auto
qed

lemma held_bounded: "balanced cap s held \<Longrightarrow> count_list held k \<le> cap"
  using balancedD [of cap s held k] by simp

end

definition key_free :: "'w proxy_config \<Rightarrow> string \<Rightarrow> ('w, 'n) proxy_state \<Rightarrow> nat" where
  "key_free cfg h s =
     (case map_of (ps_slots s) h of None \<Rightarrow> max 1 (px_max_concurrent_per_key cfg) | Some n \<Rightarrow> n)"


lemma concurrency_limit_le: "concurrency_limit_for cfg label \<le> max 1 (px_max_concurrent_per_key cfg)"
  by (auto simp: concurrency_limit_for_def split: option.split)

interpretation key_permits: permits "\<lambda>h. try_key_slot cfg (label h) h" drop_key_slot "key_free cfg"
  for cfg :: "'w proxy_config" and label :: "string \<Rightarrow> string"
proof (unfold_locales, goal_cases)
  case (1 h s s')
  then show ?case
    using concurrency_limit_le [of cfg "label h"]
    by (auto simp: try_key_slot_def key_free_def Let_def split: option.splits)
next
  case (2 h s s')
  then show ?case by (auto simp: try_key_slot_def key_free_def Let_def split: option.splits)
next
  case (3 j h s)
  then show ?case by (simp add: try_key_slot_def key_free_def Let_def)
next
  case (4 h s)
  then show ?case by (auto simp: drop_key_slot_def key_free_def split: option.split)
next
  case (5 j h s)
  then show ?case by (auto simp: drop_key_slot_def key_free_def split: option.split)
qed

interpretation upstream_permits: permits "\<lambda>u :: unit. try_upstream_slot" "\<lambda>u. drop_upstream_slot"
  "\<lambda>u. ps_upstream_free"
  by unfold_locales (auto simp: try_upstream_slot_def drop_upstream_slot_def)

lemma upstream_free_keys [simp]:
  "ps_upstream_free (snd (try_key_slot cfg label h s)) = ps_upstream_free s"
  "ps_upstream_free (drop_key_slot h s) = ps_upstream_free s"
  by (simp_all add: try_key_slot_def drop_key_slot_def Let_def split: option.split)

lemma key_free_upstream [simp]:
  "key_free cfg h (snd (try_upstream_slot s)) = key_free cfg h s"
  "key_free cfg h (drop_upstream_slot s) = key_free cfg h s"
  "key_free cfg h (s\<lparr> ps_net := n \<rparr>) = key_free cfg h s"
  "key_free cfg h (s\<lparr> ps_keys := ks \<rparr>) = key_free cfg h s"
  by (simp_all add: try_upstream_slot_def drop_upstream_slot_def key_free_def)

lemma proxy_admit_Inl:
  assumes "proxy_admit cfg req s = (Inl r, s')"
  shows "(\<exists>ks. s' = s\<lparr> ps_keys := ks \<rparr>) \<or> (\<exists>label h ks. try_key_slot cfg label h (s\<lparr> ps_keys := ks \<rparr>) = (False, s'))"
  using assms
  by (auto simp: proxy_admit_def Let_def split: option.splits if_splits prod.splits sum.splits bool.splits
      intro: exI [of _ "ps_keys s"])

lemma proxy_admit_Inr:
  assumes "proxy_admit cfg req s = (Inr c, s')"
  obtains key ks where "proxy_bearer (rq_headers req) = Some key"
    and "rq_path req \<in> set allowed_upstream_paths"
    and "try_consume (px_platform cfg) (px_master cfg) key (ps_keys s) = (Inr c, ks)"
    and "try_key_slot cfg (ck_label c) (ck_hash c) (s\<lparr> ps_keys := ks \<rparr>) = (True, s')"
  using assms
  by (auto simp: proxy_admit_def Let_def split: option.splits if_splits prod.splits sum.splits bool.splits)

abbreviation keys_held :: "task list \<Rightarrow> string list" where
  "keys_held ts \<equiv> map tk_key ts"

abbreviation upstreams_held :: "task list \<Rightarrow> unit list" where
  "upstreams_held ts \<equiv> map (\<lambda>t. ()) (filter (\<lambda>t. holds_upstream (tk_phase t)) ts)"

definition proxy_inv :: "'w proxy_config \<Rightarrow> ('w, 'n) proxy_state \<times> task list \<Rightarrow> bool" where
  "proxy_inv cfg c \<longleftrightarrow>
     key_permits.balanced cfg (max 1 (px_max_concurrent_per_key cfg)) (fst c) (keys_held (snd c)) \<and>
     upstream_permits.balanced (px_max_concurrent_upstream cfg) (fst c) (upstreams_held (snd c))"

lemma balanced_upstream_irrelevant:
  "(\<And>h. key_free cfg h s' = key_free cfg h s)
     \<Longrightarrow> key_permits.balanced cfg cap s' held = key_permits.balanced cfg cap s held"
  by (simp add: key_permits.balanced_def)

lemma balanced_keys_irrelevant:
  "ps_upstream_free s' = ps_upstream_free s
     \<Longrightarrow> upstream_permits.balanced cap s' held = upstream_permits.balanced cap s held"
  by (simp add: upstream_permits.balanced_def)

lemma slot_step:
  assumes b: "key_permits.balanced cfg cap s held" and t: "try_key_slot cfg label h s = (ok, s')"
  shows "key_permits.balanced cfg cap s' (if ok then h # held else held)"
    and "ps_upstream_free s' = ps_upstream_free s"
proof -
  show "ps_upstream_free s' = ps_upstream_free s"
    using upstream_free_keys(1) [of cfg label h s] t by simp
  show "key_permits.balanced cfg cap s' (if ok then h # held else held)"
    using key_permits.balanced_granted [OF b, where label = "\<lambda>h. label" and k = h]
      key_permits.balanced_denied [OF b, where label = "\<lambda>h. label" and k = h] t
    by (cases ok) auto
qed

lemma end_task_inv:
  assumes inv: "proxy_inv cfg (s, us @ t # vs)"
  shows "proxy_inv cfg (end_task t s, us @ vs)"
proof -
  let ?c = "max 1 (px_max_concurrent_per_key cfg)"
  let ?s = "drop_key_slot (tk_key t) s"
  have k: "key_permits.balanced cfg ?c ?s (keys_held (us @ vs))"
    using inv key_permits.balanced_released [of cfg ?c s "keys_held us" "tk_key t" "keys_held vs"]
    by (simp add: proxy_inv_def)
  have u: "upstream_permits.balanced (px_max_concurrent_upstream cfg) ?s (upstreams_held (us @ t # vs))"
    using inv balanced_keys_irrelevant [of ?s s] by (simp add: proxy_inv_def)
  show ?thesis
  proof (cases "holds_upstream (tk_phase t)")
    case True
    have "upstream_permits.balanced (px_max_concurrent_upstream cfg) (drop_upstream_slot ?s)
        (upstreams_held us @ upstreams_held vs)"
      by (rule upstream_permits.balanced_released) (use u True in simp)
    moreover have "key_permits.balanced cfg ?c (drop_upstream_slot ?s) (keys_held (us @ vs))"
      using k by (subst balanced_upstream_irrelevant [of cfg _ ?s]) simp_all
    ultimately show ?thesis using True by (simp add: proxy_inv_def end_task_def Let_def)
  next
    case False
    with k u show ?thesis by (simp add: proxy_inv_def end_task_def)
  qed
qed

lemma net_inv: "proxy_inv cfg (s\<lparr> ps_net := n \<rparr>, ts) = proxy_inv cfg (s, ts)"
  using balanced_upstream_irrelevant [of cfg "s\<lparr> ps_net := n \<rparr>" s]
    balanced_keys_irrelevant [of "s\<lparr> ps_net := n \<rparr>" s]
  by (simp add: proxy_inv_def)

lemma keys_inv: "proxy_inv cfg (s\<lparr> ps_keys := ks \<rparr>, ts) = proxy_inv cfg (s, ts)"
  using balanced_upstream_irrelevant [of cfg "s\<lparr> ps_keys := ks \<rparr>" s]
    balanced_keys_irrelevant [of "s\<lparr> ps_keys := ks \<rparr>" s]
  by (simp add: proxy_inv_def)

lemma admit_slot_inv:
  assumes inv: "proxy_inv cfg (s, ts)"
    and t: "try_key_slot cfg label h (s\<lparr> ps_keys := ks \<rparr>) = (ok, s')"
    and new: "tk_key t = h" "tk_phase t = Reading"
  shows "proxy_inv cfg (s', if ok then t # ts else ts)"
proof -
  let ?c = "max 1 (px_max_concurrent_per_key cfg)"
  have i: "key_permits.balanced cfg ?c (s\<lparr> ps_keys := ks \<rparr>) (keys_held ts)"
    "upstream_permits.balanced (px_max_concurrent_upstream cfg) (s\<lparr> ps_keys := ks \<rparr>) (upstreams_held ts)"
    using inv keys_inv [of cfg ks s ts] by (simp_all add: proxy_inv_def)
  have "upstream_permits.balanced (px_max_concurrent_upstream cfg) s' (upstreams_held ts)"
    using i(2) balanced_keys_irrelevant [OF slot_step(2) [OF i(1) t]] by blast
  with slot_step(1) [OF i(1) t] new show ?thesis by (cases ok) (simp_all add: proxy_inv_def)
qed

lemma proxy_step_inv:
  assumes "proxy_step cfg send c c'" and "proxy_inv cfg c"
  shows "proxy_inv cfg c'"
  using assms
proof (induction rule: proxy_step.induct)
  case (refused req s r s' ts)
  consider ks where "s' = s\<lparr> ps_keys := ks \<rparr>"
    | label h ks where "try_key_slot cfg label h (s\<lparr> ps_keys := ks \<rparr>) = (False, s')"
    using proxy_admit_Inl [OF refused(1)] by blast
  then show ?case
  proof cases
    case 2
    define t where "t = \<lparr> tk_key = h, tk_request = req, tk_phase = Reading \<rparr>"
    from admit_slot_inv [OF refused(2) 2, of t] show ?thesis by (simp add: t_def)
  qed (use refused(2) in \<open>simp only: keys_inv\<close>)
next
  case (admitted req s c s' ts)
  obtain ks where t: "try_key_slot cfg (ck_label c) (ck_hash c) (s\<lparr> ps_keys := ks \<rparr>) = (True, s')"
    using proxy_admit_Inr [OF admitted(1)] by blast
  from admit_slot_inv [OF admitted(2) t] show ?case by simp
next
  case (read t b s us vs)
  then show ?case by (simp add: proxy_inv_def)
next
  case (started t b s s' us vs)
  let ?U = "px_max_concurrent_upstream cfg"
  have b: "upstream_permits.balanced ?U s (upstreams_held us @ upstreams_held vs)"
    using started(1,3) by (simp add: proxy_inv_def)
  have "upstream_permits.balanced ?U s' (() # upstreams_held us @ upstreams_held vs)"
    by (rule upstream_permits.balanced_granted [OF b]) (rule started(2))
  then have "upstream_permits.balanced ?U s' (upstreams_held us @ () # upstreams_held vs)"
    by (simp add: upstream_permits.balanced_def)
  moreover have "key_free cfg h s' = key_free cfg h s" for h
    using started(2) key_free_upstream(1) [of cfg h s] by simp
  then have "key_permits.balanced cfg c s' held = key_permits.balanced cfg c s held" for c held
    by (rule balanced_upstream_irrelevant)
  ultimately show ?case using started(1,3) by (simp add: proxy_inv_def)
next
  case (failed t b s r n us vs)
  have "proxy_inv cfg (s\<lparr> ps_net := n \<rparr>, us @ t # vs)" using failed(3) by (simp only: net_inv)
  then show ?case by (rule end_task_inv)
next
  case (streamed t b s r n us vs)
  have "proxy_inv cfg (s\<lparr> ps_net := n \<rparr>, us @ t # vs)" using streamed(3) by (simp only: net_inv)
  with streamed(1) show ?case by (simp add: proxy_inv_def)
next
  case (ended s us t vs)
  then show ?case by (rule end_task_inv)
qed

lemma proxy_start_inv: "proxy_inv cfg (proxy_start cfg ks n, [])"
  by (simp add: proxy_inv_def proxy_start_def key_permits.balanced_def upstream_permits.balanced_def
      key_free_def)

lemma proxy_reachable_inv: "proxy_reachable cfg send c \<Longrightarrow> proxy_inv cfg c"
  by (induction rule: proxy_reachable.induct) (auto intro: proxy_start_inv proxy_step_inv)

text \<open>C27. However the requests interleave, and however they end, a key never has more requests
  in flight than the configured number, and all keys together never use the
  upstreams more often at once than configured.\<close>

theorem concurrency_bounded:
  assumes "proxy_reachable cfg send (s, ts)"
  shows "length (filter (\<lambda>t. tk_key t = h) ts) \<le> max 1 (px_max_concurrent_per_key cfg)
    \<and> length (filter (\<lambda>t. holds_upstream (tk_phase t)) ts) \<le> px_max_concurrent_upstream cfg"
proof -
  have inv: "proxy_inv cfg (s, ts)" by (rule proxy_reachable_inv [OF assms])
  have "count_list (keys_held ts) h = length (filter (\<lambda>t. tk_key t = h) ts)"
    by (induction ts) auto
  moreover have "count_list (upstreams_held ts) () = length (filter (\<lambda>t. holds_upstream (tk_phase t)) ts)"
    by (induction ts) auto
  ultimately show ?thesis
    using inv key_permits.held_bounded upstream_permits.held_bounded
    by (metis (no_types, lifting) fst_conv proxy_inv_def snd_conv)
qed

section \<open>What goes out\<close>

text \<open>Sending that also notes what it sent.\<close>

definition noting ::
  "(forwarded \<Rightarrow> 'n \<Rightarrow> (string + upstream_reply) \<times> 'n) \<Rightarrow> forwarded \<Rightarrow> 'n \<times> forwarded list
    \<Rightarrow> (string + upstream_reply) \<times> ('n \<times> forwarded list)" where
  "noting send f = (\<lambda>(n, l). case send f n of (r, n) \<Rightarrow> (r, (n, l @ [f])))"

lemma try_upstreams_noted:
  "\<exists>us'. snd (snd (try_upstreams (noting send) mk us nl)) = snd nl @ map mk us' \<and> set us' \<subseteq> set us"
proof (induction us arbitrary: nl)
  case (Cons u us)
  obtain n l where nl: "nl = (n, l)" by (cases nl)
  obtain r n1 where s: "send (mk u) n = (r, n1)" by fastforce
  have sent: "noting send (mk u) (n, l) = (r, (n1, l @ [mk u]))" by (simp add: noting_def s)
  obtain us' where us': "snd (snd (try_upstreams (noting send) mk us (n1, l @ [mk u]))) = (l @ [mk u]) @ map mk us'"
    "set us' \<subseteq> set us"
    using Cons.IH [of "(n1, l @ [mk u])"] by auto
  have stop: ?case if "try_upstreams (noting send) mk (u # us) nl = (x, (n1, l @ [mk u]))" for x
    using that nl by (intro exI [of _ "[u]"]) simp
  have go: ?case if "try_upstreams (noting send) mk (u # us) nl
      = try_upstreams (noting send) mk us (n1, l @ [mk u])"
    using that us' nl by (intro exI [of _ "u # us'"]) auto
  show ?case
  proof (cases "\<exists>b. r = Inr b \<and> \<not> (500 \<le> ur_status b \<and> ur_status b < 600)")
    case True
    then obtain b where "r = Inr b" "\<not> (500 \<le> ur_status b \<and> ur_status b < 600)" by blast
    then show ?thesis by (intro stop [of "Some b"]) (auto simp: nl sent)
  next
    case False
    then show ?thesis by (intro go) (cases r; auto simp: nl sent)
  qed
qed (auto intro: exI [of _ "[]"])

definition own_headers :: "string list" where
  "own_headers = [''authorization'', ''host'', ''content-length''] @ hop_by_hop"

lemma remove_headers_names:
  "fst ` set (fold remove_header ns hs) = fst ` set hs - set ns"
proof (induction ns arbitrary: hs)
  case (Cons n ns)
  have "fst ` set (remove_header n hs) = fst ` set hs - {n}" by (auto simp: remove_header_def)
  with Cons show ?case by auto
qed simp

lemma forward_headers_clean: "fst ` set (forward_headers hs) \<inter> set own_headers = {}"
proof -
  have "forward_headers hs = fold remove_header own_headers hs"
    by (simp add: forward_headers_def strip_hop_by_hop_def own_headers_def)
  then have "fst ` set (forward_headers hs) = fst ` set hs - set own_headers"
    by (simp only: remove_headers_names)
  then show ?thesis by blast
qed

lemma slot_keys [simp]:
  "ps_keys (snd (try_key_slot cfg label h s)) = ps_keys s" "ps_keys (drop_key_slot h s) = ps_keys s"
  "ps_keys (drop_upstream_slot s) = ps_keys s" "ps_keys (snd (try_upstream_slot s)) = ps_keys s"
  "ps_net (snd (try_key_slot cfg label h s)) = ps_net s" "ps_net (drop_key_slot h s) = ps_net s"
  "ps_net (drop_upstream_slot s) = ps_net s" "ps_net (snd (try_upstream_slot s)) = ps_net s"
  by (simp_all add: try_key_slot_def drop_key_slot_def drop_upstream_slot_def try_upstream_slot_def
      Let_def split: option.split)

lemma slot_keeps:
  assumes "try_key_slot cfg label h s = (ok, s')"
  shows "ps_net s' = ps_net s" "ps_keys s' = ps_keys s"
  using slot_keys(1,5) [of cfg label h s] assms by simp_all

lemma proxy_admit_net:
  assumes "proxy_admit cfg req s = (a, s')"
  shows "ps_net s' = ps_net s"
proof (cases a)
  case (Inl r)
  consider ks where "s' = s\<lparr> ps_keys := ks \<rparr>"
    | label h ks where "try_key_slot cfg label h (s\<lparr> ps_keys := ks \<rparr>) = (False, s')"
    using proxy_admit_Inl [OF assms [unfolded Inl]] by blast
  then show ?thesis by cases (simp_all add: slot_keeps(1))
next
  case (Inr c)
  then obtain ks where "try_key_slot cfg (ck_label c) (ck_hash c) (s\<lparr> ps_keys := ks \<rparr>) = (True, s')"
    using proxy_admit_Inr assms by blast
  from slot_keeps(1) [OF this] show ?thesis by simp
qed

lemma proxy_handler_cases:
  assumes "proxy_handler cfg send req s = (resp, s')"
  obtains (refused) "ps_net s' = ps_net s"
  | (sent) c s1 body n x where "proxy_admit cfg req s = (Inr c, s1)" "proxy_body cfg req = Inr body"
      "proxy_dispatch cfg send req body (ps_net s1) = (x, n)" "ps_net s' = n" "ps_keys s' = ps_keys s1"
      "ps_net s1 = ps_net s"
proof -
  obtain a s1 where a: "proxy_admit cfg req s = (a, s1)" by fastforce
  have net: "ps_net s1 = ps_net s"
    by (rule proxy_admit_net [OF a])
  show thesis
  proof (cases a)
    case (Inl r)
    with a assms net refused show thesis by (simp add: proxy_handler_def)
  next
    case (Inr c)
    show thesis
    proof (cases "proxy_body cfg req")
      case (Inl r)
      with a Inr assms net refused show thesis by (auto simp: proxy_handler_def)
    next
      case (Inr body)
      obtain ok s2 where u: "try_upstream_slot s1 = (ok, s2)" by fastforce
      have s2: "ps_net s2 = ps_net s1" "ps_keys s2 = ps_keys s1"
        using slot_keys(8,4) [of s1] u by simp_all
      obtain x n where d: "proxy_dispatch cfg send req body (ps_net s1) = (x, n)" by fastforce
      show thesis
      proof (cases ok)
        case False
        with a \<open>a = Inr c\<close> Inr u assms net refused show thesis by (auto simp: proxy_handler_def)
      next
        case True
        with a \<open>a = Inr c\<close> Inr u d s2 assms have "ps_net s' = n" "ps_keys s' = ps_keys s1"
          by (auto simp: proxy_handler_def split: sum.splits)
        with sent a \<open>a = Inr c\<close> Inr d net show thesis by blast
      qed
    qed
  qed
qed

lemma forwards_only_admitted_lemma:
  assumes h: "proxy_handler cfg (noting send) req s = (resp, s')"
    and sent: "snd (ps_net s') \<noteq> snd (ps_net s)"
  shows "\<exists>key c body upstreams subpath us.
      proxy_bearer (rq_headers req) = Some key
    \<and> try_consume (px_platform cfg) (px_master cfg) key (ps_keys s) = (Inr c, ps_keys s')
    \<and> rq_path req \<in> set allowed_upstream_paths
    \<and> proxy_body cfg req = Inr body \<and> proxy_route cfg req = Inr (upstreams, subpath)
    \<and> set us \<subseteq> set upstreams
    \<and> snd (ps_net s') = snd (ps_net s) @ map (forwarded_to req body subpath) us
    \<and> fst ` set (forward_headers (rq_headers req)) \<inter> set own_headers = {}"
  using h
proof (cases rule: proxy_handler_cases)
  case refused
  with sent show ?thesis by simp
next
  case (sent c s1 body n x)
  from sent(1) obtain key ks where k: "proxy_bearer (rq_headers req) = Some key"
    "rq_path req \<in> set allowed_upstream_paths"
    "try_consume (px_platform cfg) (px_master cfg) key (ps_keys s) = (Inr c, ks)"
    "try_key_slot cfg (ck_label c) (ck_hash c) (s\<lparr> ps_keys := ks \<rparr>) = (True, s1)"
    by (rule proxy_admit_Inr)
  have ks: "ps_keys s' = ks"
    using slot_keeps(2) [OF k(4)] sent(5) by simp
  obtain upstreams subpath where r: "proxy_route cfg req = Inr (upstreams, subpath)"
    using sent(3,4,6) \<open>snd (ps_net s') \<noteq> snd (ps_net s)\<close>
    by (cases "proxy_route cfg req") (auto simp: proxy_dispatch_def)
  obtain us where us: "snd (snd (try_upstreams (noting send) (forwarded_to req body subpath) upstreams (ps_net s)))
      = snd (ps_net s) @ map (forwarded_to req body subpath) us" "set us \<subseteq> set upstreams"
    using try_upstreams_noted by blast
  have "n = snd (try_upstreams (noting send) (forwarded_to req body subpath) upstreams (ps_net s))"
    using sent(3,6) r by (auto simp: proxy_dispatch_def split: prod.splits option.splits)
  with us sent(4) have "snd (ps_net s') = snd (ps_net s) @ map (forwarded_to req body subpath) us" by simp
  with k ks r us(2) sent(2) forward_headers_clean show ?thesis by blast
qed

text \<open>C25. Nothing leaves the proxy for an upstream except for a request with a bearer key
  that the meter has just admitted, on one of the five allowed routes and with
  a body that was read and, for a generation, clamped. What leaves goes only to
  the upstreams configured for that route, and carries neither the bearer nor
  any hop-by-hop header.\<close>

theorem forwards_only_admitted:
  assumes h: "proxy_handler cfg (noting send) req s = (resp, s')"
    and sent: "snd (ps_net s') \<noteq> snd (ps_net s)"
  shows "\<exists>key c body upstreams subpath us.
      proxy_bearer (rq_headers req) = Some key
    \<and> try_consume (px_platform cfg) (px_master cfg) key (ps_keys s) = (Inr c, ps_keys s')
    \<and> rq_path req \<in> set allowed_upstream_paths
    \<and> proxy_body cfg req = Inr body \<and> proxy_route cfg req = Inr (upstreams, subpath)
    \<and> set us \<subseteq> set upstreams
    \<and> snd (ps_net s') = snd (ps_net s) @ map (forwarded_to req body subpath) us
    \<and> fst ` set (forward_headers (rq_headers req)) \<inter> set own_headers = {}"
  by (rule forwards_only_admitted_lemma [OF h sent])

section \<open>The meter bounds what goes out\<close>

lemma proxy_handler_keys:
  assumes h: "proxy_handler cfg send req s = (resp, s')"
  obtains (same) "ps_keys s' = ps_keys s"
  | (consumed) key r where "proxy_bearer (rq_headers req) = Some key"
      "try_consume (px_platform cfg) (px_master cfg) key (ps_keys s) = (r, ps_keys s')"
proof -
  obtain a s1 where a: "proxy_admit cfg req s = (a, s1)" by fastforce
  have keep: "ps_keys s' = ps_keys s1"
  proof (cases a)
    case (Inl r)
    with a h show ?thesis by (simp add: proxy_handler_def)
  next
    case (Inr c)
    have "ps_keys s2 = ps_keys s1" if "try_upstream_slot s1 = (ok, s2)" for ok s2
      using that slot_keys(4) [of s1] by simp
    with a Inr h show ?thesis
      by (auto simp: proxy_handler_def split: sum.splits prod.splits bool.splits)
  qed
  obtain key where k: "ps_keys s1 = ps_keys s \<or> proxy_bearer (rq_headers req) = Some key
      \<and> (\<exists>r. try_consume (px_platform cfg) (px_master cfg) key (ps_keys s) = (r, ps_keys s1))"
    using a slot_keeps(2)
    by (auto simp: proxy_admit_def Let_def split: option.splits if_splits prod.splits sum.splits bool.splits;
        fastforce)
  with keep same consumed show thesis by metis
qed

datatype proxy_event = Serve request | Finish task

text \<open>One event of a proxy: a request, on the day its meter saw and with whether
  anything left for an upstream, or the end of a stream.\<close>

definition serves ::
  "'w proxy_config \<Rightarrow> (forwarded \<Rightarrow> 'n \<Rightarrow> (string + upstream_reply) \<times> 'n) \<Rightarrow> proxy_event
    \<Rightarrow> ('w, 'n \<times> forwarded list) proxy_state \<Rightarrow> (string \<times> bool) \<times> ('w, 'n \<times> forwarded list) proxy_state"
where
  "serves cfg send ev s =
     (case ev of
        Serve req \<Rightarrow>
          (case proxy_handler cfg (noting send) req s of
             (resp, s') \<Rightarrow>
               (((case proxy_bearer (rq_headers req) of
                    None \<Rightarrow> []
                  | Some k \<Rightarrow> request_day (px_platform cfg) (px_master cfg) k (ps_keys s)),
                 snd (ps_net s') \<noteq> snd (ps_net s)), s'))
      | Finish t \<Rightarrow> (([], False), end_task t s))"

fun event_of_key :: "'w platform \<Rightarrow> string \<Rightarrow> proxy_event \<Rightarrow> bool" where
  "event_of_key P h (Serve req) =
     (case proxy_bearer (rq_headers req) of None \<Rightarrow> False | Some k \<Rightarrow> hash_key_id P k = h)"
| "event_of_key P h (Finish t) = False"

lemma end_task_keys [simp]: "ps_keys (end_task t s) = ps_keys s"
  by (simp add: end_task_def Let_def)

lemma serves_cases:
  assumes "serves cfg send ev s = ((day, sent), s')"
  obtains (same) "ps_keys s' = ps_keys s" "\<not> sent"
  | (consumed) req key r where "ev = Serve req" "proxy_bearer (rq_headers req) = Some key"
      "try_consume (px_platform cfg) (px_master cfg) key (ps_keys s) = (r, ps_keys s')"
      "day = request_day (px_platform cfg) (px_master cfg) key (ps_keys s)"
      "sent \<longrightarrow> (\<exists>c. r = Inr c)"
proof (cases ev)
  case (Finish t)
  with assms same show thesis by (auto simp: serves_def)
next
  case (Serve req)
  obtain resp where h: "proxy_handler cfg (noting send) req s = (resp, s')"
    and sent: "sent = (snd (ps_net s') \<noteq> snd (ps_net s))"
    and day: "day = (case proxy_bearer (rq_headers req) of None \<Rightarrow> []
        | Some k \<Rightarrow> request_day (px_platform cfg) (px_master cfg) k (ps_keys s))"
    using assms by (auto simp: serves_def Serve split: prod.splits)
  show thesis
  proof (cases sent)
    case True
    with sent forwards_only_admitted_lemma [OF h] obtain key c where
      "proxy_bearer (rq_headers req) = Some key"
      "try_consume (px_platform cfg) (px_master cfg) key (ps_keys s) = (Inr c, ps_keys s')"
      by blast
    with Serve day consumed show thesis by simp
  next
    case False
    from h show thesis
      by (cases rule: proxy_handler_keys) (use False Serve day same consumed in auto)
  qed
qed

interpretation proxy_daily: quota_counter
  "serves cfg send" "event_of_key (px_platform cfg) (hash_key_id (px_platform cfg) key)"
  "\<lambda>day s. unat (counter (view (px_platform cfg) (px_master cfg) hist (ks_world (ps_keys s)))
     (quota_key (hash_key_id (px_platform cfg) key) day))"
  "unat (kr_daily_quota rec)"
  "\<lambda>s. key_good (px_platform cfg) (px_master cfg) hist durable recs pool (ps_keys s)
     \<and> recs (hash_key_id (px_platform cfg) key) = Some rec \<and> 0 < kr_daily_quota rec"
  for cfg :: "'w proxy_config" and send :: "forwarded \<Rightarrow> 'n \<Rightarrow> (string + upstream_reply) \<times> 'n"
    and key hist durable recs pool rec
proof (unfold_locales, goal_cases)
  case (1 s ev day sent s')
  from 1(2) show ?case
  proof (cases rule: serves_cases)
    case (consumed req k r)
    with 1(1) key_good_step(1) show ?thesis by metis
  qed (use 1(1) in simp)
next
  case (2 s ev day s')
  from 2(2) show ?case
  proof (cases rule: serves_cases)
    case (consumed req k r)
    then obtain c where c: "try_consume (px_platform cfg) (px_master cfg) k (ps_keys s) = (Inr c, ps_keys s')"
      by auto
    have "metered (request_day (px_platform cfg) (px_master cfg)) (try_consume (px_platform cfg) (px_master cfg))
        k (ps_keys s) = ((day, True), ps_keys s')"
      using c consumed(4) by (simp add: metered_def)
    from daily.admit [OF 2(1) this] show ?thesis
      using 2(3) consumed(1,2) by simp
  qed simp
next
  case (3 s ev day sent s')
  from 3(2) show ?case
  proof (cases rule: serves_cases)
    case (consumed req k r)
    then have "metered (request_day (px_platform cfg) (px_master cfg)) (try_consume (px_platform cfg) (px_master cfg))
        k (ps_keys s) = ((day, \<not> isl r), ps_keys s')"
      by (cases r) (simp_all add: metered_def)
    from daily.keep [OF 3(1) this] show ?thesis .
  qed simp
next
  case (4 s ev day sent s' day')
  from 4(2) show ?case
  proof (cases rule: serves_cases)
    case (consumed req k r)
    then have "metered (request_day (px_platform cfg) (px_master cfg)) (try_consume (px_platform cfg) (px_master cfg))
        k (ps_keys s) = ((day, \<not> isl r), ps_keys s')"
      by (cases r) (simp_all add: metered_def)
    from daily.other [OF 4(1) this 4(3)] show ?thesis .
  qed simp
qed

text \<open>C26. On one UTC day at most as many requests of a key with a daily quota send anything
  to an upstream as its quota leaves after what that day had already counted,
  whatever other requests are served in between and however streams end.\<close>

theorem forwarded_within_quota:
  assumes "store_good (px_platform cfg) (px_master cfg) hist durable (ks_world (ps_keys s))"
    and "digest_ok (px_platform cfg)"
    and "key_rec (px_platform cfg) (view (px_platform cfg) (px_master cfg) hist (ks_world (ps_keys s)))
      (hash_key_id (px_platform cfg) key) = Some rec"
    and "0 < kr_daily_quota rec"
  shows "admitted (event_of_key (px_platform cfg) (hash_key_id (px_platform cfg) key)) day
      (fst (run_steps (serves cfg send) events s))
    \<le> unat (kr_daily_quota rec)
      - unat (counter (view (px_platform cfg) (px_master cfg) hist (ks_world (ps_keys s)))
          (quota_key (hash_key_id (px_platform cfg) key) day))"
  using assms
  by (intro proxy_daily.within_quota [where durable = durable and pool = "ks_member_pool_daily (ps_keys s)"
        and recs = "key_rec (px_platform cfg) (view (px_platform cfg) (px_master cfg) hist (ks_world (ps_keys s)))",
        OF _ surjective_pairing])
    (auto simp: key_good_def)

section \<open>A sample proxy\<close>

definition sample_asked :: "(string \<times> json) list" where
  "sample_asked = [(''n'', JUint 2), (''max_tokens'', JUint 5000)]"

definition sample_given :: "(string \<times> json) list" where
  "sample_given = [(''n'', JUint 2), (''max_tokens'', JUint 1024)]"

definition sample_json :: json_codec where
  "sample_json =
     \<lparr> jc_parse = (\<lambda>b. if b = [1, 2, 3] then Some (JObj sample_asked)
                       else if b = [9] then Some (JObj sample_given) else None),
       jc_print = (\<lambda>v. if v = JObj sample_given then Some [9] else None) \<rparr>"

lemma sample_json_ok: "prints_parse sample_json"
  by (simp add: prints_parse_def sample_json_def)

lemma sample_clamp: "clamp_generation_budget sample_json [1, 2, 3] 2048 = Inr [9]"
proof -
  have g: "generation_count sample_asked = Inr 2"
    by (simp add: generation_count_def sample_asked_def prompt_count_def)
  have "generation_budget 2048 2 = 1024" by (simp add: generation_budget_def)
  moreover have "clamp_object 1024 sample_asked = sample_given"
    by (simp add: clamp_object_def generation_limit_fields_def sample_asked_def sample_given_def)
  moreover have "jc_parse sample_json [1, 2, 3] = Some (JObj sample_asked)"
    "jc_print sample_json (JObj sample_given) = Some [9]"
    by (simp_all add: sample_json_def)
  ultimately show ?thesis using g by (simp add: clamp_generation_budget_def max_generations_per_request_def)
qed

theorem generation_budget_enforced_witness:
  "\<exists>obj' g. jc_parse sample_json [9] = Some (JObj obj') \<and> generation_count obj' = Inr g
     \<and> g * generation_budget 2048 g \<le> max 2048 g"
  using generation_budget_enforced [OF sample_json_ok sample_clamp] by auto

definition sample_proxy :: "ref_world proxy_config" where
  "sample_proxy =
     \<lparr> px_lib = sample_lib, px_platform = ref_platform, px_master = ref_master, px_json = sample_json,
       px_upstreams = [''http://a/'', ''http://b''], px_embed_upstreams = [], px_stt_upstreams = [],
       px_stt_subpath = default_stt_subpath, px_max_tokens = 2048, px_max_concurrent_per_key = 2,
       px_member_concurrent = Some 1, px_max_concurrent_upstream = 1 \<rparr>"

lemma sample_proxy_simps [simp]:
  "px_platform sample_proxy = ref_platform" "px_master sample_proxy = ref_master"
  "px_json sample_proxy = sample_json" "px_max_tokens sample_proxy = 2048"
  "px_stt_upstreams sample_proxy = []" "px_embed_upstreams sample_proxy = []"
  "px_upstreams sample_proxy = [''http://a/'', ''http://b'']"
  "px_max_concurrent_per_key sample_proxy = 2" "px_member_concurrent sample_proxy = Some 1"
  "px_max_concurrent_upstream sample_proxy = 1"
  by (simp_all add: sample_proxy_def)

definition sample_proxied :: request where
  "sample_proxied =
     \<lparr> rq_method = ''POST'', rq_path = ''/v1/chat/completions'', rq_path_and_query = None,
       rq_headers = [(''authorization'', ''Bearer cgk_m''), (''accept'', ''*/*'')],
       rq_body = Inr [1, 2, 3], rq_paid = None, rq_api_key = None \<rparr>"

definition sample_send :: "forwarded \<Rightarrow> unit \<Rightarrow> (string + upstream_reply) \<times> unit" where
  "sample_send f n =
     (Inr \<lparr> ur_status = 200, ur_headers = [], ur_body = ''ok'', ur_body_broken = False \<rparr>, n)"

lemma sample_token_trim: "str_trim ''cgk_m'' = ''cgk_m''"
  by (simp add: str_trim_visible)

lemma sample_proxied_bearer: "proxy_bearer (rq_headers sample_proxied) = Some sample_token"
  by (simp add: proxy_bearer_def sample_proxied_def header_to_str_def strip_prefix_def
      sample_token_trim sample_token_def of_char_def)

lemma sample_proxied_body: "proxy_body sample_proxy sample_proxied = Inr [9]"
  using sample_clamp
  by (simp add: proxy_body_def sample_proxied_def is_stt_transcriptions_def stt_transcriptions_path_def
      max_request_body_def is_generation_def)

lemma sample_proxied_admit:
  "\<exists>c s. proxy_admit sample_proxy sample_proxied (proxy_start sample_proxy sample_keys n) = (Inr c, s)
     \<and> ps_upstream_free s = 1 \<and> ps_net s = n \<and> ps_slots s = [(ck_hash c, 0)]"
proof -
  obtain c ks where c: "try_consume ref_platform ref_master sample_token sample_keys = (Inr c, ks)"
    "ck_label c = ''member:x''"
    using sample_accepts by blast
  have p: "rq_path sample_proxied \<in> set allowed_upstream_paths"
    by (simp add: sample_proxied_def allowed_upstream_paths_def)
  have "concurrency_limit_for sample_proxy (ck_label c) = 1"
    using c(2) by (simp add: concurrency_limit_for_def member_label_prefix_def)
  then show ?thesis
    using c sample_proxied_bearer p allowed_paths_safe [OF p]
    by (simp add: proxy_admit_def Let_def proxy_start_def try_key_slot_def)
qed

theorem concurrency_bounded_witness:
  "\<exists>s ts. proxy_reachable sample_proxy sample_send (s, ts) \<and> length ts = 1
     \<and> length (filter (\<lambda>t. holds_upstream (tk_phase t)) ts) \<le> 1"
proof -
  obtain c s where a: "proxy_admit sample_proxy sample_proxied (proxy_start sample_proxy sample_keys ())
      = (Inr c, s)"
    using sample_proxied_admit [of "()"] by blast
  have r: "proxy_reachable sample_proxy sample_send
      (s, [\<lparr> tk_key = ck_hash c, tk_request = sample_proxied, tk_phase = Reading \<rparr>])"
    by (rule proxy_reachable.step [OF proxy_reachable.start proxy_step.admitted [OF a]])
  define ts where "ts = [\<lparr> tk_key = ck_hash c, tk_request = sample_proxied, tk_phase = Reading \<rparr>]"
  have "length (filter (\<lambda>t. holds_upstream (tk_phase t)) ts) \<le> 1"
    using concurrency_bounded [OF r [folded ts_def], of "ck_hash c"] unfolding sample_proxy_simps
    by (rule conjunct2)
  moreover have "length ts = 1" by (simp add: ts_def)
  ultimately show ?thesis using r [folded ts_def] by blast
qed

lemma sample_served:
  "\<exists>resp s'. proxy_handler sample_proxy (noting sample_send) sample_proxied
      (proxy_start sample_proxy sample_keys ((), [])) = (resp, s')
    \<and> snd (ps_net s') = [forwarded_to sample_proxied [9] None ''http://a/'']"
proof -
  obtain c s where a: "proxy_admit sample_proxy sample_proxied (proxy_start sample_proxy sample_keys ((), []))
      = (Inr c, s)" and s: "ps_upstream_free s = 1" "ps_net s = ((), [] :: forwarded list)"
    using sample_proxied_admit [of "((), [] :: forwarded list)"] by blast
  have r: "proxy_route sample_proxy sample_proxied = Inr ([''http://a/'', ''http://b''], None)"
    by (simp add: proxy_route_def is_stt_transcriptions_def stt_transcriptions_path_def sample_proxied_def)
  define f where "f = forwarded_to sample_proxied [9] None ''http://a/''"
  have "sample_send f () = (Inr \<lparr> ur_status = 200, ur_headers = [], ur_body = ''ok'', ur_body_broken = False \<rparr>, ())"
    by (simp add: sample_send_def)
  then have d: "\<exists>x. proxy_dispatch sample_proxy (noting sample_send) sample_proxied [9] ((), []) = (x, ((), [f]))"
    unfolding proxy_dispatch_def r sum.case prod.case try_upstreams.simps(2) f_def [symmetric]
    by (simp add: noting_def)
  obtain x where x: "proxy_dispatch sample_proxy (noting sample_send) sample_proxied [9] ((), []) = (x, ((), [f]))"
    using d by blast
  define s2 where "s2 = s\<lparr> ps_upstream_free := 0 \<rparr>"
  have u: "try_upstream_slot s = (True, s2)" by (simp add: try_upstream_slot_def s s2_def)
  have n: "ps_net s2 = ((), [])" by (simp add: s2_def s)
  obtain resp s' where h: "proxy_handler sample_proxy (noting sample_send) sample_proxied
      (proxy_start sample_proxy sample_keys ((), [])) = (resp, s')" by fastforce
  have "ps_net s' = ((), [f])"
    using h unfolding proxy_handler_def a prod.case sum.case sample_proxied_body u bool.case n x
    by (cases x) (auto simp: drop_upstream_slot_def)
  with h show ?thesis by (simp add: f_def)
qed

theorem forwards_only_admitted_witness:
  "\<exists>resp s' c. proxy_handler sample_proxy (noting sample_send) sample_proxied
      (proxy_start sample_proxy sample_keys ((), [])) = (resp, s')
    \<and> try_consume ref_platform ref_master sample_token sample_keys = (Inr c, ps_keys s')"
proof -
  obtain resp s' where h: "proxy_handler sample_proxy (noting sample_send) sample_proxied
      (proxy_start sample_proxy sample_keys ((), [])) = (resp, s')"
    and l: "snd (ps_net s') = [forwarded_to sample_proxied [9] None ''http://a/'']"
    using sample_served by blast
  have k: "ps_keys (proxy_start sample_proxy sample_keys ((), [])) = sample_keys"
    and n: "snd (ps_net (proxy_start sample_proxy sample_keys ((), []))) = []"
    by (simp_all add: proxy_start_def)
  have "snd (ps_net s') \<noteq> snd (ps_net (proxy_start sample_proxy sample_keys ((), [])))"
    unfolding n l by simp
  from forwards_only_admitted [OF h this] obtain key c where
    "proxy_bearer (rq_headers sample_proxied) = Some key"
    "try_consume ref_platform ref_master key sample_keys = (Inr c, ps_keys s')"
    unfolding k sample_proxy_simps by blast
  with h sample_proxied_bearer show ?thesis by auto
qed

theorem forwarded_within_quota_witness:
  "admitted (event_of_key ref_platform (hash_key_id ref_platform sample_token)) ''20260101''
      (fst (run_steps (serves sample_proxy sample_send) (replicate 9 (Serve sample_proxied))
         (proxy_start sample_proxy sample_keys ((), [])))) \<le> 3"
proof -
  define s where "s = proxy_start sample_proxy sample_keys ((), [] :: forwarded list)"
  define events where "events = replicate 9 (Serve sample_proxied)"
  have k: "ps_keys s = sample_keys" by (simp add: s_def proxy_start_def)
  have quota: "0 < kr_daily_quota sample_key_record" by (simp add: sample_key_record_def)
  have "admitted (event_of_key ref_platform (hash_key_id ref_platform sample_token)) ''20260101''
      (fst (run_steps (serves sample_proxy sample_send) events s))
    \<le> unat (kr_daily_quota sample_key_record)
      - unat (counter (ref_view (ks_world (ps_keys s))) (quota_key (hash_key_id ref_platform sample_token) ''20260101''))"
    using forwarded_within_quota [where cfg = sample_proxy and s = s and hist = ref_hist
        and durable = ref_durable and key = sample_token and rec = sample_key_record
        and day = "''20260101''" and send = sample_send and events = events]
      sample_keys_good(2) ref_digest_ok sample_key_rec(2) quota
    unfolding k sample_proxy_simps by blast
  also have "\<dots> \<le> 3" by (simp add: sample_key_record_def)
  finally show ?thesis unfolding s_def events_def .
qed

end
