(* ===== verification/Member_Keys.thy ===== *)
theory Member_Keys
  imports Local_Proxy
begin

text \<open>
  Self-serve keys for signed-in accounts, \<open>gateway/src/member_keys.rs\<close>: the
  issuance limiter, the question put to the identity provider, and the handler
  that mints a key.
\<close>

section \<open>Configuration\<close>

record member_key_config =
  mc_userinfo_url :: string
  mc_idp_timeout_secs :: nat
  mc_quota_rps :: u32
  mc_daily_quota :: u64
  mc_pool_daily :: u64
  mc_max_concurrent :: nat
  mc_base_url :: string
  mc_model :: string
  mc_trust_forwarded_for :: bool
  mc_account_min_interval :: nat
  mc_account_daily_max :: u32
  mc_ip_hourly_max :: u32

definition member_defaults :: member_key_config where
  "member_defaults =
     \<lparr> mc_userinfo_url = ''https://auth.citrate.ai/me'', mc_idp_timeout_secs = 5, mc_quota_rps = 1,
       mc_daily_quota = 300, mc_pool_daily = 50000, mc_max_concurrent = 2,
       mc_base_url = ''https://infer.citrate.ai/v1'', mc_model = ''citrate-gemma'',
       mc_trust_forwarded_for = False, mc_account_min_interval = 60, mc_account_daily_max = 20,
       mc_ip_hourly_max = 30 \<rparr>"

definition max_userinfo_body :: nat where "max_userinfo_body = 64 * 1024"
definition unknown_ip :: string where "unknown_ip = ''unknown''"
definition limiter_prune_at :: nat where "limiter_prune_at = 10000"

section \<open>The issuance limiter\<close>

text \<open>Times are seconds since the epoch; none of the arithmetic on them can
  overflow. The counts saturate at their width.\<close>

record account_window =
  aw_last :: nat
  aw_day :: nat
  aw_count_today :: u32

record ip_window =
  iw_hour :: nat
  iw_count :: u32

record issuance_limiter =
  li_accounts :: "(string \<times> account_window) list"
  li_ips :: "(string \<times> ip_window) list"

definition ip_blocked :: "member_key_config \<Rightarrow> string \<Rightarrow> nat \<Rightarrow> issuance_limiter \<Rightarrow> nat option" where
  "ip_blocked cfg ip now L =
     (case map_of (li_ips L) ip of
        Some w \<Rightarrow>
          if iw_hour w = now div 3600 \<and> mc_ip_hourly_max cfg \<le> iw_count w
          then Some (3600 - now mod 3600) else None
      | None \<Rightarrow> None)"

definition account_blocked :: "member_key_config \<Rightarrow> string \<Rightarrow> nat \<Rightarrow> issuance_limiter \<Rightarrow> nat option" where
  "account_blocked cfg account now L =
     (case map_of (li_accounts L) account of
        None \<Rightarrow> None
      | Some w \<Rightarrow>
          let least = mc_account_min_interval cfg; since = now - aw_last w
          in if since < least then Some (least - since)
             else if aw_day w = now div 86400 \<and> mc_account_daily_max cfg \<le> aw_count_today w
             then Some (86400 - now mod 86400) else None)"

text \<open>The entries are made when missing, rolled over to the current window, and
  counted up.\<close>

definition charge_account :: "string \<Rightarrow> nat \<Rightarrow> issuance_limiter \<Rightarrow> issuance_limiter" where
  "charge_account account now L =
     (let day = now div 86400;
          w = (case map_of (li_accounts L) account of
                 None \<Rightarrow> \<lparr> aw_last = now, aw_day = day, aw_count_today = 0 \<rparr> | Some w \<Rightarrow> w);
          w = (if aw_day w \<noteq> day then w\<lparr> aw_day := day, aw_count_today := 0 \<rparr> else w);
          w = w\<lparr> aw_last := now, aw_count_today := sat_add (aw_count_today w) 1 \<rparr>
      in L\<lparr> li_accounts := AList.update account w (li_accounts L) \<rparr>)"

definition charge_ip :: "string \<Rightarrow> nat \<Rightarrow> issuance_limiter \<Rightarrow> issuance_limiter" where
  "charge_ip ip now L =
     (let hour = now div 3600;
          w = (case map_of (li_ips L) ip of None \<Rightarrow> \<lparr> iw_hour = hour, iw_count = 0 \<rparr> | Some w \<Rightarrow> w);
          w = (if iw_hour w \<noteq> hour then \<lparr> iw_hour = hour, iw_count = 0 \<rparr> else w);
          w = w\<lparr> iw_count := sat_add (iw_count w) 1 \<rparr>
      in L\<lparr> li_ips := AList.update ip w (li_ips L) \<rparr>)"

definition prune :: "member_key_config \<Rightarrow> nat \<Rightarrow> issuance_limiter \<Rightarrow> issuance_limiter" where
  "prune cfg now L =
     (let L = (if limiter_prune_at < length (li_accounts L)
               then L\<lparr> li_accounts := filter (\<lambda>(k, w). aw_day w = now div 86400
                      \<or> now - aw_last w < mc_account_min_interval cfg) (li_accounts L) \<rparr>
               else L)
      in if limiter_prune_at < length (li_ips L)
         then L\<lparr> li_ips := filter (\<lambda>(k, w). iw_hour w = now div 3600) (li_ips L) \<rparr>
         else L)"

definition reserve ::
  "member_key_config \<Rightarrow> string \<Rightarrow> string \<Rightarrow> nat \<Rightarrow> issuance_limiter \<Rightarrow> (nat + unit) \<times> issuance_limiter"
where
  "reserve cfg account ip now L =
     (case ip_blocked cfg ip now L of
        Some retry \<Rightarrow> (Inl retry, L)
      | None \<Rightarrow>
          (case account_blocked cfg account now L of
             Some retry \<Rightarrow> (Inl retry, L)
           | None \<Rightarrow> (Inr (), prune cfg now (charge_ip ip now (charge_account account now L)))))"

section \<open>The identity provider\<close>

datatype idp_verdict = Subject string | Rejected | Unavailable

text \<open>What the provider answers, its body in chunks, and what else is outside: the
  clock, address parsing and JSON.\<close>

record idp_reply =
  ir_status :: nat
  ir_chunks :: "(string + bytes) list"

record 'n outside =
  os_userinfo :: "string \<Rightarrow> string \<Rightarrow> 'n \<Rightarrow> (string + idp_reply) \<times> 'n"
  os_clock :: "'n \<Rightarrow> nat \<times> 'n"
  os_canonical_ip :: "string \<Rightarrow> string option"
  os_parse :: "bytes \<Rightarrow> json option"

fun read_capped :: "nat \<Rightarrow> bytes \<Rightarrow> (string + bytes) list \<Rightarrow> bytes option" where
  "read_capped cap acc [] = Some acc"
| "read_capped cap acc (Inl e # rest) = None"
| "read_capped cap acc (Inr chunk # rest) =
     (if cap < length acc + length chunk then None else read_capped cap (acc @ chunk) rest)"

definition verdict_of :: "'n outside \<Rightarrow> idp_reply \<Rightarrow> idp_verdict" where
  "verdict_of env r =
     (if ir_status r = 401 \<or> ir_status r = 403 then Rejected
      else if \<not> (200 \<le> ir_status r \<and> ir_status r < 300) then Unavailable
      else
        case read_capped max_userinfo_body [] (ir_chunks r) of
          None \<Rightarrow> Unavailable
        | Some body \<Rightarrow>
            (case Option.bind (Option.bind (os_parse env body) (json_get ''sub'')) json_str of
               Some sub \<Rightarrow> if str_trim sub = [] then Unavailable else Subject sub
             | None \<Rightarrow> Unavailable))"

definition verify_with_idp ::
  "'n outside \<Rightarrow> member_key_config \<Rightarrow> string \<Rightarrow> 'n \<Rightarrow> idp_verdict \<times> 'n" where
  "verify_with_idp env cfg token n =
     (case os_userinfo env (mc_userinfo_url cfg) token n of
        (Inl e, n) \<Rightarrow> (Unavailable, n)
      | (Inr r, n) \<Rightarrow> (verdict_of env r, n))"

definition subject_hash :: "'w platform \<Rightarrow> string \<Rightarrow> string" where
  "subject_hash P sub = take 16 (p_hex P (p_sha256 P (as_bytes sub)))"

definition before_comma :: "string \<Rightarrow> string" where
  "before_comma s = takeWhile (\<lambda>c. c \<noteq> CHR '','') s"

definition client_ip :: "'n outside \<Rightarrow> bool \<Rightarrow> (string \<times> string) list \<Rightarrow> string" where
  "client_ip env trust headers =
     (if \<not> trust then unknown_ip
      else
        case Option.bind (Option.bind (map_of headers ''x-forwarded-for'') header_to_str)
               (\<lambda>v. os_canonical_ip env (str_trim (before_comma v))) of
          None \<Rightarrow> unknown_ip
        | Some ip \<Rightarrow> ip)"

section \<open>The handler\<close>

definition member_bearer :: "(string \<times> string) list \<Rightarrow> string option" where
  "member_bearer headers =
     (case Option.bind (Option.bind (map_of headers ''authorization'') header_to_str)
             (strip_prefix ''Bearer '') of
        None \<Rightarrow> None
      | Some t \<Rightarrow> let s = str_trim t in if s = [] then None else Some s)"

definition no_store_response :: "x402_lib \<Rightarrow> nat \<Rightarrow> json \<Rightarrow> response" where
  "no_store_response X code body =
     json_response X code (content_json @ [(''cache-control'', ''no-store'')]) body"

definition too_many :: "x402_lib \<Rightarrow> nat \<Rightarrow> string \<Rightarrow> response" where
  "too_many X retry msg =
     (no_store_response X 429 (error_message_json msg))
       \<lparr> rs_headers := content_json @ [(''cache-control'', ''no-store''),
                                       (''retry-after'', dec_string (max retry 1))] \<rparr>"

record ('w, 'n) member_state =
  mk_store :: 'w
  mk_limiter :: issuance_limiter
  mk_outside :: 'n

definition member_key_json :: "member_key_config \<Rightarrow> string \<Rightarrow> json" where
  "member_key_json cfg key =
     JObj [(''key'', JStr key), (''base_url'', JStr (mc_base_url cfg)), (''model'', JStr (mc_model cfg)),
           (''quota_rps'', JUint (unat (mc_quota_rps cfg))),
           (''daily_requests'', JUint (unat (mc_daily_quota cfg)))]"

text \<open>After the provider has vouched: charge the limits, then mint.\<close>

definition issue_key ::
  "x402_lib \<Rightarrow> 'w platform \<Rightarrow> bytes \<Rightarrow> 'n outside \<Rightarrow> member_key_config \<Rightarrow> string \<Rightarrow> string
    \<Rightarrow> ('w, 'n) member_state \<Rightarrow> response \<times> ('w, 'n) member_state" where
  "issue_key X P master env cfg ip sub s =
     (let account = subject_hash P sub
      in case os_clock env (mk_outside s) of
           (now, n) \<Rightarrow>
             (case reserve cfg account ip now (mk_limiter s) of
                (Inl retry, L) \<Rightarrow>
                  (too_many X retry ''key issuance rate limit exceeded'',
                   s\<lparr> mk_limiter := L, mk_outside := n \<rparr>)
              | (Inr u, L) \<Rightarrow>
                  (case rotate_member_key P master account (mc_quota_rps cfg) (mc_daily_quota cfg)
                          (mk_store s) of
                     (Inl e, w) \<Rightarrow>
                       (no_store_response X 500 (error_message_json ''internal''),
                        \<lparr> mk_store = w, mk_limiter = L, mk_outside = n \<rparr>)
                   | (Inr key, w) \<Rightarrow>
                       (no_store_response X 200 (member_key_json cfg key),
                        \<lparr> mk_store = w, mk_limiter = L, mk_outside = n \<rparr>))))"

definition member_key_handler ::
  "x402_lib \<Rightarrow> 'w platform \<Rightarrow> bytes \<Rightarrow> 'n outside \<Rightarrow> member_key_config option \<Rightarrow> (string \<times> string) list
    \<Rightarrow> ('w, 'n) member_state \<Rightarrow> response \<times> ('w, 'n) member_state" where
  "member_key_handler X P master env feature headers s =
     (case feature of
        None \<Rightarrow> (no_store_response X 404 (error_message_json ''unknown route''), s)
      | Some cfg \<Rightarrow>
          (case member_bearer headers of
             None \<Rightarrow> (no_store_response X 401 (error_message_json ''missing bearer token''), s)
           | Some token \<Rightarrow>
               let ip = client_ip env (mc_trust_forwarded_for cfg) headers
               in case os_clock env (mk_outside s) of
                    (now, n) \<Rightarrow>
                      (case ip_blocked cfg ip now (mk_limiter s) of
                         Some retry \<Rightarrow>
                           (too_many X retry ''too many key requests from this address'', s\<lparr> mk_outside := n \<rparr>)
                       | None \<Rightarrow>
                           (case verify_with_idp env cfg token n of
                              (Rejected, n) \<Rightarrow>
                                (no_store_response X 401 (error_message_json ''invalid token''),
                                 s\<lparr> mk_outside := n \<rparr>)
                            | (Unavailable, n) \<Rightarrow>
                                (no_store_response X 503 (error_message_json ''identity provider unavailable''),
                                 s\<lparr> mk_outside := n \<rparr>)
                            | (Subject sub, n) \<Rightarrow>
                                issue_key X P master env cfg ip sub (s\<lparr> mk_outside := n \<rparr>)))))"

text \<open>Switching the feature on: the member keys' limit for the proxy, and the
  store's shared pool.\<close>

definition with_member_keys ::
  "member_key_config \<Rightarrow> 'w proxy_config \<times> ('w, 'n) proxy_state \<Rightarrow> 'w proxy_config \<times> ('w, 'n) proxy_state"
where
  "with_member_keys mk p =
     (case p of (cfg, s) \<Rightarrow>
        (cfg\<lparr> px_member_concurrent := Some (mc_max_concurrent mk) \<rparr>,
         s\<lparr> ps_keys := set_member_pool_daily (mc_pool_daily mk) (ps_keys s) \<rparr>))"

section \<open>What the limiter promises\<close>

definition issuance_step ::
  "(nat \<Rightarrow> nat) \<Rightarrow> member_key_config \<Rightarrow> string \<times> string \<times> nat \<Rightarrow> issuance_limiter
    \<Rightarrow> (nat \<times> bool) \<times> issuance_limiter" where
  "issuance_step window cfg r L =
     (case r of (account, ip, now) \<Rightarrow>
        (case reserve cfg account ip now L of
           (Inl retry, L) \<Rightarrow> ((window now, False), L)
         | (Inr u, L) \<Rightarrow> ((window now, True), L)))"

definition account_used :: "string \<Rightarrow> nat \<Rightarrow> issuance_limiter \<Rightarrow> nat" where
  "account_used account day L =
     (case map_of (li_accounts L) account of
        None \<Rightarrow> 0 | Some w \<Rightarrow> if aw_day w = day then unat (aw_count_today w) else 0)"

definition ip_used :: "string \<Rightarrow> nat \<Rightarrow> issuance_limiter \<Rightarrow> nat" where
  "ip_used ip hour L =
     (case map_of (li_ips L) ip of
        None \<Rightarrow> 0 | Some w \<Rightarrow> if iw_hour w = hour then unat (iw_count w) else 0)"

lemma map_of_filter_Some:
  "distinct (map fst m) \<Longrightarrow> map_of m k = Some w
     \<Longrightarrow> map_of (filter P m) k = (if P (k, w) then Some w else None)"
  by (induction m) (auto simp: map_of_eq_None_iff image_iff)

definition limiter_ok :: "issuance_limiter \<Rightarrow> bool" where
  "limiter_ok L \<longleftrightarrow> distinct (map fst (li_accounts L)) \<and> distinct (map fst (li_ips L))"

lemma limiter_ok_steps [simp]:
  "limiter_ok L \<Longrightarrow> limiter_ok (charge_account a now L)"
  "limiter_ok L \<Longrightarrow> limiter_ok (charge_ip ip now L)"
  by (auto simp: limiter_ok_def charge_account_def charge_ip_def Let_def distinct_update split: option.split)

lemma distinct_keys_filter: "distinct (map fst m) \<Longrightarrow> distinct (map fst (filter P m))"
  by (induction m) auto

lemma limiter_ok_prune: "limiter_ok L \<Longrightarrow> limiter_ok (prune cfg now L)"
  by (auto simp: limiter_ok_def prune_def Let_def intro: distinct_keys_filter)

lemma prune_used:
  assumes "limiter_ok L"
  shows "account_used a (now div 86400) (prune cfg now L) = account_used a (now div 86400) L"
    and "ip_used ip (now div 3600) (prune cfg now L) = ip_used ip (now div 3600) L"
proof -
  have d: "distinct (map fst (li_accounts L))" "distinct (map fst (li_ips L))"
    using assms by (auto simp: limiter_ok_def)
  have none: "map_of (filter P m) k = None" if "map_of m k = None" for P :: "'k \<times> 'v \<Rightarrow> bool" and m k
    using that by (auto simp: map_of_eq_None_iff)
  show "account_used a (now div 86400) (prune cfg now L) = account_used a (now div 86400) L"
    by (cases "map_of (li_accounts L) a")
      (auto simp: account_used_def prune_def Let_def none map_of_filter_Some [OF d(1)])
  show "ip_used ip (now div 3600) (prune cfg now L) = ip_used ip (now div 3600) L"
    by (cases "map_of (li_ips L) ip")
      (auto simp: ip_used_def prune_def Let_def none map_of_filter_Some [OF d(2)])
qed

lemma sat_one: "unat (sat_add c (1 :: u32)) = min (unat c + 1) (2 ^ 32 - 1)"
  by (simp add: unat_sat_add)

lemma unat_u32_less: "unat (c :: u32) < 2 ^ 32"
  using unat_less_length [of c] by simp

lemma unat_u32_le: "unat (c :: u32) \<le> 2 ^ 32 - 1"
  using unat_u32_less [of c] by simp

lemma charge_account_used:
  "account_used a (now div 86400) (charge_account a' now L) =
     (if a = a' then min (account_used a (now div 86400) L + 1) (2 ^ 32 - 1)
      else account_used a (now div 86400) L)"
  by (auto simp: account_used_def charge_account_def Let_def update_conv' sat_one split: option.split)

lemma charge_ip_used:
  "ip_used i (now div 3600) (charge_ip i' now L) =
     (if i = i' then min (ip_used i (now div 3600) L + 1) (2 ^ 32 - 1) else ip_used i (now div 3600) L)"
  by (auto simp: ip_used_def charge_ip_def Let_def update_conv' sat_one split: option.split)

lemma used_unaffected [simp]:
  "ip_used i h (charge_account a now L) = ip_used i h L"
  "account_used a d (charge_ip i now L) = account_used a d L"
  by (simp_all add: ip_used_def account_used_def charge_account_def charge_ip_def Let_def)

lemma reserve_cases:
  assumes "reserve cfg a i now L = (r, L')"
  obtains (refused) retry where "r = Inl retry" "L' = L"
  | (issued) "r = Inr ()" "ip_blocked cfg i now L = None" "account_blocked cfg a now L = None"
      "L' = prune cfg now (charge_ip i now (charge_account a now L))"
  using assms by (auto simp: reserve_def split: option.splits)

lemma reserve_used:
  assumes r: "reserve cfg a i now L = (r, L')" and ok: "limiter_ok L"
  shows "limiter_ok L'"
    and "account_used x (now div 86400) L \<le> account_used x (now div 86400) L'"
    and "ip_used y (now div 3600) L \<le> ip_used y (now div 3600) L'"
    and "r = Inr () \<Longrightarrow> account_used a (now div 86400) L < account_used a (now div 86400) L'
       \<and> account_used a (now div 86400) L' \<le> max 1 (unat (mc_account_daily_max cfg))"
    and "r = Inr () \<Longrightarrow> ip_used i (now div 3600) L < ip_used i (now div 3600) L'
       \<and> ip_used i (now div 3600) L' \<le> max 1 (unat (mc_ip_hourly_max cfg))"
proof -
  note le32 = unat_u32_less [of "mc_account_daily_max cfg"] unat_u32_less [of "mc_ip_hourly_max cfg"]
  have lim: "account_used x (now div 86400) L \<le> 2 ^ 32 - 1" "ip_used y (now div 3600) L \<le> 2 ^ 32 - 1" for x y
    using unat_u32_le by (auto simp: account_used_def ip_used_def split: option.split)
  show "limiter_ok L'" using r ok by (cases rule: reserve_cases) (auto intro: limiter_ok_prune)
  show "account_used x (now div 86400) L \<le> account_used x (now div 86400) L'"
    using r by (cases rule: reserve_cases) (use ok lim(1) [of x] in \<open>auto simp: prune_used charge_account_used min_def\<close>)
  show "ip_used y (now div 3600) L \<le> ip_used y (now div 3600) L'"
    using r by (cases rule: reserve_cases) (use ok lim(2) [of y] in \<open>auto simp: prune_used charge_ip_used min_def\<close>)
  show "account_used a (now div 86400) L < account_used a (now div 86400) L'
       \<and> account_used a (now div 86400) L' \<le> max 1 (unat (mc_account_daily_max cfg))" if "r = Inr ()"
    using r
  proof (cases rule: reserve_cases)
    case issued
    have "account_used a (now div 86400) L = 0 \<or> account_used a (now div 86400) L < unat (mc_account_daily_max cfg)"
      using issued(3)
      by (auto simp: account_used_def account_blocked_def Let_def not_le word_less_nat_alt split: option.splits if_splits)
    with issued(4) ok le32 show ?thesis by (auto simp: prune_used charge_account_used)
  qed (use that in simp)
  show "ip_used i (now div 3600) L < ip_used i (now div 3600) L'
       \<and> ip_used i (now div 3600) L' \<le> max 1 (unat (mc_ip_hourly_max cfg))" if "r = Inr ()"
    using r
  proof (cases rule: reserve_cases)
    case issued
    have "ip_used i (now div 3600) L = 0 \<or> ip_used i (now div 3600) L < unat (mc_ip_hourly_max cfg)"
      using issued(2)
      by (auto simp: ip_used_def ip_blocked_def not_le word_less_nat_alt split: option.splits if_splits)
    with issued(4) ok le32 show ?thesis by (auto simp: prune_used charge_ip_used)
  qed (use that in simp)
qed

lemma issuance_stepD:
  assumes "issuance_step window cfg (a, i, now) L = ((t, ok), L')"
  obtains r where "reserve cfg a i now L = (r, L')" and "t = window now" and "ok \<longleftrightarrow> r = Inr ()"
  using assms by (auto simp: issuance_step_def split: prod.splits sum.splits)

interpretation per_account: window_counter "issuance_step (\<lambda>now. now div 86400) cfg"
  "\<lambda>r. fst r = account" "account_used account" "max 1 (unat (mc_account_daily_max cfg))" limiter_ok
  for cfg account
proof (unfold_locales, goal_cases)
  case (1 L r t ok L')
  then show ?case by (cases r) (auto elim!: issuance_stepD dest: reserve_used(1))
next
  case (2 L r t L')
  then show ?case by (cases r) (auto elim!: issuance_stepD dest: reserve_used(4))
next
  case (3 L r t ok L')
  then show ?case by (cases r) (auto elim!: issuance_stepD dest: reserve_used(2))
qed

interpretation per_address: window_counter "issuance_step (\<lambda>now. now div 3600) cfg"
  "\<lambda>r. fst (snd r) = ip" "ip_used ip" "max 1 (unat (mc_ip_hourly_max cfg))" limiter_ok
  for cfg ip
proof (unfold_locales, goal_cases)
  case (1 L r t ok L')
  then show ?case by (cases r) (auto elim!: issuance_stepD dest: reserve_used(1))
next
  case (2 L r t L')
  then show ?case by (cases r) (auto elim!: issuance_stepD dest: reserve_used(5))
next
  case (3 L r t ok L')
  then show ?case by (cases r) (auto elim!: issuance_stepD dest: reserve_used(3))
qed

lemma issuance_times:
  "map (fst \<circ> snd) (fst (run_steps (issuance_step window cfg) rs L)) = map (\<lambda>r. window (snd (snd r))) rs"
proof (induction rs arbitrary: L)
  case (Cons r rs)
  obtain a i now where r: "r = (a, i, now)" by (cases r)
  obtain ok L1 where 1: "issuance_step window cfg (a, i, now) L = ((window now, ok), L1)"
    by (cases "reserve cfg a i now L", cases "fst (reserve cfg a i now L)") (auto simp: issuance_step_def)
  obtain tr L2 where 2: "run_steps (issuance_step window cfg) rs L1 = (tr, L2)" by fastforce
  from Cons [of L1] show ?case by (simp add: r 1 2)
qed simp

lemma windows_sorted:
  assumes "sorted (map (\<lambda>r. snd (snd r)) rs)" and "mono window"
  shows "sorted (map (fst \<circ> snd) (fst (run_steps (issuance_step window cfg) rs L)))"
  using assms unfolding issuance_times
  by (induction rs) (auto simp: monoD)

text \<open>C30. While the clock does not run back, an account is issued at most the configured
  number of keys in a UTC day and an address at most the configured number in
  an hour (one, when the configured number is zero), in whatever order accounts
  and addresses ask; pruning old entries never forgets one that counts.\<close>

theorem issuance_limited:
  assumes "limiter_ok L" and "sorted (map (\<lambda>(account, ip, now). now) rs)"
  shows "admitted (\<lambda>(a, i, now). a = account) day
      (fst (run_steps (issuance_step (\<lambda>now. now div 86400) cfg) rs L)) \<le> max 1 (unat (mc_account_daily_max cfg))
    \<and> admitted (\<lambda>(a, i, now). i = ip) hour
      (fst (run_steps (issuance_step (\<lambda>now. now div 3600) cfg) rs L)) \<le> max 1 (unat (mc_ip_hourly_max cfg))"
proof -
  have s: "sorted (map (\<lambda>r. snd (snd r)) rs)" using assms(2) by (simp add: case_prod_unfold)
  have w: "mono (\<lambda>now. now div n)" for n :: nat by (auto intro: monoI div_le_mono)
  from per_account.within_cap [OF assms(1) surjective_pairing windows_sorted [OF s w], of account day]
    per_address.within_cap [OF assms(1) surjective_pairing windows_sorted [OF s w], of ip hour]
  show ?thesis by (simp add: case_prod_unfold)
qed

section \<open>What the handler promises\<close>

lemma handler_no_store:
  "member_key_handler X P master env feature headers s = (resp, s')
     \<Longrightarrow> (''cache-control'', ''no-store'') \<in> set (rs_headers resp)"
  by (auto simp: member_key_handler_def issue_key_def no_store_response_def too_many_def json_response_def
      Let_def split: option.splits prod.splits sum.splits idp_verdict.splits)

lemma verdict_Subject:
  "verdict_of env reply = Subject sub
     \<Longrightarrow> 200 \<le> ir_status reply \<and> ir_status reply < 300 \<and> str_trim sub \<noteq> []"
  by (auto simp: verdict_of_def split: if_splits option.splits)

lemma status_simps [simp]:
  "rs_status (no_store_response X code b) = code" "rs_status (too_many X n m) = 429"
  "rs_body (no_store_response X code b) = json_text X b"
  by (simp_all add: no_store_response_def too_many_def json_response_def)

lemma issue_key_cases:
  assumes "issue_key X P master env cfg ip sub s = (resp, s')"
    and "rs_status resp = 200 \<or> mk_store s' \<noteq> mk_store s"
  shows "\<exists>now r. reserve cfg (subject_hash P sub) ip now (mk_limiter s) = (Inr (), mk_limiter s')
    \<and> rotate_member_key P master (subject_hash P sub) (mc_quota_rps cfg) (mc_daily_quota cfg) (mk_store s)
        = (r, mk_store s')
    \<and> (case r of
         Inl e \<Rightarrow> rs_status resp = 500
       | Inr key \<Rightarrow> rs_status resp = 200 \<and> rs_body resp = json_text X (member_key_json cfg key))"
  using assms by (auto simp: issue_key_def Let_def split: prod.splits sum.splits)

lemma handler_issues:
  assumes "member_key_handler X P master env feature headers s = (resp, s')"
    and "rs_status resp = 200 \<or> mk_store s' \<noteq> mk_store s"
  shows "\<exists>cfg token sub n n' reply. feature = Some cfg \<and> member_bearer headers = Some token
    \<and> os_userinfo env (mc_userinfo_url cfg) token n = (Inr reply, n') \<and> verdict_of env reply = Subject sub
    \<and> issue_key X P master env cfg (client_ip env (mc_trust_forwarded_for cfg) headers) sub
        (s\<lparr> mk_outside := n' \<rparr>) = (resp, s')"
  using assms
  by (auto simp: member_key_handler_def verify_with_idp_def Let_def
      split: option.splits prod.splits sum.splits idp_verdict.splits)

text \<open>C29. The handler touches the key store only when the identity provider answered the
  presented bearer with success and a subject, and the issuance limits let the
  subject's account and the caller's address through; what it then does is to
  rotate that account's key. An answer of 200 carries exactly the new key. In
  every other case the store is as it was; every answer is marked not to be
  stored.\<close>

theorem minted_only_when_vouched:
  assumes h: "member_key_handler X P master env feature headers s = (resp, s')"
  shows "(''cache-control'', ''no-store'') \<in> set (rs_headers resp)
    \<and> (rs_status resp = 200 \<or> mk_store s' \<noteq> mk_store s \<longrightarrow>
      (\<exists>cfg token sub r n n' now reply.
        feature = Some cfg \<and> member_bearer headers = Some token
      \<and> os_userinfo env (mc_userinfo_url cfg) token n = (Inr reply, n')
      \<and> 200 \<le> ir_status reply \<and> ir_status reply < 300 \<and> verdict_of env reply = Subject sub \<and> str_trim sub \<noteq> []
      \<and> reserve cfg (subject_hash P sub) (client_ip env (mc_trust_forwarded_for cfg) headers) now
          (mk_limiter s) = (Inr (), mk_limiter s')
      \<and> rotate_member_key P master (subject_hash P sub) (mc_quota_rps cfg) (mc_daily_quota cfg) (mk_store s)
          = (r, mk_store s')
      \<and> (case r of
           Inl e \<Rightarrow> rs_status resp = 500
         | Inr key \<Rightarrow> rs_status resp = 200 \<and> rs_body resp = json_text X (member_key_json cfg key))))"
    (is "_ \<and> (_ \<longrightarrow> ?R)")
proof (rule conjI)
  show "(''cache-control'', ''no-store'') \<in> set (rs_headers resp)"
    using h by (rule handler_no_store)
next
  show "rs_status resp = 200 \<or> mk_store s' \<noteq> mk_store s \<longrightarrow> ?R"
  proof
    assume new: "rs_status resp = 200 \<or> mk_store s' \<noteq> mk_store s"
    obtain cfg token sub n n' reply where v: "feature = Some cfg" "member_bearer headers = Some token"
      "os_userinfo env (mc_userinfo_url cfg) token n = (Inr reply, n')" "verdict_of env reply = Subject sub"
      "issue_key X P master env cfg (client_ip env (mc_trust_forwarded_for cfg) headers) sub
         (s\<lparr> mk_outside := n' \<rparr>) = (resp, s')"
      using handler_issues [OF h new] by blast
    have i: "rs_status resp = 200 \<or> mk_store s' \<noteq> mk_store (s\<lparr> mk_outside := n' \<rparr>)" using new by simp
    show ?R using v verdict_Subject [OF v(4)] issue_key_cases [OF v(5) i] by fastforce
  qed
qed

section \<open>A sample issuance\<close>

definition sample_outside :: "unit outside" where
  "sample_outside =
     \<lparr> os_userinfo = (\<lambda>url token n. (Inr \<lparr> ir_status = 200, ir_chunks = [Inr [1]] \<rparr>, n)),
       os_clock = (\<lambda>n. (100000, n)), os_canonical_ip = (\<lambda>s. None),
       os_parse = (\<lambda>b. if b = [1] then Some (JObj [(''sub'', JStr ''x'')]) else None) \<rparr>"

definition fresh_limiter :: issuance_limiter where
  "fresh_limiter = \<lparr> li_accounts = [], li_ips = [] \<rparr>"

definition sample_members :: "(ref_world, unit) member_state" where
  "sample_members = \<lparr> mk_store = ref_start, mk_limiter = fresh_limiter, mk_outside = () \<rparr>"

lemma fresh_limiter_ok: "limiter_ok fresh_limiter"
  by (simp add: limiter_ok_def fresh_limiter_def)

lemma fresh_reserve: "\<exists>L. reserve cfg account ip now fresh_limiter = (Inr (), L)"
  by (simp add: reserve_def ip_blocked_def account_blocked_def fresh_limiter_def)

theorem issuance_limited_witness:
  "admitted (\<lambda>(a, i, now). a = ''x'') 1
      (fst (run_steps (issuance_step (\<lambda>now. now div 86400) member_defaults)
         (map (\<lambda>k. (''x'', ''a'', 86400 + 60 * k)) [0 ..< 50]) fresh_limiter)) \<le> 20"
proof -
  let ?rs = "map (\<lambda>k. (''x'', ''a'', 86400 + 60 * k)) [0 ..< 50]"
  have "sorted (map (\<lambda>(account, ip, now). now) ?rs)"
    by (simp add: comp_def sorted_iff_nth_mono)
  from conjunct1 [OF issuance_limited [OF fresh_limiter_ok this, of "''x''" 1 member_defaults ip hour]]
  show ?thesis by (simp add: member_defaults_def)
qed

lemma sample_member_token: "str_trim ''x'' = ''x''" "str_trim ''t'' = ''t''"
  by (simp_all add: str_trim_visible)

theorem minted_only_when_vouched_witness:
  "\<exists>resp s' r. member_key_handler sample_lib ref_platform ref_master sample_outside (Some member_defaults)
      [(''authorization'', ''Bearer t'')] sample_members = (resp, s')
    \<and> rs_status resp = 200
    \<and> rotate_member_key ref_platform ref_master (subject_hash ref_platform ''x'') 1 300 ref_start
        = (r, mk_store s')"
proof -
  let ?h = "[(''authorization'', ''Bearer t'')]"
  let ?a = "subject_hash ref_platform ''x''"
  have b: "member_bearer ?h = Some ''t''"
    by (simp add: member_bearer_def header_to_str_def strip_prefix_def sample_member_token of_char_def)
  have v: "verify_with_idp sample_outside member_defaults ''t'' () = (Subject ''x'', ())"
    by (simp add: verify_with_idp_def sample_outside_def verdict_of_def max_userinfo_body_def
        sample_member_token)
  have blocked: "ip_blocked member_defaults ip now fresh_limiter = None" for ip now
    by (simp add: ip_blocked_def fresh_limiter_def)
  have clock: "os_clock sample_outside n = (100000, n)" for n by (simp add: sample_outside_def)
  obtain L where L: "reserve member_defaults ?a unknown_ip 100000 fresh_limiter = (Inr (), L)"
    using fresh_reserve by blast
  obtain key w where k: "rotate_member_key ref_platform ref_master ?a 1 300 ref_start = (Inr key, w)"
    using ref_rotate by blast
  have d: "mc_quota_rps member_defaults = 1" "mc_daily_quota member_defaults = 300"
    "mc_trust_forwarded_for member_defaults = False"
    by (simp_all add: member_defaults_def)
  have ip: "client_ip sample_outside False ?h = unknown_ip" by (simp add: client_ip_def)
  obtain resp s' where h: "member_key_handler sample_lib ref_platform ref_master sample_outside
      (Some member_defaults) ?h sample_members = (resp, s')" by fastforce
  have ok: "rs_status resp = 200"
    using h by (auto simp: member_key_handler_def b Let_def d ip clock sample_members_def blocked v
        issue_key_def L k)
  have reply: "verdict_of sample_outside \<lparr> ir_status = 200, ir_chunks = [Inr [1]] \<rparr> = Subject ''x''"
    by (simp add: verdict_of_def sample_outside_def max_userinfo_body_def sample_member_token)
  from conjunct2 [OF minted_only_when_vouched [OF h]] ok obtain cfg token sub r n n' now rep where
    R: "Some member_defaults = Some cfg" "os_userinfo sample_outside (mc_userinfo_url cfg) token n = (Inr rep, n')"
      "verdict_of sample_outside rep = Subject sub"
      "rotate_member_key ref_platform ref_master (subject_hash ref_platform sub) (mc_quota_rps cfg)
         (mc_daily_quota cfg) (mk_store sample_members) = (r, mk_store s')"
    by blast
  have "rep = \<lparr> ir_status = 200, ir_chunks = [Inr [1]] \<rparr>" using R(2) by (simp add: sample_outside_def)
  with R(3) reply have "sub = ''x''" by simp
  with R(1,4) h ok d show ?thesis by (auto simp: sample_members_def)
qed

end
