(* ===== verification/Civil_Date.thy ===== *)
theory Civil_Date
  imports Prelude "HOL-Library.Signed_Division"
begin

text \<open>
  The calendar date of a Unix time, \<open>civil_date\<close> of \<open>gateway/src/usage.rs\<close>, and
  the Gregorian calendar it is compared with: one day after another from the
  first of January 1970.
\<close>

section \<open>The conversion\<close>

definition year_of_era :: "nat \<Rightarrow> nat" where
  "year_of_era doe = (doe - doe div 1460 + doe div 36524 - doe div 146096) div 365"

definition month_of :: "nat \<Rightarrow> nat" where
  "month_of doy = (let mp = (5 * doy + 2) div 153 in if mp < 10 then mp + 3 else mp - 9)"

definition day_of :: "nat \<Rightarrow> nat" where
  "day_of doy = (let mp = (5 * doy + 2) div 153 in doy - (153 * mp + 2) div 5 + 1)"

definition civil_of_days :: "int \<Rightarrow> int \<times> nat \<times> nat" where
  "civil_of_days days =
     (let z = days + 719468;
          era = (if 0 \<le> z then z else z - 146096) sdiv 146097;
          doe = nat (z - era * 146097);
          yoe = year_of_era doe;
          y = int yoe + era * 400;
          doy = doe - (365 * yoe + yoe div 4 - yoe div 100);
          m = month_of doy
      in (if m \<le> 2 then y + 1 else y, m, day_of doy))"

definition zero_padded :: "nat \<Rightarrow> string \<Rightarrow> string" where
  "zero_padded n s = replicate (n - length s) (CHR ''0'') @ s"

definition civil_date :: "nat \<Rightarrow> string" where
  "civil_date secs =
     (case civil_of_days (int (secs div 86400)) of
        (y, m, d) \<Rightarrow>
          zero_padded 4 (dec_string (nat y)) @ ''-'' @ zero_padded 2 (dec_string m) @ ''-''
          @ zero_padded 2 (dec_string d))"

section \<open>The calendar\<close>

definition leap_year :: "int \<Rightarrow> bool" where
  "leap_year y \<longleftrightarrow> y mod 4 = 0 \<and> (y mod 100 \<noteq> 0 \<or> y mod 400 = 0)"

definition days_in_month :: "int \<Rightarrow> nat \<Rightarrow> nat" where
  "days_in_month y m =
     (if m = 2 then (if leap_year y then 29 else 28) else if m \<in> {4, 6, 9, 11} then 30 else 31)"

fun next_day :: "int \<times> nat \<times> nat \<Rightarrow> int \<times> nat \<times> nat" where
  "next_day (y, m, d) =
     (if d < days_in_month y m then (y, m, d + 1)
      else if m < 12 then (y, m + 1, 1) else (y + 1, 1, 1))"

section \<open>Years of an era\<close>

text \<open>Years are counted from the first of March, so that a leap day is the last of
  its year.\<close>

definition year_start :: "nat \<Rightarrow> nat" where
  "year_start y = 365 * y + y div 4 - y div 100"

definition year_last :: "nat \<Rightarrow> nat" where
  "year_last y = (if y = 399 then 146096 else year_start (y + 1) - 1)"

definition leap_after :: "nat \<Rightarrow> bool" where
  "leap_after y \<longleftrightarrow> (y + 1) mod 4 = 0 \<and> ((y + 1) mod 100 \<noteq> 0 \<or> (y + 1) mod 400 = 0)"

definition scaled :: "nat \<Rightarrow> nat" where
  "scaled doe = doe - doe div 1460 + doe div 36524"

lemma sub_div_mono: "a \<le> b \<Longrightarrow> a - a div n \<le> b - b div (n :: nat)"
proof (induction b rule: dec_induct)
  case (step b)
  have "Suc b div n \<le> Suc (b div n)"
    by (metis Suc_eq_plus1 div_Suc le_SucI le_refl)
  then have "b - b div n \<le> Suc b - Suc b div n"
    using div_le_dividend [of b n] by linarith
  with step show ?case by linarith
qed simp

lemma scaled_mono: "a \<le> b \<Longrightarrow> scaled a \<le> scaled b"
  unfolding scaled_def by (intro add_mono sub_div_mono div_le_mono)

lemma scaled_eq:
  assumes "1460 * k \<le> n" "n < 1460 * (k + 1)" and "36524 * c \<le> n" "n < 36524 * (c + 1)"
  shows "scaled n = n - k + c"
proof -
  have "n div 1460 = k" using assms(1,2) by (intro div_nat_eqI) simp_all
  moreover have "n div 36524 = c" using assms(3,4) by (intro div_nat_eqI) simp_all
  ultimately show ?thesis by (simp add: scaled_def)
qed

lemma year_parts:
  obtains c q r where "y = 100 * c + 4 * q + r" and "q < 25" and "r < (4 :: nat)"
proof
  show "y = 100 * (y div 100) + 4 * (y mod 100 div 4) + y mod 100 mod 4"
    by (metis add.assoc mult_div_mod_eq)
  show "y mod 100 div 4 < 25" by (simp add: less_mult_imp_div_less)
qed simp

lemma year_start_parts:
  assumes "q < 25" "r < 4"
  shows "year_start (100 * c + 4 * q + r) = 36524 * c + 1461 * q + 365 * r"
proof -
  have "(100 * c + 4 * q + r) div 4 = 25 * c + q" using assms by (intro div_nat_eqI) simp_all
  moreover have "(100 * c + 4 * q + r) div 100 = c" using assms by (intro div_nat_eqI) simp_all
  ultimately show ?thesis by (simp add: year_start_def)
qed

lemma leap_after_parts:
  assumes "q < 25" "r < 4" "c < 4"
  shows "leap_after (100 * c + 4 * q + r) \<longleftrightarrow> r = 3 \<and> (q < 24 \<or> c = 3)"
proof (cases "r = 3")
  case True
  define n where "n = 100 * c + 4 * q + r + 1"
  have n: "n = 100 * c + (4 * q + 4)" by (simp add: n_def True)
  have "n mod 4 = 0" using n by presburger
  moreover have "n mod 100 = (4 * q + 4) mod 100" unfolding n by simp
  moreover have "q = 24 \<Longrightarrow> n mod 400 = 0 \<longleftrightarrow> c = 3" using n assms(3) by presburger
  ultimately show ?thesis
    unfolding leap_after_def n_def [symmetric] using True assms by (cases "q = 24") auto
next
  case False
  have "(100 * c + 4 * q + r + 1) mod 4 = (r + 1) mod 4" by presburger
  with False assms show ?thesis by (auto simp: leap_after_def)
qed

text \<open>The facts about one year of an era that the conversion rests on.\<close>

lemma year_facts:
  assumes y: "y < 400"
  shows "scaled (year_start y) = 365 * y"
    and "y < 399 \<Longrightarrow> year_start (y + 1) = year_start y + (if leap_after y then 366 else 365)"
    and "y < 399 \<Longrightarrow> scaled (year_start (y + 1) - 1) < 365 * (y + 1)"
    and "year_start y + (if leap_after y then 365 else 364) = year_last y"
proof -
  obtain c q r where p: "y = 100 * c + 4 * q + r" "q < 25" "r < 4" by (rule year_parts)
  have c: "c < 4" using y p(1) by simp
  then have cs: "c = 0 \<or> c = 1 \<or> c = 2 \<or> c = 3" by linarith
  have rs: "r = 0 \<or> r = 1 \<or> r = 2 \<or> r = 3" using p(3) by linarith
  note start = year_start_parts [OF p(2,3), of c, folded p(1)]
  note leap = leap_after_parts [OF p(2,3) c, folded p(1)]
  have "scaled (36524 * c + 1461 * q + 365 * r) = 36524 * c + 1461 * q + 365 * r - (25 * c + q) + c"
    using p(2,3) cs rs by (intro scaled_eq) auto
  then show s: "scaled (year_start y) = 365 * y" by (simp only: start) (simp add: p(1))
  have next': "year_start (y + 1) = year_start y + (if leap_after y then 366 else 365)" if y': "y < 399"
  proof -
    consider "r < 3" | "r = 3" "q < 24" | "r = 3" "q = 24" "c < 3" using p y' c by linarith
    then show ?thesis
    proof cases
      case 1
      then show ?thesis using year_start_parts [OF p(2), of "r + 1" c] p leap start by (simp add: add.assoc)
    next
      case 2
      then show ?thesis using year_start_parts [of "q + 1" 0 c] p leap start by (simp add: algebra_simps)
    next
      case 3
      then show ?thesis using year_start_parts [of 0 0 "c + 1"] p leap start by (simp add: algebra_simps)
    qed
  qed
  then show "y < 399 \<Longrightarrow> year_start (y + 1) = year_start y + (if leap_after y then 366 else 365)" .
  show "scaled (year_start (y + 1) - 1) < 365 * (y + 1)" if y': "y < 399"
  proof -
    consider "r < 3" | "r = 3" "q < 24" | "r = 3" "q = 24" "c < 3" using p y' c by linarith
    then show ?thesis
    proof cases
      case 1
      have "scaled (36524 * c + 1461 * q + 365 * r + 364)
          = 36524 * c + 1461 * q + 365 * r + 364 - (25 * c + q) + c"
        using p(2) 1 cs by (intro scaled_eq) auto
      moreover have "year_start (y + 1) - 1 = 36524 * c + 1461 * q + 365 * r + 364"
        using 1 next' [OF y'] start leap by simp
      ultimately show ?thesis using 1 by (simp only:) (simp add: p(1))
    next
      case 2
      have "scaled (36524 * c + 1461 * q + 1460) = 36524 * c + 1461 * q + 1460 - (25 * c + q + 1) + c"
        using 2 cs by (intro scaled_eq) auto
      moreover have "year_start (y + 1) - 1 = 36524 * c + 1461 * q + 1460"
        using 2 next' [OF y'] start leap by simp
      ultimately show ?thesis using 2 by (simp only:) (simp add: p(1))
    next
      case 3
      have "scaled (36524 * c + 36523) = 36524 * c + 36523 - (25 * c + 25) + c"
        using 3 by (intro scaled_eq) auto
      moreover have "year_start (y + 1) - 1 = 36524 * c + 36523"
        using 3 next' [OF y'] start leap by simp
      ultimately show ?thesis using 3 by (simp only:) (simp add: p(1))
    qed
  qed
  show "year_start y + (if leap_after y then 365 else 364) = year_last y"
  proof (cases "y = 399")
    case True
    then have "c = 3 \<and> q = 24 \<and> r = 3" using p by presburger
    with True leap start show ?thesis by (simp add: year_last_def)
  next
    case False
    with y have "y < 399" by simp
    from next' [OF this] False show ?thesis by (simp add: year_last_def)
  qed
qed

section \<open>Days of a year\<close>

lemma month_block:
  assumes "153 * k \<le> 5 * doy + 2" "5 * doy + 2 < 153 * (k + 1)"
  shows "month_of doy = (if k < 10 then k + 3 else k - 9)" and "day_of doy = doy - (153 * k + 2) div 5 + 1"
proof -
  have "(5 * doy + 2) div 153 = k" using assms by (intro div_nat_eqI) simp_all
  then show "month_of doy = (if k < 10 then k + 3 else k - 9)" "day_of doy = doy - (153 * k + 2) div 5 + 1"
    by (simp_all add: month_of_def day_of_def)
qed

lemma month_intervals:
  shows "doy \<le> 30 \<Longrightarrow> month_of doy = 3 \<and> day_of doy = doy + 1 - 0"
  and "31 \<le> doy \<Longrightarrow> doy \<le> 60 \<Longrightarrow> month_of doy = 4 \<and> day_of doy = doy + 1 - 31"
  and "61 \<le> doy \<Longrightarrow> doy \<le> 91 \<Longrightarrow> month_of doy = 5 \<and> day_of doy = doy + 1 - 61"
  and "92 \<le> doy \<Longrightarrow> doy \<le> 121 \<Longrightarrow> month_of doy = 6 \<and> day_of doy = doy + 1 - 92"
  and "122 \<le> doy \<Longrightarrow> doy \<le> 152 \<Longrightarrow> month_of doy = 7 \<and> day_of doy = doy + 1 - 122"
  and "153 \<le> doy \<Longrightarrow> doy \<le> 183 \<Longrightarrow> month_of doy = 8 \<and> day_of doy = doy + 1 - 153"
  and "184 \<le> doy \<Longrightarrow> doy \<le> 213 \<Longrightarrow> month_of doy = 9 \<and> day_of doy = doy + 1 - 184"
  and "214 \<le> doy \<Longrightarrow> doy \<le> 244 \<Longrightarrow> month_of doy = 10 \<and> day_of doy = doy + 1 - 214"
  and "245 \<le> doy \<Longrightarrow> doy \<le> 274 \<Longrightarrow> month_of doy = 11 \<and> day_of doy = doy + 1 - 245"
  and "275 \<le> doy \<Longrightarrow> doy \<le> 305 \<Longrightarrow> month_of doy = 12 \<and> day_of doy = doy + 1 - 275"
  and "306 \<le> doy \<Longrightarrow> doy \<le> 336 \<Longrightarrow> month_of doy = 1 \<and> day_of doy = doy + 1 - 306"
  and "337 \<le> doy \<Longrightarrow> doy \<le> 365 \<Longrightarrow> month_of doy = 2 \<and> day_of doy = doy + 1 - 337"
proof -
  show "doy \<le> 30 \<Longrightarrow> month_of doy = 3 \<and> day_of doy = doy + 1 - 0"
    using month_block [of 0 doy] by simp
  show "31 \<le> doy \<Longrightarrow> doy \<le> 60 \<Longrightarrow> month_of doy = 4 \<and> day_of doy = doy + 1 - 31"
    using month_block [of 1 doy] by simp
  show "61 \<le> doy \<Longrightarrow> doy \<le> 91 \<Longrightarrow> month_of doy = 5 \<and> day_of doy = doy + 1 - 61"
    using month_block [of 2 doy] by simp
  show "92 \<le> doy \<Longrightarrow> doy \<le> 121 \<Longrightarrow> month_of doy = 6 \<and> day_of doy = doy + 1 - 92"
    using month_block [of 3 doy] by simp
  show "122 \<le> doy \<Longrightarrow> doy \<le> 152 \<Longrightarrow> month_of doy = 7 \<and> day_of doy = doy + 1 - 122"
    using month_block [of 4 doy] by simp
  show "153 \<le> doy \<Longrightarrow> doy \<le> 183 \<Longrightarrow> month_of doy = 8 \<and> day_of doy = doy + 1 - 153"
    using month_block [of 5 doy] by simp
  show "184 \<le> doy \<Longrightarrow> doy \<le> 213 \<Longrightarrow> month_of doy = 9 \<and> day_of doy = doy + 1 - 184"
    using month_block [of 6 doy] by simp
  show "214 \<le> doy \<Longrightarrow> doy \<le> 244 \<Longrightarrow> month_of doy = 10 \<and> day_of doy = doy + 1 - 214"
    using month_block [of 7 doy] by simp
  show "245 \<le> doy \<Longrightarrow> doy \<le> 274 \<Longrightarrow> month_of doy = 11 \<and> day_of doy = doy + 1 - 245"
    using month_block [of 8 doy] by simp
  show "275 \<le> doy \<Longrightarrow> doy \<le> 305 \<Longrightarrow> month_of doy = 12 \<and> day_of doy = doy + 1 - 275"
    using month_block [of 9 doy] by simp
  show "306 \<le> doy \<Longrightarrow> doy \<le> 336 \<Longrightarrow> month_of doy = 1 \<and> day_of doy = doy + 1 - 306"
    using month_block [of 10 doy] by simp
  show "337 \<le> doy \<Longrightarrow> doy \<le> 365 \<Longrightarrow> month_of doy = 2 \<and> day_of doy = doy + 1 - 337"
    using month_block [of 11 doy] by simp
qed

lemma day_step:
  assumes "doy < 364"
  shows "next_day (if month_of doy \<le> 2 then y + 1 else y, month_of doy, day_of doy)
    = (if month_of (doy + 1) \<le> 2 then y + 1 else y, month_of (doy + 1), day_of (doy + 1))"
proof -
  consider "doy \<le> 29"
    | "doy = 30"
    | "31 \<le> doy" "doy \<le> 59"
    | "doy = 60"
    | "61 \<le> doy" "doy \<le> 90"
    | "doy = 91"
    | "92 \<le> doy" "doy \<le> 120"
    | "doy = 121"
    | "122 \<le> doy" "doy \<le> 151"
    | "doy = 152"
    | "153 \<le> doy" "doy \<le> 182"
    | "doy = 183"
    | "184 \<le> doy" "doy \<le> 212"
    | "doy = 213"
    | "214 \<le> doy" "doy \<le> 243"
    | "doy = 244"
    | "245 \<le> doy" "doy \<le> 273"
    | "doy = 274"
    | "275 \<le> doy" "doy \<le> 304"
    | "doy = 305"
    | "306 \<le> doy" "doy \<le> 335"
    | "doy = 336"
    | "337 \<le> doy" "doy \<le> 363"
    using assms by atomize_elim presburger
  then show ?thesis
    by cases (simp_all add: month_intervals days_in_month_def, linarith+)
qed

text \<open>The last day of February, in a common year and in a leap year.\<close>

lemma year_turn:
  "leap_year (y + 1) \<Longrightarrow> next_day (y + 1, month_of 364, day_of 364) = (y + 1, month_of 365, day_of 365)"
  "leap_year (y + 1) \<Longrightarrow> next_day (y + 1, month_of 365, day_of 365) = (y + 1, month_of 0, day_of 0)"
  "\<not> leap_year (y + 1) \<Longrightarrow> next_day (y + 1, month_of 364, day_of 364) = (y + 1, month_of 0, day_of 0)"
  by (simp_all add: month_of_def day_of_def days_in_month_def)

lemma march_and_february:
  "month_of 0 = 3" "month_of 364 = 2" "month_of 365 = 2"
  by (simp_all add: month_of_def)

section \<open>Days of an era\<close>

lemma year_of_era_scaled:
  assumes "doe < 146096"
  shows "year_of_era doe = scaled doe div 365"
  using assms by (simp add: year_of_era_def scaled_def)

lemma year_of_era_in_year:
  assumes y: "y < 400" and lo: "year_start y \<le> doe" and hi: "doe \<le> year_last y"
  shows "year_of_era doe = y"
proof (cases "doe = 146096")
  case True
  have "y = 399"
  proof (rule ccontr)
    assume "y \<noteq> 399"
    with y have y': "y < 399" by simp
    obtain c q r where p: "y + 1 = 100 * c + 4 * q + r" "q < 25" "r < (4 :: nat)" by (rule year_parts)
    have "c < 4" using p(1) y' by simp
    with p year_start_parts [OF p(2,3), of c] have "year_start (y + 1) \<le> 146096" by simp
    moreover have "doe \<le> year_start (y + 1) - 1" using hi y' by (simp add: year_last_def)
    moreover have "0 < year_start (y + 1)" using year_facts(2) [OF y y'] by (simp split: if_splits)
    ultimately show False using True by linarith
  qed
  with True show ?thesis by (simp add: year_of_era_def)
next
  case False
  have s: "scaled (year_start y) \<le> scaled doe" using scaled_mono [OF lo] .
  have "scaled doe < 365 * (y + 1) \<and> doe < 146096"
  proof (cases "y = 399")
    case True
    with hi False have "doe \<le> 146095" by (simp add: year_last_def)
    from scaled_mono [OF this] this True show ?thesis by (simp add: scaled_def)
  next
    case y399: False
    with y have y': "y < 399" by simp
    have le: "doe \<le> year_start (y + 1) - 1" using hi y399 by (simp add: year_last_def)
    from scaled_mono [OF le] year_facts(3) [OF y y'] have "scaled doe < 365 * (y + 1)" by linarith
    moreover have "doe < 146096"
    proof (rule ccontr)
      assume "\<not> doe < 146096"
      from scaled_mono [of 146096 doe] this have "scaled 146096 \<le> scaled doe" by simp
      then have "146000 \<le> scaled doe" by (simp add: scaled_def)
      moreover have "365 * (y + 1) \<le> 365 * 399" using y' by (intro mult_le_mono2) simp
      ultimately show False using \<open>scaled doe < 365 * (y + 1)\<close> by simp
    qed
    ultimately show ?thesis ..
  qed
  with s year_facts(1) [OF y] year_of_era_scaled [of doe] show ?thesis
    by (simp add: div_nat_eqI algebra_simps)
qed

text \<open>The date of a day of an era, given the year it lies in.\<close>

lemma civil_of_days_in_year:
  assumes y: "y < 400" and doy: "year_start y + doy \<le> year_last y"
  shows "civil_of_days (int (era * 146097 + year_start y + doy) - 719468)
    = (int y + int era * 400 + (if month_of doy \<le> 2 then 1 else 0), month_of doy, day_of doy)"
proof -
  define doe where "doe = year_start y + doy"
  have last: "year_last y \<le> 146096"
  proof (cases "y = 399")
    case False
    obtain c q r where p: "y + 1 = 100 * c + 4 * q + r" "q < 25" "r < (4 :: nat)" by (rule year_parts)
    have "c < 4" using p(1) y False by simp
    with p False year_start_parts [OF p(2,3), of c] show ?thesis by (simp add: year_last_def)
  qed (simp add: year_last_def)
  have doe: "doe < 146097" using doy last by (simp add: doe_def)
  have "int (era * 146097 + doe) div int 146097 = int ((era * 146097 + doe) div 146097)"
    by (rule zdiv_int [symmetric])
  then have "int (era * 146097 + doe) div 146097 = int era" using doe by simp
  then have era: "int (era * 146097 + doe) sdiv 146097 = int era"
    by (simp add: signed_divide_int_def sgn_if del: of_nat_add of_nat_mult)
  have offset: "nat (int (era * 146097 + doe) - int era * 146097) = doe" by simp
  have "year_of_era doe = y" using year_of_era_in_year [OF y, of doe] doy by (simp add: doe_def)
  moreover have "doe - (365 * y + y div 4 - y div 100) = doy" by (simp add: doe_def year_start_def)
  ultimately have "civil_of_days (int (era * 146097 + doe) - 719468)
    = (int y + int era * 400 + (if month_of doy \<le> 2 then 1 else 0), month_of doy, day_of doy)"
    by (simp add: civil_of_days_def Let_def era offset del: of_nat_add of_nat_mult)
  then show ?thesis by (simp add: doe_def add.assoc)
qed

lemma era_year:
  assumes "doe \<le> year_last y" "y < 400"
  obtains y' doy where "y' < 400" "doe = year_start y' + doy" "doe \<le> year_last y'"
proof -
  have "\<exists>y' < 400. year_start y' \<le> doe \<and> doe \<le> year_last y'" using assms
  proof (induction y)
    case 0
    then show ?case by (intro exI [of _ 0]) (simp add: year_start_def)
  next
    case (Suc y)
    show ?case
    proof (cases "doe \<le> year_last y")
      case True
      with Suc show ?thesis by simp
    next
      case False
      then have "year_start (Suc y) \<le> doe" using Suc.prems(2) by (simp add: year_last_def)
      with Suc.prems show ?thesis by blast
    qed
  qed
  then show thesis using that le_Suc_ex by metis
qed

lemma leap_year_after: "leap_year (int y + int era * 400 + 1) \<longleftrightarrow> leap_after y"
proof -
  define k where "k = y + 1"
  have "int y + int era * 400 + 1 = int (k + era * 400)" by (simp add: k_def)
  moreover have "(k + (era * 100) * 4) mod 4 = k mod 4" "(k + (era * 4) * 100) mod 100 = k mod 100"
    "(k + era * 400) mod 400 = k mod 400" by (rule mod_mult_self1)+
  moreover have "int m mod 4 = 0 \<longleftrightarrow> m mod 4 = 0" "int m mod 100 = 0 \<longleftrightarrow> m mod 100 = 0"
    "int m mod 400 = 0 \<longleftrightarrow> m mod 400 = 0" for m
    by presburger+
  ultimately show ?thesis
    unfolding leap_year_def leap_after_def k_def [symmetric] by (simp only: mult.assoc) simp
qed

lemma civil_step: "civil_of_days (int n + 1) = next_day (civil_of_days (int n))"
proof -
  define N where "N = n + 719468"
  define era where "era = N div 146097"
  have "N mod 146097 \<le> year_last 399" by (simp add: year_last_def less_Suc_eq_le [symmetric])
  then obtain y doy where y: "y < 400" and doe: "N mod 146097 = year_start y + doy"
    and le: "N mod 146097 \<le> year_last y" by (rule era_year) simp
  have N: "N = era * 146097 + year_start y + doy"
    using div_mult_mod_eq [of N 146097] doe by (simp add: era_def)
  have n: "int n = int (era * 146097 + year_start y + doy) - 719468"
    and n1: "int n + 1 = int (era * 146097 + year_start y + (doy + 1)) - 719468"
    using N by (simp_all add: N_def)
  note here = civil_of_days_in_year [OF y, of doy era, folded doe, OF le, folded n]
  note last = year_facts(4) [OF y]
  have turn: "civil_of_days (int n + 1) = (int y + int era * 400 + 1, 3, 1)"
    if end_: "year_start y + doy = year_last y"
  proof (cases "y = 399")
    case True
    then have "int n + 1 = int ((era + 1) * 146097 + year_start 0 + 0) - 719468"
      using n1 end_ by (simp add: year_last_def year_start_def)
    moreover have "year_start 0 + 0 \<le> year_last 0" by (simp add: year_start_def year_last_def)
    from civil_of_days_in_year [OF _ this, of "era + 1"]
    have "civil_of_days (int ((era + 1) * 146097 + year_start 0 + 0) - 719468)
      = (int (era + 1) * 400, 3, 1)" by (simp add: march_and_february day_of_def)
    ultimately show ?thesis by (simp only:) (simp add: True)
  next
    case False
    with y have y': "y < 399" by simp
    have "int n + 1 = int (era * 146097 + year_start (y + 1) + 0) - 719468"
      using n1 end_ year_facts(2) [OF y y'] False by (simp add: year_last_def split: if_splits)
    moreover have "year_start (y + 1) + 0 \<le> year_last (y + 1)"
      using year_facts(4) [of "y + 1"] y' by simp
    from civil_of_days_in_year [OF _ this, of era] y'
    have "civil_of_days (int (era * 146097 + year_start (y + 1) + 0) - 719468)
      = (int y + int era * 400 + 1, 3, 1)" by (simp add: march_and_february day_of_def)
    ultimately show ?thesis by (simp only:)
  qed
  have inside: "civil_of_days (int n + 1) = (int y + int era * 400 + (if month_of (doy + 1) \<le> 2 then 1 else 0),
      month_of (doy + 1), day_of (doy + 1))" if "year_start y + (doy + 1) \<le> year_last y"
    using civil_of_days_in_year [OF y that, of era, folded n1] .
  note leap = leap_year_after [of y era] and year_turn [of "int y + int era * 400"]
  consider "doy < 364" | "doy = 364" "leap_after y" | "doy = 364" "\<not> leap_after y" | "doy = 365" "leap_after y"
    using last le doe by (fastforce split: if_splits)
  then show ?thesis
  proof cases
    case 1
    with last have "year_start y + (doy + 1) \<le> year_last y" by (simp split: if_splits)
    from inside [OF this] here day_step [OF 1, of "int y + int era * 400"] show ?thesis
      by (simp split: if_splits)
  next
    case 2
    with last have "year_start y + (doy + 1) \<le> year_last y" by simp
    from inside [OF this] here year_turn(1) [of "int y + int era * 400"] 2 leap show ?thesis
      by (simp add: march_and_february)
  next
    case 3
    with last turn here year_turn(3) [of "int y + int era * 400"] leap show ?thesis
      by (simp add: march_and_february day_of_def)
  next
    case 4
    with last turn here year_turn(2) [of "int y + int era * 400"] leap show ?thesis
      by (simp add: march_and_february day_of_def)
  qed
qed

lemma civil_epoch: "civil_of_days 0 = (1970, 1, 1)"
proof -
  have "year_start 369 = 134774" "year_start 370 = 135139" by (simp_all add: year_start_def)
  with civil_of_days_in_year [of 369 306 4] show ?thesis
    by (simp add: year_last_def month_of_def day_of_def)
qed

text \<open>The conversion agrees with the calendar: the date of the \<open>n\<close>-th day
  after the epoch is reached from the first of January 1970 by \<open>n\<close> steps to the
  next day, month lengths and leap years included, whatever \<open>n\<close> is.\<close>

theorem civil_date_is_the_calendar:
  "civil_of_days (int n) = (next_day ^^ n) (1970, 1, 1)"
proof (induction n)
  case (Suc n)
  have "civil_of_days (int (Suc n)) = civil_of_days (int n + 1)" by (simp add: add.commute)
  with Suc show ?case by (simp only: civil_step funpow.simps o_apply)
qed (simp add: civil_epoch)

end
