(* ===== verification/Usage.thy ===== *)
theory Usage
  imports Civil_Date Key_Backends Api_Key_Layer "HOL-Library.Multiset"
begin

text \<open>
  Usage accounting: the store of \<open>gateway/src/usage.rs\<close>, one row per key and day,
  and the handler of \<open>GET /v1/usage\<close>, which reports the caller's own rows and
  their sums.
\<close>

section \<open>The store\<close>

record usage_row =
  ur_date :: string
  ur_requests :: u64
  ur_input_tokens :: u64
  ur_output_tokens :: u64
  ur_spent_grains :: string

record raw_row =
  rr_requests :: u64
  rr_input_tokens :: u64
  rr_output_tokens :: u64
  rr_spent :: u256

type_synonym usage_store = "((string \<times> string) \<times> raw_row) list"

definition usage_new_store :: usage_store where
  "usage_new_store = []"

definition empty_raw_row :: raw_row where
  "empty_raw_row = \<lparr> rr_requests = 0, rr_input_tokens = 0, rr_output_tokens = 0, rr_spent = 0 \<rparr>"

text \<open>The wall clock in seconds after the epoch, \<open>None\<close> when it is before it.\<close>

definition today_utc :: "nat option \<Rightarrow> string" where
  "today_utc clock = civil_date (case clock of None \<Rightarrow> 0 | Some s \<Rightarrow> s)"

text \<open>The three counters wrap at their width; the sum of the grains panics instead,
  after the counters were bumped in place. The flag tells whether the call
  returned.\<close>

definition record_usage ::
  "nat option \<Rightarrow> string \<Rightarrow> u32 \<Rightarrow> u32 \<Rightarrow> u256 \<Rightarrow> usage_store \<Rightarrow> bool \<times> usage_store" where
  "record_usage clock key_id input_tokens output_tokens grains rows =
     (let k = (key_id, today_utc clock);
          row = (case map_of rows k of None \<Rightarrow> empty_raw_row | Some r \<Rightarrow> r);
          row = row\<lparr> rr_requests := rr_requests row + 1,
                     rr_input_tokens := rr_input_tokens row + ucast input_tokens,
                     rr_output_tokens := rr_output_tokens row + ucast output_tokens \<rparr>
      in case checked_add (rr_spent row) grains of
           None \<Rightarrow> (False, AList.update k row rows)
         | Some spent \<Rightarrow> (True, AList.update k (row\<lparr> rr_spent := spent \<rparr>) rows))"

definition usage_row_of :: "x402_lib \<Rightarrow> (string \<times> string) \<times> raw_row \<Rightarrow> usage_row" where
  "usage_row_of X e =
     (case e of ((k, date), row) \<Rightarrow>
        \<lparr> ur_date = date, ur_requests = rr_requests row,
          ur_input_tokens = rr_input_tokens row, ur_output_tokens = rr_output_tokens row,
          ur_spent_grains = u256_to_dec X (rr_spent row) \<rparr>)"

text \<open>The stable sort by descending date.\<close>

fun insert_row :: "usage_row \<Rightarrow> usage_row list \<Rightarrow> usage_row list" where
  "insert_row r [] = [r]"
| "insert_row r (q # qs) = (if ur_date r < ur_date q then q # insert_row r qs else r # q # qs)"

definition newest_first :: "usage_row list \<Rightarrow> usage_row list" where
  "newest_first rs = foldr insert_row rs []"

definition rows_for :: "x402_lib \<Rightarrow> string \<Rightarrow> usage_store \<Rightarrow> usage_row list" where
  "rows_for X key_id rows =
     newest_first (map (usage_row_of X) (filter (\<lambda>((k, d), r). k = key_id) rows))"

section \<open>The handler\<close>

record usage_response =
  up_total_requests :: u64
  up_total_input_tokens :: u64
  up_total_output_tokens :: u64
  up_spent_grains :: string
  up_spent_display :: string
  up_daily :: "usage_row list"

text \<open>The sums of the counters wrap; the sum of the grains panics on overflow.\<close>

fun sum_grains :: "x402_lib \<Rightarrow> u256 \<Rightarrow> usage_row list \<Rightarrow> u256 option" where
  "sum_grains X acc [] = Some acc"
| "sum_grains X acc (r # rs) =
     (case checked_add acc (case u256_of_dec X (ur_spent_grains r) of Inl e \<Rightarrow> 0 | Inr n \<Rightarrow> n) of
        None \<Rightarrow> None
      | Some acc' \<Rightarrow> sum_grains X acc' rs)"

text \<open>\<open>display\<close> is the formatting of grains as SALT of the wallet's library.\<close>

definition usage_report :: "x402_lib \<Rightarrow> (string \<Rightarrow> string) \<Rightarrow> usage_row list \<Rightarrow> usage_response option" where
  "usage_report X display daily =
     (case sum_grains X 0 daily of
        None \<Rightarrow> None
      | Some spent \<Rightarrow>
          Some \<lparr> up_total_requests = sum_list (map ur_requests daily),
                 up_total_input_tokens = sum_list (map ur_input_tokens daily),
                 up_total_output_tokens = sum_list (map ur_output_tokens daily),
                 up_spent_grains = u256_to_dec X spent,
                 up_spent_display = display (u256_to_dec X spent),
                 up_daily = daily \<rparr>)"

definition usage_row_json :: "usage_row \<Rightarrow> json" where
  "usage_row_json r =
     JObj [(''date'', JStr (ur_date r)),
           (''requests'', JUint (unat (ur_requests r))),
           (''input_tokens'', JUint (unat (ur_input_tokens r))),
           (''output_tokens'', JUint (unat (ur_output_tokens r))),
           (''salt_spent_grains'', JStr (ur_spent_grains r))]"

definition usage_response_json :: "usage_response \<Rightarrow> json" where
  "usage_response_json u =
     JObj [(''total_requests'', JUint (unat (up_total_requests u))),
           (''total_input_tokens'', JUint (unat (up_total_input_tokens u))),
           (''total_output_tokens'', JUint (unat (up_total_output_tokens u))),
           (''salt_spent_grains'', JStr (up_spent_grains u)),
           (''salt_spent_display'', JStr (up_spent_display u)),
           (''daily'', JArr (map usage_row_json (up_daily u)))]"

text \<open>The handler; \<open>None\<close> when it panics.\<close>

definition usage_handler ::
  "x402_lib \<Rightarrow> (string \<Rightarrow> string) \<Rightarrow> 'w platform \<Rightarrow> bytes \<Rightarrow> (string \<times> string) list
    \<Rightarrow> 'w key_store \<Rightarrow> usage_store \<Rightarrow> response option" where
  "usage_handler X display P master headers keys rows =
     (case extract_bearer headers of
        None \<Rightarrow> Some (key_401 X ''Authorization: Bearer <key> required'')
      | Some key_id \<Rightarrow>
          (case keys_get P master key_id keys of
             None \<Rightarrow> Some (key_401 X ''unknown api key'')
           | Some r \<Rightarrow>
               if ak_revoked r then Some (key_401 X ''api key revoked'')
               else map_option (\<lambda>u. json_response X 200 content_json (usage_response_json u))
                      (usage_report X display (rows_for X key_id rows))))"

section \<open>Rows in order\<close>

lemma mset_newest_first [simp]: "mset (newest_first rs) = mset rs"
proof -
  have "mset (insert_row r qs) = add_mset r (mset qs)" for r qs by (induction qs) auto
  then show ?thesis unfolding newest_first_def by (induction rs) simp_all
qed

lemma newest_first_sorted:
  assumes "distinct (map ur_date rs)"
  shows "sorted_wrt (\<lambda>a b. ur_date b < ur_date a) (newest_first rs)"
proof -
  have step: "sorted_wrt (\<lambda>a b. ur_date b < ur_date a) (insert_row r qs)"
    if "sorted_wrt (\<lambda>a b. ur_date b < ur_date a) qs" "ur_date r \<notin> ur_date ` set qs" for r qs
  proof -
    have "set (insert_row r qs) = insert r (set qs)" for qs by (induction qs) auto
    with that show ?thesis by (induction qs) (auto simp: not_less order.order_iff_strict)
  qed
  have "set (foldr insert_row rs []) = set rs" for rs
    by (metis mset_newest_first newest_first_def set_mset_mset)
  with step assms show ?thesis unfolding newest_first_def by (induction rs) auto
qed

lemma sum_list_newest_first: "sum_list (map f (newest_first rs)) = sum_list (map f rs)"
  for f :: "usage_row \<Rightarrow> 'a::comm_monoid_add"
  by (metis mset_map mset_newest_first sum_mset_sum_list)

section \<open>Sums over a key's rows\<close>

definition key_rows :: "string \<Rightarrow> usage_store \<Rightarrow> usage_store" where
  "key_rows k rows = filter (\<lambda>((k', d), r). k' = k) rows"

definition key_sum :: "(raw_row \<Rightarrow> 'a::comm_monoid_add) \<Rightarrow> string \<Rightarrow> usage_store \<Rightarrow> 'a" where
  "key_sum f k rows = sum_list (map (f \<circ> snd) (key_rows k rows))"

lemma key_sum_update:
  assumes "keys_distinct rows" and "f r' = (case map_of rows (k, d) of None \<Rightarrow> 0 | Some r \<Rightarrow> f r) + x"
  shows "key_sum f k (AList.update (k, d) r' rows) = key_sum f k rows + x"
  using assms
proof (induction rows)
  case (Cons e rows)
  have "map_of rows (k, d) = None" if "fst e = (k, d)"
    using Cons.prems(1) that by (auto simp: map_of_eq_None_iff)
  moreover have "AList.update (k, d) r' rows = rows @ [((k, d), r')]" if "map_of rows (k, d) = None" for rows
    using that by (induction rows) (auto split: if_splits)
  ultimately show ?case using Cons
    by (cases e) (auto simp: key_sum_def key_rows_def ac_simps)
qed (simp add: key_sum_def key_rows_def)

lemma key_sum_other:
  "k' \<noteq> k \<Longrightarrow> key_sum f k (AList.update (k', d) r rows) = key_sum f k rows"
  by (induction rows) (auto simp: key_sum_def key_rows_def)

lemma key_sum_row:
  "map_of rows (k, d) = Some r \<Longrightarrow> f r \<le> key_sum f k rows" for f :: "raw_row \<Rightarrow> nat"
  by (induction rows) (auto simp: key_sum_def key_rows_def split: if_splits intro: trans_le_add2)

section \<open>The calls that recorded\<close>

record usage_event =
  ue_clock :: "nat option"
  ue_key :: string
  ue_input :: u32
  ue_output :: u32
  ue_grains :: u256

definition record_event :: "usage_event \<Rightarrow> usage_store \<Rightarrow> usage_store" where
  "record_event e rows =
     snd (record_usage (ue_clock e) (ue_key e) (ue_input e) (ue_output e) (ue_grains e) rows)"

definition row_at :: "usage_store \<Rightarrow> string \<times> string \<Rightarrow> raw_row" where
  "row_at rows k = (case map_of rows k of None \<Rightarrow> empty_raw_row | Some r \<Rightarrow> r)"

definition key_dates :: "string \<Rightarrow> usage_store \<Rightarrow> string set" where
  "key_dates k rows = {d. map_of rows (k, d) \<noteq> None}"

definition bumped_row :: "usage_event \<Rightarrow> raw_row \<Rightarrow> raw_row" where
  "bumped_row e row =
     row\<lparr> rr_requests := rr_requests row + 1,
          rr_input_tokens := rr_input_tokens row + ucast (ue_input e),
          rr_output_tokens := rr_output_tokens row + ucast (ue_output e),
          rr_spent := (case checked_add (rr_spent row) (ue_grains e) of None \<Rightarrow> rr_spent row | Some n \<Rightarrow> n) \<rparr>"

lemma record_event_row:
  "record_event e rows =
     AList.update (ue_key e, today_utc (ue_clock e))
       (bumped_row e (row_at rows (ue_key e, today_utc (ue_clock e)))) rows"
  unfolding record_event_def record_usage_def row_at_def [symmetric] Let_def bumped_row_def
  by (simp split: option.split)

lemma record_event_other:
  assumes "ue_key e \<noteq> k"
  shows "key_sum f k (record_event e rows) = key_sum f k rows"
    and "key_dates k (record_event e rows) = key_dates k rows"
  using assms by (simp_all add: record_event_row key_sum_other key_dates_def alist_simps)

lemma record_event_distinct: "keys_distinct rows \<Longrightarrow> keys_distinct (record_event e rows)"
  by (simp add: record_event_row keys_distinct_update)

lemma record_event_dates:
  "key_dates (ue_key e) (record_event e rows) = insert (today_utc (ue_clock e)) (key_dates (ue_key e) rows)"
  by (auto simp: record_event_row key_dates_def alist_simps)

lemma record_event_sum:
  assumes "keys_distinct rows" and "f empty_raw_row = 0"
    and "f (bumped_row e (row_at rows (ue_key e, today_utc (ue_clock e))))
      = f (row_at rows (ue_key e, today_utc (ue_clock e))) + x"
  shows "key_sum f (ue_key e) (record_event e rows) = key_sum f (ue_key e) rows + x"
  unfolding record_event_row
  by (rule key_sum_update [OF assms(1)]) (use assms(2,3) in \<open>simp add: row_at_def split: option.splits\<close>)

lemma record_event_counters:
  assumes "keys_distinct rows"
  shows "key_sum rr_requests (ue_key e) (record_event e rows) = key_sum rr_requests (ue_key e) rows + 1"
    and "key_sum rr_input_tokens (ue_key e) (record_event e rows)
      = key_sum rr_input_tokens (ue_key e) rows + ucast (ue_input e)"
    and "key_sum rr_output_tokens (ue_key e) (record_event e rows)
      = key_sum rr_output_tokens (ue_key e) rows + ucast (ue_output e)"
  by (rule record_event_sum [OF assms]; simp add: empty_raw_row_def bumped_row_def)+

lemma record_event_grains:
  assumes "keys_distinct rows"
    and "key_sum (\<lambda>r. unat (rr_spent r)) (ue_key e) rows + unat (ue_grains e) < 2 ^ 256"
  shows "key_sum (\<lambda>r. unat (rr_spent r)) (ue_key e) (record_event e rows)
    = key_sum (\<lambda>r. unat (rr_spent r)) (ue_key e) rows + unat (ue_grains e)"
proof (rule record_event_sum [OF assms(1)])
  let ?row = "row_at rows (ue_key e, today_utc (ue_clock e))"
  have "unat (rr_spent ?row) \<le> key_sum (\<lambda>r. unat (rr_spent r)) (ue_key e) rows"
    using key_sum_row [of rows "ue_key e" "today_utc (ue_clock e)" _ "\<lambda>r. unat (rr_spent r)"]
    by (auto simp: row_at_def empty_raw_row_def split: option.split)
  then have "unat (rr_spent ?row) + unat (ue_grains e) < 2 ^ 256" using assms(2) by linarith
  then show "(\<lambda>r. unat (rr_spent r)) (bumped_row e ?row) = (\<lambda>r. unat (rr_spent r)) ?row + unat (ue_grains e)"
    by (simp add: bumped_row_def checked_add_def unat_word_ariths)
qed (simp add: empty_raw_row_def)

text \<open>What the store holds for a key after a sequence of calls, in any order and
  with calls for other keys between them.\<close>

lemma recorded_distinct: "keys_distinct (fold record_event evs usage_new_store)"
  by (induction evs rule: rev_induct) (simp_all add: record_event_distinct, simp add: usage_new_store_def)

lemma recorded_rows:
  fixes evs :: "usage_event list" and k :: string
  defines "mine \<equiv> filter (\<lambda>e. ue_key e = k) evs" and "rows \<equiv> fold record_event evs usage_new_store"
  shows "key_dates k rows = (\<lambda>e. today_utc (ue_clock e)) ` set mine"
    and "key_sum rr_requests k rows = of_nat (length mine)"
    and "key_sum rr_input_tokens k rows = sum_list (map (\<lambda>e. ucast (ue_input e)) mine)"
    and "key_sum rr_output_tokens k rows = sum_list (map (\<lambda>e. ucast (ue_output e)) mine)"
    and "sum_list (map (\<lambda>e. unat (ue_grains e)) mine) < 2 ^ 256 \<Longrightarrow>
      key_sum (\<lambda>r. unat (rr_spent r)) k rows = sum_list (map (\<lambda>e. unat (ue_grains e)) mine)"
proof -
  define Rows where "Rows evs = fold record_event evs usage_new_store" for evs
  have Rows_snoc: "Rows (evs @ [e]) = record_event e (Rows evs)" for evs e by (simp add: Rows_def)
  have d: "keys_distinct (Rows evs)" for evs
    by (simp add: Rows_def recorded_distinct)
  have empty: "key_sum f k (Rows []) = 0" "key_dates k (Rows []) = {}" for f :: "raw_row \<Rightarrow> 'b::comm_monoid_add"
    by (simp_all add: Rows_def usage_new_store_def key_sum_def key_rows_def key_dates_def)
  have "key_dates k (Rows evs) = (\<lambda>e. today_utc (ue_clock e)) ` set (filter (\<lambda>e. ue_key e = k) evs)
    \<and> key_sum rr_requests k (Rows evs) = of_nat (length (filter (\<lambda>e. ue_key e = k) evs))
    \<and> key_sum rr_input_tokens k (Rows evs) = sum_list (map (\<lambda>e. ucast (ue_input e)) (filter (\<lambda>e. ue_key e = k) evs))
    \<and> key_sum rr_output_tokens k (Rows evs) = sum_list (map (\<lambda>e. ucast (ue_output e)) (filter (\<lambda>e. ue_key e = k) evs))
    \<and> (sum_list (map (\<lambda>e. unat (ue_grains e)) (filter (\<lambda>e. ue_key e = k) evs)) < 2 ^ 256 \<longrightarrow>
        key_sum (\<lambda>r. unat (rr_spent r)) k (Rows evs)
          = sum_list (map (\<lambda>e. unat (ue_grains e)) (filter (\<lambda>e. ue_key e = k) evs)))"
  proof (induction evs rule: rev_induct)
    case (snoc e evs)
    show ?case
    proof (cases "ue_key e = k")
      case True
      note step = record_event_dates [of e "Rows evs", unfolded True]
        record_event_counters [OF d, of e evs, unfolded True] record_event_grains [OF d, of e evs, unfolded True]
      show ?thesis using snoc.IH True step by (simp add: Rows_snoc ac_simps)
    next
      case False
      with snoc.IH show ?thesis by (simp add: Rows_snoc record_event_other)
    qed
  qed (simp add: empty)
  then show "key_dates k rows = (\<lambda>e. today_utc (ue_clock e)) ` set mine"
    and "key_sum rr_requests k rows = of_nat (length mine)"
    and "key_sum rr_input_tokens k rows = sum_list (map (\<lambda>e. ucast (ue_input e)) mine)"
    and "key_sum rr_output_tokens k rows = sum_list (map (\<lambda>e. ucast (ue_output e)) mine)"
    and "sum_list (map (\<lambda>e. unat (ue_grains e)) mine) < 2 ^ 256 \<Longrightarrow>
      key_sum (\<lambda>r. unat (rr_spent r)) k rows = sum_list (map (\<lambda>e. unat (ue_grains e)) mine)"
    by (simp_all add: mine_def rows_def Rows_def)
qed

section \<open>The report\<close>

lemma usage_row_of_fields [simp]:
  "ur_date (usage_row_of X e) = snd (fst e)"
  "ur_requests (usage_row_of X e) = rr_requests (snd e)"
  "ur_input_tokens (usage_row_of X e) = rr_input_tokens (snd e)"
  "ur_output_tokens (usage_row_of X e) = rr_output_tokens (snd e)"
  "ur_spent_grains (usage_row_of X e) = u256_to_dec X (rr_spent (snd e))"
  by (simp_all add: usage_row_of_def split: prod.split)

lemma sum_grains_total:
  defines "grains \<equiv> \<lambda>X r. unat (case u256_of_dec X (ur_spent_grains r) of Inl e \<Rightarrow> 0 | Inr n \<Rightarrow> n)"
  assumes "unat acc + sum_list (map (grains X) rs) < 2 ^ 256"
  shows "sum_grains X acc rs = Some (of_nat (unat acc + sum_list (map (grains X) rs)))"
  using assms(2)
proof (induction rs arbitrary: acc)
  case (Cons r rs)
  let ?g = "case u256_of_dec X (ur_spent_grains r) of Inl e \<Rightarrow> 0 | Inr n \<Rightarrow> n"
  have "unat acc + unat ?g < 2 ^ 256" using Cons.prems by (simp add: grains_def)
  then have add: "checked_add acc ?g = Some (acc + ?g)" "unat (acc + ?g) = unat acc + unat ?g"
    by (simp_all add: checked_add_def unat_word_ariths)
  have "sum_grains X (acc + ?g) rs = Some (of_nat (unat (acc + ?g) + sum_list (map (grains X) rs)))"
    using Cons.prems add(2) by (intro Cons.IH) (simp add: grains_def)
  with add show ?case by (simp add: grains_def add.assoc)
qed simp

definition usage_after :: "usage_event list \<Rightarrow> usage_store" where
  "usage_after evs = fold record_event evs usage_new_store"

definition key_events :: "string \<Rightarrow> usage_event list \<Rightarrow> usage_event list" where
  "key_events k evs = filter (\<lambda>e. ue_key e = k) evs"

lemma rows_for_recorded:
  "rows_for X k (usage_after evs) = newest_first (map (usage_row_of X) (key_rows k (usage_after evs)))"
  by (simp add: rows_for_def key_rows_def)

lemma rows_for_dates: "ur_date ` set (rows_for X k (usage_after evs)) = key_dates k (usage_after evs)"
proof -
  have "set (rows_for X k (usage_after evs)) = usage_row_of X ` set (key_rows k (usage_after evs))"
    by (metis rows_for_recorded list.set_map mset_newest_first set_mset_mset)
  then show ?thesis using recorded_distinct [of evs, folded usage_after_def]
    by (force simp: key_dates_def key_rows_def map_of_eq_None_iff image_iff)
qed

lemma rows_for_sorted: "sorted_wrt (\<lambda>a b. ur_date b < ur_date a) (rows_for X k (usage_after evs))"
proof -
  let ?rows = "key_rows k (usage_after evs)"
  have "keys_distinct ?rows"
    using recorded_distinct [of evs, folded usage_after_def] unfolding key_rows_def
    by (rule keys_distinct_filter)
  moreover have "map fst ?rows = map (Pair k) (map ur_date (map (usage_row_of X) ?rows))"
    by (auto simp: key_rows_def)
  ultimately have "distinct (map ur_date (map (usage_row_of X) ?rows))" by (metis distinct_map)
  then show ?thesis unfolding rows_for_recorded by (rule newest_first_sorted)
qed

text \<open>C15. The caller of a live key is shown exactly what was recorded for that
  key: after any sequence of recorded completions, of this key and of others, the
  totals are the numbers and the sums of its own completions, the daily rows are
  one for each of its days, newest first, and the grains are exact. The counters
  are sums at 64 bits; the grains must not exceed 256 bits, and no other key can
  disturb any of it.\<close>

theorem usage_report_is_what_was_recorded:
  assumes "text_codecs_ok X" and "extract_bearer headers = Some k"
    and "keys_get P master k keys = Some r" "\<not> ak_revoked r"
    and total: "sum_list (map (\<lambda>e. unat (ue_grains e)) (key_events k evs)) < 2 ^ 256"
  shows "\<exists>rep. usage_handler X display P master headers keys (usage_after evs)
        = Some (json_response X 200 content_json (usage_response_json rep))
    \<and> up_total_requests rep = of_nat (length (key_events k evs))
    \<and> up_total_input_tokens rep = sum_list (map (\<lambda>e. ucast (ue_input e)) (key_events k evs))
    \<and> up_total_output_tokens rep = sum_list (map (\<lambda>e. ucast (ue_output e)) (key_events k evs))
    \<and> up_spent_grains rep = u256_to_dec X (of_nat (sum_list (map (\<lambda>e. unat (ue_grains e)) (key_events k evs))))
    \<and> ur_date ` set (up_daily rep) = (\<lambda>e. today_utc (ue_clock e)) ` set (key_events k evs)
    \<and> sorted_wrt (\<lambda>a b. ur_date b < ur_date a) (up_daily rep)"
proof -
  let ?daily = "rows_for X k (usage_after evs)"
  note recorded = recorded_rows [where evs = evs and k = k, folded usage_after_def key_events_def]
  have sums: "sum_list (map g ?daily) = key_sum f k (usage_after evs)"
    if "\<And>e. g (usage_row_of X e) = f (snd e)" for f :: "raw_row \<Rightarrow> 'b::comm_monoid_add" and g
    by (simp add: rows_for_recorded sum_list_newest_first key_sum_def that o_def)
  have grains: "sum_list (map (\<lambda>r. unat (case u256_of_dec X (ur_spent_grains r) of Inl e \<Rightarrow> 0 | Inr n \<Rightarrow> n)) ?daily)
    = key_sum (\<lambda>r. unat (rr_spent r)) k (usage_after evs)"
    by (rule sums) (use assms(1) in \<open>simp add: text_codecs_ok_def\<close>)
  have "sum_grains X 0 ?daily = Some (of_nat (sum_list (map (\<lambda>e. unat (ue_grains e)) (key_events k evs))))"
    using sum_grains_total [of 0 X ?daily, unfolded grains] recorded(5) [OF total] total by simp
  then obtain rep where rep: "usage_report X display ?daily = Some rep" "up_daily rep = ?daily"
    and spent: "up_spent_grains rep
      = u256_to_dec X (of_nat (sum_list (map (\<lambda>e. unat (ue_grains e)) (key_events k evs))))"
    and counts: "up_total_requests rep = sum_list (map ur_requests ?daily)"
      "up_total_input_tokens rep = sum_list (map ur_input_tokens ?daily)"
      "up_total_output_tokens rep = sum_list (map ur_output_tokens ?daily)"
    by (simp add: usage_report_def)
  have "usage_handler X display P master headers keys (usage_after evs)
    = Some (json_response X 200 content_json (usage_response_json rep))"
    using assms(2-4) rep(1) by (simp add: usage_handler_def)
  then show ?thesis
    using rows_for_sorted [of X k evs] rows_for_dates [of X k evs] recorded(1-4) sums [of ur_requests rr_requests]
      sums [of ur_input_tokens rr_input_tokens] sums [of ur_output_tokens rr_output_tokens]
      spent rep(2) counts by (intro exI [of _ rep]) simp
qed

text \<open>Two completions of one key on one day, with one of another key between them.\<close>

definition sample_usage :: "usage_event list" where
  "sample_usage =
     [\<lparr> ue_clock = Some 86400, ue_key = sample_key, ue_input = 7, ue_output = 13, ue_grains = 30 \<rparr>,
      \<lparr> ue_clock = Some 86401, ue_key = ''cgk_b'', ue_input = 1, ue_output = 1, ue_grains = 1 \<rparr>,
      \<lparr> ue_clock = Some 86402, ue_key = sample_key, ue_input = 3, ue_output = 2, ue_grains = 12 \<rparr>]"

theorem usage_report_is_what_was_recorded_witness:
  "\<exists>rep. usage_handler sample_lib (\<lambda>g. g @ '' grains'') ref_platform ref_master (rq_headers sample_key_request)
        sample_memory_store (usage_after sample_usage)
        = Some (json_response sample_lib 200 content_json (usage_response_json rep))
    \<and> up_total_requests rep = 2 \<and> up_total_input_tokens rep = 10 \<and> up_total_output_tokens rep = 15
    \<and> up_spent_grains rep = u256_to_dec sample_lib 42"
proof -
  have mine: "key_events sample_key sample_usage =
     [\<lparr> ue_clock = Some 86400, ue_key = sample_key, ue_input = 7, ue_output = 13, ue_grains = 30 \<rparr>,
      \<lparr> ue_clock = Some 86402, ue_key = sample_key, ue_input = 3, ue_output = 2, ue_grains = 12 \<rparr>]"
    by (simp add: key_events_def sample_usage_def sample_key_def)
  have bearer: "extract_bearer (rq_headers sample_key_request) = Some sample_key"
    by (simp add: extract_bearer_def sample_key_request_def header_to_str_def strip_prefix_def
        sample_key_trim sample_key_def of_char_def)
  obtain r where "keys_get ref_platform ref_master sample_key sample_memory_store = Some r" "\<not> ak_revoked r"
    by (simp add: keys_get_def sample_memory_store_def)
  from usage_report_is_what_was_recorded [OF sample_codecs_ok bearer this, of sample_usage "\<lambda>g. g @ '' grains''"]
  show ?thesis by (simp add: mine) blast
qed

end
