(* ===== verification/Chain_Rpc.thy ===== *)
theory Chain_Rpc
  imports X402_Layer Rust_Text "HOL-Library.Monad_Syntax"
begin

text \<open>
  JSON-RPC over HTTP: the default chain client of the payment layer,
  \<open>crates/x402-axum/src/chain.rs\<close>, from the request envelope to the parsed
  receipt and the polling loop that waits for it. The HTTP client is a parameter;
  the texts of the standard library's errors are written out.
\<close>

section \<open>Text\<close>

lemma prefix_shorter: "p \<noteq> [] \<Longrightarrow> take (length p) s = p \<Longrightarrow> length s - length p < length s"
  by (cases s) auto

text \<open>\<open>str::trim_start_matches\<close>: every copy of the prefix is dropped.\<close>

function trim_start_matches :: "string \<Rightarrow> string \<Rightarrow> string" where
  "trim_start_matches p s =
     (if p \<noteq> [] \<and> take (length p) s = p then trim_start_matches p (drop (length p) s) else s)"
  by pat_completeness auto

termination by (relation "measure (length \<circ> snd)") (auto simp: prefix_shorter)

declare trim_start_matches.simps [simp del]

definition hex_digit_of :: "char \<Rightarrow> nat option" where
  "hex_digit_of c =
     (let n = char_nat c
      in if 48 \<le> n \<and> n \<le> 57 then Some (n - 48)
         else if 97 \<le> n \<and> n \<le> 102 then Some (n - 87)
         else if 65 \<le> n \<and> n \<le> 70 then Some (n - 55) else None)"

fun hex_digits_val :: "nat \<Rightarrow> string \<Rightarrow> nat option" where
  "hex_digits_val acc [] = Some acc"
| "hex_digits_val acc (c # s) =
     (case hex_digit_of c of None \<Rightarrow> None | Some d \<Rightarrow> hex_digits_val (acc * 16 + d) s)"

text \<open>\<open>u64::from_str_radix(s, 16)\<close>. Of a text that is both too long and malformed,
  the error is that of the first offending digit.\<close>

fun hex_error :: "nat \<Rightarrow> string \<Rightarrow> string" where
  "hex_error acc [] = ''number too large to fit in target type''"
| "hex_error acc (c # s) =
     (case hex_digit_of c of
        None \<Rightarrow> ''invalid digit found in string''
      | Some d \<Rightarrow>
          if 2 ^ 64 \<le> acc * 16 + d then ''number too large to fit in target type''
          else hex_error (acc * 16 + d) s)"

definition u64_from_hex :: "string \<Rightarrow> string + u64" where
  "u64_from_hex s =
     (if s = [] then Inl ''cannot parse integer from empty string''
      else
        let ds = (if s \<noteq> [CHR ''+''] \<and> hd s = CHR ''+'' then tl s else s)
        in case hex_digits_val 0 ds of
             Some n \<Rightarrow> if n < 2 ^ 64 then Inr (of_nat n) else Inl (hex_error 0 ds)
           | None \<Rightarrow> Inl (hex_error 0 ds))"

definition prefixed_hex :: "x402_lib \<Rightarrow> bytes \<Rightarrow> string" where
  "prefixed_hex X b = ''0x'' @ hex_encode X b"

definition unprefixed :: "string \<Rightarrow> string" where
  "unprefixed s = trim_start_matches ''0x'' s"

section \<open>The envelope\<close>

text \<open>One HTTP exchange: the transport's error, or the error of reading the answer
  as JSON, or the value. The client is \<open>reqwest::Client::new()\<close>, which sets no
  timeout: on a node that accepts a request and never answers it, the exchange
  does not complete. Where \<open>rt_completes\<close> is false there is no exchange, and
  what \<open>rt_post\<close> says there is not used.\<close>

record 'w rpc_transport =
  rt_completes :: "string \<Rightarrow> json \<Rightarrow> 'w \<Rightarrow> bool"
  rt_post :: "string \<Rightarrow> json \<Rightarrow> 'w \<Rightarrow> (string + string + json) \<times> 'w"
  rt_now_ms :: "'w \<Rightarrow> nat \<times> 'w"
  rt_sleep_ms :: "nat \<Rightarrow> 'w \<Rightarrow> 'w"

definition rpc_body :: "string \<Rightarrow> json \<Rightarrow> json" where
  "rpc_body meth params =
     JObj [(''jsonrpc'', JStr ''2.0''), (''method'', JStr meth), (''params'', params), (''id'', JUint 1)]"

definition rpc_exchange ::
  "'w rpc_transport \<Rightarrow> string \<Rightarrow> json \<Rightarrow> 'w \<Rightarrow> ((string + string + json) \<times> 'w) option" where
  "rpc_exchange R url body w =
     (if rt_completes R url body w then Some (rt_post R url body w) else None)"

text \<open>A call that does not return is \<open>None\<close>.\<close>

definition rpc_call ::
  "x402_lib \<Rightarrow> 'w rpc_transport \<Rightarrow> string \<Rightarrow> string \<Rightarrow> json \<Rightarrow> 'w \<Rightarrow> ((x402_error + json) \<times> 'w) option"
where
  "rpc_call X R url meth params w =
     (case rpc_exchange R url (rpc_body meth params) w of
        None \<Rightarrow> None
      | Some (Inl e, w1) \<Rightarrow> Some (Inl (RpcTransport e), w1)
      | Some (Inr (Inl e), w1) \<Rightarrow> Some (Inl (RpcTransport (''decode: '' @ e)), w1)
      | Some (Inr (Inr v), w1) \<Rightarrow>
          (case json_get ''error'' v of
             Some err \<Rightarrow> Some (Inl (RpcError (json_text X err)), w1)
           | None \<Rightarrow> Some (Inr (case json_get ''result'' v of None \<Rightarrow> JNull | Some r \<Rightarrow> r), w1)))"

section \<open>Answers\<close>

definition transfer_auth_verify_precompile :: h160 where
  "transfer_auth_verify_precompile = 0x0201"

definition json_hex :: "x402_lib \<Rightarrow> string \<Rightarrow> string \<Rightarrow> json \<Rightarrow> x402_error + bytes" where
  "json_hex X non_string prefix v =
     (case json_str v of
        None \<Rightarrow> Inl (RpcError non_string)
      | Some s \<Rightarrow>
          (case hex_decode X (unprefixed s) of
             Inl e \<Rightarrow> Inl (RpcError (prefix @ e))
           | Inr b \<Rightarrow> Inr b))"

definition verified_signer :: "bytes \<Rightarrow> x402_error + h160 option" where
  "verified_signer b =
     (if length b \<noteq> 32
      then Inl (RpcError (''precompile output should be 32 bytes, got '' @ dec_string (length b)))
      else if b ! 0 \<noteq> 1 then Inr None
      else Inr (Some (word_from_slice (drop 12 b))))"

definition http_verify_offline ::
  "x402_lib \<Rightarrow> 'w rpc_transport \<Rightarrow> string \<Rightarrow> bytes \<Rightarrow> 'w
    \<Rightarrow> ((x402_error + h160 option) \<times> 'w) option" where
  "http_verify_offline X R url input w =
     (case rpc_call X R url ''eth_call''
             (JArr [JObj [(''to'', JStr (prefixed_hex X (h160_bytes transfer_auth_verify_precompile))),
                          (''data'', JStr (prefixed_hex X input))],
                    JStr ''latest'']) w of
        None \<Rightarrow> None
      | Some (Inl e, w1) \<Rightarrow> Some (Inl e, w1)
      | Some (Inr v, w1) \<Rightarrow>
          (case json_hex X ''eth_call returned non-string'' ''hex decode: '' v of
             Inl e \<Rightarrow> Some (Inl e, w1)
           | Inr b \<Rightarrow> Some (verified_signer b, w1)))"

definition http_get_nonce ::
  "x402_lib \<Rightarrow> 'w rpc_transport \<Rightarrow> string \<Rightarrow> h160 \<Rightarrow> 'w \<Rightarrow> ((x402_error + u64) \<times> 'w) option" where
  "http_get_nonce X R url a w =
     (case rpc_call X R url ''eth_getTransactionCount''
             (JArr [JStr (prefixed_hex X (h160_bytes a)), JStr ''pending'']) w of
        None \<Rightarrow> None
      | Some (Inl e, w1) \<Rightarrow> Some (Inl e, w1)
      | Some (Inr v, w1) \<Rightarrow>
          (case json_str v of
             None \<Rightarrow> Some (Inl (RpcError ''non-string nonce''), w1)
           | Some s \<Rightarrow>
               (case u64_from_hex (unprefixed s) of
                  Inl e \<Rightarrow> Some (Inl (RpcError (''bad nonce hex: '' @ e)), w1)
                | Inr n \<Rightarrow> Some (Inr n, w1))))"

definition http_send_raw_tx ::
  "x402_lib \<Rightarrow> 'w rpc_transport \<Rightarrow> string \<Rightarrow> bytes \<Rightarrow> 'w \<Rightarrow> ((x402_error + h256) \<times> 'w) option" where
  "http_send_raw_tx X R url raw w =
     (case rpc_call X R url ''eth_sendRawTransaction'' (JArr [JStr (prefixed_hex X raw)]) w of
        None \<Rightarrow> None
      | Some (Inl e, w1) \<Rightarrow> Some (Inl e, w1)
      | Some (Inr v, w1) \<Rightarrow>
          (case json_hex X ''non-string tx hash'' ''hex: '' v of
             Inl e \<Rightarrow> Some (Inl e, w1)
           | Inr b \<Rightarrow>
               Some (if length b \<noteq> 32
                then Inl (RpcError (''tx hash should be 32 bytes, got '' @ dec_string (length b)))
                else Inr (word_from_slice b), w1)))"

section \<open>Receipts\<close>

definition field_str :: "string \<Rightarrow> json \<Rightarrow> string option" where
  "field_str k v = Option.bind (json_get k v) json_str"

definition field_arr :: "string \<Rightarrow> json \<Rightarrow> json list" where
  "field_arr k v = (case Option.bind (json_get k v) json_arr of None \<Rightarrow> [] | Some vs \<Rightarrow> vs)"

text \<open>The loops of the parser stop at the first element that fails.\<close>

fun parse_each :: "('a \<Rightarrow> 'e + 'b) \<Rightarrow> 'a list \<Rightarrow> 'e + 'b list" where
  "parse_each f [] = Inr []"
| "parse_each f (x # xs) =
     (case f x of
        Inl e \<Rightarrow> Inl e
      | Inr y \<Rightarrow> (case parse_each f xs of Inl e \<Rightarrow> Inl e | Inr ys \<Rightarrow> Inr (y # ys)))"

definition parse_topic :: "x402_lib \<Rightarrow> json \<Rightarrow> x402_error + h256" where
  "parse_topic X t =
     (case json_hex X ''topic not string'' ''topic hex: '' t of
        Inl e \<Rightarrow> Inl e
      | Inr b \<Rightarrow> if length b \<noteq> 32 then Inl (RpcError ''topic not 32 bytes'') else Inr (word_from_slice b))"

definition parse_log :: "x402_lib \<Rightarrow> json \<Rightarrow> x402_error + raw_log" where
  "parse_log X v =
     (case field_str ''address'' v of
        None \<Rightarrow> Inl (RpcError ''log missing address'')
      | Some a \<Rightarrow>
          (case hex_decode X (unprefixed a) of
             Inl e \<Rightarrow> Inl (RpcError (''log addr hex: '' @ e))
           | Inr ab \<Rightarrow>
               if length ab \<noteq> 20 then Inl (RpcError ''log address not 20 bytes'')
               else
                 (case parse_each (parse_topic X) (field_arr ''topics'' v) of
                    Inl e \<Rightarrow> Inl e
                  | Inr topics \<Rightarrow>
                      (case hex_decode X
                              (unprefixed (case field_str ''data'' v of None \<Rightarrow> ''0x'' | Some d \<Rightarrow> d)) of
                         Inl e \<Rightarrow> Inl (RpcError (''data hex: '' @ e))
                       | Inr d \<Rightarrow>
                           Inr \<lparr> log_address = word_from_slice ab, log_topics = topics,
                                 log_data = d \<rparr>))))"

definition parse_receipt :: "x402_lib \<Rightarrow> json \<Rightarrow> x402_error + tx_receipt" where
  "parse_receipt X v =
     (case field_str ''status'' v of
        None \<Rightarrow> Inl (RpcError ''receipt missing status'')
      | Some status \<Rightarrow>
          (case field_str ''blockNumber'' v of
             None \<Rightarrow> Inl (RpcError ''receipt missing blockNumber'')
           | Some bn \<Rightarrow>
               (case u64_from_hex (unprefixed bn) of
                  Inl e \<Rightarrow> Inl (RpcError (''bad blockNumber: '' @ e))
                | Inr block \<Rightarrow>
                    (case parse_each (parse_log X) (field_arr ''logs'' v) of
                       Inl e \<Rightarrow> Inl e
                     | Inr logs \<Rightarrow>
                         Inr \<lparr> rc_status = (status = ''0x1'' \<or> status = ''0x01''),
                               rc_block_number = block, rc_logs = logs \<rparr>))))"

text \<open>The polling loop: nothing in it bounds the number of rounds but the clock,
  and nothing bounds a round, whose request is awaited without a timeout.\<close>

partial_function (option) poll_receipt ::
  "x402_lib \<Rightarrow> 'w rpc_transport \<Rightarrow> string \<Rightarrow> h256 \<Rightarrow> nat \<Rightarrow> 'w \<Rightarrow> ((x402_error + tx_receipt) \<times> 'w) option"
where
  "poll_receipt X R url tx_hash deadline w =
     (case rpc_call X R url ''eth_getTransactionReceipt''
             (JArr [JStr (prefixed_hex X (h256_bytes tx_hash))]) w of
        None \<Rightarrow> None
      | Some (Inl e, w1) \<Rightarrow> Some (Inl e, w1)
      | Some (Inr v, w1) \<Rightarrow>
          if v \<noteq> JNull then Some (parse_receipt X v, w1)
          else
            (case rt_now_ms R w1 of (now, w2) \<Rightarrow>
               if deadline \<le> now then Some (Inl SettlePendingTimeout, w2)
               else poll_receipt X R url tx_hash deadline (rt_sleep_ms R 500 w2)))"

definition http_wait_for_receipt ::
  "x402_lib \<Rightarrow> 'w rpc_transport \<Rightarrow> string \<Rightarrow> h256 \<Rightarrow> u64 \<Rightarrow> 'w \<Rightarrow> ((x402_error + tx_receipt) \<times> 'w) option"
where
  "http_wait_for_receipt X R url tx_hash timeout_secs w =
     (case rt_now_ms R w of (now, w1) \<Rightarrow>
        poll_receipt X R url tx_hash (now + unat timeout_secs * 1000) w1)"

section \<open>How long a receipt is waited for\<close>

text \<open>A clock that does not run backwards and that a sleep advances by at least its
  length, and a count of the requests that completed.\<close>

definition clock_ok :: "'w rpc_transport \<Rightarrow> ('w \<Rightarrow> nat) \<Rightarrow> ('w \<Rightarrow> nat) \<Rightarrow> bool" where
  "clock_ok R clk sent \<longleftrightarrow>
     (\<forall>url body w. rt_completes R url body w \<longrightarrow>
        clk w \<le> clk (snd (rt_post R url body w)) \<and> sent (snd (rt_post R url body w)) = sent w + 1) \<and>
     (\<forall>w. fst (rt_now_ms R w) = clk w \<and> clk w \<le> clk (snd (rt_now_ms R w)) \<and> sent (snd (rt_now_ms R w)) = sent w) \<and>
     (\<forall>n w. clk w + n \<le> clk (rt_sleep_ms R n w) \<and> sent (rt_sleep_ms R n w) = sent w)"

lemma rpc_call_sent:
  assumes ok: "clock_ok R clk sent" and c: "rpc_call X R url meth params w = Some (x, w')"
  shows "rt_completes R url (rpc_body meth params) w" "sent w' = sent w + 1" "clk w \<le> clk w'"
    "x \<noteq> Inl SettlePendingTimeout"
proof -
  show completes: "rt_completes R url (rpc_body meth params) w"
    using c by (auto simp: rpc_call_def rpc_exchange_def split: if_splits)
  obtain y w1 where y: "rt_post R url (rpc_body meth params) w = (y, w1)" by (metis surj_pair)
  with completes have "sent w1 = sent w + 1" "clk w \<le> clk w1"
    using ok unfolding clock_ok_def by (metis snd_conv)+
  moreover have "w' = w1" "x \<noteq> Inl SettlePendingTimeout"
    using c y completes by (auto simp: rpc_call_def rpc_exchange_def split: sum.splits option.splits)
  ultimately show "sent w' = sent w + 1" "clk w \<le> clk w'" "x \<noteq> Inl SettlePendingTimeout" by simp_all
qed

lemma rpc_call_None: "rpc_call X R url meth params w = None \<longleftrightarrow> \<not> rt_completes R url (rpc_body meth params) w"
  by (auto simp: rpc_call_def rpc_exchange_def split: sum.splits option.splits prod.splits)

lemma parse_each_Inl: "parse_each f xs = Inl e \<Longrightarrow> \<exists>x \<in> set xs. f x = Inl e"
  by (induction xs) (auto split: sum.splits)

lemma parse_receipt_error: "parse_receipt X v \<noteq> Inl SettlePendingTimeout"
proof
  assume "parse_receipt X v = Inl SettlePendingTimeout"
  then have "parse_each (parse_log X) (field_arr ''logs'' v) = Inl SettlePendingTimeout"
    by (auto simp: parse_receipt_def split: option.splits sum.splits)
  then obtain l where "parse_log X l = Inl SettlePendingTimeout" by (blast dest: parse_each_Inl)
  then have "parse_each (parse_topic X) (field_arr ''topics'' l) = Inl SettlePendingTimeout"
    by (auto simp: parse_log_def split: option.splits sum.splits if_splits)
  then obtain t where "parse_topic X t = Inl SettlePendingTimeout" by (blast dest: parse_each_Inl)
  then show False
    by (auto simp: parse_topic_def json_hex_def split: option.splits sum.splits if_splits)
qed

definition receipt_request :: "x402_lib \<Rightarrow> h256 \<Rightarrow> json" where
  "receipt_request X tx_hash =
     rpc_body ''eth_getTransactionReceipt'' (JArr [JStr (prefixed_hex X (h256_bytes tx_hash))])"

lemma poll_stalls:
  assumes "\<not> rt_completes R url (receipt_request X h) w"
  shows "poll_receipt X R url h deadline w = None"
proof -
  have "rpc_call X R url ''eth_getTransactionReceipt'' (JArr [JStr (prefixed_hex X (h256_bytes h))]) w = None"
    using assms by (simp add: rpc_call_None receipt_request_def)
  then show ?thesis by (subst poll_receipt.simps) simp
qed

text \<open>One round of the loop: its request never completes, or it returns, or the
  deadline is still ahead and it goes round again half a second later.\<close>

lemma poll_round:
  assumes ok: "clock_ok R clk sent"
  obtains (stalls) "poll_receipt X R url h deadline w = None" "\<not> rt_completes R url (receipt_request X h) w"
  | (returns) x w' where "poll_receipt X R url h deadline w = Some (x, w')"
      "sent w' = sent w + 1" "x = Inl SettlePendingTimeout \<Longrightarrow> deadline \<le> clk w'"
  | (again) w' where "poll_receipt X R url h deadline w = poll_receipt X R url h deadline w'"
      "sent w' = sent w + 1" "clk w + 500 \<le> clk w'" "clk w < deadline"
proof (cases "rpc_call X R url ''eth_getTransactionReceipt'' (JArr [JStr (prefixed_hex X (h256_bytes h))]) w")
  case None
  then have "\<not> rt_completes R url (receipt_request X h) w"
    by (simp add: rpc_call_None receipt_request_def)
  then show thesis by (intro stalls poll_stalls)
next
  case (Some yw)
  obtain y w1 where yw: "yw = (y, w1)" by (cases yw)
  note sent1 = rpc_call_sent(2-4) [OF ok Some [unfolded yw]]
  note round = poll_receipt.simps [of X R url h deadline w, unfolded Some yw]
  obtain now w2 where t: "rt_now_ms R w1 = (now, w2)" by (metis surj_pair)
  have now: "now = clk w1" "clk w1 \<le> clk w2" "sent w2 = sent w1"
    using ok t unfolding clock_ok_def by (metis fst_conv snd_conv)+
  have nap: "clk w2 + 500 \<le> clk (rt_sleep_ms R 500 w2)" "sent (rt_sleep_ms R 500 w2) = sent w2"
    using ok unfolding clock_ok_def by blast+
  show thesis
  proof (cases y)
    case (Inl e)
    with round sent1 show ?thesis by (intro returns [of "Inl e" w1]) auto
  next
    case (Inr v)
    consider "v \<noteq> JNull" | "v = JNull" "deadline \<le> now" | "v = JNull" "now < deadline" by fastforce
    then show ?thesis
    proof cases
      case 1
      with Inr round sent1 parse_receipt_error [of X v] show ?thesis
        by (intro returns [of "parse_receipt X v" w1]) auto
    next
      case 2
      with Inr round sent1 now t show ?thesis
        by (intro returns [of "Inl SettlePendingTimeout" w2]) auto
    next
      case 3
      with Inr round sent1 now nap t show ?thesis by (intro again [of "rt_sleep_ms R 500 w2"]) auto
    qed
  qed
qed

text \<open>What the wait comes to: it returned after at most \<open>n\<close> requests and one more,
  or a request, with at most \<open>n\<close> completed before it, never completes.\<close>

definition wait_outcome ::
  "'w rpc_transport \<Rightarrow> ('w \<Rightarrow> nat) \<Rightarrow> ('w \<Rightarrow> nat) \<Rightarrow> string \<Rightarrow> json \<Rightarrow> nat \<Rightarrow> nat \<Rightarrow> 'w
    \<Rightarrow> ((x402_error + tx_receipt) \<times> 'w) option \<Rightarrow> bool" where
  "wait_outcome R clk sent url request deadline n w r \<longleftrightarrow>
     (case r of
        Some (x, w') \<Rightarrow> sent w' \<le> sent w + n + 1 \<and> (x = Inl SettlePendingTimeout \<longrightarrow> deadline \<le> clk w')
      | None \<Rightarrow> (\<exists>w1. \<not> rt_completes R url request w1 \<and> sent w1 \<le> sent w + n))"

lemma poll_ends:
  assumes ok: "clock_ok R clk sent" and n: "deadline \<le> clk w + 500 * n"
  shows "wait_outcome R clk sent url (receipt_request X h) deadline n w
    (poll_receipt X R url h deadline w)"
  using n
proof (induction n arbitrary: w)
  case 0
  show ?case
    by (rule poll_round [OF ok, of X url h deadline w]) (use 0 in \<open>auto simp: wait_outcome_def\<close>)
next
  case (Suc n)
  show ?case
  proof (rule poll_round [OF ok, of X url h deadline w])
    fix w' assume again: "poll_receipt X R url h deadline w = poll_receipt X R url h deadline w'"
      "sent w' = sent w + 1" "clk w + 500 \<le> clk w'"
    from Suc.IH [of w'] Suc.prems again(3) have
      "wait_outcome R clk sent url (receipt_request X h) deadline n w' (poll_receipt X R url h deadline w')"
      by simp
    with again show ?thesis by (auto simp: wait_outcome_def split: option.splits)
  qed (auto simp: wait_outcome_def)
qed

text \<open>C39. Waiting for a receipt, with a clock that a sleep advances, returns after at
  most two requests per second of the timeout and one more, and reports a timeout
  only once the timeout has passed - provided every request completes. The client
  sets no timeout of its own and the deadline is looked at between requests
  only, so a node that never answers one hangs the wait: that is the only way it
  does not return, and it happens within the first two requests per second of
  the timeout and one; a first request that is not answered hangs it at once,
  whatever the timeout.\<close>

theorem receipt_wait_bounded:
  assumes ok: "clock_ok R clk sent"
  shows "(case http_wait_for_receipt X R url tx_hash timeout_secs w of
        Some (x, w') \<Rightarrow> sent w' \<le> sent w + 2 * unat timeout_secs + 1
          \<and> (x = Inl SettlePendingTimeout \<longrightarrow> clk w + 1000 * unat timeout_secs \<le> clk w')
      | None \<Rightarrow> (\<exists>w1. \<not> rt_completes R url (receipt_request X tx_hash) w1
          \<and> sent w1 \<le> sent w + 2 * unat timeout_secs))
    \<and> ((\<forall>w1. rt_completes R url (receipt_request X tx_hash) w1)
        \<longrightarrow> (\<exists>x w'. http_wait_for_receipt X R url tx_hash timeout_secs w = Some (x, w')))
    \<and> (\<not> rt_completes R url (receipt_request X tx_hash) (snd (rt_now_ms R w))
        \<longrightarrow> http_wait_for_receipt X R url tx_hash timeout_secs w = None)"
proof -
  obtain now w1 where t: "rt_now_ms R w = (now, w1)" by (metis surj_pair)
  have now: "now = clk w" "clk w \<le> clk w1" "sent w1 = sent w"
    using ok t unfolding clock_ok_def by (metis fst_conv snd_conv)+
  let ?deadline = "now + unat timeout_secs * 1000"
  have wait: "http_wait_for_receipt X R url tx_hash timeout_secs w
      = poll_receipt X R url tx_hash ?deadline w1"
    by (simp add: http_wait_for_receipt_def t)
  have out: "wait_outcome R clk sent url (receipt_request X tx_hash) ?deadline (2 * unat timeout_secs) w1
      (poll_receipt X R url tx_hash ?deadline w1)"
    by (rule poll_ends [OF ok]) (use now in simp)
  with poll_stalls [of R url X tx_hash w1 ?deadline] now t show ?thesis
    unfolding wait by (auto simp: wait_outcome_def mult.commute split: option.splits)
qed

text \<open>A chain that never has the receipt, with a clock in milliseconds; and a node
  that stops answering.\<close>

definition silent_rpc :: "(nat \<times> nat) rpc_transport" where
  "silent_rpc =
     \<lparr> rt_completes = (\<lambda>url body w. True),
       rt_post = (\<lambda>url body (t, n). (Inr (Inr (JObj [(''result'', JNull)])), (t + 20, n + 1))),
       rt_now_ms = (\<lambda>(t, n). (t, (t, n))), rt_sleep_ms = (\<lambda>d (t, n). (t + d, n)) \<rparr>"

definition stalled_rpc :: "(nat \<times> nat) rpc_transport" where
  "stalled_rpc = silent_rpc\<lparr> rt_completes := (\<lambda>url body (t, n). False) \<rparr>"

theorem receipt_wait_bounded_witness:
  "(\<exists>x w'. http_wait_for_receipt sample_lib silent_rpc ''rpc'' 7 30 (0, 0) = Some (x, w') \<and> snd w' \<le> 61)
   \<and> http_wait_for_receipt sample_lib stalled_rpc ''rpc'' 7 30 (0, 0) = None"
proof -
  have ok: "clock_ok silent_rpc fst snd" by (auto simp: clock_ok_def silent_rpc_def)
  have ok2: "clock_ok stalled_rpc fst snd" by (auto simp: clock_ok_def stalled_rpc_def silent_rpc_def)
  have "rt_completes silent_rpc url body w" "\<not> rt_completes stalled_rpc url body w" for url body w
    by (cases w; simp add: silent_rpc_def stalled_rpc_def)+
  with receipt_wait_bounded [OF ok, where X = sample_lib and url = "''rpc''" and tx_hash = 7
        and timeout_secs = 30 and w = "(0, 0)"]
    receipt_wait_bounded [OF ok2, where X = sample_lib and url = "''rpc''" and tx_hash = 7
        and timeout_secs = 30 and w = "(0, 0)"]
  show ?thesis by auto
qed

section \<open>Receipts as a node writes them\<close>

fun lower_hex :: "nat \<Rightarrow> string" where
  "lower_hex n =
     (if n < 16 then [char_of (if n < 10 then 48 + n else 87 + n)]
      else lower_hex (n div 16) @ [char_of (if n mod 16 < 10 then 48 + n mod 16 else 87 + n mod 16)])"

declare lower_hex.simps [simp del]

definition log_json :: "x402_lib \<Rightarrow> raw_log \<Rightarrow> json" where
  "log_json X l =
     JObj [(''address'', JStr (prefixed_hex X (h160_bytes (log_address l)))),
           (''topics'', JArr (map (\<lambda>t. JStr (prefixed_hex X (h256_bytes t))) (log_topics l))),
           (''data'', JStr (prefixed_hex X (log_data l)))]"

definition receipt_json :: "x402_lib \<Rightarrow> tx_receipt \<Rightarrow> json" where
  "receipt_json X r =
     JObj [(''status'', JStr (if rc_status r then ''0x1'' else ''0x0'')),
           (''blockNumber'', JStr (''0x'' @ lower_hex (unat (rc_block_number r)))),
           (''logs'', JArr (map (log_json X) (rc_logs r)))]"

text \<open>Hexadecimal digits do not contain the \<open>x\<close> of the prefix.\<close>

definition hex_plain :: "x402_lib \<Rightarrow> bool" where
  "hex_plain X \<longleftrightarrow> (\<forall>b c. c \<in> set (hex_encode X b) \<longrightarrow> c \<noteq> CHR ''x'')"

lemma unprefixed_plain: "CHR ''x'' \<notin> set s \<Longrightarrow> unprefixed (''0x'' @ s) = s"
proof -
  assume x: "CHR ''x'' \<notin> set s"
  then have "take 2 s \<noteq> ''0x''" by (metis in_set_takeD list.set_intros(1) list.set_intros(2))
  then show ?thesis by (simp add: unprefixed_def trim_start_matches.simps [of "''0x''"] numeral_2_eq_2)
qed

lemma unprefixed_hex: "text_codecs_ok X \<Longrightarrow> hex_plain X \<Longrightarrow> hex_decode X (unprefixed (prefixed_hex X b)) = Inr b"
proof -
  assume ok: "text_codecs_ok X" "hex_plain X"
  then have "unprefixed (prefixed_hex X b) = hex_encode X b"
    unfolding prefixed_hex_def by (intro unprefixed_plain) (auto simp: hex_plain_def)
  with ok show ?thesis by (simp add: text_codecs_ok_def)
qed

lemma hex_digit_nibble:
  "n < 16 \<Longrightarrow> hex_digit_of (char_of (if n < 10 then 48 + n else 87 + n)) = Some n"
  by (simp add: hex_digit_of_def Let_def)

lemma hex_digits_val_append:
  "hex_digits_val acc (s @ t) = Option.bind (hex_digits_val acc s) (\<lambda>a. hex_digits_val a t)"
  by (induction acc s rule: hex_digits_val.induct) (auto split: option.split)

lemma lower_hex_val: "hex_digits_val 0 (lower_hex n) = Some n"
proof (induction n rule: lower_hex.induct)
  case (1 n)
  show ?case
  proof (cases "n < 16")
    case True
    then show ?thesis by (subst lower_hex.simps) (simp add: hex_digit_nibble del: if_split)
  next
    case False
    with 1 hex_digit_nibble [of "n mod 16"] show ?thesis
      by (subst lower_hex.simps) (simp add: hex_digits_val_append del: if_split)
  qed
qed

lemma lower_hex_chars: "c \<in> set (lower_hex n) \<Longrightarrow> c \<noteq> CHR ''x'' \<and> c \<noteq> CHR ''+''"
proof (induction n rule: lower_hex.induct)
  case (1 n)
  have nib: "char_of (if k < 10 then 48 + k else 87 + k) \<noteq> CHR ''x'' \<and>
      char_of (if k < 10 then 48 + k else 87 + k) \<noteq> CHR ''+''" if "k < 16" for k :: nat
  proof -
    have "hex_digit_of (char_of (if k < 10 then 48 + k else 87 + k)) = Some k"
      using that by (rule hex_digit_nibble)
    moreover have "hex_digit_of (CHR ''x'') = None" "hex_digit_of (CHR ''+'') = None"
      by (simp_all add: hex_digit_of_def of_char_def)
    ultimately show ?thesis by (metis option.distinct(1))
  qed
  show ?case
  proof (cases "n < 16")
    case True
    with 1(2) nib [of n] show ?thesis by (subst (asm) lower_hex.simps) (simp del: if_split split del: if_split)
  next
    case False
    with 1 nib [of "n mod 16"] show ?thesis
      by (subst (asm) lower_hex.simps) (auto simp del: if_split split del: if_split)
  qed
qed

lemma lower_hex_nonempty: "lower_hex n \<noteq> []"
  by (subst lower_hex.simps) simp

lemma u64_lower_hex: "u64_from_hex (unprefixed (''0x'' @ lower_hex (unat b))) = Inr b"
proof -
  have "hd (lower_hex (unat b)) \<noteq> CHR ''+''"
    using lower_hex_chars lower_hex_nonempty hd_in_set by blast
  moreover have "unprefixed (''0x'' @ lower_hex (unat b)) = lower_hex (unat b)"
    by (rule unprefixed_plain) (use lower_hex_chars in blast)
  ultimately show ?thesis
    using lower_hex_nonempty unat_less_length [of b]
    by (simp add: u64_from_hex_def lower_hex_val)
qed

lemma parse_each_map: "(\<And>x. x \<in> set xs \<Longrightarrow> f (g x) = Inr x) \<Longrightarrow> parse_each f (map g xs) = Inr xs"
  by (induction xs) simp_all

text \<open>A receipt as a node writes it is read back as it was: status, block, and
  every log with its address, topics and data.\<close>

theorem receipt_roundtrip:
  assumes "text_codecs_ok X" and "hex_plain X"
  shows "parse_receipt X (receipt_json X r) = Inr r"
proof -
  note hex = unprefixed_hex [OF assms]
  have "parse_topic X (JStr (prefixed_hex X (h256_bytes t))) = Inr t" for t
    by (simp add: parse_topic_def json_hex_def hex)
  then have "parse_log X (log_json X l) = Inr l" for l
    by (simp add: parse_log_def log_json_def field_str_def field_arr_def hex parse_each_map)
  then have "parse_each (parse_log X) (map (log_json X) (rc_logs r)) = Inr (rc_logs r)"
    by (rule parse_each_map)
  then show ?thesis
    using u64_lower_hex [of "rc_block_number r"]
    by (simp add: parse_receipt_def receipt_json_def field_str_def field_arr_def)
qed

lemma sample_hex_plain: "hex_plain sample_lib"
proof -
  have "char_nat c < 81" if "c \<in> set (letter_encode bs)" for c bs
  proof -
    from that obtain n :: nat where "c = char_of (65 + n)" "n < 16"
      unfolding letter_encode_def using unat_u8_div16 by fastforce
    then show ?thesis using char_nat_of [of "65 + n"] by simp
  qed
  then show ?thesis by (fastforce simp: hex_plain_def sample_lib_def of_char_def)
qed

theorem receipt_roundtrip_witness:
  "parse_receipt sample_lib (receipt_json sample_lib
       \<lparr> rc_status = True, rc_block_number = 77, rc_logs = [\<lparr> log_address = 5, log_topics = [1, 2], log_data = [3] \<rparr>] \<rparr>)
   = Inr \<lparr> rc_status = True, rc_block_number = 77, rc_logs = [\<lparr> log_address = 5, log_topics = [1, 2], log_data = [3] \<rparr>] \<rparr>"
  by (rule receipt_roundtrip [OF sample_codecs_ok sample_hex_plain])

end
