(* ===== verification/Chain_Queries.thy ===== *)
theory Chain_Queries
  imports Chain_Rpc Gateway_Types
begin

text \<open>
  The chain queries of \<open>gateway/src/queries.rs\<close>: \<open>HttpChainQueries\<close> with its ABI
  encoders and decoders and its two caches. A decoder reads what a remote node
  answered; taking a slice out of range or narrowing a number that does not fit
  panics, which is \<open>None\<close> here, and sizes wrap at 64 bits.
\<close>

section \<open>Slices and sizes\<close>

text \<open>\<open>&bytes[from..to]\<close>.\<close>

definition slice :: "bytes \<Rightarrow> nat \<Rightarrow> nat \<Rightarrow> bytes option" where
  "slice bs a b = (if a \<le> b \<and> b \<le> length bs then Some (take (b - a) (drop a bs)) else None)"

definition byte_at :: "bytes \<Rightarrow> nat \<Rightarrow> u8 option" where
  "byte_at bs i = (if i < length bs then Some (bs ! i) else None)"

text \<open>Arithmetic of \<open>usize\<close>, and its saturating addition.\<close>

definition usz :: "nat \<Rightarrow> nat" where
  "usz n = n mod 2 ^ 64"

definition usz_sat_add :: "nat \<Rightarrow> nat \<Rightarrow> nat" where
  "usz_sat_add a b = min (a + b) (2 ^ 64 - 1)"

definition u256_as_u64 :: "u256 \<Rightarrow> nat option" where
  "u256_as_u64 v = (if unat v < 2 ^ 64 then Some (unat v) else None)"

section \<open>ABI encoding\<close>

definition selector :: "x402_lib \<Rightarrow> string \<Rightarrow> bytes" where
  "selector X sig = take 4 (h256_bytes (keccak X (as_bytes sig)))"

definition u256_word :: "u256 \<Rightarrow> bytes" where
  "u256_word v = u256_to_be_bytes v"

definition pad_address_left :: "h160 \<Rightarrow> bytes" where
  "pad_address_left a = replicate 12 0 @ h160_bytes a"

section \<open>ABI decoding\<close>

type_synonym 'a decoded = "(gateway_error + 'a) option"

definition abi_len_bounded :: "x402_lib \<Rightarrow> bytes \<Rightarrow> nat \<Rightarrow> string \<Rightarrow> nat decoded" where
  "abi_len_bounded X word max_items what =
     (let v = (word_from_slice word :: u256)
      in if max_items < unat v
         then Some (Inl (ChainUnavailable (what @ '': declared length '' @ u256_to_dec X v
                @ '' exceeds buffer capacity ('' @ dec_string max_items @ '' items)'')))
         else map_option Inr (u256_as_u64 v))"

text \<open>The two array decoders share their first half: the length word, bounded by
  what the buffer can hold.\<close>

definition array_len :: "x402_lib \<Rightarrow> string \<Rightarrow> string \<Rightarrow> string \<Rightarrow> bytes \<Rightarrow> nat decoded" where
  "array_len X what need have bs =
     (if length bs < 64
      then Some (Inl (ChainUnavailable (what @ '' return too short: '' @ dec_string (length bs) @ '' bytes'')))
      else
        Option.bind (slice bs 32 64)
          (\<lambda>w. Option.bind (abi_len_bounded X w ((length bs - 64) div 32) what)
            (\<lambda>r. case r of
                   Inl e \<Rightarrow> Some (Inl e)
                 | Inr n \<Rightarrow>
                     let expected = usz (64 + n * 32)
                     in if length bs < expected
                        then Some (Inl (ChainUnavailable (what @ '' truncated: said len='' @ dec_string n
                               @ need @ dec_string expected @ have @ dec_string (length bs))))
                        else Some (Inr n))))"

definition array_word :: "bytes \<Rightarrow> nat \<Rightarrow> bytes option" where
  "array_word bs i = (let start = usz (64 + i * 32) in slice bs start (usz (start + 32)))"

definition decode_address_array :: "x402_lib \<Rightarrow> bytes \<Rightarrow> h160 list decoded" where
  "decode_address_array X bs =
     Option.bind (array_len X ''address[]'' '' need '' '' bytes have '' bs)
       (\<lambda>r. case r of
              Inl e \<Rightarrow> Some (Inl e)
            | Inr n \<Rightarrow>
                map_option Inr (those (map (\<lambda>i. Option.bind (array_word bs i)
                  (\<lambda>w. map_option word_from_slice (slice w 12 32))) [0..<n])))"

definition decode_bytes32_array :: "x402_lib \<Rightarrow> bytes \<Rightarrow> h256 list decoded" where
  "decode_bytes32_array X bs =
     Option.bind (array_len X ''bytes32[]'' '' need '' '' have '' bs)
       (\<lambda>r. case r of
              Inl e \<Rightarrow> Some (Inl e)
            | Inr n \<Rightarrow>
                map_option Inr (those (map (\<lambda>i. map_option word_from_slice (array_word bs i)) [0..<n])))"

text \<open>\<open>utf8_error\<close> and \<open>debug_u256\<close> are the texts of the library for invalid UTF-8
  and for a number.\<close>

record text_errors =
  te_utf8 :: "bytes \<Rightarrow> string"
  te_debug_u256 :: "u256 \<Rightarrow> string"

definition string_text :: "(bytes \<Rightarrow> string) \<Rightarrow> string \<Rightarrow> bytes \<Rightarrow> gateway_error + string" where
  "string_text utf8_error what bs =
     (case from_utf8 bs of
        Some s \<Rightarrow> Inr s
      | None \<Rightarrow> Inl (ChainUnavailable (''non-utf8 '' @ what @ '': '' @ utf8_error bs)))"

definition string_payload :: "text_errors \<Rightarrow> bytes \<Rightarrow> nat \<Rightarrow> string decoded" where
  "string_payload T bs offset =
     Option.bind (slice bs offset (usz (offset + 32)))
       (\<lambda>w. let v = (word_from_slice w :: u256)
            in if 2 ^ 32 - 1 < unat v
               then Some (Inl (ChainUnavailable (''string-at-word: declared length too large (''
                      @ te_debug_u256 T v @ '')'')))
               else
                 Option.bind (u256_as_u64 v)
                   (\<lambda>n. let start = usz (offset + 32); stop = usz (start + n)
                        in if length bs < stop
                           then Some (Inl (ChainUnavailable (''string-at-word: declared '' @ dec_string n
                                  @ '' bytes at offset '' @ dec_string start @ '', have ''
                                  @ dec_string (length bs))))
                           else map_option (string_text (te_utf8 T) ''string'') (slice bs start stop)))"

definition decode_string_at_offset_word :: "text_errors \<Rightarrow> bytes \<Rightarrow> nat \<Rightarrow> string decoded" where
  "decode_string_at_offset_word T bs word_idx =
     (let off_start = usz (word_idx * 32)
      in if length bs < usz (off_start + 32)
         then Some (Inl (ChainUnavailable (''string-at-word: offset word '' @ dec_string word_idx
                @ '' out of range ('' @ dec_string (length bs) @ '' bytes)'')))
         else
           Option.bind (slice bs off_start (usz (off_start + 32)))
             (\<lambda>w. let v = (word_from_slice w :: u256); low = unat v mod 2 ^ 128
                  in if 2 ^ 64 \<le> low \<or> 2 ^ 64 - 1 < unat v
                     then Some (Inl (ChainUnavailable (''string-at-word: offset overflows usize at word ''
                            @ dec_string word_idx)))
                     else if length bs < usz_sat_add low 32 \<or> length bs < usz (low + 32)
                     then Some (Inl (ChainUnavailable (''string-at-word: length at '' @ dec_string low
                            @ '' out of range ('' @ dec_string (length bs) @ '' bytes)'')))
                     else string_payload T bs low))"

record provider_info_raw =
  pr_address :: h160
  pr_endpoint :: string
  pr_stake :: u256
  pr_current_load :: u32
  pr_total_inferences :: u256
  pr_is_active :: bool

definition into_provider_info :: "provider_info_raw \<Rightarrow> provider_info" where
  "into_provider_info r =
     \<lparr> pi_address = pr_address r, pi_endpoint = pr_endpoint r,
       pi_reputation_bps = (if pr_is_active r then 5000 else 0),
       pi_current_load = pr_current_load r, pi_max_concurrent = 100 \<rparr>"

definition clamp_load :: "u256 \<Rightarrow> u32" where
  "clamp_load v = (if 2 ^ 32 - 1 < unat v then - 1 else ucast v)"

definition provider_endpoint :: "x402_lib \<Rightarrow> text_errors \<Rightarrow> bytes \<Rightarrow> string decoded" where
  "provider_endpoint X T bs =
     Option.bind (slice bs 160 192)
       (\<lambda>w. Option.bind (abi_len_bounded X w (length bs - 192) ''provider endpoint'')
         (\<lambda>r. case r of
                Inl e \<Rightarrow> Some (Inl e)
              | Inr n \<Rightarrow>
                  if length bs < usz (192 + n)
                  then Some (Inl (ChainUnavailable (''endpoint string truncated: declared ''
                         @ dec_string n @ '' bytes, have '' @ dec_string (length bs - 192))))
                  else map_option (string_text (te_utf8 T) ''endpoint'') (slice bs 192 (usz (192 + n)))))"

definition decode_provider_info ::
  "x402_lib \<Rightarrow> text_errors \<Rightarrow> h160 \<Rightarrow> bytes \<Rightarrow> provider_info_raw decoded" where
  "decode_provider_info X T addr bs =
     (if length bs < 192
      then Some (Inl (ChainUnavailable (''provider info return too short: '' @ dec_string (length bs)
             @ '' bytes'')))
      else
        Option.bind (slice bs 32 64) (\<lambda>stake.
        Option.bind (slice bs 64 96) (\<lambda>load.
        Option.bind (slice bs 96 128) (\<lambda>total_inferences.
        Option.bind (byte_at bs 159) (\<lambda>active.
        Option.bind (provider_endpoint X T bs) (\<lambda>r.
          Some (case r of
                  Inl e \<Rightarrow> Inl e
                | Inr endpoint \<Rightarrow>
                    Inr \<lparr> pr_address = addr, pr_endpoint = endpoint, pr_stake = word_from_slice stake,
                          pr_current_load = clamp_load (word_from_slice load),
                          pr_total_inferences = word_from_slice total_inferences,
                          pr_is_active = (active \<noteq> 0) \<rparr>)))))))"

section \<open>Calls\<close>

type_synonym name_cache = "(string \<times> h256 option) list"

record 'w query_state =
  qy_names :: "(nat \<times> name_cache) option"
  qy_models :: "(nat \<times> model_info list) option"
  qy_world :: 'w

text \<open>The contract addresses, the monotonic clock in nanoseconds, and what other
  tasks do while this one waits for the lock of the cache refresh.\<close>

record 'w query_env =
  qe_lib :: x402_lib
  qe_text :: text_errors
  qe_rpc :: "'w rpc_transport"
  qe_rpc_url :: string
  qe_model_registry :: string
  qe_pricing_oracle :: string
  qe_inference_router :: string
  qe_instant :: "'w \<Rightarrow> nat \<times> 'w"
  qe_refresh_lock :: "'w query_state \<Rightarrow> 'w query_state"

definition model_cache_ttl :: nat where
  "model_cache_ttl = 30 * 1000000000"

definition eth_call_body :: "x402_lib \<Rightarrow> string \<Rightarrow> bytes \<Rightarrow> json" where
  "eth_call_body X to data =
     rpc_body ''eth_call''
       (JArr [JObj [(''to'', JStr to), (''data'', JStr (prefixed_hex X data))], JStr ''latest''])"

text \<open>The client is built with a timeout, so every exchange completes, one that
  is not answered in time with the transport's error.\<close>

definition eth_call ::
  "'w query_env \<Rightarrow> string \<Rightarrow> bytes \<Rightarrow> 'w \<Rightarrow> (gateway_error + bytes) \<times> 'w" where
  "eth_call E to data w =
     (let X = qe_lib E in
      case rt_post (qe_rpc E) (qe_rpc_url E) (eth_call_body X to data) w of
        (Inl e, w1) \<Rightarrow> (Inl (ChainUnavailable (''rpc transport: '' @ e)), w1)
      | (Inr (Inl e), w1) \<Rightarrow> (Inl (ChainUnavailable (''rpc decode: '' @ e)), w1)
      | (Inr (Inr v), w1) \<Rightarrow>
          (case json_get ''error'' v of
             Some err \<Rightarrow> (Inl (ChainUnavailable (''rpc error: '' @ json_text X err)), w1)
           | None \<Rightarrow>
               (case field_str ''result'' v of
                  None \<Rightarrow> (Inl (ChainUnavailable ''rpc missing result''), w1)
                | Some h \<Rightarrow>
                    (case hex_decode X (unprefixed h) of
                       Inl e \<Rightarrow> (Inl (ChainUnavailable (''bad hex: '' @ e)), w1)
                     | Inr b \<Rightarrow> (Inr b, w1)))))"

section \<open>Names of models\<close>

datatype cached_lookup = Cached_Hit h256 | Cached_Negative | Cached_Miss

text \<open>\<open>elapsed\<close> of an instant later than now is zero.\<close>

definition cached_model_hash ::
  "'w query_env \<Rightarrow> string \<Rightarrow> 'w query_state \<Rightarrow> cached_lookup \<times> 'w query_state" where
  "cached_model_hash E name s =
     (case qy_names s of
        None \<Rightarrow> (Cached_Miss, s)
      | Some (fetched_at, cached) \<Rightarrow>
          (case qe_instant E (qy_world s) of (now, w) \<Rightarrow>
             (if model_cache_ttl \<le> now - fetched_at then Cached_Miss
              else
                (case map_of cached name of
                   Some (Some h) \<Rightarrow> Cached_Hit h
                 | Some None \<Rightarrow> Cached_Negative
                 | None \<Rightarrow> Cached_Miss), s\<lparr> qy_world := w \<rparr>)))"

definition refresh_model_cache ::
  "'w query_env \<Rightarrow> name_cache \<Rightarrow> 'w query_state \<Rightarrow> 'w query_state" where
  "refresh_model_cache E cached s =
     (case qe_instant E (qy_world s) of (now, w) \<Rightarrow> s\<lparr> qy_names := Some (now, cached), qy_world := w \<rparr>)"

definition model_call :: "'w query_env \<Rightarrow> h256 \<Rightarrow> 'w \<Rightarrow> (gateway_error + bytes) \<times> 'w" where
  "model_call E h w =
     eth_call E (qe_model_registry E) (selector (qe_lib E) ''getModel(bytes32)'' @ h256_bytes h) w"

text \<open>The loop over the registered hashes; an entry that cannot be fetched or read,
  or that has no name, is passed over.\<close>

fun name_entries ::
  "'w query_env \<Rightarrow> h256 list \<Rightarrow> name_cache \<Rightarrow> 'w \<Rightarrow> name_cache option \<times> 'w" where
  "name_entries E [] acc w = (Some acc, w)"
| "name_entries E (h # hs) acc w =
     (case model_call E h w of
        (Inl e, w1) \<Rightarrow> name_entries E hs acc w1
      | (Inr b, w1) \<Rightarrow>
          (case decode_string_at_offset_word (qe_text E) b 1 of
             None \<Rightarrow> (None, w1)
           | Some (Inl e) \<Rightarrow> name_entries E hs acc w1
           | Some (Inr n) \<Rightarrow>
               name_entries E hs (if n = [] then acc else AList.update n (Some h) acc) w1))"

definition pinned_hash :: "x402_lib \<Rightarrow> string \<Rightarrow> h256 option" where
  "pinned_hash X name =
     (let stripped = (case strip_prefix ''0x'' name of None \<Rightarrow> name | Some r \<Rightarrow> r)
      in if length stripped = 64
         then (case hex_decode X stripped of
                 Inl e \<Rightarrow> None
               | Inr b \<Rightarrow> if length b = 32 then Some (word_from_slice b) else None)
         else None)"

definition all_hashes_call :: "'w query_env \<Rightarrow> 'w \<Rightarrow> (gateway_error + bytes) \<times> 'w" where
  "all_hashes_call E w =
     eth_call E (qe_model_registry E) (selector (qe_lib E) ''getAllModelHashes()'') w"

text \<open>The enumeration of the registry under the refresh lock.\<close>

definition enumerate_names ::
  "'w query_env \<Rightarrow> string \<Rightarrow> 'w query_state \<Rightarrow> h256 decoded \<times> 'w query_state" where
  "enumerate_names E name s =
     (case all_hashes_call E (qy_world s) of
        (Inl e, w) \<Rightarrow>
          (Some (Inl (UnknownModel (name @ '' ('' @ gateway_display e @ '')''))), s\<lparr> qy_world := w \<rparr>)
      | (Inr b, w) \<Rightarrow>
          (case decode_bytes32_array (qe_lib E) b of
             None \<Rightarrow> (None, s\<lparr> qy_world := w \<rparr>)
           | Some (Inl e) \<Rightarrow> (Some (Inl e), s\<lparr> qy_world := w \<rparr>)
           | Some (Inr hashes) \<Rightarrow>
               (case name_entries E hashes [] w of
                  (None, w1) \<Rightarrow> (None, s\<lparr> qy_world := w1 \<rparr>)
                | (Some found, w1) \<Rightarrow>
                    let resolved = Option.bind (map_of found name) id;
                        found = (if resolved = None then AList.update name None found else found)
                    in (Some (case resolved of None \<Rightarrow> Inl (UnknownModel name) | Some h \<Rightarrow> Inr h),
                        refresh_model_cache E found (s\<lparr> qy_world := w1 \<rparr>)))))"

definition http_resolve_model_name ::
  "'w query_env \<Rightarrow> string \<Rightarrow> 'w query_state \<Rightarrow> h256 decoded \<times> 'w query_state" where
  "http_resolve_model_name E name s =
     (case pinned_hash (qe_lib E) name of
        Some h \<Rightarrow> (Some (Inr h), s)
      | None \<Rightarrow>
          (case cached_model_hash E name s of
             (Cached_Hit h, s1) \<Rightarrow> (Some (Inr h), s1)
           | (Cached_Negative, s1) \<Rightarrow> (Some (Inl (UnknownModel name)), s1)
           | (Cached_Miss, s1) \<Rightarrow>
               (case cached_model_hash E name (qe_refresh_lock E s1) of
                  (Cached_Hit h, s2) \<Rightarrow> (Some (Inr h), s2)
                | (Cached_Negative, s2) \<Rightarrow> (Some (Inl (UnknownModel name)), s2)
                | (Cached_Miss, s2) \<Rightarrow> enumerate_names E name s2)))"

section \<open>Prices and providers\<close>

text \<open>\<open>U256::from_big_endian\<close> panics on more than 32 bytes.\<close>

definition from_big_endian :: "bytes \<Rightarrow> u256 option" where
  "from_big_endian b = (if length b \<le> 32 then Some (word_from_slice b) else None)"

definition http_estimate_cost ::
  "'w query_env \<Rightarrow> h256 \<Rightarrow> u32 \<Rightarrow> u32 \<Rightarrow> u8 \<Rightarrow> 'w query_state \<Rightarrow> u256 decoded \<times> 'w query_state" where
  "http_estimate_cost E model_hash input_tokens output_tokens tier s =
     (case eth_call E (qe_pricing_oracle E)
             (selector (qe_lib E) ''estimateJobCost(bytes32,uint256,uint256,uint8)''
              @ h256_bytes model_hash @ u256_word (ucast input_tokens)
              @ u256_word (ucast output_tokens) @ replicate 31 0 @ [tier]) (qy_world s) of
        (Inl e, w) \<Rightarrow> (Some (Inl e), s\<lparr> qy_world := w \<rparr>)
      | (Inr b, w) \<Rightarrow>
          (if length b \<noteq> 32
           then Some (Inl (PricingUnavailable (''expected 32-byte uint256, got ''
                  @ dec_string (length b) @ '' bytes'')))
           else map_option Inr (from_big_endian b), s\<lparr> qy_world := w \<rparr>))"

definition provider_call :: "'w query_env \<Rightarrow> h160 \<Rightarrow> 'w \<Rightarrow> (gateway_error + bytes) \<times> 'w" where
  "provider_call E a w =
     eth_call E (qe_inference_router E)
       (selector (qe_lib E) ''getProviderInfo(address)'' @ pad_address_left a) w"

text \<open>A provider that cannot be fetched or read fails the whole listing.\<close>

fun provider_infos :: "'w query_env \<Rightarrow> h160 list \<Rightarrow> 'w \<Rightarrow> provider_info list decoded \<times> 'w" where
  "provider_infos E [] w = (Some (Inr []), w)"
| "provider_infos E (a # as) w =
     (case provider_call E a w of
        (Inl e, w1) \<Rightarrow> (Some (Inl e), w1)
      | (Inr b, w1) \<Rightarrow>
          (case decode_provider_info (qe_lib E) (qe_text E) a b of
             None \<Rightarrow> (None, w1)
           | Some (Inl e) \<Rightarrow> (Some (Inl e), w1)
           | Some (Inr i) \<Rightarrow>
               (case provider_infos E as w1 of
                  (Some (Inr ps), w2) \<Rightarrow>
                    (Some (Inr (if pr_is_active i then into_provider_info i # ps else ps)), w2)
                | r \<Rightarrow> r)))"

definition http_list_providers ::
  "'w query_env \<Rightarrow> h256 \<Rightarrow> 'w query_state \<Rightarrow> provider_info list decoded \<times> 'w query_state" where
  "http_list_providers E model_hash s =
     (case eth_call E (qe_inference_router E)
             (selector (qe_lib E) ''getProviders(bytes32)'' @ h256_bytes model_hash) (qy_world s) of
        (Inl e, w) \<Rightarrow> (Some (Inl e), s\<lparr> qy_world := w \<rparr>)
      | (Inr b, w) \<Rightarrow>
          (case decode_address_array (qe_lib E) b of
             None \<Rightarrow> (None, s\<lparr> qy_world := w \<rparr>)
           | Some (Inl e) \<Rightarrow> (Some (Inl e), s\<lparr> qy_world := w \<rparr>)
           | Some (Inr as) \<Rightarrow>
               (case provider_infos E as w of (r, w1) \<Rightarrow> (r, s\<lparr> qy_world := w1 \<rparr>))))"

section \<open>The list of models\<close>

definition cached_models ::
  "'w query_env \<Rightarrow> 'w query_state \<Rightarrow> model_info list option \<times> 'w query_state" where
  "cached_models E s =
     (case qy_models s of
        None \<Rightarrow> (None, s)
      | Some (fetched_at, models) \<Rightarrow>
          (case qe_instant E (qy_world s) of (now, w) \<Rightarrow>
             (if now - fetched_at < model_cache_ttl then Some models else None, s\<lparr> qy_world := w \<rparr>)))"

text \<open>One entry: \<open>None\<close> panics, \<open>Some None\<close> is passed over.\<close>

definition model_entry :: "text_errors \<Rightarrow> h256 \<Rightarrow> bytes \<Rightarrow> model_info option option" where
  "model_entry T h b =
     (if length b < 256 then Some None
      else
        Option.bind (slice b 12 32) (\<lambda>owner.
        Option.bind (decode_string_at_offset_word T b 1) (\<lambda>r.
          case r of
            Inl e \<Rightarrow> Some None
          | Inr name \<Rightarrow>
              if name = [] then Some None
              else map_option (\<lambda>active. Some \<lparr> mi_model_hash = h, mi_name = name,
                     mi_owner = word_from_slice owner, mi_is_active = (active \<noteq> 0) \<rparr>) (byte_at b 255))))"

fun model_entries :: "'w query_env \<Rightarrow> h256 list \<Rightarrow> 'w \<Rightarrow> model_info list option \<times> 'w" where
  "model_entries E [] w = (Some [], w)"
| "model_entries E (h # hs) w =
     (case model_call E h w of
        (Inl e, w1) \<Rightarrow> model_entries E hs w1
      | (Inr b, w1) \<Rightarrow>
          (case model_entry (qe_text E) h b of
             None \<Rightarrow> (None, w1)
           | Some None \<Rightarrow> model_entries E hs w1
           | Some (Some i) \<Rightarrow>
               (case model_entries E hs w1 of (r, w2) \<Rightarrow> (map_option ((#) i) r, w2))))"

definition enumerate_models ::
  "'w query_env \<Rightarrow> 'w query_state \<Rightarrow> model_info list decoded \<times> 'w query_state" where
  "enumerate_models E s =
     (case all_hashes_call E (qy_world s) of
        (Inl e, w) \<Rightarrow> (Some (Inl e), s\<lparr> qy_world := w \<rparr>)
      | (Inr b, w) \<Rightarrow>
          (case decode_bytes32_array (qe_lib E) b of
             None \<Rightarrow> (None, s\<lparr> qy_world := w \<rparr>)
           | Some (Inl e) \<Rightarrow> (Some (Inl e), s\<lparr> qy_world := w \<rparr>)
           | Some (Inr hashes) \<Rightarrow>
               (case model_entries E hashes w of
                  (None, w1) \<Rightarrow> (None, s\<lparr> qy_world := w1 \<rparr>)
                | (Some models, w1) \<Rightarrow>
                    (case qe_instant E w1 of (now, w2) \<Rightarrow>
                       (Some (Inr models), s\<lparr> qy_models := Some (now, models), qy_world := w2 \<rparr>)))))"

definition http_list_models ::
  "'w query_env \<Rightarrow> 'w query_state \<Rightarrow> model_info list decoded \<times> 'w query_state" where
  "http_list_models E s =
     (case cached_models E s of
        (Some models, s1) \<Rightarrow> (Some (Inr models), s1)
      | (None, s1) \<Rightarrow>
          (case cached_models E (qe_refresh_lock E s1) of
             (Some models, s2) \<Rightarrow> (Some (Inr models), s2)
           | (None, s2) \<Rightarrow> enumerate_models E s2))"

definition http_list_pools :: "h256 \<Rightarrow> 'w query_state \<Rightarrow> pool_entry list decoded \<times> 'w query_state" where
  "http_list_pools model_hash s = (Some (Inr []), s)"

section \<open>No answer panics the decoders\<close>

lemma slice_in_range: "a \<le> b \<Longrightarrow> b \<le> length bs \<Longrightarrow> slice bs a b = Some (take (b - a) (drop a bs))"
  by (simp add: slice_def)

lemma slice_length: "slice bs a b = Some w \<Longrightarrow> length w = b - a"
  by (auto simp: slice_def split: if_splits)

lemma abi_len_bounded_cases:
  assumes "max_items < 2 ^ 64"
  obtains e where "abi_len_bounded X w max_items what = Some (Inl e)"
  | n where "abi_len_bounded X w max_items what = Some (Inr n)" "n \<le> max_items"
      "n = unat (word_from_slice w :: u256)"
proof (cases "max_items < unat (word_from_slice w :: u256)")
  case True
  then show ?thesis by (intro that(1)) (simp add: abi_len_bounded_def)
next
  case False
  with assms have "unat (word_from_slice w :: u256) < 2 ^ 64" by linarith
  with False show ?thesis by (intro that(2)) (simp_all add: abi_len_bounded_def u256_as_u64_def)
qed

text \<open>A buffer holds fewer than \<open>2 ^ 63\<close> bytes (\<open>isize::MAX\<close>), so that no size the
  decoders form wraps.\<close>

definition buffer_ok :: "bytes \<Rightarrow> bool" where
  "buffer_ok bs \<longleftrightarrow> length bs < 2 ^ 63"

lemma array_len_cases:
  assumes "buffer_ok bs"
  obtains e where "array_len X what need have bs = Some (Inl e)"
  | n where "array_len X what need have bs = Some (Inr n)" "64 + n * 32 \<le> length bs"
      "n = unat (word_from_slice (take 32 (drop 32 bs)) :: u256)"
proof (cases "length bs < 64")
  case True
  then show ?thesis by (intro that(1)) (simp add: array_len_def)
next
  case False
  have m: "(length bs - 64) div 32 < 2 ^ 64" using assms by (simp add: buffer_ok_def)
  have w: "slice bs 32 64 = Some (take 32 (drop 32 bs))" using False by (simp add: slice_def)
  show ?thesis
  proof (rule abi_len_bounded_cases [OF m, of X "take 32 (drop 32 bs)" what])
    fix e assume "abi_len_bounded X (take 32 (drop 32 bs)) ((length bs - 64) div 32) what = Some (Inl e)"
    with False w show ?thesis by (intro that(1)) (simp add: array_len_def)
  next
    fix n assume n: "abi_len_bounded X (take 32 (drop 32 bs)) ((length bs - 64) div 32) what = Some (Inr n)"
      "n \<le> (length bs - 64) div 32" "n = unat (word_from_slice (take 32 (drop 32 bs)) :: u256)"
    then have le: "64 + n * 32 \<le> length bs" using False by simp
    then have "usz (64 + n * 32) = 64 + n * 32" using assms by (simp add: usz_def buffer_ok_def)
    with False w n le show ?thesis by (intro that(2) [of n]) (simp_all add: array_len_def)
  qed
qed

lemma array_word_in_range:
  assumes "buffer_ok bs" and "64 + n * 32 \<le> length bs" and "i < n"
  shows "array_word bs i = Some (take 32 (drop (64 + i * 32) bs))"
proof -
  have "i * 32 + 32 \<le> n * 32" using assms(3) by simp
  with assms show ?thesis
    by (simp add: array_word_def slice_def usz_def buffer_ok_def Let_def)
qed

lemma those_map_Some: "(\<And>x. x \<in> set xs \<Longrightarrow> f x = Some (g x)) \<Longrightarrow> those (map f xs) = Some (map g xs)"
  by (induction xs) simp_all

lemma decode_address_array_total: "buffer_ok bs \<Longrightarrow> decode_address_array X bs \<noteq> None"
proof -
  assume ok: "buffer_ok bs"
  show ?thesis
  proof (rule array_len_cases [OF ok, of X "''address[]''" "'' need ''" "'' bytes have ''"])
    fix n assume n: "array_len X ''address[]'' '' need '' '' bytes have '' bs = Some (Inr n)" "64 + n * 32 \<le> length bs"
    have "those (map (\<lambda>i. Option.bind (array_word bs i) (\<lambda>w. map_option word_from_slice (slice w 12 32))) [0..<n])
      = Some (map (\<lambda>i. word_from_slice (drop 12 (take 32 (drop (64 + i * 32) bs))) :: h160) [0..<n])"
    proof (rule those_map_Some)
      fix i assume "i \<in> set [0..<n]"
      then have i: "i < n" by simp
      then have "i * 32 + 32 \<le> n * 32" by simp
      then have "length (take 32 (drop (64 + i * 32) bs)) = 32" using n(2) by simp
      with array_word_in_range [OF ok n(2) i]
      show "Option.bind (array_word bs i) (\<lambda>w. map_option word_from_slice (slice w 12 32))
        = Some (word_from_slice (drop 12 (take 32 (drop (64 + i * 32) bs))) :: h160)"
        by (simp add: slice_def)
    qed
    with n(1) show ?thesis by (simp add: decode_address_array_def)
  qed (simp add: decode_address_array_def)
qed

lemma decode_bytes32_array_total: "buffer_ok bs \<Longrightarrow> decode_bytes32_array X bs \<noteq> None"
proof -
  assume ok: "buffer_ok bs"
  show ?thesis
  proof (rule array_len_cases [OF ok, of X "''bytes32[]''" "'' need ''" "'' have ''"])
    fix n assume n: "array_len X ''bytes32[]'' '' need '' '' have '' bs = Some (Inr n)" "64 + n * 32 \<le> length bs"
    have "those (map (\<lambda>i. map_option word_from_slice (array_word bs i)) [0..<n])
      = Some (map (\<lambda>i. word_from_slice (take 32 (drop (64 + i * 32) bs)) :: h256) [0..<n])"
      by (rule those_map_Some) (simp add: array_word_in_range [OF ok n(2)])
    with n(1) show ?thesis by (simp add: decode_bytes32_array_def)
  qed (simp add: decode_bytes32_array_def)
qed

lemma string_payload_total:
  assumes "buffer_ok bs" and "offset + 32 \<le> length bs"
  shows "string_payload T bs offset \<noteq> None"
proof -
  define v :: u256 where "v = word_from_slice (take 32 (drop offset bs))"
  have off: "usz (offset + 32) = offset + 32" using assms by (simp add: usz_def buffer_ok_def)
  then have w: "slice bs offset (usz (offset + 32)) = Some (take 32 (drop offset bs))"
    using assms(2) by (simp add: slice_def)
  consider "2 ^ 32 - 1 < unat v" | "unat v < 2 ^ 32" "length bs < offset + 32 + unat v"
    | "unat v < 2 ^ 32" "offset + 32 + unat v \<le> length bs" by fastforce
  then show ?thesis
  proof cases
    case 1
    with w show ?thesis by (simp add: string_payload_def v_def [symmetric])
  next
    case 2
    then have "usz (offset + 32 + unat v) = offset + 32 + unat v"
      using assms by (simp add: usz_def buffer_ok_def)
    with 2 w off show ?thesis by (simp add: string_payload_def v_def [symmetric] u256_as_u64_def)
  next
    case 3
    then have "usz (offset + 32 + unat v) = offset + 32 + unat v"
      using assms by (simp add: usz_def buffer_ok_def)
    with 3 w off show ?thesis by (simp add: string_payload_def v_def [symmetric] u256_as_u64_def slice_def)
  qed
qed

lemma decode_string_total:
  assumes ok: "buffer_ok bs" and i: "word_idx < 8"
  shows "decode_string_at_offset_word T bs word_idx \<noteq> None"
proof -
  define v :: u256 where "v = word_from_slice (take 32 (drop (word_idx * 32) bs))"
  have o: "usz (word_idx * 32) = word_idx * 32" "usz (word_idx * 32 + 32) = word_idx * 32 + 32"
    using i by (simp_all add: usz_def)
  note decode = decode_string_at_offset_word_def [of T bs word_idx, unfolded Let_def o slice_def]
  consider "length bs < word_idx * 32 + 32" | "word_idx * 32 + 32 \<le> length bs" "2 ^ 64 - 1 < unat v"
    | "word_idx * 32 + 32 \<le> length bs" "unat v < 2 ^ 64" by fastforce
  then show ?thesis
  proof cases
    case 3
    then have low: "unat v mod 2 ^ 128 = unat v" by simp
    show ?thesis
    proof (cases "length bs < usz_sat_add (unat v) 32 \<or> length bs < usz (unat v + 32)")
      case False
      then have "unat v + 32 \<le> length bs"
        using ok by (simp add: usz_sat_add_def buffer_ok_def min_def split: if_splits)
      with False 3 string_payload_total [OF ok] show ?thesis
        by (simp add: decode v_def [symmetric] low)
    qed (use 3 in \<open>auto simp: decode v_def [symmetric] low\<close>)
  qed (simp_all add: decode v_def [symmetric])
qed

lemma provider_endpoint_total:
  assumes ok: "buffer_ok bs" and len: "192 \<le> length bs"
  shows "provider_endpoint X T bs \<noteq> None"
proof -
  have m: "length bs - 192 < 2 ^ 64" using ok by (simp add: buffer_ok_def)
  have w: "slice bs 160 192 = Some (take 32 (drop 160 bs))" using len by (simp add: slice_def)
  show ?thesis
  proof (rule abi_len_bounded_cases [OF m, of X "take 32 (drop 160 bs)" "''provider endpoint''"])
    fix n assume n: "abi_len_bounded X (take 32 (drop 160 bs)) (length bs - 192) ''provider endpoint'' = Some (Inr n)"
      "n \<le> length bs - 192"
    then have "usz (192 + n) = 192 + n" using ok by (simp add: usz_def buffer_ok_def)
    with n w len show ?thesis by (simp add: provider_endpoint_def slice_def)
  qed (simp add: provider_endpoint_def w)
qed

lemma decode_provider_info_total: "buffer_ok bs \<Longrightarrow> decode_provider_info X T a bs \<noteq> None"
  using provider_endpoint_total [of bs X T]
  by (auto simp: decode_provider_info_def slice_def byte_at_def not_less)

lemma model_entry_total: "buffer_ok bs \<Longrightarrow> model_entry T h bs \<noteq> None"
proof -
  assume ok: "buffer_ok bs"
  obtain r where r: "decode_string_at_offset_word T bs 1 = Some r"
    using decode_string_total [OF ok, of 1 T] by auto
  then show ?thesis by (auto simp: model_entry_def slice_def byte_at_def split: sum.split)
qed

section \<open>No answer panics the gateway\<close>

definition buffers_ok :: "x402_lib \<Rightarrow> bool" where
  "buffers_ok X \<longleftrightarrow> (\<forall>s b. hex_decode X s = Inr b \<longrightarrow> buffer_ok b)"

lemma eth_call_buffer: "buffers_ok (qe_lib E) \<Longrightarrow> eth_call E to data w = (Inr b, w') \<Longrightarrow> buffer_ok b"
  by (auto simp: eth_call_def Let_def buffers_ok_def split: prod.splits sum.splits option.splits)

lemma name_entries_total: "buffers_ok (qe_lib E) \<Longrightarrow> fst (name_entries E hs acc w) \<noteq> None"
proof (induction E hs acc w rule: name_entries.induct)
  case (2 E h hs acc w)
  obtain r w1 where c: "model_call E h w = (r, w1)" by (metis surj_pair)
  show ?case
  proof (cases r)
    case (Inr b)
    then have "buffer_ok b" using c 2(4) by (auto simp: model_call_def intro: eth_call_buffer)
    then obtain x where "decode_string_at_offset_word (qe_text E) b 1 = Some x"
      using decode_string_total [of b 1] by fastforce
    with 2 c Inr show ?thesis by (cases x) auto
  qed (use 2 c in auto)
qed simp

lemma provider_infos_total: "buffers_ok (qe_lib E) \<Longrightarrow> fst (provider_infos E as w) \<noteq> None"
proof (induction as arbitrary: w)
  case (Cons a as)
  obtain r w1 where c: "provider_call E a w = (r, w1)" by (metis surj_pair)
  show ?case
  proof (cases r)
    case (Inr b)
    then have "buffer_ok b" using c Cons.prems by (auto simp: provider_call_def intro: eth_call_buffer)
    then obtain x where "decode_provider_info (qe_lib E) (qe_text E) a b = Some x"
      using decode_provider_info_total by fastforce
    with Cons.IH [OF Cons.prems, of w1] c Inr show ?thesis
      by (cases x) (auto split: prod.splits option.splits sum.splits)
  qed (simp add: c)
qed simp

lemma model_entries_total: "buffers_ok (qe_lib E) \<Longrightarrow> fst (model_entries E hs w) \<noteq> None"
proof (induction hs arbitrary: w)
  case (Cons h hs)
  obtain r w1 where c: "model_call E h w = (r, w1)" by (metis surj_pair)
  show ?case
  proof (cases r)
    case (Inr b)
    then have "buffer_ok b" using c Cons.prems by (auto simp: model_call_def intro: eth_call_buffer)
    then obtain x where "model_entry (qe_text E) h b = Some x" using model_entry_total by fastforce
    with Cons.IH [OF Cons.prems, of w1] c Inr show ?thesis
      by (cases x) (auto split: prod.splits)
  qed (use Cons c in auto)
qed simp

lemma enumerations_total:
  assumes ok: "buffers_ok (qe_lib E)"
  shows "fst (enumerate_names E name s) \<noteq> None" and "fst (enumerate_models E s) \<noteq> None"
    and "fst (http_list_providers E h s) \<noteq> None"
proof -
  obtain r w where c: "all_hashes_call E (qy_world s) = (r, w)" by (metis surj_pair)
  have hashes: "decode_bytes32_array (qe_lib E) b \<noteq> None" if "r = Inr b" for b
    using decode_bytes32_array_total [OF eth_call_buffer [OF ok c [unfolded all_hashes_call_def that]]] .
  have names: "name_entries E hs acc w \<noteq> (None, w')" for hs acc w w'
    using name_entries_total [OF ok, of hs acc w] by auto
  show "fst (enumerate_names E name s) \<noteq> None"
    using c hashes names
    by (auto simp: enumerate_names_def Let_def split: sum.split option.split prod.split)
  have models: "model_entries E hs w \<noteq> (None, w')" for hs w w'
    using model_entries_total [OF ok, of hs w] by auto
  show "fst (enumerate_models E s) \<noteq> None"
    using c hashes models
    by (auto simp: enumerate_models_def split: sum.split option.split prod.split)
  obtain r' w' where p: "eth_call E (qe_inference_router E)
      (selector (qe_lib E) ''getProviders(bytes32)'' @ h256_bytes h) (qy_world s) = (r', w')"
    by (metis surj_pair)
  show "fst (http_list_providers E h s) \<noteq> None"
  proof (cases r')
    case (Inr b)
    then obtain x where "decode_address_array (qe_lib E) b = Some x"
      using decode_address_array_total [OF eth_call_buffer [OF ok p [unfolded Inr]], of "qe_lib E"] by auto
    with p Inr provider_infos_total [OF ok] show ?thesis
      by (cases x) (simp_all add: http_list_providers_def case_prod_unfold)
  qed (simp add: http_list_providers_def p)
qed

text \<open>C37. Whatever the node answers, no query panics: every slice of every decoder
  is within its buffer, every length and offset word is checked before it is
  narrowed, and no size wraps, so that each query ends with a value or an error.\<close>

theorem chain_answers_never_panic:
  assumes ok: "buffers_ok (qe_lib E)"
  shows "fst (http_resolve_model_name E name s) \<noteq> None
    \<and> fst (http_estimate_cost E h i j t s) \<noteq> None
    \<and> fst (http_list_providers E h s) \<noteq> None
    \<and> fst (http_list_models E s) \<noteq> None"
proof (intro conjI)
  show "fst (http_resolve_model_name E name s) \<noteq> None"
    using enumerations_total(1) [OF ok]
    by (simp add: http_resolve_model_name_def split: option.split prod.split cached_lookup.split)
  show "fst (http_estimate_cost E h i j t s) \<noteq> None"
    by (simp add: http_estimate_cost_def from_big_endian_def split: prod.split sum.split)
  show "fst (http_list_providers E h s) \<noteq> None" by (rule enumerations_total(3) [OF ok])
  show "fst (http_list_models E s) \<noteq> None"
    using enumerations_total(2) [OF ok] by (simp add: http_list_models_def split: option.split prod.split)
qed

section \<open>Answers of contracts\<close>

text \<open>What a contract returns, in the ABI's encoding.\<close>

definition abi_word :: "nat \<Rightarrow> bytes" where
  "abi_word n = be_bytes 32 n"

definition abi_padded :: "bytes \<Rightarrow> bytes" where
  "abi_padded b = b @ replicate ((32 - length b mod 32) mod 32) 0"

definition abi_addresses :: "h160 list \<Rightarrow> bytes" where
  "abi_addresses as = abi_word 32 @ abi_word (length as) @ concat (map pad_address_left as)"

definition abi_hashes :: "h256 list \<Rightarrow> bytes" where
  "abi_hashes hs = abi_word 32 @ abi_word (length hs) @ concat (map h256_bytes hs)"

definition abi_bool :: "bool \<Rightarrow> bytes" where
  "abi_bool b = abi_word (if b then 1 else 0)"

definition abi_provider :: "provider_info_raw \<Rightarrow> bytes" where
  "abi_provider r =
     abi_word 160 @ u256_to_be_bytes (pr_stake r) @ abi_word (unat (pr_current_load r))
     @ u256_to_be_bytes (pr_total_inferences r) @ abi_bool (pr_is_active r)
     @ abi_word (length (pr_endpoint r)) @ abi_padded (as_bytes (pr_endpoint r))"

lemma length_abi_word [simp]: "length (abi_word n) = 32"
  by (simp add: abi_word_def)

lemma word_from_abi: "n < 2 ^ 256 \<Longrightarrow> unat (word_from_slice (abi_word n) :: u256) = n"
  by (simp add: abi_word_def unat_from_slice be_val_bytes)

lemma length_concat_words: "(\<And>x. length (f x) = 32) \<Longrightarrow> length (concat (map f xs)) = length xs * 32"
  by (induction xs) simp_all

lemma nth_concat_word:
  assumes "\<And>x. length (f x) = 32" and "i < length xs"
  shows "take 32 (drop (i * 32) (concat (map f xs))) = f (xs ! i)"
  using assms(2)
proof (induction xs arbitrary: i)
  case (Cons x xs)
  then show ?case by (cases i) (simp_all add: assms(1))
qed simp

text \<open>Both array decoders read back what the ABI wrote.\<close>

lemma array_len_encoded:
  assumes "bs = abi_word 32 @ abi_word (length xs) @ concat (map f xs)" and f: "\<And>x. length (f x) = 32"
    and "buffer_ok bs"
  shows "array_len X what need have bs = Some (Inr (length xs))"
    and "i < length xs \<Longrightarrow> array_word bs i = Some (f (xs ! i))"
proof -
  have len: "length bs = 64 + length xs * 32" using assms(1) length_concat_words [of f xs, OF f] by simp
  have "length xs < 2 ^ 63" using assms(3) len by (simp add: buffer_ok_def)
  then have n: "unat (word_from_slice (abi_word (length xs)) :: u256) = length xs"
    by (intro word_from_abi) simp
  have "slice bs 32 64 = Some (abi_word (length xs))" using len assms(1) by (simp add: slice_def)
  moreover have "abi_len_bounded X (abi_word (length xs)) (length xs) what = Some (Inr (length xs))"
    using \<open>length xs < 2 ^ 63\<close> n by (simp add: abi_len_bounded_def u256_as_u64_def)
  ultimately show "array_len X what need have bs = Some (Inr (length xs))"
    using len assms(3) by (simp add: array_len_def usz_def buffer_ok_def)
  show "array_word bs i = Some (f (xs ! i))" if "i < length xs"
  proof -
    have "drop (64 + i * 32) bs = drop (i * 32) (concat (map f xs))" using assms(1) by simp
    with array_word_in_range [OF assms(3) _ that] nth_concat_word [of f i xs, OF f that] len
    show ?thesis by simp
  qed
qed

lemma decode_abi_addresses:
  assumes "buffer_ok (abi_addresses as)"
  shows "decode_address_array X (abi_addresses as) = Some (Inr as)"
proof -
  note enc = array_len_encoded [of "abi_addresses as" as pad_address_left, OF abi_addresses_def _ assms]
  have len: "length (pad_address_left a) = 32" for a by (simp add: pad_address_left_def)
  have "those (map (\<lambda>i. Option.bind (array_word (abi_addresses as) i)
      (\<lambda>w. map_option word_from_slice (slice w 12 32))) [0..<length as]) = Some (map (\<lambda>i. as ! i) [0..<length as])"
    by (rule those_map_Some) (simp add: enc(2) [OF len] slice_def pad_address_left_def)
  with enc(1) [OF len] show ?thesis by (simp add: decode_address_array_def map_nth)
qed

lemma decode_abi_hashes:
  assumes "buffer_ok (abi_hashes hs)"
  shows "decode_bytes32_array X (abi_hashes hs) = Some (Inr hs)"
proof -
  note enc = array_len_encoded [of "abi_hashes hs" hs h256_bytes, OF abi_hashes_def _ assms]
  have "those (map (\<lambda>i. map_option word_from_slice (array_word (abi_hashes hs) i)) [0..<length hs])
      = Some (map (\<lambda>i. hs ! i) [0..<length hs])"
    by (rule those_map_Some) (simp add: enc(2))
  with enc(1) show ?thesis by (simp add: decode_bytes32_array_def map_nth)
qed

lemma last_abi_byte: "abi_word n ! 31 = of_nat (n mod 256)"
proof -
  have "abi_word n = be_bytes 31 (n div 256) @ [of_nat (n mod 256)]"
    unfolding abi_word_def by (subst be_bytes.simps(2) [of 31 n, simplified]) simp
  then show ?thesis by (simp add: nth_append)
qed

lemma length_abi_padded: "length b \<le> length (abi_padded b)"
  by (simp add: abi_padded_def)

lemma clamp_load_word: "clamp_load (word_from_slice (abi_word (unat l))) = l"
proof -
  have l: "unat l < 2 ^ 32" using unat_less_length [of l] by simp
  then have "unat (word_from_slice (abi_word (unat l)) :: u256) = unat l" by (intro word_from_abi) simp
  with l show ?thesis by (simp add: clamp_load_def word_unat_eq_iff unsigned_ucast_eq take_bit_eq_mod)
qed

lemma decode_abi_provider:
  assumes ok: "buffer_ok (abi_provider r)" and utf8: "from_utf8 (as_bytes (pr_endpoint r)) = Some (pr_endpoint r)"
  shows "decode_provider_info X T (pr_address r) (abi_provider r) = Some (Inr r)"
proof -
  define bs where "bs = abi_provider r"
  define n where "n = length (pr_endpoint r)"
  define rest where "rest = abi_padded (as_bytes (pr_endpoint r))"
  note enc = bs_def [unfolded abi_provider_def, folded rest_def n_def]
  have bool: "length (abi_bool b) = 32" for b by (simp add: abi_bool_def)
  have len: "length bs = 192 + length rest" by (simp add: enc bool)
  have n: "n \<le> length rest" using length_abi_padded [of "as_bytes (pr_endpoint r)"] by (simp add: n_def rest_def)
  have slices: "slice bs 32 64 = Some (u256_to_be_bytes (pr_stake r))"
    "slice bs 64 96 = Some (abi_word (unat (pr_current_load r)))"
    "slice bs 96 128 = Some (u256_to_be_bytes (pr_total_inferences r))"
    "slice bs 160 192 = Some (abi_word n)"
    by (simp_all add: slice_def enc bool)
  have "bs ! 159 = abi_bool (pr_is_active r) ! 31" by (simp add: enc nth_append bool)
  then have active: "byte_at bs 159 = Some (if pr_is_active r then 1 else 0)"
    using len by (simp add: byte_at_def abi_bool_def last_abi_byte)
  have small: "length bs < 2 ^ 63" using ok by (simp add: buffer_ok_def bs_def)
  then have "unat (word_from_slice (abi_word n) :: u256) = n" using n len by (intro word_from_abi) simp
  then have "abi_len_bounded X (abi_word n) (length bs - 192) what = Some (Inr n)" for what
    using n len small by (simp add: abi_len_bounded_def u256_as_u64_def)
  moreover have "slice bs 192 (192 + n) = Some (as_bytes (pr_endpoint r))"
    using n len by (simp add: slice_def enc bool) (simp add: rest_def abi_padded_def n_def)
  moreover have "usz (192 + n) = 192 + n" using n len small by (simp add: usz_def)
  ultimately have "provider_endpoint X T bs = Some (Inr (pr_endpoint r))"
    using n len slices(4) utf8 by (simp add: provider_endpoint_def string_text_def)
  with slices active len clamp_load_word [of "pr_current_load r"] show ?thesis
    by (simp add: decode_provider_info_def bs_def [symmetric])
qed

section \<open>Listing providers\<close>

text \<open>Against a router that answers as its ABI says, the listing is exactly the
  active providers registered for the model, in the router's order, with their
  endpoints and loads; inactive ones are left out, whatever the state of the
  node in between.\<close>

theorem provider_listing_is_the_routers:
  assumes addresses: "\<And>w. fst (eth_call E (qe_inference_router E)
        (selector (qe_lib E) ''getProviders(bytes32)'' @ h256_bytes h) w) = Inr (abi_addresses (map pr_address rs))"
    and infos: "\<And>r w. r \<in> set rs \<Longrightarrow> fst (provider_call E (pr_address r) w) = Inr (abi_provider r)"
    and sizes: "buffer_ok (abi_addresses (map pr_address rs))" "\<And>r. r \<in> set rs \<Longrightarrow> buffer_ok (abi_provider r)"
    and utf8: "\<And>r. r \<in> set rs \<Longrightarrow> from_utf8 (as_bytes (pr_endpoint r)) = Some (pr_endpoint r)"
  shows "fst (http_list_providers E h s) = Some (Inr (map into_provider_info (filter pr_is_active rs)))"
proof -
  have infos': "fst (provider_infos E (map pr_address rs') w)
      = Some (Inr (map into_provider_info (filter pr_is_active rs')))" if "set rs' \<subseteq> set rs" for rs' w
    using that
  proof (induction rs' arbitrary: w)
    case (Cons r rs')
    then have r: "r \<in> set rs" by simp
    obtain w1 where c: "provider_call E (pr_address r) w = (Inr (abi_provider r), w1)"
      using infos [OF r, of w] by (metis prod.collapse)
    have d: "decode_provider_info (qe_lib E) (qe_text E) (pr_address r) (abi_provider r) = Some (Inr r)"
      by (rule decode_abi_provider [OF sizes(2) [OF r] utf8 [OF r]])
    obtain w2 where "provider_infos E (map pr_address rs') w1
        = (Some (Inr (map into_provider_info (filter pr_is_active rs'))), w2)"
      using Cons.IH [of w1] Cons.prems by (metis prod.collapse set_subset_Cons subset_trans)
    with c d show ?case by simp
  qed simp
  obtain w where a: "eth_call E (qe_inference_router E)
      (selector (qe_lib E) ''getProviders(bytes32)'' @ h256_bytes h) (qy_world s)
      = (Inr (abi_addresses (map pr_address rs)), w)"
    using addresses [of "qy_world s"] by (metis prod.collapse)
  show ?thesis
    using infos' [of rs w] by (cases "provider_infos E (map pr_address rs) w")
      (simp add: http_list_providers_def a decode_abi_addresses [OF sizes(1)])
qed

section \<open>Resolving names\<close>

record registry_entry =
  re_hash :: h256
  re_owner :: h160
  re_name :: string
  re_framework :: string
  re_version :: string
  re_cid :: string
  re_price :: u256
  re_inferences :: u256
  re_active :: bool

definition abi_string :: "string \<Rightarrow> bytes" where
  "abi_string s = abi_word (length s) @ abi_padded (as_bytes s)"

definition abi_model :: "registry_entry \<Rightarrow> bytes" where
  "abi_model m =
     (let o1 = 256 + length (abi_string (re_name m));
          o2 = o1 + length (abi_string (re_framework m));
          o3 = o2 + length (abi_string (re_version m))
      in pad_address_left (re_owner m) @ abi_word 256 @ abi_word o1 @ abi_word o2 @ abi_word o3
         @ u256_to_be_bytes (re_price m) @ u256_to_be_bytes (re_inferences m) @ abi_bool (re_active m)
         @ abi_string (re_name m) @ abi_string (re_framework m) @ abi_string (re_version m)
         @ abi_string (re_cid m))"

definition entry_ok :: "registry_entry \<Rightarrow> bool" where
  "entry_ok m \<longleftrightarrow> buffer_ok (abi_model m) \<and> length (re_name m) < 2 ^ 32
     \<and> from_utf8 (as_bytes (re_name m)) = Some (re_name m)"

text \<open>The newest entry of a name: names are not unique in the registry.\<close>

fun registry_hash :: "registry_entry list \<Rightarrow> string \<Rightarrow> h256 option" where
  "registry_hash [] n = None"
| "registry_hash (m # ms) n =
     (case registry_hash ms n of
        Some h \<Rightarrow> Some h
      | None \<Rightarrow> if re_name m = n \<and> n \<noteq> [] then Some (re_hash m) else None)"

definition registry_answers :: "'w query_env \<Rightarrow> registry_entry list \<Rightarrow> bool" where
  "registry_answers E ms \<longleftrightarrow>
     (\<forall>w. fst (all_hashes_call E w) = Inr (abi_hashes (map re_hash ms)))
     \<and> (\<forall>m w. m \<in> set ms \<longrightarrow> fst (model_call E (re_hash m) w) = Inr (abi_model m) \<and> entry_ok m)
     \<and> buffer_ok (abi_hashes (map re_hash ms))"

definition cache_sound :: "registry_entry list \<Rightarrow> 'w query_state \<Rightarrow> bool" where
  "cache_sound ms s \<longleftrightarrow>
     (\<forall>t c n r. qy_names s = Some (t, c) \<longrightarrow> map_of c n = Some r \<longrightarrow> r = registry_hash ms n)"

lemma decode_abi_name:
  assumes "entry_ok m"
  shows "decode_string_at_offset_word T (abi_model m) 1 = Some (Inr (re_name m))"
proof -
  define bs where "bs = abi_model m"
  define n where "n = length (re_name m)"
  define rest where "rest = abi_padded (as_bytes (re_name m)) @ abi_string (re_framework m)
    @ abi_string (re_version m) @ abi_string (re_cid m)"
  obtain o1 o2 o3 where enc: "bs = pad_address_left (re_owner m) @ abi_word 256 @ abi_word o1 @ abi_word o2
      @ abi_word o3 @ u256_to_be_bytes (re_price m) @ u256_to_be_bytes (re_inferences m)
      @ abi_bool (re_active m) @ abi_word n @ rest"
    by (simp add: bs_def abi_model_def Let_def abi_string_def n_def rest_def)
  have l: "length (pad_address_left a) = 32" "length (abi_bool b) = 32" for a b
    by (simp_all add: pad_address_left_def abi_bool_def)
  have len: "length bs = 288 + length rest" by (simp add: enc l)
  have n: "n \<le> length rest" using length_abi_padded [of "as_bytes (re_name m)"] by (simp add: n_def rest_def)
  have small: "length bs < 2 ^ 63" using assms by (simp add: entry_ok_def buffer_ok_def bs_def)
  have slices: "slice bs 32 64 = Some (abi_word 256)" "slice bs 256 288 = Some (abi_word n)"
    by (simp_all add: slice_def enc l)
  have name: "slice bs 288 (288 + n) = Some (as_bytes (re_name m))"
    using n len by (simp add: slice_def enc l) (simp add: rest_def abi_padded_def n_def)
  have w: "unat (word_from_slice (abi_word 256) :: u256) = 256" by (rule word_from_abi) simp
  have v: "unat (word_from_slice (abi_word n) :: u256) = n" using n len small by (intro word_from_abi) simp
  have "usz (288 + n) = 288 + n" using n len small by (simp add: usz_def)
  moreover have "n < 2 ^ 32" "from_utf8 (as_bytes (re_name m)) = Some (re_name m)"
    using assms by (simp_all add: entry_ok_def n_def)
  ultimately have "string_payload T bs 256 = Some (Inr (re_name m))"
    using slices(2) name v n len
    by (simp add: string_payload_def Let_def u256_as_u64_def usz_def [of 288] string_text_def)
  then show ?thesis
    using len slices(1) w
    by (simp add: decode_string_at_offset_word_def Let_def usz_def usz_sat_add_def bs_def [symmetric])
qed

lemma name_entries_registry:
  assumes "set ms' \<subseteq> set ms" and ok: "registry_answers E ms"
  shows "\<exists>acc' w'. name_entries E (map re_hash ms') acc w = (Some acc', w')
    \<and> (\<forall>n. map_of acc' n = (case registry_hash ms' n of None \<Rightarrow> map_of acc n | Some h \<Rightarrow> Some (Some h)))"
  using assms(1)
proof (induction ms' arbitrary: acc w)
  case (Cons m ms')
  obtain w1 where c: "model_call E (re_hash m) w = (Inr (abi_model m), w1)"
    using ok Cons.prems unfolding registry_answers_def by (metis list.set_intros(1) prod.collapse subsetD)
  have "entry_ok m" using ok Cons.prems by (auto simp: registry_answers_def)
  from Cons.IH [of "if re_name m = [] then acc else AList.update (re_name m) (Some (re_hash m)) acc" w1]
    c decode_abi_name [OF this] Cons.prems
  obtain acc' w' where "name_entries E (map re_hash (m # ms')) acc w = (Some acc', w')"
    and "\<forall>n. map_of acc' n = (case registry_hash ms' n of
      None \<Rightarrow> map_of (if re_name m = [] then acc else AList.update (re_name m) (Some (re_hash m)) acc) n
      | Some h \<Rightarrow> Some (Some h))"
    by (auto simp del: if_split split del: if_split)
  then show ?case by (auto simp: alist_simps split: option.splits)
qed simp

lemma enumerate_registry:
  assumes ok: "registry_answers E ms"
  shows "\<exists>s'. enumerate_names E name s =
      (Some (case registry_hash ms name of None \<Rightarrow> Inl (UnknownModel name) | Some h \<Rightarrow> Inr h), s')
    \<and> cache_sound ms s'"
proof -
  obtain w where a: "all_hashes_call E (qy_world s) = (Inr (abi_hashes (map re_hash ms)), w)"
    using ok unfolding registry_answers_def by (metis prod.collapse)
  have d: "decode_bytes32_array (qe_lib E) (abi_hashes (map re_hash ms)) = Some (Inr (map re_hash ms))"
    using ok by (intro decode_abi_hashes) (simp add: registry_answers_def)
  obtain acc w1 where e: "name_entries E (map re_hash ms) [] w = (Some acc, w1)"
    and found: "\<forall>n. map_of acc n = (case registry_hash ms n of None \<Rightarrow> map_of [] n | Some h \<Rightarrow> Some (Some h))"
    using name_entries_registry [OF subset_refl ok, of "[]" w] by blast
  have acc: "map_of acc n = map_option Some (registry_hash ms n)" for n
    using found by (cases "registry_hash ms n") simp_all
  show ?thesis
  proof (cases "registry_hash ms name")
    case None
    with acc show ?thesis
      by (auto simp: enumerate_names_def a d e refresh_model_cache_def cache_sound_def alist_simps
          split: prod.split)
  next
    case (Some h)
    with acc show ?thesis
      by (auto simp: enumerate_names_def a d e refresh_model_cache_def cache_sound_def split: prod.split)
  qed
qed

lemma cached_model_hash_sound:
  assumes "cache_sound ms s" and "cached_model_hash E name s = (r, s')"
  shows "cache_sound ms s'" and "r = Cached_Hit h \<Longrightarrow> registry_hash ms name = Some h"
    and "r = Cached_Negative \<Longrightarrow> registry_hash ms name = None"
  using assms by (auto simp: cached_model_hash_def cache_sound_def
      split: option.splits prod.splits if_splits)

text \<open>Against a registry that answers as its ABI says, a name resolves to the
  hash of the newest model of that name and an unknown name is refused, whether
  the answer comes from a fresh enumeration, from the cache or from the cache
  another task filled in the meantime; and the cache stays sound.\<close>

theorem names_resolve_as_registered:
  assumes ok: "registry_answers E ms" and "pinned_hash (qe_lib E) name = None"
    and sound: "cache_sound ms s" and others: "\<And>s. cache_sound ms s \<Longrightarrow> cache_sound ms (qe_refresh_lock E s)"
  shows "\<exists>s'. http_resolve_model_name E name s =
      (Some (case registry_hash ms name of None \<Rightarrow> Inl (UnknownModel name) | Some h \<Rightarrow> Inr h), s')
    \<and> cache_sound ms s'"
proof -
  obtain r1 s1 where c1: "cached_model_hash E name s = (r1, s1)" by (metis surj_pair)
  note first = cached_model_hash_sound [OF sound c1]
  obtain r2 s2 where c2: "cached_model_hash E name (qe_refresh_lock E s1) = (r2, s2)" by (metis surj_pair)
  note second = cached_model_hash_sound [OF others [OF first(1)] c2]
  show ?thesis
    using first second enumerate_registry [OF ok, of name s2] assms(2)
    by (cases r1; cases r2) (auto simp: http_resolve_model_name_def c1 c2)
qed

section \<open>A sample chain\<close>

text \<open>A node that knows one model and one provider; it tells the calls apart by the
  contract, the length and the last byte of the data.\<close>

definition sample_entry :: registry_entry where
  "sample_entry =
     \<lparr> re_hash = 5, re_owner = 3, re_name = ''gemma'', re_framework = ''gguf'', re_version = ''4'',
       re_cid = ''cid'', re_price = 10, re_inferences = 0, re_active = True \<rparr>"

definition sample_router_entry :: provider_info_raw where
  "sample_router_entry =
     \<lparr> pr_address = 9, pr_endpoint = ''https://p.example'', pr_stake = 100, pr_current_load = 2,
       pr_total_inferences = 7, pr_is_active = True \<rparr>"

definition sample_answer_to :: "string \<Rightarrow> bytes \<Rightarrow> bytes" where
  "sample_answer_to to data =
     (if to = ''registry''
      then if length data = 4 then abi_hashes [5] else abi_model sample_entry
      else if last data = 5 then abi_addresses [9] else abi_provider sample_router_entry)"

fun sample_node :: "json \<Rightarrow> string + string + json" where
  "sample_node body =
     (case field_arr ''params'' body of
        call # _ \<Rightarrow>
          (case (field_str ''to'' call, field_str ''data'' call) of
             (Some to, Some data) \<Rightarrow>
               (case hex_decode sample_lib (unprefixed data) of
                  Inr b \<Rightarrow> Inr (Inr (JObj [(''result'', JStr (prefixed_hex sample_lib (sample_answer_to to b)))]))
                | Inl e \<Rightarrow> Inl e)
           | _ \<Rightarrow> Inl ''no call'')
      | [] \<Rightarrow> Inl ''no call'')"

definition sample_query_env :: "x402_lib \<Rightarrow> nat query_env" where
  "sample_query_env X =
     \<lparr> qe_lib = X, qe_text = \<lparr> te_utf8 = (\<lambda>b. ''utf8''), te_debug_u256 = (\<lambda>n. ''big'') \<rparr>,
       qe_rpc = \<lparr> rt_completes = (\<lambda>url body t. True), rt_post = (\<lambda>url body t. (sample_node body, t + 1)), rt_now_ms = (\<lambda>t. (t, t)),
                  rt_sleep_ms = (\<lambda>d t. t + d) \<rparr>,
       qe_rpc_url = ''http://127.0.0.1:8545'', qe_model_registry = ''registry'',
       qe_pricing_oracle = ''oracle'', qe_inference_router = ''router'', qe_instant = (\<lambda>t. (t, t)),
       qe_refresh_lock = id \<rparr>"

definition sample_query_state :: "nat query_state" where
  "sample_query_state = \<lparr> qy_names = None, qy_models = None, qy_world = 0 \<rparr>"

lemma from_utf8_ascii: "(\<And>c. c \<in> set s \<Longrightarrow> char_nat c < 128) \<Longrightarrow> from_utf8 (as_bytes s) = Some s"
  unfolding from_utf8_def by (subst utf8_ok_ascii) (auto simp: as_bytes_def chars_of_bytes [unfolded as_bytes_def])

lemma sample_eth_call:
  "eth_call (sample_query_env sample_lib) to data w = (Inr (sample_answer_to to data), w + 1)"
  using unprefixed_hex [OF sample_codecs_ok sample_hex_plain]
  by (simp add: eth_call_def sample_query_env_def eth_call_body_def rpc_body_def field_str_def field_arr_def)

lemma last_be_bytes: "0 < n \<Longrightarrow> last (be_bytes n v) = of_nat (v mod 256)"
  by (cases n) simp_all

lemma last_word_bytes: "last (h256_bytes 5) = 5" "last (h160_bytes 9) = 9"
  by (simp_all add: h256_bytes_def h160_bytes_def last_be_bytes)

lemma last_append_nonempty: "b \<noteq> [] \<Longrightarrow> last (a @ b) = last b"
  by simp

lemma sample_entry_ok: "entry_ok sample_entry"
proof -
  have "from_utf8 (as_bytes ''gemma'') = Some ''gemma''"
    by (rule from_utf8_ascii) (auto simp: of_char_def)
  then show ?thesis
    by (simp add: entry_ok_def buffer_ok_def abi_model_def sample_entry_def abi_string_def abi_padded_def
        pad_address_left_def abi_bool_def)
qed

lemma sample_registry_answers: "registry_answers (sample_query_env sample_lib) [sample_entry]"
  using sample_entry_ok
  by (simp add: registry_answers_def all_hashes_call_def model_call_def sample_eth_call sample_answer_to_def)
    (simp add: sample_query_env_def selector_def sample_entry_def buffer_ok_def abi_hashes_def)

theorem names_resolve_as_registered_witness:
  "\<exists>s'. http_resolve_model_name (sample_query_env sample_lib) ''gemma'' sample_query_state = (Some (Inr 5), s')"
proof -
  have p: "pinned_hash (qe_lib (sample_query_env sample_lib)) ''gemma'' = None"
    by (simp add: pinned_hash_def strip_prefix_def)
  have c: "cache_sound [sample_entry] sample_query_state"
    by (simp add: cache_sound_def sample_query_state_def)
  have l: "\<And>s. cache_sound [sample_entry] s \<Longrightarrow> cache_sound [sample_entry] (qe_refresh_lock (sample_query_env sample_lib) s)"
    by (simp add: sample_query_env_def)
  have "registry_hash [sample_entry] ''gemma'' = Some 5" by (simp add: sample_entry_def)
  with names_resolve_as_registered [OF sample_registry_answers p c l] show ?thesis by auto
qed

theorem provider_listing_is_the_routers_witness:
  "fst (http_list_providers (sample_query_env sample_lib) 5 sample_query_state)
   = Some (Inr [\<lparr> pi_address = 9, pi_endpoint = ''https://p.example'', pi_reputation_bps = 5000,
       pi_current_load = 2, pi_max_concurrent = 100 \<rparr>])"
proof -
  let ?E = "sample_query_env sample_lib"
  have router: "qe_inference_router ?E = ''router''" "qe_lib ?E = sample_lib"
    by (simp_all add: sample_query_env_def)
  have u: "from_utf8 (as_bytes (pr_endpoint r)) = Some (pr_endpoint r)" if "r \<in> set [sample_router_entry]" for r
    by (rule from_utf8_ascii) (use that in \<open>auto simp: of_char_def sample_router_entry_def\<close>)
  have b: "buffer_ok (abi_addresses (map pr_address [sample_router_entry]))"
    by (simp add: buffer_ok_def abi_addresses_def pad_address_left_def)
  have bp: "buffer_ok (abi_provider r)" if "r \<in> set [sample_router_entry]" for r
    using that by (simp add: buffer_ok_def abi_provider_def abi_bool_def abi_padded_def sample_router_entry_def)
  have a: "fst (eth_call ?E (qe_inference_router ?E)
      (selector (qe_lib ?E) ''getProviders(bytes32)'' @ h256_bytes 5) w) = Inr (abi_addresses (map pr_address [sample_router_entry]))" for w
    by (simp add: sample_eth_call router sample_answer_to_def last_append_nonempty last_word_bytes
        sample_router_entry_def flip: length_0_conv)
  have i: "fst (provider_call ?E (pr_address r) w) = Inr (abi_provider r)" if "r \<in> set [sample_router_entry]" for r w
    using that
    by (simp add: provider_call_def sample_eth_call router sample_answer_to_def last_word_bytes
        sample_router_entry_def pad_address_left_def flip: length_0_conv)
  show ?thesis
    using provider_listing_is_the_routers [OF a i b bp u, of sample_query_state]
    by (simp add: into_provider_info_def sample_router_entry_def)
qed

definition bounded_lib :: x402_lib where
  "bounded_lib = sample_lib\<lparr> hex_decode := (\<lambda>s. if length s < 2 ^ 63 then Inr (letter_decode s) else Inl ''length'') \<rparr>"

theorem chain_answers_never_panic_witness:
  "buffers_ok bounded_lib
   \<and> fst (http_list_providers (sample_query_env bounded_lib) 5 sample_query_state) \<noteq> None"
proof -
  have "length (letter_decode s) \<le> length s" for s
    by (induction s rule: letter_decode.induct) auto
  then have "buffers_ok bounded_lib"
    by (auto simp: buffers_ok_def bounded_lib_def buffer_ok_def intro: le_less_trans split: if_splits)
  moreover from this have "buffers_ok (qe_lib (sample_query_env bounded_lib))"
    by (simp add: sample_query_env_def)
  from chain_answers_never_panic [OF this] have
    "fst (http_list_providers (sample_query_env bounded_lib) 5 sample_query_state) \<noteq> None" by blast
  ultimately show ?thesis ..
qed

end
