(* ===== verification/Operator_Wallet.thy ===== *)
theory Operator_Wallet
  imports Chain_Queries "HOL-Library.Multiset"
begin

text \<open>
  The operator wallet of \<open>gateway/src/signer.rs\<close>: the nonce manager, the spend cap
  per epoch, the calldata, and the two calls that sign and submit a transaction.
  Both run concurrently with others of their kind, so each is written as the
  sequence of its awaits, one phase per step; between two steps any other task may
  run. The signer, the HTTP client and the curve are parameters. The client has no
  timeout; a task whose request is never answered is one that takes no further
  step.
\<close>

section \<open>The nonce manager and the spend cap\<close>

text \<open>What was asked of the cap and whether it was admitted, the nonces handed out
  and set back, and the transactions put on the wire, in order.\<close>

datatype wallet_event =
    Spend u64 u256 bool
  | Issued u64
  | Resynced u64
  | Submitted settlement_tx

record 'w wallet_state =
  wl_nonce :: "u64 option"
  wl_window :: "u64 \<times> u256"
  wl_log :: "wallet_event list"
  wl_world :: 'w

record 'w signer =
  sg_address :: h160
  sg_sign_hash :: "bytes \<Rightarrow> 'w \<Rightarrow> (x402_error + u8 \<times> bytes \<times> bytes) \<times> 'w"

record 'w wallet =
  wa_lib :: x402_lib
  wa_rpc :: "'w rpc_transport"
  wa_rpc_url :: string
  wa_signer :: "'w signer"
  wa_chain_id :: u64
  wa_compute_pool :: h160
  wa_ceiling_wei :: u256
  wa_blocks_per_epoch :: u64

definition logged :: "wallet_event \<Rightarrow> 'w wallet_state \<Rightarrow> 'w wallet_state" where
  "logged ev s = s\<lparr> wl_log := wl_log s @ [ev] \<rparr>"

definition new_wallet ::
  "x402_lib \<Rightarrow> 'w rpc_transport \<Rightarrow> string \<Rightarrow> 'w signer \<Rightarrow> u64 \<Rightarrow> h160 \<Rightarrow> u256 \<Rightarrow> u64 \<Rightarrow> 'w \<Rightarrow> 'w wallet \<times> 'w wallet_state"
where
  "new_wallet X R url sg chain_id pool ceiling blocks w =
     (\<lparr> wa_lib = X, wa_rpc = R, wa_rpc_url = url, wa_signer = sg, wa_chain_id = chain_id,
        wa_compute_pool = pool, wa_ceiling_wei = ceiling, wa_blocks_per_epoch = max blocks 1 \<rparr>,
      \<lparr> wl_nonce = None, wl_window = (0, 0), wl_log = [], wl_world = w \<rparr>)"

definition try_spend ::
  "'w wallet \<Rightarrow> u256 \<Rightarrow> u64 \<Rightarrow> 'w wallet_state \<Rightarrow> (gateway_error + unit) \<times> 'w wallet_state" where
  "try_spend W amount block s =
     (let epoch = block div wa_blocks_per_epoch W;
          window = (if fst (wl_window s) \<noteq> epoch then (epoch, 0) else wl_window s);
          s1 = s\<lparr> wl_window := window \<rparr>;
          next_spent = sat_add (snd window) amount
      in if wa_ceiling_wei W < next_spent
         then (Inl (SpendCapExceeded (u256_to_dec (wa_lib W) amount)
                 (u256_to_dec (wa_lib W) (sat_sub (wa_ceiling_wei W) (snd window)))),
               logged (Spend epoch amount False) s1)
         else (Inr (), logged (Spend epoch amount True) (s1\<lparr> wl_window := (epoch, next_spent) \<rparr>)))"

section \<open>JSON-RPC\<close>

definition wallet_rpc ::
  "'w wallet \<Rightarrow> string \<Rightarrow> json \<Rightarrow> 'w wallet_state \<Rightarrow> (gateway_error + json) \<times> 'w wallet_state" where
  "wallet_rpc W meth params s =
     (case rt_post (wa_rpc W) (wa_rpc_url W) (rpc_body meth params) (wl_world s) of
        (r, w) \<Rightarrow>
          ((case r of
              Inl e \<Rightarrow> Inl (ChainUnavailable (''rpc transport: '' @ e))
            | Inr (Inl e) \<Rightarrow> Inl (ChainUnavailable (''rpc decode: '' @ e))
            | Inr (Inr v) \<Rightarrow>
                (case json_get ''error'' v of
                   Some err \<Rightarrow> Inl (ChainUnavailable (''rpc error: '' @ json_text (wa_lib W) err))
                 | None \<Rightarrow>
                     (case json_get ''result'' v of
                        None \<Rightarrow> Inl (ChainUnavailable ''rpc missing result'')
                      | Some x \<Rightarrow> Inr x))), s\<lparr> wl_world := w \<rparr>))"

definition parse_hex_u64 :: "json \<Rightarrow> u64 option" where
  "parse_hex_u64 v =
     Option.bind (json_str v)
       (\<lambda>h. case u64_from_hex (unprefixed h) of Inl e \<Rightarrow> None | Inr n \<Rightarrow> Some n)"

definition wallet_number ::
  "'w wallet \<Rightarrow> string \<Rightarrow> json \<Rightarrow> string \<Rightarrow> 'w wallet_state \<Rightarrow> (gateway_error + u64) \<times> 'w wallet_state" where
  "wallet_number W meth params what s =
     try_then id (wallet_rpc W meth params s)
       (\<lambda>v s1. (case parse_hex_u64 v of None \<Rightarrow> Inl (ChainUnavailable what) | Some n \<Rightarrow> Inr n, s1))"

definition eth_get_transaction_count ::
  "'w wallet \<Rightarrow> h160 \<Rightarrow> 'w wallet_state \<Rightarrow> (gateway_error + u64) \<times> 'w wallet_state" where
  "eth_get_transaction_count W a =
     wallet_number W ''eth_getTransactionCount''
       (JArr [JStr (prefixed_hex (wa_lib W) (h160_bytes a)), JStr ''pending'']) ''bad nonce''"

definition eth_block_number :: "'w wallet \<Rightarrow> 'w wallet_state \<Rightarrow> (gateway_error + u64) \<times> 'w wallet_state" where
  "eth_block_number W = wallet_number W ''eth_blockNumber'' (JArr []) ''bad block number''"

definition eth_gas_price :: "'w wallet \<Rightarrow> 'w wallet_state \<Rightarrow> (gateway_error + u64) \<times> 'w wallet_state" where
  "eth_gas_price W = wallet_number W ''eth_gasPrice'' (JArr []) ''bad gas price''"

definition eth_send_raw_transaction ::
  "'w wallet \<Rightarrow> bytes \<Rightarrow> 'w wallet_state \<Rightarrow> (gateway_error + h256) \<times> 'w wallet_state" where
  "eth_send_raw_transaction W raw s =
     try_then id (wallet_rpc W ''eth_sendRawTransaction'' (JArr [JStr (prefixed_hex (wa_lib W) raw)]) s)
       (\<lambda>v s1.
          ((case json_str v of
              None \<Rightarrow> Inl (ChainUnavailable ''bad tx hash'')
            | Some h \<Rightarrow>
                (case hex_decode (wa_lib W) (unprefixed h) of
                   Inl e \<Rightarrow> Inl (ChainUnavailable (''bad tx hash hex: '' @ e))
                 | Inr b \<Rightarrow>
                     if length b \<noteq> 32 then Inl (ChainUnavailable ''tx hash not 32 bytes'')
                     else Inr (word_from_slice b))), s1))"

section \<open>Nonces\<close>

text \<open>\<open>reserve\<close> holds the lock across the question to the chain.\<close>

definition reserve_nonce ::
  "'w wallet \<Rightarrow> 'w wallet_state \<Rightarrow> (gateway_error + u64) \<times> 'w wallet_state" where
  "reserve_nonce W s =
     try_then id
       (case wl_nonce s of
          Some n \<Rightarrow> (Inr n, s)
        | None \<Rightarrow> eth_get_transaction_count W (sg_address (wa_signer W)) s)
       (\<lambda>n s1. (Inr n, logged (Issued n) (s1\<lparr> wl_nonce := Some (n + 1) \<rparr>)))"

definition resync :: "u64 \<Rightarrow> 'w wallet_state \<Rightarrow> 'w wallet_state" where
  "resync chain_nonce s = logged (Resynced chain_nonce) (s\<lparr> wl_nonce := Some chain_nonce \<rparr>)"

section \<open>Calldata\<close>

definition encode_request_pool_compute :: "x402_lib \<Rightarrow> u256 \<Rightarrow> bytes \<Rightarrow> u256 \<Rightarrow> bytes" where
  "encode_request_pool_compute X pool_id job_spec max_price =
     selector X ''requestPoolCompute(uint256,bytes,uint256)'' @ u256_word pool_id @ u256_word 0x60
     @ u256_word max_price @ u256_word (of_nat (length job_spec)) @ job_spec
     @ replicate ((32 - length job_spec mod 32) mod 32) 0"

definition encode_reclaim_expired_job :: "x402_lib \<Rightarrow> u256 \<Rightarrow> bytes" where
  "encode_reclaim_expired_job X job_id = selector X ''reclaimExpiredJob(uint256)'' @ u256_word job_id"

section \<open>Jobs\<close>

datatype wallet_job =
    Pool_Compute (jb_pool: u256) (jb_spec: bytes) (jb_max_price: u256) (jb_payment: u256)
  | Reclaim_Job u256

definition pool_dispatch_gas :: u64 where
  "pool_dispatch_gas = 600000"

definition default_gas_price_wei :: u64 where
  "default_gas_price_wei = 1000000000"

fun job_data :: "x402_lib \<Rightarrow> wallet_job \<Rightarrow> bytes" where
  "job_data X (Pool_Compute pool spec price payment) = encode_request_pool_compute X pool spec price"
| "job_data X (Reclaim_Job i) = encode_reclaim_expired_job X i"

fun job_value :: "wallet_job \<Rightarrow> u256" where
  "job_value (Pool_Compute pool spec price payment) = payment"
| "job_value (Reclaim_Job i) = 0"

fun job_failure :: "wallet_job \<Rightarrow> string" where
  "job_failure (Pool_Compute pool spec price payment) = ''sign pool dispatch: ''"
| "job_failure (Reclaim_Job i) = ''sign reclaim: ''"

definition job_tx :: "'w wallet \<Rightarrow> wallet_job \<Rightarrow> u64 \<Rightarrow> u64 \<Rightarrow> settlement_tx" where
  "job_tx W job nonce gas_price =
     \<lparr> tx_chain_id = wa_chain_id W, tx_nonce = nonce, tx_gas_price_wei = gas_price,
       tx_gas_limit = pool_dispatch_gas, tx_to = wa_compute_pool W, tx_value = job_value job,
       tx_data = job_data (wa_lib W) job \<rparr>"

definition sign_settlement_tx_with ::
  "x402_lib \<Rightarrow> 'w signer \<Rightarrow> settlement_tx \<Rightarrow> 'w \<Rightarrow> (x402_error + bytes) \<times> 'w" where
  "sign_settlement_tx_with X sg tx w =
     try_then id (sg_sign_hash sg (h256_bytes (keccak X (encode_unsigned_rlp X tx))) w)
       (\<lambda>(recovery_id, r, sig_s) w1.
          (Inr (encode_signed_rlp X tx (eip155_v (tx_chain_id tx) recovery_id) r sig_s), w1))"

text \<open>A call between two of its awaits. \<open>Reading_Block\<close> is the start of a dispatch,
  \<open>Reserving\<close> that of a reclaim.\<close>

datatype wallet_phase =
    Reading_Block wallet_job
  | Spending wallet_job u64
  | Reserving wallet_job
  | Pricing wallet_job u64
  | Signing wallet_job settlement_tx
  | Sending settlement_tx bytes
  | Resyncing gateway_error
  | Resetting gateway_error u64
  | Finished "gateway_error + h256"

fun job_start :: "wallet_job \<Rightarrow> wallet_phase" where
  "job_start (Pool_Compute pool spec price payment) = Reading_Block (Pool_Compute pool spec price payment)"
| "job_start (Reclaim_Job i) = Reserving (Reclaim_Job i)"

fun wallet_advance ::
  "'w wallet \<Rightarrow> wallet_phase \<Rightarrow> 'w wallet_state \<Rightarrow> wallet_phase \<times> 'w wallet_state" where
  "wallet_advance W (Reading_Block job) s =
     (case eth_block_number W s of
        (Inl e, s1) \<Rightarrow> (Finished (Inl e), s1)
      | (Inr block, s1) \<Rightarrow> (Spending job block, s1))"
| "wallet_advance W (Spending job block) s =
     (case try_spend W (job_value job) block s of
        (Inl e, s1) \<Rightarrow> (Finished (Inl e), s1)
      | (Inr u, s1) \<Rightarrow> (Reserving job, s1))"
| "wallet_advance W (Reserving job) s =
     (case reserve_nonce W s of
        (Inl e, s1) \<Rightarrow> (Finished (Inl e), s1)
      | (Inr nonce, s1) \<Rightarrow> (Pricing job nonce, s1))"
| "wallet_advance W (Pricing job nonce) s =
     (case eth_gas_price W s of (r, s1) \<Rightarrow>
        (Signing job (job_tx W job nonce
           (case r of Inl e \<Rightarrow> default_gas_price_wei | Inr p \<Rightarrow> p)), s1))"
| "wallet_advance W (Signing job tx) s =
     (case sign_settlement_tx_with (wa_lib W) (wa_signer W) tx (wl_world s) of (r, w) \<Rightarrow>
        (case r of
           Inl e \<Rightarrow> Finished (Inl (GatewayInternal (job_failure job @ error_display e)))
         | Inr raw \<Rightarrow> Sending tx raw, s\<lparr> wl_world := w \<rparr>))"
| "wallet_advance W (Sending tx raw) s =
     (case eth_send_raw_transaction W raw (logged (Submitted tx) s) of
        (Inr h, s1) \<Rightarrow> (Finished (Inr h), s1)
      | (Inl e, s1) \<Rightarrow> (Resyncing e, s1))"
| "wallet_advance W (Resyncing e) s =
     (case eth_get_transaction_count W (sg_address (wa_signer W)) s of
        (Inr n, s1) \<Rightarrow> (Resetting e n, s1)
      | (Inl e', s1) \<Rightarrow> (Finished (Inl e), s1))"
| "wallet_advance W (Resetting e n) s = (Finished (Inl e), resync n s)"
| "wallet_advance W (Finished r) s = (Finished r, s)"

text \<open>A call run alone, from its first await to its last.\<close>

fun wallet_run :: "nat \<Rightarrow> 'w wallet \<Rightarrow> wallet_phase \<Rightarrow> 'w wallet_state \<Rightarrow> wallet_phase \<times> 'w wallet_state" where
  "wallet_run 0 W p s = (p, s)"
| "wallet_run (Suc n) W p s = (case wallet_advance W p s of (p', s') \<Rightarrow> wallet_run n W p' s')"

definition wallet_call ::
  "'w wallet \<Rightarrow> wallet_job \<Rightarrow> 'w wallet_state \<Rightarrow> wallet_phase \<times> 'w wallet_state" where
  "wallet_call W job s = wallet_run 8 W (job_start job) s"

definition dispatch_pool_compute ::
  "'w wallet \<Rightarrow> u256 \<Rightarrow> bytes \<Rightarrow> u256 \<Rightarrow> u256 \<Rightarrow> 'w wallet_state \<Rightarrow> wallet_phase \<times> 'w wallet_state" where
  "dispatch_pool_compute W pool_id job_spec max_price payment s =
     wallet_call W (Pool_Compute pool_id job_spec max_price payment) s"

definition reclaim_expired_job ::
  "'w wallet \<Rightarrow> u256 \<Rightarrow> 'w wallet_state \<Rightarrow> wallet_phase \<times> 'w wallet_state" where
  "reclaim_expired_job W job_id s = wallet_call W (Reclaim_Job job_id) s"

section \<open>Calls end\<close>

fun phases_left :: "wallet_phase \<Rightarrow> nat" where
  "phases_left (Reading_Block job) = 8"
| "phases_left (Spending job block) = 7"
| "phases_left (Reserving job) = 6"
| "phases_left (Pricing job n) = 5"
| "phases_left (Signing job tx) = 4"
| "phases_left (Sending tx raw) = 3"
| "phases_left (Resyncing e) = 2"
| "phases_left (Resetting e n) = 1"
| "phases_left (Finished r) = 0"

lemma wallet_advance_left:
  "phases_left p \<noteq> 0 \<Longrightarrow> phases_left (fst (wallet_advance W p s)) < phases_left p"
  by (cases p) (simp_all split: prod.split sum.split)

lemma phases_left_0: "phases_left p = 0 \<Longrightarrow> \<exists>r. p = Finished r"
  by (cases p) simp_all

lemma wallet_run_finishes:
  "phases_left p \<le> n \<Longrightarrow> \<exists>r. fst (wallet_run n W p s) = Finished r"
proof (induction n arbitrary: p s)
  case 0
  then show ?case using phases_left_0 [of p] by auto
next
  case (Suc n)
  show ?case
  proof (cases "phases_left p = 0")
    case True
    then obtain r where "p = Finished r" using phases_left_0 by blast
    with Suc.IH [of "Finished r" s] show ?thesis by simp
  next
    case False
    with wallet_advance_left [OF this, of W s] Suc.prems Suc.IH
    show ?thesis by (auto split: prod.split)
  qed
qed

lemma wallet_call_finishes: "\<exists>r. fst (wallet_call W job s) = Finished r"
  unfolding wallet_call_def by (rule wallet_run_finishes) (cases job; simp)

section \<open>Tasks\<close>

inductive wallet_step ::
  "'w wallet \<Rightarrow> wallet_phase list \<times> 'w wallet_state \<Rightarrow> wallet_phase list \<times> 'w wallet_state \<Rightarrow> bool"
  for W where
  spawn: "wallet_step W (ps, s) (ps @ [job_start job], s)"
| advance: "i < length ps \<Longrightarrow> wallet_advance W (ps ! i) s = (p', s') \<Longrightarrow>
    wallet_step W (ps, s) (ps[i := p'], s')"
| elsewhere: "wallet_step W (ps, s) (ps, s\<lparr> wl_world := w \<rparr>)"

inductive_cases wallet_stepE: "wallet_step W c c'"

definition fresh_wallet :: "'w wallet_state \<Rightarrow> bool" where
  "fresh_wallet s \<longleftrightarrow> wl_nonce s = None \<and> wl_window s = (0, 0) \<and> wl_log s = []"

definition wallet_reachable :: "'w wallet \<Rightarrow> wallet_phase list \<Rightarrow> 'w wallet_state \<Rightarrow> bool" where
  "wallet_reachable W ps s \<longleftrightarrow> (\<exists>s0. fresh_wallet s0 \<and> (wallet_step W)\<^sup>*\<^sup>* ([], s0) (ps, s))"

lemma wallet_reachable_induct [consumes 1, case_names start spawn advance elsewhere]:
  assumes r: "wallet_reachable W ps s"
    and "\<And>s. fresh_wallet s \<Longrightarrow> Q [] s"
    and "\<And>ps s job. Q ps s \<Longrightarrow> Q (ps @ [job_start job]) s"
    and "\<And>ps s i p' s'. Q ps s \<Longrightarrow> i < length ps \<Longrightarrow> wallet_advance W (ps ! i) s = (p', s') \<Longrightarrow> Q (ps[i := p']) s'"
    and "\<And>ps s w. Q ps s \<Longrightarrow> Q ps (s\<lparr> wl_world := w \<rparr>)"
  shows "Q ps s"
proof -
  obtain s0 where s0: "fresh_wallet s0" "(wallet_step W)\<^sup>*\<^sup>* ([], s0) (ps, s)"
    using r by (auto simp: wallet_reachable_def)
  from s0(2) have "Q (fst (ps, s)) (snd (ps, s))"
  proof (induction rule: rtranclp_induct)
    case base
    with s0(1) assms(2) show ?case by simp
  next
    case (step c c')
    then show ?case using assms(3-5) by (auto elim!: wallet_stepE)
  qed
  then show ?thesis by simp
qed

section \<open>What is granted is used at most once\<close>

text \<open>An interface: steps of tasks that are granted something, hold it and use it.\<close>

locale grants =
  fixes advance_task :: "'p \<Rightarrow> 's \<Rightarrow> 'p \<times> 's"
    and granted :: "'s \<Rightarrow> 'g multiset" and used :: "'s \<Rightarrow> 'g multiset" and held :: "'p \<Rightarrow> 'g multiset"
  assumes conserved: "advance_task p s = (p', s') \<Longrightarrow>
    used s' + held p' + granted s \<subseteq># used s + held p + granted s'"
begin

definition accounted :: "'p list \<Rightarrow> 's \<Rightarrow> bool" where
  "accounted ps s \<longleftrightarrow> used s + sum_list (map held ps) \<subseteq># granted s"

lemma accounted_used: "accounted ps s \<Longrightarrow> used s \<subseteq># granted s"
  unfolding accounted_def by (metis mset_subset_eq_add_left subset_mset.trans)

lemma accounted_start: "used s = {#} \<Longrightarrow> accounted [] s"
  by (simp add: accounted_def)

lemma accounted_elsewhere:
  "accounted ps s \<Longrightarrow> used s' = used s \<Longrightarrow> granted s' = granted s \<Longrightarrow> accounted ps s'"
  by (simp add: accounted_def)

lemma accounted_spawn: "accounted ps s \<Longrightarrow> held p = {#} \<Longrightarrow> accounted (ps @ [p]) s"
  by (simp add: accounted_def)

lemma held_update:
  "i < length ps \<Longrightarrow> sum_list (map held (ps[i := p'])) + held (ps ! i) = sum_list (map held ps) + held p'"
proof (induction ps arbitrary: i)
  case (Cons p ps)
  then show ?case by (cases i) (simp_all add: ac_simps)
qed simp

lemma accounted_step:
  assumes acc: "accounted ps s" and i: "i < length ps" and a: "advance_task (ps ! i) s = (p', s')"
  shows "accounted (ps[i := p']) s'"
  unfolding accounted_def
proof (rule mset_subset_eqI)
  fix x
  have "count (used s) x + count (sum_list (map held ps)) x \<le> count (granted s) x"
    using acc unfolding accounted_def by (metis count_union mset_subset_eq_count)
  moreover have "count (used s') x + count (held p') x + count (granted s) x
      \<le> count (used s) x + count (held (ps ! i)) x + count (granted s') x"
    using conserved [OF a] by (metis count_union mset_subset_eq_count)
  moreover have "count (sum_list (map held (ps[i := p']))) x + count (held (ps ! i)) x
      = count (sum_list (map held ps)) x + count (held p') x"
    using held_update [OF i, of p'] by (metis count_union)
  ultimately show "count (used s' + sum_list (map held (ps[i := p']))) x \<le> count (granted s') x"
    by simp
qed

end

section \<open>The log of each step\<close>

fun spends :: "wallet_event list \<Rightarrow> (u64 \<times> u256 \<times> bool) list" where
  "spends [] = []"
| "spends (Spend e v b # l) = (e, v, b) # spends l"
| "spends (x # l) = spends l"

fun issued_nonces :: "wallet_event list \<Rightarrow> u64 list" where
  "issued_nonces [] = []"
| "issued_nonces (Issued n # l) = n # issued_nonces l"
| "issued_nonces (x # l) = issued_nonces l"

fun submitted :: "wallet_event list \<Rightarrow> settlement_tx list" where
  "submitted [] = []"
| "submitted (Submitted tx # l) = tx # submitted l"
| "submitted (x # l) = submitted l"

lemma log_append [simp]:
  "spends (l @ m) = spends l @ spends m"
  "issued_nonces (l @ m) = issued_nonces l @ issued_nonces m"
  "submitted (l @ m) = submitted l @ submitted m"
proof -
  show "spends (l @ m) = spends l @ spends m" by (induction l rule: spends.induct) simp_all
  show "issued_nonces (l @ m) = issued_nonces l @ issued_nonces m" by (induction l rule: issued_nonces.induct) simp_all
  show "submitted (l @ m) = submitted l @ submitted m" by (induction l rule: submitted.induct) simp_all
qed

definition admitted_amounts :: "wallet_event list \<Rightarrow> u256 list" where
  "admitted_amounts l = map (\<lambda>(e, v, b). v) (filter (\<lambda>(e, v, b). b) (spends l))"

text \<open>The questions to the node change nothing but the world.\<close>

definition same_wallet :: "'w wallet_state \<Rightarrow> 'w wallet_state \<Rightarrow> bool" where
  "same_wallet s s' \<longleftrightarrow> wl_nonce s' = wl_nonce s \<and> wl_window s' = wl_window s \<and> wl_log s' = wl_log s"

lemma wallet_rpc_same: "wallet_rpc W meth params s = (r, s') \<Longrightarrow> same_wallet s s'"
  by (auto simp: wallet_rpc_def same_wallet_def split: prod.splits)

lemma wallet_number_same: "wallet_number W meth params what s = (r, s') \<Longrightarrow> same_wallet s s'"
  by (auto simp: wallet_number_def dest: wallet_rpc_same elim!: try_then_cases)

lemma wallet_questions_same:
  "eth_get_transaction_count W a s = (r1, s') \<Longrightarrow> same_wallet s s'"
  "eth_block_number W s = (r2, s') \<Longrightarrow> same_wallet s s'"
  "eth_gas_price W s = (r2, s') \<Longrightarrow> same_wallet s s'"
  "eth_send_raw_transaction W raw s = (r3, s') \<Longrightarrow> same_wallet s s'"
  by (auto simp: eth_get_transaction_count_def eth_block_number_def eth_gas_price_def
      eth_send_raw_transaction_def dest: wallet_number_same wallet_rpc_same elim!: try_then_cases)

lemma reserve_nonce_cases:
  assumes "reserve_nonce W s = (r, s')"
  obtains (failed) e where "r = Inl e" "same_wallet s s'"
  | (reserved) n where "r = Inr n" "wl_nonce s = None \<or> wl_nonce s = Some n" "wl_nonce s' = Some (n + 1)"
      "wl_log s' = wl_log s @ [Issued n]" "wl_window s' = wl_window s"
  using assms
  by (auto simp: reserve_nonce_def logged_def same_wallet_def dest!: wallet_questions_same(1)
      elim!: try_then_cases split: option.splits)

text \<open>What a task holds between two awaits: an admitted amount, a nonce.\<close>

definition some_value :: "u256 \<Rightarrow> u256 multiset" where
  "some_value v = (if v = 0 then {#} else {#v#})"

fun held_values :: "wallet_phase \<Rightarrow> u256 multiset" where
  "held_values (Reserving job) = some_value (job_value job)"
| "held_values (Pricing job n) = some_value (job_value job)"
| "held_values (Signing job tx) = some_value (tx_value tx)"
| "held_values (Sending tx raw) = some_value (tx_value tx)"
| "held_values p = {#}"

fun held_nonces :: "wallet_phase \<Rightarrow> u64 multiset" where
  "held_nonces (Pricing job n) = {#n#}"
| "held_nonces (Signing job tx) = {#tx_nonce tx#}"
| "held_nonces (Sending tx raw) = {#tx_nonce tx#}"
| "held_nonces p = {#}"

text \<open>One step of a task, as it changes what the wallet keeps.\<close>

lemma wallet_advance_cases:
  assumes "wallet_advance W p s = (p', s')"
  obtains (spending) job block r where "p = Spending job block" "try_spend W (job_value job) block s = (r, s')"
      "p' = (case r of Inl e \<Rightarrow> Finished (Inl e) | Inr u \<Rightarrow> Reserving job)"
  | (reserved) job n where "p = Reserving job" "p' = Pricing job n" "wl_nonce s = None \<or> wl_nonce s = Some n"
      "wl_nonce s' = Some (n + 1)" "wl_log s' = wl_log s @ [Issued n]" "wl_window s' = wl_window s"
  | (priced) job n tx where "p = Pricing job n" "p' = Signing job tx" "tx_nonce tx = n"
      "tx_value tx = job_value job" "same_wallet s s'"
  | (signed) job tx raw where "p = Signing job tx" "p' = Sending tx raw" "same_wallet s s'"
  | (sent) tx raw where "p = Sending tx raw" "held_values p' = {#}" "held_nonces p' = {#}"
      "wl_log s' = wl_log s @ [Submitted tx]" "wl_nonce s' = wl_nonce s" "wl_window s' = wl_window s"
  | (reset) e n where "p = Resetting e n" "p' = Finished (Inl e)" "s' = resync n s"
  | (idle) "same_wallet s s'" "held_values p' = {#}" "held_nonces p' = {#}"
proof (cases p)
  case (Reading_Block job)
  with assms show ?thesis
    by (intro idle) (auto split: prod.splits sum.splits dest: wallet_questions_same)
next
  case (Spending job block)
  with assms show ?thesis by (auto split: prod.splits sum.splits intro: spending)
next
  case (Reserving job)
  obtain r s1 where r: "reserve_nonce W s = (r, s1)" by (metis surj_pair)
  from r show ?thesis
  proof (cases rule: reserve_nonce_cases)
    case failed
    with Reserving assms r show ?thesis by (intro idle) auto
  next
    case (reserved n)
    with Reserving assms r show ?thesis by (intro that(2) [of job n]) auto
  qed
next
  case (Pricing job n)
  with assms show ?thesis
    by (auto simp: job_tx_def split: prod.splits sum.splits dest!: wallet_questions_same intro: priced)
next
  case (Signing job tx)
  with assms show ?thesis
    by (auto simp: same_wallet_def split: prod.splits sum.splits intro: signed idle)
next
  case (Sending tx raw)
  obtain r s1 where r: "eth_send_raw_transaction W raw (logged (Submitted tx) s) = (r, s1)" by (metis surj_pair)
  from wallet_questions_same(4) [OF r] Sending assms r show ?thesis
    by (intro sent [of tx raw]) (auto simp: same_wallet_def logged_def split: sum.splits)
next
  case (Resyncing e)
  with assms show ?thesis
    by (intro idle) (auto split: prod.splits sum.splits dest: wallet_questions_same)
next
  case (Resetting e n)
  with assms show ?thesis by (intro reset) auto
next
  case (Finished r)
  with assms show ?thesis by (intro idle) (auto simp: same_wallet_def)
qed

lemma try_spend_log:
  assumes "try_spend W v block s = (r, s')"
  obtains b where "wl_log s' = wl_log s @ [Spend (block div wa_blocks_per_epoch W) v b]"
    "wl_nonce s' = wl_nonce s" "r = Inr () \<longleftrightarrow> b" "b \<or> (\<exists>e. r = Inl e)"
proof (cases r)
  case (Inl e)
  with assms show ?thesis
    by (intro that [of False]) (auto simp: try_spend_def Let_def logged_def split: if_splits)
next
  case (Inr u)
  with assms show ?thesis
    by (intro that [of True]) (auto simp: try_spend_def Let_def logged_def split: if_splits)
qed

section \<open>Amounts and nonces\<close>

definition granted_values :: "'w wallet_state \<Rightarrow> u256 multiset" where
  "granted_values s = mset (admitted_amounts (wl_log s))"

definition used_values :: "'w wallet_state \<Rightarrow> u256 multiset" where
  "used_values s = mset (filter (\<lambda>v. v \<noteq> 0) (map tx_value (submitted (wl_log s))))"

definition granted_nonces :: "'w wallet_state \<Rightarrow> u64 multiset" where
  "granted_nonces s = mset (issued_nonces (wl_log s))"

definition used_nonces :: "'w wallet_state \<Rightarrow> u64 multiset" where
  "used_nonces s = mset (map tx_nonce (submitted (wl_log s)))"

lemmas wallet_tallies = granted_values_def used_values_def granted_nonces_def used_nonces_def

interpretation amounts: grants "wallet_advance W" granted_values used_values held_values for W
proof unfold_locales
  fix p p' s s' assume "wallet_advance W p s = (p', s')"
  then show "used_values s' + held_values p' + granted_values s \<subseteq># used_values s + held_values p + granted_values s'"
  proof (cases rule: wallet_advance_cases)
    case (spending job block r)
    from spending(2) show ?thesis
      by (rule try_spend_log)
        (use spending in \<open>auto simp: wallet_tallies admitted_amounts_def some_value_def split: sum.splits\<close>)
  qed (auto simp: wallet_tallies same_wallet_def admitted_amounts_def some_value_def resync_def logged_def)
qed

interpretation nonces: grants "wallet_advance W" granted_nonces used_nonces held_nonces for W
proof unfold_locales
  fix p p' s s' assume "wallet_advance W p s = (p', s')"
  then show "used_nonces s' + held_nonces p' + granted_nonces s \<subseteq># used_nonces s + held_nonces p + granted_nonces s'"
  proof (cases rule: wallet_advance_cases)
    case (spending job block r)
    from spending(2) show ?thesis
      by (rule try_spend_log) (use spending in \<open>auto simp: wallet_tallies split: sum.splits\<close>)
  qed (auto simp: wallet_tallies same_wallet_def resync_def logged_def)
qed

lemma job_start_holds: "held_values (job_start job) = {#}" "held_nonces (job_start job) = {#}"
  by (cases job; simp add: some_value_def)+

lemma wallet_accounted:
  assumes "wallet_reachable W ps s"
  shows "amounts.accounted ps s \<and> nonces.accounted ps s"
  using assms
proof (induction rule: wallet_reachable_induct)
  case (start s)
  then show ?case by (intro conjI amounts.accounted_start nonces.accounted_start) (simp_all add: wallet_tallies fresh_wallet_def)
next
  case (spawn ps s job)
  then show ?case by (simp add: amounts.accounted_spawn nonces.accounted_spawn job_start_holds)
next
  case (advance ps s i p' s')
  then show ?case using amounts.accounted_step [of ps s i W] nonces.accounted_step [of ps s i W] by blast
next
  case (elsewhere ps s w)
  have "used_values (s\<lparr> wl_world := w \<rparr>) = used_values s" "granted_values (s\<lparr> wl_world := w \<rparr>) = granted_values s"
    "used_nonces (s\<lparr> wl_world := w \<rparr>) = used_nonces s" "granted_nonces (s\<lparr> wl_world := w \<rparr>) = granted_nonces s"
    by (simp_all add: wallet_tallies)
  with elsewhere show ?case by (metis amounts.accounted_elsewhere nonces.accounted_elsewhere)
qed

section \<open>The cap of an epoch\<close>

definition attempted_epochs :: "wallet_event list \<Rightarrow> u64 list" where
  "attempted_epochs l = map fst (spends l)"

definition admitted_in :: "u64 \<Rightarrow> wallet_event list \<Rightarrow> nat" where
  "admitted_in e l = sum_list (map (\<lambda>(e', v, b). if e' = e \<and> b then unat v else 0) (spends l))"

lemma admitted_in_none: "e \<notin> set (attempted_epochs l) \<Longrightarrow> admitted_in e l = 0"
proof -
  have "e \<notin> fst ` set xs \<Longrightarrow> sum_list (map (\<lambda>(e', v, b). if e' = e \<and> b then unat v else 0) xs) = 0"
    for xs :: "(u64 \<times> u256 \<times> bool) list"
    by (induction xs) auto
  then show "e \<notin> set (attempted_epochs l) \<Longrightarrow> admitted_in e l = 0"
    by (simp add: admitted_in_def attempted_epochs_def)
qed

definition window_inv :: "'w wallet \<Rightarrow> 'w wallet_state \<Rightarrow> bool" where
  "window_inv W s \<longleftrightarrow>
     (sorted (attempted_epochs (wl_log s)) \<longrightarrow>
        (\<forall>e. admitted_in e (wl_log s) \<le> unat (wa_ceiling_wei W))
        \<and> unat (snd (wl_window s)) = admitted_in (fst (wl_window s)) (wl_log s)
        \<and> (\<forall>e \<in> set (attempted_epochs (wl_log s)). e \<le> fst (wl_window s))
        \<and> (attempted_epochs (wl_log s) \<noteq> [] \<longrightarrow> fst (wl_window s) \<in> set (attempted_epochs (wl_log s))))"

lemma try_spend_step:
  assumes "try_spend W v block s = (r, s')"
  defines "epoch \<equiv> block div wa_blocks_per_epoch W"
  defines "spent \<equiv> (if fst (wl_window s) \<noteq> epoch then 0 else snd (wl_window s))"
  shows "wl_log s' = wl_log s @ [Spend epoch v (sat_add spent v \<le> wa_ceiling_wei W)]"
    and "wl_window s' = (epoch, if sat_add spent v \<le> wa_ceiling_wei W then sat_add spent v else spent)"
  using assms(1) unfolding try_spend_def Let_def logged_def epoch_def [symmetric] spent_def
  by (cases "wl_window s"; auto simp: not_less split: if_splits)+

text \<open>The sum saturates, so that a cap of the largest number is no cap.\<close>

lemma capped_sum:
  fixes a v c :: u256
  assumes "sat_add a v \<le> c" and "c \<noteq> - 1"
  shows "unat (sat_add a v) = unat a + unat v"
proof -
  have "unat c < 2 ^ 256 - 1"
  proof (rule ccontr)
    assume "\<not> unat c < 2 ^ 256 - 1"
    with unat_less_length [of c] have "unat c = unat (- 1 :: u256)" by (simp add: unat_minus_one_word_nat)
    with assms(2) show False by (simp add: word_unat_eq_iff)
  qed
  with assms(1) have "unat (sat_add a v) < 2 ^ 256 - 1" by (simp add: word_le_nat_alt)
  then show ?thesis by (simp add: unat_sat_add min_def split: if_splits)
qed

lemma try_spend_window:
  assumes inv: "window_inv W s" and cap: "wa_ceiling_wei W \<noteq> - 1" and t: "try_spend W v block s = (r, s')"
  shows "window_inv W s'"
  unfolding window_inv_def
proof
  let ?epoch = "block div wa_blocks_per_epoch W"
  define spent where "spent = (if fst (wl_window s) \<noteq> ?epoch then 0 else snd (wl_window s))"
  define b where "b \<longleftrightarrow> sat_add spent v \<le> wa_ceiling_wei W"
  note step = try_spend_step [OF t, folded spent_def, folded b_def]
  assume sorted': "sorted (attempted_epochs (wl_log s'))"
  have epochs: "attempted_epochs (wl_log s') = attempted_epochs (wl_log s) @ [?epoch]"
    by (simp add: attempted_epochs_def step)
  with sorted' have sorted: "sorted (attempted_epochs (wl_log s))"
    and le: "\<forall>e \<in> set (attempted_epochs (wl_log s)). e \<le> ?epoch" by (simp_all add: sorted_append)
  note inv' = inv [unfolded window_inv_def, rule_format, OF sorted]
  have spent: "unat spent = admitted_in ?epoch (wl_log s)"
  proof (cases "fst (wl_window s) = ?epoch")
    case True
    with inv' show ?thesis by (simp add: spent_def)
  next
    case False
    have "?epoch \<notin> set (attempted_epochs (wl_log s))"
    proof
      assume e: "?epoch \<in> set (attempted_epochs (wl_log s))"
      then have "attempted_epochs (wl_log s) \<noteq> []" by auto
      with inv' le have "fst (wl_window s) \<le> ?epoch" by blast
      moreover have "?epoch \<le> fst (wl_window s)" using inv' e by blast
      ultimately show False using False by simp
    qed
    with False show ?thesis by (simp add: spent_def admitted_in_none)
  qed
  have total: "admitted_in e (wl_log s') = admitted_in e (wl_log s) + (if e = ?epoch \<and> b then unat v else 0)" for e
    by (simp add: admitted_in_def step)
  have "admitted_in e (wl_log s') \<le> unat (wa_ceiling_wei W)" for e
  proof (cases "e = ?epoch \<and> b")
    case True
    with capped_sum [OF _ cap, of spent v] have "unat spent + unat v \<le> unat (wa_ceiling_wei W)"
      by (simp add: b_def word_le_nat_alt)
    with True total spent show ?thesis by simp
  next
    case False
    with total [of e] inv' show ?thesis by auto
  qed
  moreover have "unat (snd (wl_window s')) = admitted_in ?epoch (wl_log s')"
    using capped_sum [OF _ cap, of spent v] spent total [of ?epoch] by (simp add: step(2) b_def)
  ultimately show "(\<forall>e. admitted_in e (wl_log s') \<le> unat (wa_ceiling_wei W))
        \<and> unat (snd (wl_window s')) = admitted_in (fst (wl_window s')) (wl_log s')
        \<and> (\<forall>e \<in> set (attempted_epochs (wl_log s')). e \<le> fst (wl_window s'))
        \<and> (attempted_epochs (wl_log s') \<noteq> [] \<longrightarrow> fst (wl_window s') \<in> set (attempted_epochs (wl_log s')))"
    using le by (simp add: epochs step(2))
qed

lemma window_inv_cong:
  assumes "window_inv W s" "spends (wl_log s') = spends (wl_log s)" "wl_window s' = wl_window s"
  shows "window_inv W s'"
  using assms by (simp add: window_inv_def attempted_epochs_def admitted_in_def)

lemma wallet_window:
  assumes "wallet_reachable W ps s" and cap: "wa_ceiling_wei W \<noteq> - 1"
  shows "window_inv W s"
  using assms(1)
proof (induction rule: wallet_reachable_induct)
  case (start s)
  then show ?case by (simp add: window_inv_def fresh_wallet_def attempted_epochs_def admitted_in_def)
next
  case (advance ps s i p' s')
  from advance(3) show ?case
  proof (cases rule: wallet_advance_cases)
    case (spending job block r)
    from try_spend_window [OF advance(1) cap spending(2)] show ?thesis .
  qed (rule window_inv_cong [OF advance(1)];
      simp add: same_wallet_def resync_def logged_def)+
next
  case (elsewhere ps s w)
  then show ?case by (rule window_inv_cong) simp_all
qed

lemma sum_filter_nonzero: "sum_list (map unat (filter (\<lambda>v. v \<noteq> 0) vs)) = sum_list (map unat vs)" for vs :: "u256 list"
  by (induction vs) auto

text \<open>C34. The cap bounds what leaves the wallet. However dispatches and reclaims
  interleave, and whatever the node answers: every amount put on the wire was
  admitted before, each admission is used at most once, and as long as the cap is
  asked for epochs that do not go back, the amounts admitted in any epoch are at
  most the ceiling. A ceiling of all ones is no ceiling, since the sum saturates.\<close>

theorem operator_spend_bounded:
  assumes r: "wallet_reachable W ps s" and "wa_ceiling_wei W \<noteq> - 1"
    and "sorted (attempted_epochs (wl_log s))"
  shows "admitted_in e (wl_log s) \<le> unat (wa_ceiling_wei W)
    \<and> mset (filter (\<lambda>v. v \<noteq> 0) (map tx_value (submitted (wl_log s)))) \<subseteq># mset (admitted_amounts (wl_log s))
    \<and> sum_list (map (unat \<circ> tx_value) (submitted (wl_log s))) \<le> sum_list (map unat (admitted_amounts (wl_log s)))"
proof (intro conjI)
  show "admitted_in e (wl_log s) \<le> unat (wa_ceiling_wei W)"
    using wallet_window [OF r assms(2)] assms(3) by (simp add: window_inv_def)
  have sub: "used_values s \<subseteq># granted_values s"
    using wallet_accounted [OF r] by (metis amounts.accounted_used)
  then show "mset (filter (\<lambda>v. v \<noteq> 0) (map tx_value (submitted (wl_log s)))) \<subseteq># mset (admitted_amounts (wl_log s))"
    by (simp only: used_values_def granted_values_def)
  have "sum_mset (image_mset unat (used_values s)) \<le> sum_mset (image_mset unat (granted_values s))"
    using sub by (metis (no_types, lifting) image_mset_union le_add1 subset_mset.add_diff_inverse sum_mset.union)
  then show "sum_list (map (unat \<circ> tx_value) (submitted (wl_log s))) \<le> sum_list (map unat (admitted_amounts (wl_log s)))"
    using sum_filter_nonzero [of "map tx_value (submitted (wl_log s))"]
    by (simp add: used_values_def granted_values_def sum_mset_sum_list flip: mset_map mset_filter)
qed

section \<open>Nonces in order\<close>

fun resyncs :: "wallet_event list \<Rightarrow> u64 list" where
  "resyncs [] = []"
| "resyncs (Resynced n # l) = n # resyncs l"
| "resyncs (x # l) = resyncs l"

lemma resyncs_append [simp]: "resyncs (l @ m) = resyncs l @ resyncs m"
  by (induction l rule: resyncs.induct) simp_all

definition nonces_from :: "u64 \<Rightarrow> nat \<Rightarrow> u64 list" where
  "nonces_from n k = map (\<lambda>i. n + of_nat i) [0..<k]"

definition nonce_inv :: "'w wallet_state \<Rightarrow> bool" where
  "nonce_inv s \<longleftrightarrow>
     (resyncs (wl_log s) = [] \<longrightarrow>
        (issued_nonces (wl_log s) = [] \<and> wl_nonce s = None)
        \<or> (\<exists>n k. 0 < k \<and> issued_nonces (wl_log s) = nonces_from n k \<and> wl_nonce s = Some (n + of_nat k)))"

lemma nonce_inv_cong:
  assumes "nonce_inv s" "issued_nonces (wl_log s') = issued_nonces (wl_log s)"
    "resyncs (wl_log s') = resyncs (wl_log s)" "wl_nonce s' = wl_nonce s"
  shows "nonce_inv s'"
  using assms by (simp add: nonce_inv_def)

lemma nonce_inv_reserved:
  assumes inv: "nonce_inv s" and "wl_nonce s = None \<or> wl_nonce s = Some n" "wl_nonce s' = Some (n + 1)"
    "wl_log s' = wl_log s @ [Issued n]"
  shows "nonce_inv s'"
  unfolding nonce_inv_def
proof
  assume "resyncs (wl_log s') = []"
  then have "resyncs (wl_log s) = []" using assms(4) by simp
  with inv consider "issued_nonces (wl_log s) = []"
    | m k where "0 < k" "issued_nonces (wl_log s) = nonces_from m k" "wl_nonce s = Some (m + of_nat k)"
    unfolding nonce_inv_def by blast
  then have "\<exists>m k. 0 < k \<and> issued_nonces (wl_log s') = nonces_from m k \<and> wl_nonce s' = Some (m + of_nat k)"
  proof cases
    case 1
    with assms show ?thesis by (intro exI [of _ n] exI [of _ 1]) (simp add: nonces_from_def)
  next
    case 2
    with assms show ?thesis by (intro exI [of _ m] exI [of _ "Suc k"]) (simp add: nonces_from_def ac_simps)
  qed
  then show "(issued_nonces (wl_log s') = [] \<and> wl_nonce s' = None)
    \<or> (\<exists>n k. 0 < k \<and> issued_nonces (wl_log s') = nonces_from n k \<and> wl_nonce s' = Some (n + of_nat k))" ..
qed

lemma wallet_nonces:
  assumes "wallet_reachable W ps s"
  shows "nonce_inv s"
  using assms
proof (induction rule: wallet_reachable_induct)
  case (start s)
  then show ?case by (simp add: nonce_inv_def fresh_wallet_def)
next
  case (advance ps s i p' s')
  from advance(3) show ?case
  proof (cases rule: wallet_advance_cases)
    case (spending job block r)
    from spending(2) show ?thesis by (rule try_spend_log) (auto intro: nonce_inv_cong [OF advance(1)])
  next
    case (reserved job n)
    then show ?thesis by (intro nonce_inv_reserved [OF advance(1)])
  next
    case (reset e n)
    then show ?thesis by (simp add: nonce_inv_def resync_def logged_def)
  qed (rule nonce_inv_cong [OF advance(1)]; simp add: same_wallet_def)+
next
  case (elsewhere ps s w)
  then show ?case by (rule nonce_inv_cong) simp_all
qed

lemma distinct_nonces_from: "k \<le> 2 ^ 64 \<Longrightarrow> distinct (nonces_from n k)"
proof -
  assume k: "k \<le> 2 ^ 64"
  have "i = j" if "i < k" "j < k" "(of_nat i :: u64) = of_nat j" for i j
  proof -
    have "unat (of_nat i :: u64) = i" "unat (of_nat j :: u64) = j"
      using that(1,2) k by (simp_all add: unat_of_nat take_bit_eq_mod)
    with that(3) show ?thesis by metis
  qed
  then show ?thesis by (auto simp: nonces_from_def distinct_map inj_on_def)
qed

lemma submset_distinct: "mset xs \<subseteq># mset ys \<Longrightarrow> distinct ys \<Longrightarrow> distinct xs"
  by (metis distinct_append ex_mset mset_append mset_eq_imp_distinct_iff subset_mset.add_diff_inverse)

text \<open>C35. While no failed submission has set the counter back, the nonces handed out
  are consecutive from the chain's, however the calls interleave, and no two
  transactions put on the wire carry the same one.\<close>

theorem operator_nonces_unique:
  assumes r: "wallet_reachable W ps s" and "resyncs (wl_log s) = []"
    and bound: "length (issued_nonces (wl_log s)) \<le> 2 ^ 64"
  shows "(\<exists>n. issued_nonces (wl_log s) = nonces_from n (length (issued_nonces (wl_log s))))
    \<and> distinct (map tx_nonce (submitted (wl_log s)))"
proof (intro conjI)
  obtain n k where n: "issued_nonces (wl_log s) = nonces_from n k"
    using wallet_nonces [OF r] assms(2) unfolding nonce_inv_def
    by (metis list.simps(8) nonces_from_def upt_0)
  then have k: "k = length (issued_nonces (wl_log s))" by (simp add: nonces_from_def)
  with n show "\<exists>n. issued_nonces (wl_log s) = nonces_from n (length (issued_nonces (wl_log s)))" by blast
  have "used_nonces s \<subseteq># granted_nonces s"
    using wallet_accounted [OF r] by (metis nonces.accounted_used)
  moreover have "distinct (issued_nonces (wl_log s))" using n k bound distinct_nonces_from by metis
  ultimately show "distinct (map tx_nonce (submitted (wl_log s)))"
    unfolding used_nonces_def granted_nonces_def by (rule submset_distinct)
qed

section \<open>Where the two managers fall short\<close>

text \<open>An epoch that is asked for again after another one starts from nothing: a task
  that read its block before the boundary and spends after it lets the next epoch
  spend twice.\<close>

theorem window_reset_exceeds_cap:
  assumes "wa_blocks_per_epoch W = 300" "wa_ceiling_wei W = 10" "fresh_wallet s"
  defines "s1 \<equiv> snd (try_spend W 10 300 s)"
  defines "s2 \<equiv> snd (try_spend W 5 299 s1)"
  defines "s3 \<equiv> snd (try_spend W 10 301 s2)"
  shows "admitted_in 1 (wl_log s3) = 20"
proof -
  have d: "(300 :: u64) div 300 = 1" "(299 :: u64) div 300 = 0" "(301 :: u64) div 300 = 1" by simp_all
  have "wl_window s1 = (1, 10)" "wl_log s1 = [Spend 1 10 True]"
    using assms(1-3) by (simp_all add: s1_def try_spend_def Let_def d fresh_wallet_def logged_def sat_add_def)
  then have "wl_window s2 = (0, 5)" "wl_log s2 = [Spend 1 10 True, Spend 0 5 True]"
    using assms(1,2) by (simp_all add: s2_def try_spend_def Let_def d logged_def sat_add_def)
  then have "wl_log s3 = [Spend 1 10 True, Spend 0 5 True, Spend 1 10 True]"
    using assms(1,2) by (simp add: s3_def try_spend_def Let_def d logged_def sat_add_def)
  then show ?thesis by (simp add: admitted_in_def)
qed

text \<open>A failed submission that sets the counter back to the chain's lets nonces that
  other calls hold be handed out again.\<close>

theorem resync_reissues_nonces:
  assumes "wl_nonce s = Some 5" "wl_log s = []"
  shows "issued_nonces (wl_log (snd (reserve_nonce W (snd (reserve_nonce W (resync 5
      (snd (reserve_nonce W (snd (reserve_nonce W s)))))))))) = [5, 6, 5, 6]"
  using assms by (simp add: reserve_nonce_def resync_def logged_def)

text \<open>A signature that fails leaves the nonce it was reserved unused: the call ends
  without setting the counter back, so that the next transaction waits for one
  that never comes.\<close>

theorem failed_signature_leaves_gap:
  assumes "wallet_advance W (Signing job tx) s = (Finished (Inl e), s')"
  shows "wl_nonce s' = wl_nonce s \<and> wl_log s' = wl_log s \<and> fst (wallet_advance W (Finished (Inl e)) s') = Finished (Inl e)"
  using assms by (auto split: prod.splits sum.splits)

section \<open>A sample wallet\<close>

lemma wallet_reachable_step:
  "wallet_reachable W ps s \<Longrightarrow> wallet_step W (ps, s) (ps', s') \<Longrightarrow> wallet_reachable W ps' s'"
  unfolding wallet_reachable_def by (meson rtranclp.rtrancl_into_rtrancl)

text \<open>A call run alone is one of the interleavings.\<close>

lemma wallet_run_reachable:
  assumes "wallet_reachable W ps s" "i < length ps" "wallet_run n W (ps ! i) s = (p', s')"
  shows "wallet_reachable W (ps[i := p']) s'"
  using assms
proof (induction n arbitrary: ps s)
  case (Suc n)
  obtain p1 s1 where a: "wallet_advance W (ps ! i) s = (p1, s1)" by (metis surj_pair)
  with Suc.prems have "wallet_reachable W (ps[i := p1]) s1"
    by (meson wallet_reachable_step wallet_step.advance)
  from Suc.IH [OF this] Suc.prems a show ?case by simp
qed auto

fun sample_chain_node :: "json \<Rightarrow> string + string + json" where
  "sample_chain_node body =
     Inr (Inr (JObj [(''result'',
       JStr (case field_str ''method'' body of
          Some m \<Rightarrow>
            if m = ''eth_blockNumber'' then ''0x'' @ lower_hex 300
            else if m = ''eth_getTransactionCount'' then ''0x'' @ lower_hex 5
            else if m = ''eth_gasPrice'' then ''0x'' @ lower_hex 1
            else prefixed_hex sample_lib (h256_bytes 77)
        | None \<Rightarrow> [])) ]))"

definition sample_wallet :: "nat wallet" where
  "sample_wallet =
     \<lparr> wa_lib = sample_lib,
       wa_rpc = \<lparr> rt_completes = (\<lambda>url body t. True), rt_post = (\<lambda>url body t. (sample_chain_node body, t + 1)), rt_now_ms = (\<lambda>t. (t, t)),
                  rt_sleep_ms = (\<lambda>d t. t + d) \<rparr>,
       wa_rpc_url = ''rpc'', wa_signer = \<lparr> sg_address = 9, sg_sign_hash = (\<lambda>h w. (Inr (0, h, h), w)) \<rparr>,
       wa_chain_id = 40204, wa_compute_pool = 4, wa_ceiling_wei = 100, wa_blocks_per_epoch = 300 \<rparr>"

definition sample_wallet_start :: "nat wallet_state" where
  "sample_wallet_start = \<lparr> wl_nonce = None, wl_window = (0, 0), wl_log = [], wl_world = 0 \<rparr>"

lemma sample_wallet_rpc:
  "wallet_rpc sample_wallet m params s =
     (Inr (JStr (if m = ''eth_blockNumber'' then ''0x'' @ lower_hex 300
            else if m = ''eth_getTransactionCount'' then ''0x'' @ lower_hex 5
            else if m = ''eth_gasPrice'' then ''0x'' @ lower_hex 1
            else prefixed_hex sample_lib (h256_bytes 77))), s\<lparr> wl_world := wl_world s + 1 \<rparr>)"
  by (simp add: wallet_rpc_def sample_wallet_def rpc_body_def field_str_def)

lemma sample_wallet_numbers:
  "eth_block_number sample_wallet s = (Inr 300, s\<lparr> wl_world := wl_world s + 1 \<rparr>)"
  "eth_get_transaction_count sample_wallet a s = (Inr 5, s\<lparr> wl_world := wl_world s + 1 \<rparr>)"
  "eth_gas_price sample_wallet s = (Inr 1, s\<lparr> wl_world := wl_world s + 1 \<rparr>)"
  using u64_lower_hex [of 300] u64_lower_hex [of 5] u64_lower_hex [of 1]
  by (simp_all add: eth_block_number_def eth_get_transaction_count_def eth_gas_price_def wallet_number_def
      sample_wallet_rpc parse_hex_u64_def)

lemma sample_wallet_send:
  "eth_send_raw_transaction sample_wallet raw s = (Inr 77, s\<lparr> wl_world := wl_world s + 1 \<rparr>)"
  using unprefixed_hex [OF sample_codecs_ok sample_hex_plain, of "h256_bytes 77"]
  by (simp add: eth_send_raw_transaction_def sample_wallet_rpc) (simp add: sample_wallet_def)

lemma wallet_run_numeral:
  "wallet_run (numeral k) W p s =
     (case wallet_advance W p s of (p', s') \<Rightarrow> wallet_run (pred_numeral k) W p' s')"
  by (subst numeral_eq_Suc) (rule wallet_run.simps(2))

text \<open>A dispatch of 40 of the 100 the wallet may spend, run to its end.\<close>

definition sample_job :: wallet_job where
  "sample_job = Pool_Compute 3 [1, 2, 3] 50 40"

lemma sample_dispatch:
  obtains s where "wallet_reachable sample_wallet [Finished (Inr 77)] s"
    and "wl_log s = [Spend 1 40 True, Issued 5, Submitted (job_tx sample_wallet sample_job 5 1)]"
proof -
  have fields: "wa_blocks_per_epoch sample_wallet = 300" "wa_ceiling_wei sample_wallet = 100"
    "wa_lib sample_wallet = sample_lib"
    "wa_signer sample_wallet = \<lparr> sg_address = 9, sg_sign_hash = (\<lambda>h w. (Inr (0, h, h), w)) \<rparr>"
    by (simp_all add: sample_wallet_def)
  have spend: "try_spend sample_wallet 40 300 s =
    (Inr (), logged (Spend 1 40 True) (s\<lparr> wl_window := (1, 40) \<rparr>))" if "wl_window s = (0, 0)" for s
    using that by (simp add: try_spend_def fields sat_add_def Let_def)
  have start: "wl_window sample_wallet_start = (0, 0)" "wl_nonce sample_wallet_start = None"
    "wl_log sample_wallet_start = []" "job_value sample_job = 40"
    "job_start sample_job = Reading_Block sample_job"
    by (simp_all add: sample_wallet_start_def sample_job_def)
  define tx where "tx = job_tx sample_wallet sample_job 5 1"
  obtain raw where raw: "sign_settlement_tx_with sample_lib (wa_signer sample_wallet) tx w = (Inr raw, w)" for w
    by (simp add: sign_settlement_tx_with_def fields)
  have "\<exists>s. wallet_run 8 sample_wallet (job_start sample_job) sample_wallet_start = (Finished (Inr 77), s)
    \<and> wl_log s = [Spend 1 40 True, Issued 5, Submitted tx]"
    by (simp add: wallet_run_numeral start sample_wallet_numbers spend reserve_nonce_def logged_def fields(3)
        tx_def [symmetric] raw sample_wallet_send)
  then have "\<exists>s. wallet_run 8 sample_wallet (job_start sample_job) sample_wallet_start = (Finished (Inr 77), s)
    \<and> wl_log s = [Spend 1 40 True, Issued 5, Submitted (job_tx sample_wallet sample_job 5 1)]"
    by (simp add: tx_def)
  then obtain s where run: "wallet_run 8 sample_wallet (job_start sample_job) sample_wallet_start = (Finished (Inr 77), s)"
    and log: "wl_log s = [Spend 1 40 True, Issued 5, Submitted (job_tx sample_wallet sample_job 5 1)]" by blast
  have "fresh_wallet sample_wallet_start" by (simp add: fresh_wallet_def sample_wallet_start_def)
  then have "wallet_reachable sample_wallet [] sample_wallet_start"
    unfolding wallet_reachable_def by blast
  from wallet_reachable_step [OF this wallet_step.spawn [of _ _ _ sample_job]]
  have "wallet_reachable sample_wallet [job_start sample_job] sample_wallet_start" by simp
  from wallet_run_reachable [OF this, of 0 8] run
  have "wallet_reachable sample_wallet [Finished (Inr 77)] s" by simp
  with log that show thesis by blast
qed

theorem operator_spend_bounded_witness:
  "\<exists>s. wallet_reachable sample_wallet [Finished (Inr 77)] s
    \<and> map tx_value (submitted (wl_log s)) = [40] \<and> admitted_in 1 (wl_log s) \<le> 100"
proof -
  obtain s where s: "wallet_reachable sample_wallet [Finished (Inr 77)] s"
    and log: "wl_log s = [Spend 1 40 True, Issued 5, Submitted (job_tx sample_wallet sample_job 5 1)]"
    by (rule sample_dispatch)
  have "wa_ceiling_wei sample_wallet \<noteq> - 1" "unat (wa_ceiling_wei sample_wallet) = 100"
    by (simp_all add: sample_wallet_def)
  moreover have "sorted (attempted_epochs (wl_log s))" by (simp add: log attempted_epochs_def)
  ultimately have "admitted_in 1 (wl_log s) \<le> 100"
    using operator_spend_bounded [OF s, of 1] by simp
  with s log show ?thesis by (auto simp: job_tx_def sample_job_def)
qed

theorem operator_nonces_unique_witness:
  "\<exists>s. wallet_reachable sample_wallet [Finished (Inr 77)] s
    \<and> map tx_nonce (submitted (wl_log s)) = [5] \<and> (\<exists>n. issued_nonces (wl_log s) = nonces_from n 1)"
proof -
  obtain s where s: "wallet_reachable sample_wallet [Finished (Inr 77)] s"
    and log: "wl_log s = [Spend 1 40 True, Issued 5, Submitted (job_tx sample_wallet sample_job 5 1)]"
    by (rule sample_dispatch)
  have "map tx_nonce (submitted (wl_log s)) = [5]" by (simp add: log job_tx_def)
  moreover have "\<exists>n. issued_nonces (wl_log s) = nonces_from n 1"
  proof -
    have l: "issued_nonces (wl_log s) = [5]" "resyncs (wl_log s) = []" by (simp_all add: log)
    have "length (issued_nonces (wl_log s)) \<le> 2 ^ 64" by (simp add: l(1))
    from operator_nonces_unique [OF s l(2) this, THEN conjunct1] show ?thesis
      by (simp only: l(1) length_Cons list.size(3) One_nat_def)
  qed
  ultimately show ?thesis by (intro exI [of _ s] conjI s)
qed

end
