(* ===== verification/Operator_Custody.thy ===== *)
theory Operator_Custody
  imports Operator_Wallet Rust_Text
begin

text \<open>
  Who signs for the operator: the signers of \<open>crates/x402-axum/src/sign_tx.rs\<close> and
  \<open>gateway/src/signer.rs\<close> - a local key, an encrypted key file, and the key
  management service, which keeps the key and returns only \<open>(r, s)\<close> - and
  \<open>from_env\<close>, which chooses between them. The curve, the key-file format, the
  request signer and the HTTP client are parameters.
\<close>

section \<open>Recovery\<close>

text \<open>The curve: the point, in 65 bytes, that a signature over a digest recovers to,
  the DER form of a signature, and the normalized form when it is not low-S.\<close>

record curve =
  cv_recover :: "bytes \<Rightarrow> bytes \<Rightarrow> bytes \<Rightarrow> u8 \<Rightarrow> bytes option"
  cv_from_der :: "bytes \<Rightarrow> string + bytes \<times> bytes"
  cv_normalize_s :: "bytes \<times> bytes \<Rightarrow> (bytes \<times> bytes) option"

definition point_address :: "x402_lib \<Rightarrow> bytes \<Rightarrow> h160" where
  "point_address X point = word_from_slice (drop 12 (h256_bytes (keccak X (drop 1 point))))"

definition ecrecover :: "x402_lib \<Rightarrow> curve \<Rightarrow> bytes \<Rightarrow> bytes \<Rightarrow> bytes \<Rightarrow> u8 \<Rightarrow> h160 option" where
  "ecrecover X C hash r s recovery_id =
     map_option (point_address X) (cv_recover C hash r s recovery_id)"

definition recover_id :: "x402_lib \<Rightarrow> curve \<Rightarrow> bytes \<Rightarrow> bytes \<Rightarrow> bytes \<Rightarrow> h160 \<Rightarrow> u8 option" where
  "recover_id X C hash r s expected =
     find (\<lambda>i. ecrecover X C hash r s i = Some expected) [0, 1]"

definition parse_kms_der_signature :: "curve \<Rightarrow> bytes \<Rightarrow> gateway_error + bytes \<times> bytes" where
  "parse_kms_der_signature C der =
     (case cv_from_der C der of
        Inl e \<Rightarrow> Inl (GatewayInternal (''kms DER signature: '' @ e))
      | Inr sig \<Rightarrow> Inr (case cv_normalize_s C sig of Some low \<Rightarrow> low | None \<Rightarrow> sig))"

definition address_from_spki :: "x402_lib \<Rightarrow> bytes \<Rightarrow> gateway_error + h160" where
  "address_from_spki X spki =
     (if length spki < 65 then Inl (GatewayInternal ''kms SPKI too short'')
      else
        let point = drop (length spki - 65) spki in
        if point ! 0 \<noteq> 4 then Inl (GatewayInternal ''kms SPKI not an uncompressed point'')
        else Inr (point_address X point))"

section \<open>The local key and the encrypted key file\<close>

definition local_signer :: "x402_lib \<Rightarrow> bytes \<Rightarrow> x402_error + 'w signer" where
  "local_signer X secret =
     (case derive_secp256k1_address X secret of
        None \<Rightarrow> Inl (InternalError ''invalid operator secret'')
      | Some a \<Rightarrow>
          Inr \<lparr> sg_address = a,
                sg_sign_hash = (\<lambda>hash w.
                  ((case sign_digest_secp256k1 X secret hash of
                      Inl e \<Rightarrow> Inl e
                    | Inr (v27, r, s) \<Rightarrow> Inr (v27 - 27, r, s)), w)) \<rparr>)"

definition encrypted_file_signer ::
  "x402_lib \<Rightarrow> (string \<Rightarrow> string \<Rightarrow> string + bytes) \<Rightarrow> string \<Rightarrow> string \<Rightarrow> gateway_error + 'w signer" where
  "encrypted_file_signer X decrypt path password =
     (case decrypt path password of
        Inl e \<Rightarrow> Inl (GatewayInternal (''keystore decrypt: '' @ e))
      | Inr secret \<Rightarrow>
          if length secret \<noteq> 32 then Inl (GatewayInternal ''keystore key is not 32 bytes'')
          else
            case local_signer X secret of
              Inl e \<Rightarrow> Inl (GatewayInternal (''keystore key invalid: '' @ error_display e))
            | Inr sg \<Rightarrow> Inr sg)"

section \<open>The key management service\<close>

datatype sigv4_error = SigParams string | SigSignable string | SigSign string

fun sigv4_text :: "sigv4_error \<Rightarrow> string" where
  "sigv4_text (SigParams e) = ''sigv4 params: '' @ e"
| "sigv4_text (SigSignable e) = ''sigv4 signable: '' @ e"
| "sigv4_text (SigSign e) = ''sigv4 sign: '' @ e"

record kms_config =
  km_endpoint :: string
  km_host :: string
  km_region :: string
  km_key_id :: string
  km_access_key :: string
  km_secret_key :: string
  km_session_token :: "string option"

text \<open>Encoding and decoding of JSON, the request signer, which reads the clock, one
  POST with the status and the body of its answer, and the text of a status.\<close>

record 'w kms_host =
  kh_encode :: "json \<Rightarrow> string + bytes"
  kh_decode :: "string \<Rightarrow> string + json"
  kh_sign :: "kms_config \<Rightarrow> (string \<times> string) list \<Rightarrow> bytes \<Rightarrow> 'w
    \<Rightarrow> (sigv4_error + (string \<times> string) list) \<times> 'w"
  kh_post :: "string \<Rightarrow> (string \<times> string) list \<Rightarrow> bytes \<Rightarrow> 'w
    \<Rightarrow> (string + nat \<times> (string + string)) \<times> 'w"
  kh_status_text :: "nat \<Rightarrow> string"

definition kms_json :: string where
  "kms_json = ''application/x-amz-json-1.1''"

definition kms_answer :: "'w kms_host \<Rightarrow> string \<Rightarrow> nat \<Rightarrow> string \<Rightarrow> gateway_error + json" where
  "kms_answer H target status body =
     (if \<not> is_success status
      then Inl (GatewayInternal (''kms '' @ target @ '' '' @ kh_status_text H status @ '': '' @ body))
      else
        case kh_decode H body of
          Inl e \<Rightarrow> Inl (GatewayInternal (''kms response decode: '' @ e))
        | Inr v \<Rightarrow> Inr v)"

definition kms_call ::
  "'w kms_host \<Rightarrow> kms_config \<Rightarrow> string \<Rightarrow> json \<Rightarrow> 'w \<Rightarrow> (gateway_error + json) \<times> 'w" where
  "kms_call H cfg target body w =
     (case kh_encode H body of
        Inl e \<Rightarrow> (Inl (GatewayInternal (''kms body encode: '' @ e)), w)
      | Inr body_bytes \<Rightarrow>
          (case kh_sign H cfg [(''host'', km_host cfg), (''x-amz-target'', target),
                  (''content-type'', kms_json)] body_bytes w of
             (Inl e, w) \<Rightarrow> (Inl (GatewayInternal (sigv4_text e)), w)
           | (Inr sig_headers, w) \<Rightarrow>
               (case kh_post H (km_endpoint cfg)
                       ([(''x-amz-target'', target), (''content-type'', kms_json)] @ sig_headers)
                       body_bytes w of
                  (Inl e, w) \<Rightarrow> (Inl (ChainUnavailable (''kms transport: '' @ e)), w)
                | (Inr (status, Inl e), w) \<Rightarrow> (Inl (ChainUnavailable (''kms body: '' @ e)), w)
                | (Inr (status, Inr text_body), w) \<Rightarrow> (kms_answer H target status text_body, w))))"

text \<open>A base64 field of an answer.\<close>

definition kms_field ::
  "x402_lib \<Rightarrow> string \<Rightarrow> string \<Rightarrow> string \<Rightarrow> json \<Rightarrow> gateway_error + bytes" where
  "kms_field X field missing broken v =
     (case Option.bind (json_get field v) json_str of
        None \<Rightarrow> Inl (GatewayInternal missing)
      | Some t \<Rightarrow>
          (case b64_decode X t of
             Inl e \<Rightarrow> Inl (GatewayInternal (broken @ e))
           | Inr b \<Rightarrow> Inr b))"

definition kms_sign_request :: "x402_lib \<Rightarrow> string \<Rightarrow> bytes \<Rightarrow> json" where
  "kms_sign_request X key_id hash =
     JObj [(''KeyId'', JStr key_id), (''Message'', JStr (b64_encode X hash)),
           (''MessageType'', JStr ''DIGEST''), (''SigningAlgorithm'', JStr ''ECDSA_SHA_256'')]"

definition kms_signature ::
  "x402_lib \<Rightarrow> curve \<Rightarrow> h160 \<Rightarrow> bytes \<Rightarrow> json \<Rightarrow> x402_error + u8 \<times> bytes \<times> bytes" where
  "kms_signature X C address hash v =
     (case kms_field X ''Signature'' ''kms Sign: no Signature'' ''kms Signature base64: '' v of
        Inl (GatewayInternal m) \<Rightarrow> Inl (InternalError m)
      | Inl e \<Rightarrow> Inl (InternalError (gateway_display e))
      | Inr der \<Rightarrow>
          (case parse_kms_der_signature C der of
             Inl e \<Rightarrow> Inl (InternalError (gateway_display e))
           | Inr (r, s) \<Rightarrow>
               (case recover_id X C hash r s address of
                  None \<Rightarrow> Inl (InternalError ''kms signature did not recover operator'')
                | Some recovery_id \<Rightarrow> Inr (recovery_id, r, s))))"

definition kms_sign_hash ::
  "x402_lib \<Rightarrow> curve \<Rightarrow> 'w kms_host \<Rightarrow> kms_config \<Rightarrow> h160 \<Rightarrow> bytes \<Rightarrow> 'w
   \<Rightarrow> (x402_error + u8 \<times> bytes \<times> bytes) \<times> 'w" where
  "kms_sign_hash X C H cfg address hash w =
     (case kms_call H cfg ''TrentService.Sign'' (kms_sign_request X (km_key_id cfg) hash) w of
        (Inl e, w) \<Rightarrow> (Inl (InternalError (gateway_display e)), w)
      | (Inr v, w) \<Rightarrow> (kms_signature X C address hash v, w))"

definition nonempty_env :: "(string \<Rightarrow> string option) \<Rightarrow> string \<Rightarrow> string option" where
  "nonempty_env env k = (case env k of None \<Rightarrow> None | Some s \<Rightarrow> if s = [] then None else Some s)"

definition kms_config_from_env ::
  "(string \<Rightarrow> string option) \<Rightarrow> string \<Rightarrow> gateway_error + kms_config" where
  "kms_config_from_env env key_id =
     (case (case nonempty_env env ''AWS_REGION'' of
              Some r \<Rightarrow> Some r | None \<Rightarrow> nonempty_env env ''AWS_DEFAULT_REGION'') of
        None \<Rightarrow> Inl (GatewayInternal ''set AWS_REGION for the KMS signer'')
      | Some region \<Rightarrow>
          (case nonempty_env env ''AWS_ACCESS_KEY_ID'' of
             None \<Rightarrow> Inl (GatewayInternal ''set AWS_ACCESS_KEY_ID'')
           | Some access \<Rightarrow>
               (case nonempty_env env ''AWS_SECRET_ACCESS_KEY'' of
                  None \<Rightarrow> Inl (GatewayInternal ''set AWS_SECRET_ACCESS_KEY'')
                | Some secret \<Rightarrow>
                    let host = ''kms.'' @ region @ ''.amazonaws.com'' in
                    Inr \<lparr> km_endpoint = ''https://'' @ host @ ''/'', km_host = host,
                          km_region = region, km_key_id = key_id, km_access_key = access,
                          km_secret_key = secret,
                          km_session_token = nonempty_env env ''AWS_SESSION_TOKEN'' \<rparr>)))"

definition kms_address :: "x402_lib \<Rightarrow> json \<Rightarrow> gateway_error + h160" where
  "kms_address X v =
     (case kms_field X ''PublicKey'' ''kms GetPublicKey: no PublicKey'' ''kms PublicKey base64: '' v of
        Inl e \<Rightarrow> Inl e
      | Inr spki \<Rightarrow> address_from_spki X spki)"

definition kms_signer_from_env ::
  "x402_lib \<Rightarrow> curve \<Rightarrow> 'w kms_host \<Rightarrow> (string \<Rightarrow> string option) \<Rightarrow> string \<Rightarrow> 'w
   \<Rightarrow> (gateway_error + 'w signer) \<times> 'w" where
  "kms_signer_from_env X C H env key_id w =
     (case kms_config_from_env env key_id of
        Inl e \<Rightarrow> (Inl e, w)
      | Inr cfg \<Rightarrow>
          (case kms_call H cfg ''TrentService.GetPublicKey'' (JObj [(''KeyId'', JStr key_id)]) w of
             (Inl e, w) \<Rightarrow> (Inl e, w)
           | (Inr v, w) \<Rightarrow>
               ((case kms_address X v of
                   Inl e \<Rightarrow> Inl e
                 | Inr a \<Rightarrow> Inr \<lparr> sg_address = a, sg_sign_hash = kms_sign_hash X C H cfg a \<rparr>), w)))"

section \<open>The wallet from the environment\<close>

text \<open>What the choice of custody runs on: the build's \<open>aws-kms\<close> feature, the text of
  a file, and the key file opened with a password.\<close>

record 'w custody =
  cu_lib :: x402_lib
  cu_curve :: curve
  cu_rpc :: "'w rpc_transport"
  cu_kms :: "'w kms_host"
  cu_aws_kms :: bool
  cu_read_text :: "string \<Rightarrow> 'w \<Rightarrow> string option"
  cu_decrypt :: "'w \<Rightarrow> string \<Rightarrow> string \<Rightarrow> string + bytes"

definition parse_addr_env :: "x402_lib \<Rightarrow> (string \<Rightarrow> string option) \<Rightarrow> string \<Rightarrow> gateway_error + h160" where
  "parse_addr_env X env key =
     (case env key of
        None \<Rightarrow> Inl (GatewayInternal (''set '' @ key))
      | Some s \<Rightarrow>
          (case hex_decode X (unprefixed s) of
             Inl e \<Rightarrow> Inl (GatewayInternal (key @ '': bad hex: '' @ e))
           | Inr b \<Rightarrow>
               if length b \<noteq> 20 then Inl (GatewayInternal (key @ '': not a 20-byte address''))
               else Inr (word_from_slice b)))"

definition long_dash :: string where
  "long_dash = map char_of [0xE2, 0x80, 0x94 :: nat]"

definition kms_unbuilt :: gateway_error where
  "kms_unbuilt = GatewayInternal (''CITRATE_GATEWAY_KMS_KEY_ID is set but this gateway was built without the `aws-kms` feature '' @ long_dash @ '' rebuild with `--features aws-kms`.'')"

definition local_signer_refused :: gateway_error where
  "local_signer_refused = GatewayInternal (''CITRATE_GATEWAY_OPERATOR_KEYSTORE is set but CITRATE_GATEWAY_ALLOW_LOCAL_SIGNER=1 is required '' @ long_dash @ '' the encrypted-file signer is DEV/TESTNET only; mainnet must use AWS KMS (--features aws-kms).'')"

definition keystore_password :: "'w custody \<Rightarrow> (string \<Rightarrow> string option) \<Rightarrow> 'w \<Rightarrow> string option" where
  "keystore_password U env w =
     (case env ''CITRATE_GATEWAY_OPERATOR_KEYSTORE_PASSWORD'' of
        Some p \<Rightarrow> Some p
      | None \<Rightarrow>
          map_option str_trim
            (Option.bind (env ''CITRATE_GATEWAY_OPERATOR_KEYSTORE_PASSWORD_FILE'')
               (\<lambda>p. cu_read_text U p w)))"

definition kms_custody ::
  "'w custody \<Rightarrow> (string \<Rightarrow> string option) \<Rightarrow> string \<Rightarrow> 'w \<Rightarrow> (gateway_error + 'w signer) \<times> 'w" where
  "kms_custody U env key_id w =
     (if cu_aws_kms U then kms_signer_from_env (cu_lib U) (cu_curve U) (cu_kms U) env key_id w
      else (Inl kms_unbuilt, w))"

definition file_custody ::
  "'w custody \<Rightarrow> (string \<Rightarrow> string option) \<Rightarrow> string \<Rightarrow> 'w \<Rightarrow> gateway_error + 'w signer" where
  "file_custody U env path w =
     (if env ''CITRATE_GATEWAY_ALLOW_LOCAL_SIGNER'' \<noteq> Some ''1'' then Inl local_signer_refused
      else
        case keystore_password U env w of
          None \<Rightarrow> Inl (GatewayInternal ''set CITRATE_GATEWAY_OPERATOR_KEYSTORE_PASSWORD or ..._PASSWORD_FILE'')
        | Some password \<Rightarrow> encrypted_file_signer (cu_lib U) (cu_decrypt U w) path password)"

definition spend_ceiling :: "x402_lib \<Rightarrow> (string \<Rightarrow> string option) \<Rightarrow> u256 option" where
  "spend_ceiling X env =
     Option.bind (env ''CITRATE_GATEWAY_OPERATOR_SPEND_CAP_WEI'')
       (\<lambda>s. case u256_of_dec X s of Inl e \<Rightarrow> None | Inr n \<Rightarrow> Some n)"

definition epoch_blocks :: "(string \<Rightarrow> string option) \<Rightarrow> u64" where
  "epoch_blocks env =
     (case Option.bind (env ''CITRATE_GATEWAY_OPERATOR_EPOCH_BLOCKS'') (parse_uint (2 ^ 64 - 1)) of
        None \<Rightarrow> 300
      | Some n \<Rightarrow> of_nat n)"

definition operator_wallet_from_env ::
  "'w custody \<Rightarrow> (string \<Rightarrow> string option) \<Rightarrow> string \<Rightarrow> u64 \<Rightarrow> 'w
   \<Rightarrow> (gateway_error + ('w wallet \<times> 'w wallet_state) option) \<times> 'w" where
  "operator_wallet_from_env U env url chain_id w =
     (let kms = nonempty_env env ''CITRATE_GATEWAY_KMS_KEY_ID'';
          keystore = nonempty_env env ''CITRATE_GATEWAY_OPERATOR_KEYSTORE''
      in if kms = None \<and> keystore = None then (Inr None, w)
         else
           case parse_addr_env (cu_lib U) env ''CITRATE_GATEWAY_COMPUTE_POOL'' of
             Inl e \<Rightarrow> (Inl e, w)
           | Inr pool \<Rightarrow>
               (case spend_ceiling (cu_lib U) env of
                  None \<Rightarrow> (Inl (GatewayInternal
                     ''set CITRATE_GATEWAY_OPERATOR_SPEND_CAP_WEI (operator blast-radius bound)''), w)
                | Some ceiling \<Rightarrow>
                    (case (case kms of
                             Some key_id \<Rightarrow> kms_custody U env key_id w
                           | None \<Rightarrow> (file_custody U env (the keystore) w, w)) of
                       (Inl e, w) \<Rightarrow> (Inl e, w)
                     | (Inr sg, w) \<Rightarrow>
                         (Inr (Some (new_wallet (cu_lib U) (cu_rpc U) url sg chain_id pool ceiling
                                       (epoch_blocks env) w)), w))))"

section \<open>Signatures\<close>

lemma recover_id_iff:
  "recover_id X C hash r s a = Some i \<longleftrightarrow>
     ecrecover X C hash r s i = Some a \<and> (i = 0 \<or> i = 1 \<and> ecrecover X C hash r s 0 \<noteq> Some a)"
  by (auto simp: recover_id_def)

text \<open>Normalizing is idempotent: a low-S signature is already normalized.\<close>

definition low_s_stable :: "curve \<Rightarrow> bool" where
  "low_s_stable C \<longleftrightarrow> (\<forall>sig low. cv_normalize_s C sig = Some low \<longrightarrow> cv_normalize_s C low = None)"

lemma parse_kms_der_low_s:
  assumes "low_s_stable C" "parse_kms_der_signature C der = Inr sig"
  shows "cv_normalize_s C sig = None"
  using assms by (auto simp: parse_kms_der_signature_def low_s_stable_def split: sum.splits option.splits)

lemma kms_signature_InrE:
  assumes "kms_signature X C a hash v = Inr (i, r, s)"
  obtains der where "parse_kms_der_signature C der = Inr (r, s)" "recover_id X C hash r s a = Some i"
  using assms
  by (auto simp: kms_signature_def split: sum.splits option.splits prod.splits gateway_error.splits)

lemma kms_sign_hash_InrE:
  assumes "kms_sign_hash X C H cfg a hash w = (Inr (i, r, s), w')"
  obtains der where "parse_kms_der_signature C der = Inr (r, s)" "recover_id X C hash r s a = Some i"
proof -
  from assms obtain v where "kms_signature X C a hash v = Inr (i, r, s)"
    by (auto simp: kms_sign_hash_def split: prod.splits sum.splits)
  then show thesis by (rule kms_signature_InrE) (rule that)
qed

text \<open>What a signature promises: it recovers to the operator with one of the two
  ids that \<open>v\<close> can carry, and it is low-S.\<close>

definition signs_for :: "x402_lib \<Rightarrow> curve \<Rightarrow> h160 \<Rightarrow> bytes \<Rightarrow> u8 \<times> bytes \<times> bytes \<Rightarrow> bool" where
  "signs_for X C a hash = (\<lambda>(i, r, s).
     (i = 0 \<or> i = 1) \<and> ecrecover X C hash r s i = Some a \<and> cv_normalize_s C (r, s) = None)"

lemma kms_sign_hash_signs:
  assumes "low_s_stable C" "kms_sign_hash X C H cfg a hash w = (Inr sig, w')"
  shows "signs_for X C a hash sig"
proof -
  obtain i r s where sig: "sig = (i, r, s)" by (cases sig)
  with assms(2) have "kms_sign_hash X C H cfg a hash w = (Inr (i, r, s), w')" by simp
  then obtain der where "parse_kms_der_signature C der = Inr (r, s)" "recover_id X C hash r s a = Some i"
    by (rule kms_sign_hash_InrE)
  then show ?thesis
    using parse_kms_der_low_s [OF assms(1)] by (auto simp: signs_for_def sig recover_id_iff)
qed

text \<open>What the curve library promises for a key: of the two candidate ids, the one its
  own signature came with is the one that recovers to the key's address.\<close>

definition recovers_key :: "x402_lib \<Rightarrow> curve \<Rightarrow> bytes \<Rightarrow> bytes \<Rightarrow> bool" where
  "recovers_key X C secret hash \<longleftrightarrow>
     (\<forall>i r s a. sign_prehash X secret hash = Inr (i, r, s) \<longrightarrow>
        derive_secp256k1_address X secret = Some a \<longrightarrow>
        (i = 0 \<or> i = 1) \<and> ecrecover X C hash r s i = Some a \<and> ecrecover X C hash r s (1 - i) \<noteq> Some a)"

lemma recovers_key_id:
  assumes "recovers_key X C secret hash" "sign_prehash X secret hash = Inr (i, r, s)"
    "derive_secp256k1_address X secret = Some a" "recover_id X C hash r s a = Some j"
  shows "j = i"
proof -
  from assms(1-3) have i: "i = 0 \<or> i = 1" "ecrecover X C hash r s i = Some a"
    "ecrecover X C hash r s (1 - i) \<noteq> Some a" unfolding recovers_key_def by blast+
  from assms(4) have "j = 0 \<or> j = 1" "ecrecover X C hash r s j = Some a" by (auto simp: recover_id_iff)
  with i show ?thesis by auto
qed

lemma local_signerD:
  assumes "local_signer X secret = Inr sg"
  shows "derive_secp256k1_address X secret = Some (sg_address sg)" "signing_key_error X secret = None"
    "sg_sign_hash sg hash w =
       ((case sign_prehash X secret hash of
           Inl e \<Rightarrow> Inl (InternalError (''sign failed: '' @ e)) | Inr sig \<Rightarrow> Inr sig), w)"
proof -
  show "derive_secp256k1_address X secret = Some (sg_address sg)"
    using assms by (auto simp: local_signer_def split: option.splits)
  then show key: "signing_key_error X secret = None"
    by (auto simp: derive_secp256k1_address_def split: option.splits)
  show "sg_sign_hash sg hash w =
     ((case sign_prehash X secret hash of
         Inl e \<Rightarrow> Inl (InternalError (''sign failed: '' @ e)) | Inr sig \<Rightarrow> Inr sig), w)"
    using assms key
    by (auto simp: local_signer_def sign_digest_secp256k1_def split: option.splits sum.splits prod.splits)
qed

lemma local_path_is_direct:
  assumes "local_signer X secret = Inr sg"
  shows "sign_settlement_tx_with X sg tx w = (sign_settlement_tx X tx secret, w)"
  by (simp add: sign_settlement_tx_with_def sign_settlement_tx_def try_then_def local_signerD [OF assms]
      split: sum.split prod.split)

abbreviation sighash :: "x402_lib \<Rightarrow> settlement_tx \<Rightarrow> bytes" where
  "sighash X tx \<equiv> h256_bytes (keccak X (encode_unsigned_rlp X tx))"

lemma kms_path_is_direct:
  assumes local: "local_signer X secret = Inr sg"
    and curve: "recovers_key X C secret (sighash X tx)"
    and pair: "sign_prehash X secret (sighash X tx) = Inr (j, r, s)"
    and kms: "kms_sign_hash X C H cfg (sg_address sg) (sighash X tx) w = (Inr (i, r, s), w')"
  shows "sign_settlement_tx_with X \<lparr> sg_address = sg_address sg,
      sg_sign_hash = kms_sign_hash X C H cfg (sg_address sg) \<rparr> tx w = (sign_settlement_tx X tx secret, w')"
proof -
  from kms_sign_hash_InrE [OF kms] have "recover_id X C (sighash X tx) r s (sg_address sg) = Some i" .
  with recovers_key_id [OF curve pair local_signerD(1) [OF local]] have "i = j" by simp
  then show ?thesis
    using kms pair local_signerD(2) [OF local]
    by (simp add: sign_settlement_tx_with_def sign_settlement_tx_def try_then_def)
qed

text \<open>C38. A transaction signed through the signer interface is, byte for byte and error
  for error, the one signed directly with the key: by a local signer always, and by
  the key management service whenever it holds the key and answers the same \<open>(r, s)\<close>,
  since the recovery id it does not send is found again from the address.\<close>

theorem signing_paths_agree:
  assumes "local_signer X secret = Inr sg" "recovers_key X C secret (sighash X tx)"
  shows "sign_settlement_tx_with X sg tx w = (sign_settlement_tx X tx secret, w)
    \<and> (\<forall>H cfg i j r s w'. sign_prehash X secret (sighash X tx) = Inr (j, r, s) \<longrightarrow>
         kms_sign_hash X C H cfg (sg_address sg) (sighash X tx) w = (Inr (i, r, s), w') \<longrightarrow>
         sign_settlement_tx_with X \<lparr> sg_address = sg_address sg,
             sg_sign_hash = kms_sign_hash X C H cfg (sg_address sg) \<rparr> tx w
           = (sign_settlement_tx X tx secret, w'))"
  by (intro conjI allI impI) (rule local_path_is_direct [OF assms(1)], rule kms_path_is_direct [OF assms])

section \<open>Custody\<close>

lemma new_wallet_fresh: "new_wallet X R url sg c pool ceiling blocks w = (W, s) \<Longrightarrow>
  wa_signer W = sg \<and> wa_compute_pool W = pool \<and> wa_ceiling_wei W = ceiling
  \<and> wa_blocks_per_epoch W = max blocks 1 \<and> fresh_wallet s"
  by (auto simp: new_wallet_def fresh_wallet_def)

lemma encrypted_file_signer_InrE:
  assumes "encrypted_file_signer X decrypt path password = Inr sg"
  obtains secret where "decrypt path password = Inr secret" "length secret = 32"
    "local_signer X secret = Inr sg"
  using assms by (auto simp: encrypted_file_signer_def split: sum.splits if_splits)

lemma file_custody_InrE:
  assumes "file_custody U env path w = Inr sg"
  obtains password secret where "env ''CITRATE_GATEWAY_ALLOW_LOCAL_SIGNER'' = Some ''1''"
    "keystore_password U env w = Some password" "cu_decrypt U w path password = Inr secret"
    "length secret = 32" "local_signer (cu_lib U) secret = Inr sg"
proof -
  from assms obtain password where opt: "env ''CITRATE_GATEWAY_ALLOW_LOCAL_SIGNER'' = Some ''1''"
    "keystore_password U env w = Some password"
    and sg: "encrypted_file_signer (cu_lib U) (cu_decrypt U w) path password = Inr sg"
    by (auto simp: file_custody_def split: if_splits option.splits)
  from sg show thesis by (rule encrypted_file_signer_InrE) (rule that [OF opt])
qed

lemma kms_signer_InrE:
  assumes "kms_signer_from_env X C H env key_id w = (Inr sg, w')"
  obtains cfg a where "kms_config_from_env env key_id = Inr cfg"
    "sg = \<lparr> sg_address = a, sg_sign_hash = kms_sign_hash X C H cfg a \<rparr>"
  using assms by (auto simp: kms_signer_from_env_def split: sum.splits prod.splits)

lemma kms_custody_InrE:
  assumes "kms_custody U env key_id w = (Inr sg, w')"
  obtains cfg a where "cu_aws_kms U" "kms_config_from_env env key_id = Inr cfg"
    "sg = \<lparr> sg_address = a, sg_sign_hash = kms_sign_hash (cu_lib U) (cu_curve U) (cu_kms U) cfg a \<rparr>"
proof -
  from assms have on: "cu_aws_kms U"
    and run: "kms_signer_from_env (cu_lib U) (cu_curve U) (cu_kms U) env key_id w = (Inr sg, w')"
    by (auto simp: kms_custody_def split: if_splits)
  from run show thesis by (rule kms_signer_InrE) (rule that [OF on])
qed

abbreviation unconfigured :: "(string \<Rightarrow> string option) \<Rightarrow> bool" where
  "unconfigured env \<equiv> nonempty_env env ''CITRATE_GATEWAY_KMS_KEY_ID'' = None
     \<and> nonempty_env env ''CITRATE_GATEWAY_OPERATOR_KEYSTORE'' = None"

abbreviation chosen_custody ::
  "'w custody \<Rightarrow> (string \<Rightarrow> string option) \<Rightarrow> 'w \<Rightarrow> (gateway_error + 'w signer) \<times> 'w" where
  "chosen_custody U env w \<equiv>
     (case nonempty_env env ''CITRATE_GATEWAY_KMS_KEY_ID'' of
        Some key_id \<Rightarrow> kms_custody U env key_id w
      | None \<Rightarrow> (file_custody U env (the (nonempty_env env ''CITRATE_GATEWAY_OPERATOR_KEYSTORE'')) w, w))"

lemma wallet_from_env_unconfigured:
  "unconfigured env \<Longrightarrow> operator_wallet_from_env U env url c w = (Inr None, w)"
  by (simp add: operator_wallet_from_env_def)

lemma wallet_from_env_InrE:
  assumes "operator_wallet_from_env U env url c w = (Inr r, w')" "\<not> unconfigured env"
  obtains pool ceiling sg W s where
    "parse_addr_env (cu_lib U) env ''CITRATE_GATEWAY_COMPUTE_POOL'' = Inr pool"
    "spend_ceiling (cu_lib U) env = Some ceiling" "chosen_custody U env w = (Inr sg, w')"
    "new_wallet (cu_lib U) (cu_rpc U) url sg c pool ceiling (epoch_blocks env) w' = (W, s)" "r = Some (W, s)"
proof -
  note run = assms(1) [unfolded operator_wallet_from_env_def Let_def if_not_P [OF assms(2)]]
  then obtain pool where pool: "parse_addr_env (cu_lib U) env ''CITRATE_GATEWAY_COMPUTE_POOL'' = Inr pool"
    by (cases "parse_addr_env (cu_lib U) env ''CITRATE_GATEWAY_COMPUTE_POOL''") auto
  from run obtain ceiling where ceiling: "spend_ceiling (cu_lib U) env = Some ceiling"
    by (cases "spend_ceiling (cu_lib U) env") (auto simp: pool)
  obtain x w1 where x: "chosen_custody U env w = (x, w1)" by (rule prod.exhaust)
  note run' = run [unfolded pool ceiling x sum.case option.case prod.case]
  then obtain sg where sg: "x = Inr sg" "w1 = w'" by (cases x) auto
  obtain W s where W: "new_wallet (cu_lib U) (cu_rpc U) url sg c pool ceiling (epoch_blocks env) w' = (W, s)"
    by (rule prod.exhaust)
  from run' have "r = Some (W, s)" by (simp add: sg W)
  with that [OF pool ceiling x [unfolded sg] W] show thesis .
qed

text \<open>Where the signer of a wallet keeps its key.\<close>

definition in_custody :: "'w custody \<Rightarrow> (string \<Rightarrow> string option) \<Rightarrow> 'w \<Rightarrow> 'w signer \<Rightarrow> bool" where
  "in_custody U env w sg =
     (case nonempty_env env ''CITRATE_GATEWAY_KMS_KEY_ID'' of
        Some key_id \<Rightarrow> cu_aws_kms U
          \<and> (\<exists>cfg. kms_config_from_env env key_id = Inr cfg
              \<and> sg_sign_hash sg = kms_sign_hash (cu_lib U) (cu_curve U) (cu_kms U) cfg (sg_address sg))
          \<and> (\<forall>hash w1 sig w2. sg_sign_hash sg hash w1 = (Inr sig, w2) \<longrightarrow>
              signs_for (cu_lib U) (cu_curve U) (sg_address sg) hash sig)
      | None \<Rightarrow> env ''CITRATE_GATEWAY_ALLOW_LOCAL_SIGNER'' = Some ''1''
          \<and> (\<exists>path password secret. nonempty_env env ''CITRATE_GATEWAY_OPERATOR_KEYSTORE'' = Some path
              \<and> keystore_password U env w = Some password
              \<and> cu_decrypt U w path password = Inr secret \<and> length secret = 32
              \<and> local_signer (cu_lib U) secret = Inr sg))"

lemma custody_signer:
  assumes "\<not> unconfigured env" "chosen_custody U env w = (Inr sg, w')" "low_s_stable (cu_curve U)"
  shows "in_custody U env w sg"
proof (cases "nonempty_env env ''CITRATE_GATEWAY_KMS_KEY_ID''")
  case None
  with assms(1) obtain path where path: "nonempty_env env ''CITRATE_GATEWAY_OPERATOR_KEYSTORE'' = Some path"
    by auto
  from assms(2) have "(file_custody U env path w, w) = (Inr sg, w')" by (simp only: None path option.case option.sel)
  then have "file_custody U env path w = Inr sg" by (rule Pair_inject)
  then show ?thesis by (rule file_custody_InrE) (simp add: in_custody_def None path)
next
  case (Some key_id)
  from assms(2) have "kms_custody U env key_id w = (Inr sg, w')" by (simp add: Some)
  then show ?thesis
    by (rule kms_custody_InrE) (auto simp: in_custody_def Some dest: kms_sign_hash_signs [OF assms(3)])
qed

text \<open>C40. A wallet comes out of the environment only with its blast radius set: a compute
  pool and a spend ceiling are configured, the spend window is empty. With a key id of
  the management service the wallet signs only through that service - a build without
  it refuses - and every signature recovers to the wallet's address and is low-S;
  without one it is the key file, opened with its password, and only when the local
  signer was allowed. No wallet comes out exactly when neither is configured.\<close>

theorem custody_fails_closed:
  assumes "operator_wallet_from_env U env url c w = (Inr r, w')" "low_s_stable (cu_curve U)"
  shows "(r = None \<longleftrightarrow> nonempty_env env ''CITRATE_GATEWAY_KMS_KEY_ID'' = None
        \<and> nonempty_env env ''CITRATE_GATEWAY_OPERATOR_KEYSTORE'' = None)
    \<and> (\<forall>W s. r = Some (W, s) \<longrightarrow>
        parse_addr_env (cu_lib U) env ''CITRATE_GATEWAY_COMPUTE_POOL'' = Inr (wa_compute_pool W)
        \<and> spend_ceiling (cu_lib U) env = Some (wa_ceiling_wei W)
        \<and> wa_blocks_per_epoch W = max (epoch_blocks env) 1 \<and> fresh_wallet s
        \<and> in_custody U env w (wa_signer W))"
proof (cases "unconfigured env")
  case True
  with assms(1) show ?thesis by (simp add: wallet_from_env_unconfigured)
next
  case False
  from assms(1) False obtain pool ceiling sg W s where
    env: "parse_addr_env (cu_lib U) env ''CITRATE_GATEWAY_COMPUTE_POOL'' = Inr pool"
    "spend_ceiling (cu_lib U) env = Some ceiling" and sg: "chosen_custody U env w = (Inr sg, w')"
    and W: "new_wallet (cu_lib U) (cu_rpc U) url sg c pool ceiling (epoch_blocks env) w' = (W, s)"
    and r: "r = Some (W, s)"
    by (rule wallet_from_env_InrE)
  from new_wallet_fresh [OF W] env have fields: "wa_signer W = sg" "wa_compute_pool W = pool"
    "wa_ceiling_wei W = ceiling" "wa_blocks_per_epoch W = max (epoch_blocks env) 1" "fresh_wallet s" by simp_all
  from False custody_signer [OF False sg assms(2)] show ?thesis by (simp add: r fields env)
qed

section \<open>Concrete custody\<close>

text \<open>A toy curve, on which a signature shows its key, and a service that holds one.\<close>

definition held_key :: bytes where
  "held_key = replicate 32 7"

definition sample_curve :: curve where
  "sample_curve =
     \<lparr> cv_recover = (\<lambda>hash r s i. if i = 0 then Some (4 # s @ s) else None),
       cv_from_der = (\<lambda>d. Inr (take 32 d, drop 32 d)), cv_normalize_s = (\<lambda>sig. None) \<rparr>"

definition sample_kms :: "unit kms_host" where
  "sample_kms =
     \<lparr> kh_encode = (\<lambda>v. Inr (case Option.bind (json_get ''Message'' v) json_str of
                               None \<Rightarrow> [] | Some t \<Rightarrow> letter_decode t)),
       kh_decode = (\<lambda>s. Inr (JObj [(''Signature'', JStr s),
                       (''PublicKey'', JStr (letter_encode (4 # held_key @ held_key)))])),
       kh_sign = (\<lambda>cfg headers body w. (Inr [], w)),
       kh_post = (\<lambda>url headers body w. (Inr (200, Inr (letter_encode (body @ held_key))), w)),
       kh_status_text = dec_string \<rparr>"

definition sample_operator :: "unit signer" where
  "sample_operator =
     \<lparr> sg_address = point_address sample_lib (4 # held_key @ held_key),
       sg_sign_hash = (\<lambda>hash w. (Inr (0, hash, held_key), w)) \<rparr>"

lemma sample_recovers: "recovers_key sample_lib sample_curve held_key hash"
  by (auto simp: recovers_key_def sample_lib_def sample_curve_def held_key_def ecrecover_def
      point_address_def derive_secp256k1_address_def)

lemma sample_local: "local_signer sample_lib held_key = Inr sample_operator"
  by (simp add: local_signer_def derive_secp256k1_address_def sign_digest_secp256k1_def sample_lib_def
      sample_operator_def point_address_def held_key_def)

lemma sample_kms_signs:
  assumes "length hash = 32"
  shows "kms_sign_hash sample_lib sample_curve sample_kms cfg (sg_address sample_operator) hash () =
    (Inr (0, hash, held_key), ())"
  using assms
  by (simp add: kms_sign_hash_def kms_call_def kms_sign_request_def sample_kms_def kms_answer_def
      is_success_def kms_signature_def kms_field_def sample_lib_def letter_decode_encode
      parse_kms_der_signature_def sample_curve_def recover_id_def ecrecover_def sample_operator_def)

definition sample_tx :: settlement_tx where
  "sample_tx = \<lparr> tx_chain_id = 5, tx_nonce = 1, tx_gas_price_wei = 1, tx_gas_limit = 21000,
     tx_to = 9, tx_value = 3, tx_data = [1, 2] \<rparr>"

definition sample_kms_config :: kms_config where
  "sample_kms_config =
     \<lparr> km_endpoint = ''https://kms.r.amazonaws.com/'', km_host = ''kms.r.amazonaws.com'',
       km_region = ''r'', km_key_id = ''key'', km_access_key = ''id'', km_secret_key = ''sk'',
       km_session_token = None \<rparr>"

theorem signing_paths_agree_witness:
  "sign_settlement_tx_with sample_lib sample_operator sample_tx ()
      = (sign_settlement_tx sample_lib sample_tx held_key, ())
   \<and> sign_settlement_tx_with sample_lib \<lparr> sg_address = sg_address sample_operator,
        sg_sign_hash = kms_sign_hash sample_lib sample_curve sample_kms sample_kms_config
          (sg_address sample_operator) \<rparr> sample_tx ()
      = (sign_settlement_tx sample_lib sample_tx held_key, ())"
proof -
  have "sign_prehash sample_lib held_key (sighash sample_lib sample_tx)
      = Inr (0, sighash sample_lib sample_tx, held_key)" by (simp add: sample_lib_def)
  then show ?thesis
    using signing_paths_agree [OF sample_local sample_recovers, of sample_tx "()"]
      sample_kms_signs [of "sighash sample_lib sample_tx" sample_kms_config] by (metis length_h256_bytes)
qed

definition sample_custody :: "unit custody" where
  "sample_custody =
     \<lparr> cu_lib = sample_lib, cu_curve = sample_curve, cu_rpc = \<lparr> rt_completes = (\<lambda>url body w. True), rt_post = (\<lambda>url body w. (Inl ''down'', w)), rt_now_ms = (\<lambda>w. (0, w)), rt_sleep_ms = (\<lambda>n w. w) \<rparr>,
       cu_kms = sample_kms, cu_aws_kms = True, cu_read_text = (\<lambda>p w. None),
       cu_decrypt = (\<lambda>w path password. Inl ''no file'') \<rparr>"

definition sample_custody_env :: "string \<Rightarrow> string option" where
  "sample_custody_env = map_of
     [(''CITRATE_GATEWAY_KMS_KEY_ID'', ''key''), (''AWS_REGION'', ''r''), (''AWS_ACCESS_KEY_ID'', ''id''),
      (''AWS_SECRET_ACCESS_KEY'', ''sk''), (''CITRATE_GATEWAY_COMPUTE_POOL'', prefixed_hex sample_lib (replicate 20 1)),
      (''CITRATE_GATEWAY_OPERATOR_SPEND_CAP_WEI'', letter_encode (u256_to_be_bytes 9))]"

lemma sample_kms_signer:
  "\<exists>sg. kms_signer_from_env sample_lib sample_curve sample_kms sample_custody_env ''key'' () = (Inr sg, ())"
proof -
  obtain cfg where cfg: "kms_config_from_env sample_custody_env ''key'' = Inr cfg"
    by (simp add: kms_config_from_env_def nonempty_env_def sample_custody_env_def)
  have "\<exists>v. kms_call sample_kms cfg ''TrentService.GetPublicKey'' (JObj [(''KeyId'', JStr ''key'')]) () = (Inr v, ())
    \<and> json_get ''PublicKey'' v = Some (JStr (letter_encode (4 # held_key @ held_key)))"
    by (simp add: kms_call_def sample_kms_def kms_answer_def is_success_def)
  then obtain v where v: "kms_call sample_kms cfg ''TrentService.GetPublicKey'' (JObj [(''KeyId'', JStr ''key'')]) () = (Inr v, ())"
    and key: "json_get ''PublicKey'' v = Some (JStr (letter_encode (4 # held_key @ held_key)))" by blast
  have "\<exists>a. kms_address sample_lib v = Inr a"
    by (simp add: kms_address_def kms_field_def key address_from_spki_def sample_lib_def letter_decode_encode
        held_key_def)
  with cfg v show ?thesis by (auto simp: kms_signer_from_env_def)
qed

lemma sample_custody_wallet:
  "\<exists>W s. operator_wallet_from_env sample_custody sample_custody_env ''u'' 5 () = (Inr (Some (W, s)), ())"
proof -
  have kms: "nonempty_env sample_custody_env ''CITRATE_GATEWAY_KMS_KEY_ID'' = Some ''key''"
    by (simp add: sample_custody_env_def nonempty_env_def)
  have "parse_addr_env sample_lib sample_custody_env ''CITRATE_GATEWAY_COMPUTE_POOL''
      = Inr (word_from_slice (replicate 20 1))"
    using unprefixed_hex [OF sample_codecs_ok sample_hex_plain, of "replicate 20 1"]
    by (simp add: parse_addr_env_def sample_custody_env_def)
  moreover obtain ceiling where "spend_ceiling sample_lib sample_custody_env = Some ceiling"
    by (simp add: spend_ceiling_def sample_custody_env_def sample_lib_def)
  moreover obtain sg where "kms_custody sample_custody sample_custody_env ''key'' () = (Inr sg, ())"
    using sample_kms_signer by (auto simp: kms_custody_def sample_custody_def)
  ultimately show ?thesis
    by (simp add: operator_wallet_from_env_def Let_def kms new_wallet_def) (simp add: sample_custody_def)
qed

theorem custody_fails_closed_witness:
  "\<exists>W s. operator_wallet_from_env sample_custody sample_custody_env ''u'' 5 () = (Inr (Some (W, s)), ())
     \<and> in_custody sample_custody sample_custody_env () (wa_signer W) \<and> fresh_wallet s"
proof -
  obtain W s where run: "operator_wallet_from_env sample_custody sample_custody_env ''u'' 5 ()
      = (Inr (Some (W, s)), ())" using sample_custody_wallet by blast
  have "low_s_stable (cu_curve sample_custody)"
    by (simp add: low_s_stable_def sample_custody_def sample_curve_def)
  from custody_fails_closed [OF run this] run show ?thesis by blast
qed

end
