(* ===== verification/Store_Migration.thy ===== *)
theory Store_Migration
  imports Proxy_Requests Sealed_Store
begin

text \<open>
  The one-shot migration of a plaintext store to an encrypted one,
  \<open>gateway/src/migrate.rs\<close>: the classification of the rows, the scan, the
  encrypted copy in the staging directory with its verification, and the two
  renames that swap it in. A disk maps the path of a store to the state of its
  engine. The file system and the opening and flushing of an engine are
  parameters with their documented behaviour.
\<close>

section \<open>Reports and errors\<close>

datatype source_state = AlreadyEncrypted | Plaintext

record migrate_report =
  mr_state :: source_state
  mr_entries :: nat
  mr_per_namespace :: "(string \<times> nat) list"
  mr_dry_run :: bool
  mr_backup :: "string option"

datatype migrate_error =
    MigMissing string
  | MigDb string
  | MigWrongKey
  | MigKeyRequired
  | MigUnrecognized string
  | MigIo string string
  | MigStore store_error
  | MigVerify string

text \<open>A key in a message, by \<open>String::from_utf8_lossy\<close>.\<close>

definition printable :: "string \<Rightarrow> string" where
  "printable key = map char_of (utf8_lossy (map of_char key))"

section \<open>Classifying a row\<close>

definition check_known_row :: "'w platform \<Rightarrow> string \<Rightarrow> bytes \<Rightarrow> migrate_error + string" where
  "check_known_row P key v =
     (if CHR '':'' \<notin> set key then Inl (MigUnrecognized (printable key))
      else
        let ns = takeWhile (\<lambda>c. c \<noteq> CHR '':'') key in
        if ns = ''record'' then
          (case p_dec_key P v of
             Inl e \<Rightarrow> Inl (MigUnrecognized (printable key)) | Inr r \<Rightarrow> Inr ''record'')
        else if ns = ''bal'' then
          (case p_dec_balance P v of
             Inl e \<Rightarrow> Inl (MigUnrecognized (printable key)) | Inr r \<Rightarrow> Inr ''bal'')
        else if ns = ''quota'' \<and> length v = 8 then Inr ''quota''
        else if ns = ''mbudget'' \<and> length v = 32 then Inr ''mbudget''
        else if ns = ''batchset'' \<and> length v = 1 then Inr ''batchset''
        else if ns = ''batch'' then Inr ''batch''
        else Inl (MigUnrecognized (printable key)))"

text \<open>The counts per namespace, in the order of the first row of each.\<close>

fun count_row :: "string \<Rightarrow> (string \<times> nat) list \<Rightarrow> (string \<times> nat) list" where
  "count_row ns [] = [(ns, 1)]"
| "count_row ns ((n, c) # counts) =
     (if n = ns then (n, c + 1) # counts else (n, c) # count_row ns counts)"

fun scan_rows ::
  "'w platform \<Rightarrow> (string + (string \<times> bytes)) list \<Rightarrow> (string \<times> bytes) list \<Rightarrow> (string \<times> nat) list
   \<Rightarrow> migrate_error + (string \<times> bytes) list \<times> (string \<times> nat) list"
where
  "scan_rows P [] rows counts = Inr (rows, counts)"
| "scan_rows P (Inl e # items) rows counts = Inl (MigDb e)"
| "scan_rows P (Inr (k, v) # items) rows counts =
     (case check_known_row P k v of
        Inl e \<Rightarrow> Inl e
      | Inr ns \<Rightarrow> scan_rows P items (rows @ [(k, v)]) (count_row ns counts))"

section \<open>The file system\<close>

type_synonym 'w disk = "string \<Rightarrow> 'w option"

record 'w files =
  fs_open :: "bool \<Rightarrow> string \<Rightarrow> 'w disk \<Rightarrow> (string + 'w) \<times> 'w disk"
  fs_remove_dir :: "string \<Rightarrow> 'w disk \<Rightarrow> (string + unit) \<times> 'w disk"
  fs_rename :: "string \<Rightarrow> string \<Rightarrow> 'w disk \<Rightarrow> (string + unit) \<times> 'w disk"
  fs_flush :: "'w \<Rightarrow> (string + unit) \<times> 'w"
  fs_stamp :: string

text \<open>A path is read as a name of its own only without a trailing slash; the
  paths below it are those that continue it after a slash.\<close>

definition clean_path :: "string \<Rightarrow> bool" where
  "clean_path p \<longleftrightarrow> p \<noteq> [] \<and> last p \<noteq> CHR ''/''"

definition apart :: "string \<Rightarrow> string \<Rightarrow> bool" where
  "apart p q \<longleftrightarrow> q \<noteq> p \<and> \<not> starts_with (p @ ''/'') q"

text \<open>Opening an engine replays its log and loses no row, and creates an empty
  one where there is none and it may; removing and renaming touch the paths
  they name and those below; a failed rename changes nothing.\<close>

definition opens_ok :: "'w files \<Rightarrow> ('w \<Rightarrow> history) \<Rightarrow> ('w \<Rightarrow> nat) \<Rightarrow> bool" where
  "opens_ok F hist durable \<longleftrightarrow>
     (\<forall>c p d r d'. fs_open F c p d = (r, d') \<longrightarrow> clean_path p \<longrightarrow>
        (\<forall>q. apart p q \<longrightarrow> d' q = d q) \<and>
        (\<forall>w. d p = Some w \<longrightarrow> (\<exists>w'. d' p = Some w' \<and> hist w' = hist w \<and> durable w \<le> durable w')) \<and>
        (\<forall>w. r = Inr w \<longrightarrow> d' p = Some w \<and> (d p = None \<longrightarrow> hist w = [])))"

definition removes_ok :: "'w files \<Rightarrow> bool" where
  "removes_ok F \<longleftrightarrow>
     (\<forall>p d r d'. fs_remove_dir F p d = (r, d') \<longrightarrow> clean_path p \<longrightarrow>
        (\<forall>q. apart p q \<longrightarrow> d' q = d q) \<and> (r = Inr () \<longrightarrow> d' p = None))"

definition renames_ok :: "'w files \<Rightarrow> bool" where
  "renames_ok F \<longleftrightarrow>
     (\<forall>p q d d'. fs_rename F p q d = (Inr (), d') \<longrightarrow> clean_path p \<longrightarrow> clean_path q \<longrightarrow> p \<noteq> q \<longrightarrow>
        d' q = d p \<and> d' p = None \<and> (\<forall>x. apart p x \<and> apart q x \<longrightarrow> d' x = d x)) \<and>
     (\<forall>p q d e d'. fs_rename F p q d = (Inl e, d') \<longrightarrow> d' = d)"

definition flushes_ok :: "'w files \<Rightarrow> ('w \<Rightarrow> history) \<Rightarrow> ('w \<Rightarrow> nat) \<Rightarrow> bool" where
  "flushes_ok F hist durable \<longleftrightarrow>
     (\<forall>w r w'. fs_flush F w = (r, w') \<longrightarrow>
        hist w' = hist w \<and> durable w \<le> durable w' \<and> (r = Inr () \<longrightarrow> durable w' = length (hist w')))"

definition files_ok :: "'w files \<Rightarrow> ('w \<Rightarrow> history) \<Rightarrow> ('w \<Rightarrow> nat) \<Rightarrow> bool" where
  "files_ok F hist durable \<longleftrightarrow>
     opens_ok F hist durable \<and> removes_ok F \<and> renames_ok F \<and> flushes_ok F hist durable"

section \<open>The encrypted copy\<close>

text \<open>\<open>PersistentKeyStore::open\<close> on a path, and \<open>flush\<close>.\<close>

definition store_open ::
  "'w platform \<Rightarrow> 'w files \<Rightarrow> string \<Rightarrow> bytes \<Rightarrow> 'w disk \<Rightarrow> (store_error + 'w) \<times> 'w disk" where
  "store_open P F path master d =
     try_then StoreRocks (fs_open F True path d) (\<lambda>w d.
       case check_or_init_enc_marker P master w of
         (Inl e, w') \<Rightarrow> (Inl e, d(path \<mapsto> w'))
       | (Inr u, w') \<Rightarrow> (Inr w', d(path \<mapsto> w')))"

definition store_flush :: "'w files \<Rightarrow> 'w \<Rightarrow> (store_error + unit) \<times> 'w" where
  "store_flush F w = try_then StoreRocks (fs_flush F w) (\<lambda>u w. (Inr (), w))"

fun put_rows ::
  "'w platform \<Rightarrow> bytes \<Rightarrow> (string \<times> bytes) list \<Rightarrow> 'w \<Rightarrow> (store_error + unit) \<times> 'w" where
  "put_rows P master [] w = (Inr (), w)"
| "put_rows P master ((k, v) # rows) w =
     try_then id (raw_put_sealed P master k v w) (\<lambda>u w. put_rows P master rows w)"

fun verify_rows ::
  "'w platform \<Rightarrow> bytes \<Rightarrow> (string \<times> bytes) list \<Rightarrow> 'w \<Rightarrow> migrate_error + unit" where
  "verify_rows P master [] w = Inr ()"
| "verify_rows P master ((k, v) # rows) w =
     (case raw_get_unsealed P master k w of
        Inl e \<Rightarrow> Inl (MigStore e)
      | Inr got \<Rightarrow>
          if got \<noteq> Some v then Inl (MigVerify (printable k)) else verify_rows P master rows w)"

definition fill_staging ::
  "'w platform \<Rightarrow> 'w files \<Rightarrow> bytes \<Rightarrow> (string \<times> bytes) list \<Rightarrow> 'w \<Rightarrow> (migrate_error + unit) \<times> 'w"
where
  "fill_staging P F master rows w =
     try_then MigStore (put_rows P master rows w) (\<lambda>u w.
       case verify_rows P master rows w of
         Inl e \<Rightarrow> (Inl e, w)
       | Inr u \<Rightarrow> try_then MigStore (store_flush F w) (\<lambda>u w. (Inr (), w)))"

definition clear_staging :: "'w files \<Rightarrow> string \<Rightarrow> 'w disk \<Rightarrow> (string + unit) \<times> 'w disk" where
  "clear_staging F staging d =
     (if d staging \<noteq> None then fs_remove_dir F staging d else (Inr (), d))"

definition build_staging ::
  "'w platform \<Rightarrow> 'w files \<Rightarrow> string \<Rightarrow> bytes \<Rightarrow> (string \<times> bytes) list \<Rightarrow> 'w disk
   \<Rightarrow> (migrate_error + unit) \<times> 'w disk" where
  "build_staging P F staging master rows d =
     try_then (MigIo staging)
       (clear_staging F staging d) (\<lambda>u d.
       try_then MigStore (store_open P F staging master d) (\<lambda>w d.
         case fill_staging P F master rows w of (r, w') \<Rightarrow> (r, d(staging \<mapsto> w'))))"

section \<open>The migration\<close>

definition sibling :: "string \<Rightarrow> string \<Rightarrow> string" where
  "sibling path suffix = path @ suffix"

definition backup_path :: "'w files \<Rightarrow> string \<Rightarrow> string" where
  "backup_path F path = sibling path (''.pre-encrypt-'' @ fs_stamp F)"

definition swap_in ::
  "'w files \<Rightarrow> string \<Rightarrow> string \<Rightarrow> nat \<Rightarrow> (string \<times> nat) list \<Rightarrow> 'w disk
   \<Rightarrow> (migrate_error + migrate_report) \<times> 'w disk" where
  "swap_in F path staging n counts d =
     (let backup = backup_path F path in
      try_then (MigIo backup) (fs_rename F path backup d) (\<lambda>u d.
        try_then (MigIo staging) (fs_rename F staging path d) (\<lambda>u d.
          (Inr \<lparr> mr_state = Plaintext, mr_entries = n, mr_per_namespace = counts,
                 mr_dry_run = False, mr_backup = Some backup \<rparr>, d))))"

definition already_encrypted ::
  "'w platform \<Rightarrow> bytes option \<Rightarrow> bool \<Rightarrow> bytes \<Rightarrow> migrate_error + migrate_report" where
  "already_encrypted P master dry_run raw =
     (let done_report = \<lparr> mr_state = AlreadyEncrypted, mr_entries = 0, mr_per_namespace = [],
        mr_dry_run = dry_run, mr_backup = None \<rparr> in
      case master of
        None \<Rightarrow> Inr done_report
      | Some m \<Rightarrow>
          if open_value P m enc_marker_key raw = Inr enc_marker_plaintext then Inr done_report
          else Inl MigWrongKey)"

text \<open>With the source open at its path: \<open>w\<close> is the state of its engine.\<close>

definition migrate_open ::
  "'w platform \<Rightarrow> 'w files \<Rightarrow> string \<Rightarrow> bytes option \<Rightarrow> bool \<Rightarrow> 'w \<Rightarrow> 'w disk
   \<Rightarrow> (migrate_error + migrate_report) \<times> 'w disk" where
  "migrate_open P F path master dry_run w d =
     (case p_get P enc_marker_key w of
        Inl e \<Rightarrow> (Inl (MigDb e), d)
      | Inr (Some raw) \<Rightarrow> (already_encrypted P master dry_run raw, d)
      | Inr None \<Rightarrow>
          (case scan_rows P (p_scan P [] w) [] [] of
             Inl e \<Rightarrow> (Inl e, d)
           | Inr (rows, counts) \<Rightarrow>
               if dry_run then
                 (Inr \<lparr> mr_state = Plaintext, mr_entries = length rows,
                        mr_per_namespace = counts, mr_dry_run = True, mr_backup = None \<rparr>, d)
               else
                 let staging = sibling path ''.migrating'' in
                 try_then id (build_staging P F staging (the master) rows d) (\<lambda>u d.
                   swap_in F path staging (length rows) counts d)))"

definition migrate_encrypt ::
  "'w platform \<Rightarrow> 'w files \<Rightarrow> string \<Rightarrow> bytes option \<Rightarrow> bool \<Rightarrow> 'w disk
   \<Rightarrow> (migrate_error + migrate_report) \<times> 'w disk" where
  "migrate_encrypt P F path master dry_run d =
     (if d path = None then (Inl (MigMissing path), d)
      else if master = None \<and> \<not> dry_run then (Inl MigKeyRequired, d)
      else
        try_then MigDb (fs_open F False path d) (\<lambda>w d.
          migrate_open P F path master dry_run w d))"

section \<open>Rows and counts\<close>

lemma count_row_sum: "sum_list (map snd (count_row ns counts)) = Suc (sum_list (map snd counts))"
  by (induction ns counts rule: count_row.induct) auto

lemma scan_rows_Inr:
  "scan_rows P items rows counts = Inr (rows', counts') \<Longrightarrow>
   (\<exists>new. items = map Inr new \<and> rows' = rows @ new
      \<and> (\<forall>(k, v) \<in> set new. \<exists>ns. check_known_row P k v = Inr ns)
      \<and> sum_list (map snd counts') = sum_list (map snd counts) + length new)"
proof (induction P items rows counts arbitrary: rows' counts' rule: scan_rows.induct)
  case (3 P k v items rows counts)
  then obtain ns where ns: "check_known_row P k v = Inr ns"
    and rest: "scan_rows P items (rows @ [(k, v)]) (count_row ns counts) = Inr (rows', counts')"
    by (auto split: sum.splits)
  obtain new where "items = map Inr new" "rows' = (rows @ [(k, v)]) @ new"
    "\<forall>(k, v) \<in> set new. \<exists>ns. check_known_row P k v = Inr ns"
    "sum_list (map snd counts') = sum_list (map snd (count_row ns counts)) + length new"
    using 3(1) [OF ns rest] by blast
  then show ?case using ns by (intro exI [of _ "(k, v) # new"]) (auto simp: count_row_sum)
qed auto

lemma map_Inr_take: "map Inr new \<noteq> map Inr xs @ Inl e # rest"
proof
  assume "map Inr new = map Inr xs @ Inl e # rest"
  then have "Inl e \<in> set (map Inr new)" by simp
  then show False by auto
qed

lemma inj_map_Inr: "map Inr a = map Inr b \<longleftrightarrow> a = b"
  by (rule inj_map_eq_map) simp

text \<open>A scan that succeeds has seen every row once.\<close>

lemma migration_scan_complete:
  assumes "engine_ok P hist durable"
    and s: "scan_rows P (p_scan P [] w) [] [] = Inr (rows, counts)"
  shows "rows_from [] (replay (hist w)) rows" and "sum_list (map snd counts) = length rows"
    and "\<forall>(k, v) \<in> set rows. \<exists>ns. check_known_row P k v = Inr ns"
proof -
  obtain all where all: "rows_from [] (replay (hist w)) all"
    and c: "p_scan P [] w = map Inr all \<or> (\<exists>n e rest. p_scan P [] w = map Inr (take n all) @ Inl e # rest)"
    using assms(1) unfolding engine_ok_def by blast
  obtain new where new: "p_scan P [] w = map Inr new" "rows = new"
    "\<forall>(k, v) \<in> set new. \<exists>ns. check_known_row P k v = Inr ns"
    "sum_list (map snd counts) = length new"
    using scan_rows_Inr [OF s] by auto
  with c have "new = all" by (metis map_Inr_take inj_map_Inr)
  with new all show "rows_from [] (replay (hist w)) rows" "sum_list (map snd counts) = length rows"
    "\<forall>(k, v) \<in> set rows. \<exists>ns. check_known_row P k v = Inr ns" by auto
qed

lemma rows_map_of:
  assumes "rows_from [] m rows"
  shows "map_of rows = m" and "distinct (map fst rows)"
proof -
  have "sorted_wrt (<) (map fst rows)"
    using assms by (simp add: rows_from_def sorted_wrt_map)
  then show d: "distinct (map fst rows)" by (simp add: strict_sorted_iff)
  have "set rows = {(k, v). m k = Some v}"
    using assms by (simp add: rows_from_def)
  then show "map_of rows = m"
    using d by (intro ext) (metis (mono_tags, lifting) case_prodI map_of_SomeD map_of_is_SomeI
        mem_Collect_eq not_Some_eq case_prodD)
qed

lemma rows_card: "rows_from [] m rows \<Longrightarrow> length rows = card (dom m)"
  using rows_map_of [of m rows]
  by (metis distinct_card dom_map_of_conv_image_fst length_map list.set_map)

lemma apply_rows: "distinct (map fst rows) \<Longrightarrow> apply_batch rows m = m ++ map_of rows"
proof (induction rows arbitrary: m)
  case (Cons r rows)
  obtain k v where r: "r = (k, v)" by (cases r)
  have "k \<notin> dom (map_of rows)" using Cons.prems by (simp add: r dom_map_of_conv_image_fst)
  then have "(m(k \<mapsto> v)) ++ map_of rows = (m ++ map_of rows)(k \<mapsto> v)"
    by (auto simp: fun_eq_iff map_add_def split: option.splits)
  with Cons show ?case by (simp add: r del: fun_upd_apply)
qed simp

section \<open>The copy\<close>

lemma raw_put_Inr:
  assumes ok: "platform_ok P hist durable" and p: "raw_put_sealed P master k v w = (Inr u, w')"
  obtains raw where "open_value P master k raw = Inr v" "hist w' = hist w @ [[(k, raw)]]"
proof -
  obtain raw w0 where s: "seal_value P master k v w = (Inr raw, w0)"
    and rest: "try_then StoreRocks (p_write P False [(k, raw)] w0) (\<lambda>u w. (Inr (), w)) = (Inr u, w')"
    using p unfolding raw_put_sealed_def by (rule try_then_InrE)
  then have "p_write P False [(k, raw)] w0 = (Inr (), w')" by (auto elim!: try_then_InrE)
  then have "hist w' = hist w @ [[(k, raw)]]"
    using engine_write(1) [OF platform_okD(1) [OF ok]] seal_value_state [OF ok s] by metis
  then show thesis by (rule that [OF seal_value_opens [OF ok s]])
qed

lemma put_rows_Inr:
  assumes ok: "platform_ok P hist durable"
  shows "put_rows P master rows w = (Inr u, w') \<Longrightarrow> all_sealed P master (replay (hist w)) \<Longrightarrow>
    all_sealed P master (replay (hist w')) \<and>
    view P master hist w' = apply_batch rows (view P master hist w) \<and>
    (\<forall>k. k \<notin> fst ` set rows \<longrightarrow> replay (hist w') k = replay (hist w) k)"
proof (induction rows arbitrary: w)
  case (Cons row rows)
  obtain k v where row: "row = (k, v)" by (cases row)
  obtain u1 w1 where p: "raw_put_sealed P master k v w = (Inr u1, w1)"
    and rest: "put_rows P master rows w1 = (Inr u, w')"
    using Cons.prems(1) by (auto simp: row elim!: try_then_InrE)
  obtain raw where o: "open_value P master k raw = Inr v" and h: "hist w1 = hist w @ [[(k, raw)]]"
    by (rule raw_put_Inr [OF ok p])
  have r: "replay (hist w1) = (replay (hist w))(k \<mapsto> raw)" by (simp add: h)
  have "all_sealed P master (replay (hist w1))"
    unfolding r by (rule all_sealed_upd [OF o Cons.prems(2)])
  from Cons.IH [OF rest this] show ?case
    unfolding row using plain_upd [OF o, of "replay (hist w)"] by (simp add: r del: fun_upd_apply) simp
qed simp

lemma raw_get_view:
  assumes "platform_ok P hist durable" and "raw_get_unsealed P master k w = Inr got"
  shows "got = view P master hist w k"
proof -
  obtain raw where g: "p_get P k w = Inr raw"
    using assms(2) by (auto simp: raw_get_unsealed_def split: sum.splits)
  with engine_get [OF platform_okD(1) [OF assms(1)]] have "replay (hist w) k = raw" by metis
  with g assms(2) show ?thesis
    by (auto simp: raw_get_unsealed_def Sealed_Store.plain_def split: option.splits sum.splits)
qed

text \<open>The verification pass reads back what was copied: it never finds a
  mismatch.\<close>

lemma verify_agrees:
  assumes "platform_ok P hist durable"
  shows "\<forall>(k, v) \<in> set rows. view P master hist w k = Some v \<Longrightarrow>
    verify_rows P master rows w \<noteq> Inl (MigVerify x)"
  by (induction rows) (auto split: sum.splits if_splits dest: raw_get_view [OF assms])

lemma verify_sound:
  assumes "platform_ok P hist durable"
  shows "verify_rows P master rows w = Inr u \<Longrightarrow> (k, v) \<in> set rows \<Longrightarrow>
    view P master hist w k = Some v"
  by (induction rows) (auto split: sum.splits if_splits simp: raw_get_view [OF assms, symmetric])

lemma flush_state:
  assumes "files_ok F hist durable" and "fs_flush F w = (r, w')"
  shows "hist w' = hist w" and "r = Inr () \<Longrightarrow> durable w' = length (hist w')"
  using assms by (auto simp: files_ok_def flushes_ok_def)

lemma fill_staging_Inr:
  assumes ok: "platform_ok P hist durable" and F: "files_ok F hist durable"
    and good: "all_sealed P master (replay (hist w))" and d: "distinct (map fst rows)"
    and f: "fill_staging P F master rows w = (Inr u, w')"
  shows "store_good P master hist durable w' \<and> durable w' = length (hist w') \<and>
    view P master hist w' = view P master hist w ++ map_of rows \<and>
    (\<forall>k. k \<notin> fst ` set rows \<longrightarrow> replay (hist w') k = replay (hist w) k)"
proof -
  obtain u1 w1 where p: "put_rows P master rows w = (Inr u1, w1)"
    and rest: "(case verify_rows P master rows w1 of Inl e \<Rightarrow> (Inl e, w1)
       | Inr u \<Rightarrow> try_then MigStore (store_flush F w1) (\<lambda>u w. (Inr (), w))) = (Inr u, w')"
    using f unfolding fill_staging_def by (rule try_then_InrE)
  then have "fs_flush F w1 = (Inr (), w')"
    by (auto simp: store_flush_def split: sum.splits elim!: try_then_InrE)
  from flush_state [OF F this] put_rows_Inr [OF ok p good] apply_rows [OF d] ok
  show ?thesis by (simp add: store_good_def)
qed

section \<open>The steps on the disk\<close>

lemma open_state:
  assumes "files_ok F hist durable" and "clean_path p" and "fs_open F c p d = (r, d')"
  shows "apart p q \<Longrightarrow> d' q = d q"
    and "d p = Some w \<Longrightarrow> \<exists>w'. d' p = Some w' \<and> hist w' = hist w"
    and "r = Inr w1 \<Longrightarrow> d' p = Some w1 \<and> (d p = None \<longrightarrow> hist w1 = [])"
  using assms(2,3) assms(1)[unfolded files_ok_def opens_ok_def, THEN conjunct1, rule_format, OF assms(3,2)]
  by blast+

lemma remove_state:
  assumes "files_ok F hist durable" and "clean_path p" and "fs_remove_dir F p d = (r, d')"
  shows "apart p q \<Longrightarrow> d' q = d q" and "r = Inr () \<Longrightarrow> d' p = None"
  using assms by (auto simp: files_ok_def removes_ok_def)

lemma rename_Inr:
  assumes "files_ok F hist durable" and "clean_path p" "clean_path q" "p \<noteq> q"
    and "fs_rename F p q d = (Inr (), d')"
  shows "d' q = d p" and "d' p = None" and "apart p x \<Longrightarrow> apart q x \<Longrightarrow> d' x = d x"
  using assms unfolding files_ok_def renames_ok_def by metis+

lemma rename_Inl:
  "files_ok F hist durable \<Longrightarrow> fs_rename F p q d = (Inl e, d') \<Longrightarrow> d' = d"
  unfolding files_ok_def renames_ok_def by metis

lemma starts_with_same [simp]: "starts_with (p @ a) (p @ b) \<longleftrightarrow> starts_with a b"
  by (induction p) auto

lemma not_below_shorter: "length k < length p \<Longrightarrow> \<not> starts_with p k"
  by (auto simp: starts_with_def dest: arg_cong [of _ _ length])

lemma staging_apart:
  "apart path (sibling path ''.migrating'')" "apart (sibling path ''.migrating'') path"
  "apart path (backup_path F path)" "apart (backup_path F path) path"
  "apart (sibling path ''.migrating'') (backup_path F path)"
  "apart (backup_path F path) (sibling path ''.migrating'')"
  by (auto simp: apart_def sibling_def backup_path_def not_below_shorter)

lemma siblings_clean:
  "clean_path path \<Longrightarrow> clean_path (sibling path ''.migrating'')"
  "last (fs_stamp F) \<noteq> CHR ''/'' \<Longrightarrow> clean_path path \<Longrightarrow> clean_path (backup_path F path)"
  by (auto simp: clean_path_def sibling_def backup_path_def)

text \<open>The marker of a store is a sealed value.\<close>

definition marked :: "'w platform \<Rightarrow> bytes \<Rightarrow> ('w \<Rightarrow> history) \<Rightarrow> 'w \<Rightarrow> bool" where
  "marked P master hist w \<longleftrightarrow>
     (\<exists>raw w0 w1. seal_value P master enc_marker_key enc_marker_plaintext w0 = (Inr raw, w1)
        \<and> replay (hist w) enc_marker_key = Some raw)"

lemma fresh_open:
  assumes ok: "platform_ok P hist durable" and "hist w = []"
    and "check_or_init_enc_marker P master w = (Inr u, w')"
  shows "all_sealed P master (replay (hist w')) \<and> marked P master hist w' \<and>
    view P master hist w' = [enc_marker_key \<mapsto> enc_marker_plaintext]"
proof -
  obtain raw w0 where
    s: "seal_value P master enc_marker_key enc_marker_plaintext w = (Inr raw, w0)"
    and h: "hist w' = [[(enc_marker_key, raw)]]"
    using check_marker_fresh [OF ok assms(2), of master w'] assms(3) by (metis old.unit.exhaust)
  have r: "replay (hist w') = [enc_marker_key \<mapsto> raw]"
    using replay_snoc [of "[]" "[(enc_marker_key, raw)]"] by (simp add: h)
  note o = seal_value_opens [OF ok s]
  show ?thesis
    using s o r plain_upd [OF o, of "\<lambda>k. None"] unfolding marked_def by (auto simp: all_sealed_def)
qed

lemma build_staging_others:
  assumes F: "files_ok F hist durable" and c: "clean_path staging"
    and b: "build_staging P F staging master rows d = (r, d')" and q: "apart staging q"
  shows "d' q = d q"
proof -
  have ne: "q \<noteq> staging" using q by (simp add: apart_def)
  have opened: "d2 q = d1 q" if "store_open P F staging master d1 = (r1, d2)" for r1 d1 d2
    using that open_state(1) [OF F c _ q] ne
    by (auto simp: store_open_def elim!: try_then_cases split: prod.splits sum.splits)
  have removed: "d1 q = d q"
    if "clear_staging F staging d = (r1, d1)" for r1 d1
    using that remove_state(1) [OF F c _ q] by (auto simp: clear_staging_def split: if_splits)
  from b show ?thesis
    unfolding build_staging_def
    by (elim try_then_cases)
      (use ne in \<open>auto split: prod.splits dest!: opened dest: removed\<close>)
qed

lemma build_staging_Inr:
  assumes ok: "platform_ok P hist durable" and F: "files_ok F hist durable"
    and c: "clean_path staging" and rows: "rows_from [] m rows" "m enc_marker_key = None"
    and b: "build_staging P F staging master rows d = (Inr u, d')"
  obtains w where "d' staging = Some w" "store_good P master hist durable w" "marked P master hist w"
    "durable w = length (hist w)"
    "view P master hist w = m(enc_marker_key \<mapsto> enc_marker_plaintext)"
proof -
  obtain u1 d1 where e: "clear_staging F staging d = (Inr u1, d1)"
    and b1: "try_then MigStore (store_open P F staging master d1) (\<lambda>w d.
         case fill_staging P F master rows w of (r, w') \<Rightarrow> (r, d(staging \<mapsto> w'))) = (Inr u, d')"
    using b unfolding build_staging_def by (rule try_then_InrE)
  have none: "d1 staging = None" using e remove_state(2) [OF F c] by (auto simp: clear_staging_def split: if_splits)
  obtain w2 d2 where o: "store_open P F staging master d1 = (Inr w2, d2)"
    and f: "(case fill_staging P F master rows w2 of (r, w') \<Rightarrow> (r, d2(staging \<mapsto> w'))) = (Inr u, d')"
    using b1 by (rule try_then_InrE)
  obtain w1 d3 u2 where fs: "fs_open F True staging d1 = (Inr w1, d3)"
    and k: "check_or_init_enc_marker P master w1 = (Inr u2, w2)"
    using o by (auto simp: store_open_def elim!: try_then_InrE split: prod.splits sum.splits)
  have "hist w1 = []" using open_state(3) [OF F c fs] none by simp
  note start = fresh_open [OF ok this k]
  obtain w where w: "fill_staging P F master rows w2 = (Inr u, w)" and d': "d' = d2(staging \<mapsto> w)"
    using f by (auto split: prod.splits)
  note R = rows_map_of [OF rows(1)]
  note fill = fill_staging_Inr [OF ok F _ R(2) w]
  have out: "enc_marker_key \<notin> fst ` set rows"
    using rows(2) R(1) by (metis map_of_eq_None_iff)
  have "[enc_marker_key \<mapsto> enc_marker_plaintext] ++ m = m(enc_marker_key \<mapsto> enc_marker_plaintext)"
    using rows(2) by (auto simp: fun_eq_iff map_add_def split: option.splits)
  then show thesis
    using start fill d' out R(1) by (intro that [of w]) (auto simp: marked_def)
qed
section \<open>The whole run\<close>

definition kept :: "('w \<Rightarrow> history) \<Rightarrow> 'w \<Rightarrow> string \<Rightarrow> 'w disk \<Rightarrow> bool" where
  "kept hist w p d \<longleftrightarrow> (\<exists>w'. d p = Some w' \<and> hist w' = hist w)"

lemma kept_other: "kept hist w p d \<Longrightarrow> d' p = d p \<Longrightarrow> kept hist w p d'"
  by (simp add: kept_def)

text \<open>What a completed migration leaves at the path.\<close>

definition migrated ::
  "'w platform \<Rightarrow> bytes \<Rightarrow> ('w \<Rightarrow> history) \<Rightarrow> ('w \<Rightarrow> nat) \<Rightarrow> (string \<Rightarrow> bytes option) \<Rightarrow> string
   \<Rightarrow> 'w disk \<Rightarrow> bool" where
  "migrated P master hist durable m p d \<longleftrightarrow>
     (\<exists>w. d p = Some w \<and> store_good P master hist durable w \<and> marked P master hist w \<and>
        durable w = length (hist w) \<and>
        view P master hist w = m(enc_marker_key \<mapsto> enc_marker_plaintext))"

lemma swap_in_cases:
  assumes F: "files_ok F hist durable" and c: "clean_path path" "last (fs_stamp F) \<noteq> CHR ''/''"
    and s: "swap_in F path (sibling path ''.migrating'') n counts d = (r, d')"
    and k: "kept hist w path d"
  obtains (first) e where "r = Inl e" "\<forall>x. e \<noteq> MigVerify x" "kept hist w path d'"
  | (second) e where "r = Inl e" "\<forall>x. e \<noteq> MigVerify x" "kept hist w (backup_path F path) d'"
  | (swapped) "r = Inr \<lparr> mr_state = Plaintext, mr_entries = n, mr_per_namespace = counts,
        mr_dry_run = False, mr_backup = Some (backup_path F path) \<rparr>"
      "kept hist w (backup_path F path) d'" "d' path = d (sibling path ''.migrating'')"
  using s unfolding swap_in_def Let_def
proof (cases rule: try_then_cases)
  case (err e)
  then show thesis using rename_Inl [OF F err(1)] k by (intro that(1)) auto
next
  case (ok u d1)
  note clean = siblings_clean(1) [OF c(1)] siblings_clean(2) [OF c(2,1)]
  have one: "fs_rename F path (backup_path F path) d = (Inr (), d1)" using ok(1) by simp
  have ne: "path \<noteq> backup_path F path" "sibling path ''.migrating'' \<noteq> path"
    by (simp_all add: backup_path_def sibling_def)
  note R1 = rename_Inr [OF F c(1) clean(2) ne(1) one]
  have b: "kept hist w (backup_path F path) d1" using k R1(1) by (simp add: kept_def)
  have st: "d1 (sibling path ''.migrating'') = d (sibling path ''.migrating'')"
    by (rule R1(3)) (rule staging_apart)+
  from ok(2) show thesis
  proof (cases rule: try_then_cases)
    case (err e)
    then show thesis using rename_Inl [OF F err(1)] b by (intro that(2)) auto
  next
    case (ok u2 d2)
    then have two: "fs_rename F (sibling path ''.migrating'') path d1 = (Inr (), d')"
      and r: "r = Inr \<lparr> mr_state = Plaintext, mr_entries = n, mr_per_namespace = counts,
        mr_dry_run = False, mr_backup = Some (backup_path F path) \<rparr>" by auto
    note R2 = rename_Inr [OF F clean(1) c(1) ne(2) two]
    have "d' (backup_path F path) = d1 (backup_path F path)"
      by (rule R2(3)) (rule staging_apart)+
    with b have "kept hist w (backup_path F path) d'" by (rule kept_other)
    then show thesis using r R2(1) st by (intro that(3)) auto
  qed
qed

lemma already_encrypted_cases:
  "already_encrypted P master dry raw = Inr rep \<Longrightarrow>
     mr_state rep = AlreadyEncrypted \<and> mr_backup rep = None"
  "already_encrypted P master dry raw = Inl e \<Longrightarrow> e = MigWrongKey"
  by (auto simp: already_encrypted_def Let_def split: option.splits if_splits)

lemma scan_error: "scan_rows P items rows counts = Inl e \<Longrightarrow> e \<noteq> MigVerify x"
  by (induction P items rows counts rule: scan_rows.induct)
    (auto simp: check_known_row_def Let_def split: sum.splits if_splits)

lemma fill_no_mismatch:
  assumes ok: "platform_ok P hist durable"
    and good: "all_sealed P master (replay (hist w))" and d: "distinct (map fst rows)"
  shows "fill_staging P F master rows w \<noteq> (Inl (MigVerify x), w')"
proof
  assume "fill_staging P F master rows w = (Inl (MigVerify x), w')"
  then obtain u w1 where p: "put_rows P master rows w = (Inr u, w1)"
    and v: "verify_rows P master rows w1 = Inl (MigVerify x)"
    by (auto simp: fill_staging_def store_flush_def elim!: try_then_cases split: sum.splits)
  have "view P master hist w1 = view P master hist w ++ map_of rows"
    using put_rows_Inr [OF ok p good] apply_rows [OF d] by simp
  then have "\<forall>(k, v) \<in> set rows. view P master hist w1 k = Some v"
    using d by auto
  with v verify_agrees [OF ok] show False by blast
qed

lemma build_no_mismatch:
  assumes ok: "platform_ok P hist durable" and F: "files_ok F hist durable"
    and c: "clean_path staging" and d: "distinct (map fst rows)"
  shows "build_staging P F staging master rows d0 \<noteq> (Inl (MigVerify x), d')"
proof
  assume b: "build_staging P F staging master rows d0 = (Inl (MigVerify x), d')"
  then obtain u d1 w2 d2 w' where e: "clear_staging F staging d0 = (Inr u, d1)"
    and o: "store_open P F staging master d1 = (Inr w2, d2)"
    and f: "fill_staging P F master rows w2 = (Inl (MigVerify x), w')"
    by (auto simp: build_staging_def elim!: try_then_cases split: prod.splits)
  have none: "d1 staging = None"
    using e remove_state(2) [OF F c] by (auto simp: clear_staging_def split: if_splits)
  obtain w1 d3 u2 where fs: "fs_open F True staging d1 = (Inr w1, d3)"
    and k: "check_or_init_enc_marker P master w1 = (Inr u2, w2)"
    using o by (auto simp: store_open_def elim!: try_then_InrE split: prod.splits sum.splits)
  have "hist w1 = []" using open_state(3) [OF F c fs] none by simp
  from fresh_open [OF ok this k] fill_no_mismatch [OF ok _ d] f show False by blast
qed

text \<open>The outcome of a run, as a caller can tell it.\<close>

definition migration_outcome ::
  "'w platform \<Rightarrow> 'w files \<Rightarrow> ('w \<Rightarrow> history) \<Rightarrow> ('w \<Rightarrow> nat) \<Rightarrow> string \<Rightarrow> bytes option \<Rightarrow> bool
   \<Rightarrow> 'w \<Rightarrow> migrate_error + migrate_report \<Rightarrow> 'w disk \<Rightarrow> bool" where
  "migration_outcome P F hist durable path master dry w r d' \<longleftrightarrow>
     (case r of
        Inl e \<Rightarrow> (kept hist w path d' \<or> kept hist w (backup_path F path) d')
          \<and> (\<forall>x. e \<noteq> MigVerify x)
      | Inr rep \<Rightarrow>
          (case mr_backup rep of
             None \<Rightarrow> kept hist w path d' \<and> (dry \<or> mr_state rep = AlreadyEncrypted)
           | Some b \<Rightarrow> \<not> dry \<and> b = backup_path F path \<and> kept hist w b d'
               \<and> migrated P (the master) hist durable (replay (hist w)) path d'
               \<and> mr_entries rep = card (dom (replay (hist w)))
               \<and> sum_list (map snd (mr_per_namespace rep)) = mr_entries rep))"

lemma migrate_open_outcome:
  assumes ok: "platform_ok P hist durable" and F: "files_ok F hist durable"
    and c: "clean_path path" "last (fs_stamp F) \<noteq> CHR ''/''"
    and w: "d path = Some w" and run: "migrate_open P F path master dry w d = (r, d')"
  shows "migration_outcome P F hist durable path master dry w r d'"
proof -
  let ?st = "sibling path ''.migrating''"
  have k: "kept hist w path d" using w by (simp add: kept_def)
  consider (get) e where "p_get P enc_marker_key w = Inl e"
    | (marker) raw where "p_get P enc_marker_key w = Inr (Some raw)"
    | (scan) e where "p_get P enc_marker_key w = Inr None"
        "scan_rows P (p_scan P [] w) [] [] = Inl e"
    | (rows) rows counts where "p_get P enc_marker_key w = Inr None"
        "scan_rows P (p_scan P [] w) [] [] = Inr (rows, counts)"
    by (metis old.prod.exhaust option.exhaust sum.exhaust)
  then show ?thesis
  proof cases
    case marker
    then have "r = already_encrypted P master dry raw" "d' = d"
      using run by (simp_all add: migrate_open_def)
    with k already_encrypted_cases [of P master dry raw] show ?thesis
      by (auto simp: migration_outcome_def split: sum.split)
  next
    case rows
    have m: "replay (hist w) enc_marker_key = None"
      using engine_get [OF platform_okD(1) [OF ok] rows(1)] by simp
    note S = migration_scan_complete [OF platform_okD(1) [OF ok] rows(2)]
    show ?thesis
    proof (cases dry)
      case False
      with run rows have t: "try_then id (build_staging P F ?st (the master) rows d)
          (\<lambda>u d. swap_in F path ?st (length rows) counts d) = (r, d')"
        by (simp add: migrate_open_def Let_def)
      note cl = siblings_clean(1) [OF c(1)]
      show ?thesis using t
      proof (cases rule: try_then_cases)
        case (err e)
        have "d' path = d path" by (rule build_staging_others [OF F cl err(1)]) (rule staging_apart)
        with k kept_other err build_no_mismatch [OF ok F cl rows_map_of(2) [OF S(1)]]
        show ?thesis by (auto simp: migration_outcome_def)
      next
        case (ok u d1)
        have "d1 path = d path" by (rule build_staging_others [OF F cl ok(1)]) (rule staging_apart)
        with k have k1: "kept hist w path d1" by (rule kept_other)
        obtain v where "d1 ?st = Some v" "store_good P (the master) hist durable v"
          "marked P (the master) hist v" "durable v = length (hist v)"
          "view P (the master) hist v = (replay (hist w))(enc_marker_key \<mapsto> enc_marker_plaintext)"
          by (rule build_staging_Inr [OF assms(1) F cl S(1) m ok(1)])
        then have "d' path = d1 ?st \<Longrightarrow>
            migrated P (the master) hist durable (replay (hist w)) path d'"
          unfolding migrated_def by auto
        with ok(2) k1 False rows_card [OF S(1)] S(2) show ?thesis
          by (cases rule: swap_in_cases [OF F c])
            (auto simp: migration_outcome_def)
      qed
    qed (use run rows k in \<open>auto simp: migrate_open_def migration_outcome_def\<close>)
  qed (use run k in \<open>auto simp: migrate_open_def migration_outcome_def dest: scan_error\<close>)
qed

lemma migration_outcome_cong:
  assumes "hist w1 = hist w"
  shows "migration_outcome P F hist durable path master dry w1 r d'
    \<longleftrightarrow> migration_outcome P F hist durable path master dry w r d'"
  using assms by (simp add: migration_outcome_def kept_def split: sum.splits option.splits)

lemma dry_run_reads:
  "migrate_open P F path master True w d = (r, d') \<Longrightarrow> d' = d"
  by (auto simp: migrate_open_def split: sum.splits option.splits prod.splits)

text \<open>C11. The migration never loses money. Whatever fails, the
  plaintext store is intact, at its path or at the path of the backup; a dry
  run changes no other directory. A completed run leaves at the path a store
  that is encrypted throughout under the given key, on disk as a whole, and
  whose plaintext is every row of the source and the marker; the source is at
  the backup path; the report counts every row. The verification pass never
  finds a row that differs.\<close>

theorem store_migration_safe:
  assumes ok: "platform_ok P hist durable" and F: "files_ok F hist durable"
    and c: "clean_path path" "last (fs_stamp F) \<noteq> CHR ''/''"
    and w: "d path = Some w" and run: "migrate_encrypt P F path master dry d = (r, d')"
  shows "migration_outcome P F hist durable path master dry w r d'
    \<and> (dry \<longrightarrow> (\<forall>q. apart path q \<longrightarrow> d' q = d q))"
proof (cases "master = None \<and> \<not> dry")
  case True
  then show ?thesis using run w by (auto simp: migrate_encrypt_def migration_outcome_def kept_def)
next
  case False
  with run w have t: "try_then MigDb (fs_open F False path d)
      (\<lambda>w d. migrate_open P F path master dry w d) = (r, d')"
    by (auto simp: migrate_encrypt_def)
  show ?thesis using t
  proof (cases rule: try_then_cases)
    case (err e)
    then show ?thesis
      using open_state(1,2) [OF F c(1) err(1)] w by (auto simp: migration_outcome_def kept_def)
  next
    case (ok w1 d1)
    have d1: "d1 path = Some w1" and h: "hist w1 = hist w"
      using open_state(2,3) [OF F c(1) ok(1)] w by auto
    from migrate_open_outcome [OF assms(1) F c d1 ok(2)]
    have "migration_outcome P F hist durable path master dry w r d'"
      by (simp only: migration_outcome_cong [of hist w1 w, OF h])
    then show ?thesis
      using ok(2) open_state(1) [OF F c(1) ok(1)] by (cases dry) (auto dest: dry_run_reads)
  qed
qed

text \<open>A second run finds the store encrypted: under the same key it does
  nothing, under another it refuses.\<close>

theorem migration_idempotent:
  assumes ok: "platform_ok P hist durable" and ideal: "aead_ideal P"
    and F: "files_ok F hist durable" and c: "clean_path path"
    and first: "migrated P m hist durable rows path d"
    and again: "migrate_encrypt P F path (Some m') dry d = (r, d')"
  shows "(\<exists>e. r = Inl (MigDb e)) \<or> m' \<noteq> m \<and> r = Inl MigWrongKey
    \<or> m' = m \<and> r = Inr \<lparr> mr_state = AlreadyEncrypted, mr_entries = 0, mr_per_namespace = [],
        mr_dry_run = dry, mr_backup = None \<rparr>"
proof -
  obtain w raw w0 w1 where w: "d path = Some w"
    and s: "seal_value P m enc_marker_key enc_marker_plaintext w0 = (Inr raw, w1)"
    and m: "replay (hist w) enc_marker_key = Some raw"
    using first by (auto simp: migrated_def marked_def)
  have t: "try_then MigDb (fs_open F False path d)
      (\<lambda>w d. migrate_open P F path (Some m') dry w d) = (r, d')"
    using again w by (simp add: migrate_encrypt_def)
  have o: "open_value P m' enc_marker_key raw =
      (if m' = m then Inr enc_marker_plaintext else Inl CryptoFailure)"
    using seal_value_opens [OF ok s] sealed_other_key [OF ok ideal s] by auto
  show ?thesis using t
  proof (cases rule: try_then_cases)
    case (ok w2 d2)
    have "hist w2 = hist w"
      using open_state(2,3) [OF F c ok(1)] w by auto
    then have "p_get P enc_marker_key w2 = Inr v \<Longrightarrow> v = Some raw" for v
      using engine_get [OF platform_okD(1) [OF assms(1)]] m by metis
    then show ?thesis
      using ok(2) o
      by (cases "p_get P enc_marker_key w2")
        (auto simp: migrate_open_def already_encrypted_def Let_def)
  qed simp
qed

section \<open>An example run\<close>

definition ref_files :: "ref_world files" where
  "ref_files =
     \<lparr> fs_open = (\<lambda>c p d. case d p of
         Some w \<Rightarrow> (Inr w, d)
       | None \<Rightarrow> if c then (Inr ref_start, d(p \<mapsto> ref_start)) else (Inl ''does not exist'', d)),
       fs_remove_dir = (\<lambda>p d. (Inr (), d(p := None))),
       fs_rename = (\<lambda>p q d. (Inr (), (d(q := d p))(p := None))),
       fs_flush = (\<lambda>w. (Inr (), w)),
       fs_stamp = ''20260101-000000'' \<rparr>"

lemma ref_files_ok: "files_ok ref_files ref_hist ref_durable"
proof -
  have "opens_ok ref_files ref_hist ref_durable"
    by (auto simp: opens_ok_def ref_files_def ref_hist_def ref_durable_def ref_start_def apart_def
        split: option.splits if_splits)
  moreover have "removes_ok ref_files" "renames_ok ref_files"
    "flushes_ok ref_files ref_hist ref_durable"
    by (auto simp: removes_ok_def renames_ok_def flushes_ok_def ref_files_def apart_def
        ref_hist_def ref_durable_def)
  ultimately show ?thesis by (simp add: files_ok_def)
qed

definition ref_legacy :: ref_world where
  "ref_legacy = \<lparr> rw_log = [[(''quota:a:20260101'', replicate 8 1)]], rw_tick = 7 \<rparr>"

lemma ref_legacy_replay: "replay (ref_hist ref_legacy) = [''quota:a:20260101'' \<mapsto> replicate 8 1]"
  using replay_snoc [of "[]" "[(''quota:a:20260101'', replicate 8 1)]"]
  by (simp add: ref_legacy_def ref_hist_def)

lemma ref_put_rows: "\<exists>w'. put_rows ref_platform master rows w = (Inr (), w')"
proof (induction rows arbitrary: w)
  case (Cons row rows)
  obtain k v where row: "row = (k, v)" by (cases row)
  obtain raw w0 where s: "seal_value ref_platform master k v w = (Inr raw, w0)"
    using ref_seals by blast
  have "p_write ref_platform False [(k, raw)] w0 = (Inr (), w0\<lparr> rw_log := rw_log w0 @ [[(k, raw)]] \<rparr>)"
    by (simp add: ref_platform_def)
  with s Cons.IH show ?case by (simp add: row raw_put_sealed_def)
qed simp

lemma ref_verify_rows:
  "all_sealed ref_platform master (replay (ref_hist w)) \<Longrightarrow>
   \<forall>(k, v) \<in> set rows. view ref_platform master ref_hist w k = Some v \<Longrightarrow>
   verify_rows ref_platform master rows w = Inr ()"
proof (induction rows)
  case (Cons row rows)
  obtain k v where row: "row = (k, v)" by (cases row)
  with Cons.prems obtain raw where raw: "replay (ref_hist w) k = Some raw"
    by (auto simp: Sealed_Store.plain_def split: option.splits)
  then have "raw_get_unsealed ref_platform master k w = Inr (Some v)"
    using Cons.prems by (auto simp: row Sealed_Store.plain_def all_sealed_def raw_get_unsealed_def
        ref_platform_def ref_hist_def split: sum.splits)
  with Cons row show ?case by simp
qed simp

lemma ref_fill_staging:
  assumes "all_sealed ref_platform master (replay (ref_hist w))" and d: "distinct (map fst rows)"
  shows "\<exists>w'. fill_staging ref_platform ref_files master rows w = (Inr (), w')"
proof -
  obtain w1 where p: "put_rows ref_platform master rows w = (Inr (), w1)"
    using ref_put_rows by blast
  note P = put_rows_Inr [OF ref_platform_ok p assms(1)]
  have "\<forall>(k, v) \<in> set rows. view ref_platform master ref_hist w1 k = Some v"
    using P apply_rows [OF d] d by auto
  with P ref_verify_rows have "verify_rows ref_platform master rows w1 = Inr ()" by blast
  with p show ?thesis by (simp add: fill_staging_def store_flush_def ref_files_def)
qed

lemma ref_build_staging:
  assumes "d staging = None" and "distinct (map fst rows)"
  shows "\<exists>w'. build_staging ref_platform ref_files staging master rows d = (Inr (), d(staging \<mapsto> w'))"
proof -
  obtain raw w0 where s: "seal_value ref_platform master enc_marker_key enc_marker_plaintext
      ref_start = (Inr raw, w0)"
    using ref_seals by blast
  obtain w1 where c: "check_or_init_enc_marker ref_platform master ref_start = (Inr (), w1)"
    using s by (auto simp: check_or_init_enc_marker_def)
      (auto simp: ref_platform_def ref_start_def)
  have "ref_hist ref_start = []" by (simp add: ref_hist_def ref_start_def)
  from fresh_open [OF ref_platform_ok this c]
  obtain w2 where "fill_staging ref_platform ref_files master rows w1 = (Inr (), w2)"
    using ref_fill_staging [OF _ assms(2)] by blast
  with c assms(1) show ?thesis
    by (auto simp: build_staging_def clear_staging_def store_open_def ref_files_def)
qed

lemma ref_legacy_scan:
  "scan_rows ref_platform (p_scan ref_platform [] ref_legacy) [] []
   = Inr ([(''quota:a:20260101'', replicate 8 1)], [(''quota'', 1)])"
  by (simp add: ref_platform_def ref_legacy_def ref_rows_def log_keys_def check_known_row_def
      replay_def apply_batch_def)

theorem store_migration_safe_witness:
  "\<exists>rep d'. migrate_encrypt ref_platform ref_files ''db'' (Some ref_master) False
       [''db'' \<mapsto> ref_legacy] = (Inr rep, d')
     \<and> mr_entries rep = 1 \<and> kept ref_hist ref_legacy ''db.pre-encrypt-20260101-000000'' d'
     \<and> migrated ref_platform ref_master ref_hist ref_durable
         [''quota:a:20260101'' \<mapsto> replicate 8 1] ''db'' d'"
proof -
  let ?d = "[''db'' \<mapsto> ref_legacy]"
  obtain w where b: "build_staging ref_platform ref_files ''db.migrating'' ref_master
      [(''quota:a:20260101'', replicate 8 1)] ?d = (Inr (), ?d(''db.migrating'' \<mapsto> w))"
    using ref_build_staging [of ?d "''db.migrating''" "[(''quota:a:20260101'', replicate 8 1)]"]
    by auto
  have o: "fs_open ref_files False ''db'' ?d = (Inr ref_legacy, ?d)"
    by (simp add: ref_files_def)
  have r: "fs_rename ref_files p q e = (Inr (), (e(q := e p))(p := None))" for p q e
    by (simp add: ref_files_def)
  have g: "p_get ref_platform enc_marker_key ref_legacy = Inr None"
    using ref_legacy_replay by (simp add: ref_platform_def ref_hist_def enc_marker_key_def)
  have "migrate_open ref_platform ref_files ''db'' (Some ref_master) False ref_legacy ?d
    = swap_in ref_files ''db'' ''db.migrating'' 1 [(''quota'', 1)] (?d(''db.migrating'' \<mapsto> w))"
    using b by (simp add: migrate_open_def g ref_legacy_scan Let_def sibling_def
        del: fun_upd_apply)
  then obtain rep d' where run: "migrate_encrypt ref_platform ref_files ''db'' (Some ref_master)
      False ?d = (Inr rep, d')" and rep: "mr_backup rep \<noteq> None" "mr_entries rep = 1"
    unfolding migrate_encrypt_def o by (simp add: swap_in_def r Let_def)
  have "clean_path ''db''" "last (fs_stamp ref_files) \<noteq> CHR ''/''" "?d ''db'' = Some ref_legacy"
    by (simp_all add: clean_path_def ref_files_def)
  from store_migration_safe [OF ref_platform_ok ref_files_ok this run] run rep
  show ?thesis
    by (auto simp: migration_outcome_def ref_legacy_replay backup_path_def sibling_def
        ref_files_def)
qed

end
