(* ===== verification/Key_Vault.thy ===== *)
theory Key_Vault
  imports Store_Migration Rust_Text X402_Wire
begin

text \<open>
  The sourcing of the master key, \<open>gateway/src/keyvault.rs\<close>: the environment
  variable, the key file with its permissions, the generation on a first run,
  and \<open>open_store\<close>, which opens the encrypted store under the key. The
  environment is a function of the variable's name; the file system and the
  operating system's entropy are parameters over a state \<open>'f\<close>, with their
  documented behaviour over \<open>files\<close>, the mode and contents of each file.
\<close>

section \<open>Paths\<close>

text \<open>\<open>Path::parent\<close>: the path without its last component. The string is read
  from its end; trailing slashes and \<open>.\<close> components are dropped.\<close>

fun tidy_end :: "string \<Rightarrow> string" where
  "tidy_end (c # r) =
     (if c = CHR ''/'' then (if r = [] then ''/'' else tidy_end r)
      else
        case r of
          [] \<Rightarrow> [c]
        | d # s \<Rightarrow> if c = CHR ''.'' \<and> d = CHR ''/'' then tidy_end (d # s) else c # r)"
| "tidy_end [] = []"

definition path_parent :: "string \<Rightarrow> string option" where
  "path_parent p =
     (let q = tidy_end (rev p) in
      if q = [] \<or> q = ''/'' then None
      else Some (rev (tidy_end (dropWhile (\<lambda>c. c \<noteq> CHR ''/'') q))))"

section \<open>The chain\<close>

definition env_store_key :: string where
  "env_store_key = ''GATEWAY_STORE_KEY''"

definition env_store_key_file :: string where
  "env_store_key_file = ''GATEWAY_STORE_KEY_FILE''"

datatype key_source = FromEnv | FromFile string | Generated string

fun key_source_text :: "key_source \<Rightarrow> string" where
  "key_source_text FromEnv = ''env:'' @ env_store_key"
| "key_source_text (FromFile p) = ''file:'' @ p"
| "key_source_text (Generated p) = ''generated:'' @ p"

datatype keyvault_error =
    BadEnvKey
  | BadFileKey string
  | TooPermissive string u32
  | KeyIo string string
  | KeyRng
  | KeyNotFound string

record 'f key_files =
  kf_exists :: "string \<Rightarrow> 'f \<Rightarrow> bool"
  kf_mode :: "string \<Rightarrow> 'f \<Rightarrow> string + u32"
  kf_read :: "string \<Rightarrow> 'f \<Rightarrow> string + string"
  kf_make_dirs :: "string \<Rightarrow> 'f \<Rightarrow> (string + unit) \<times> 'f"
  kf_create_new :: "u32 \<Rightarrow> string \<Rightarrow> 'f \<Rightarrow> (string + unit) \<times> 'f"
  kf_append :: "string \<Rightarrow> string \<Rightarrow> 'f \<Rightarrow> (string + unit) \<times> 'f"
  kf_sync :: "string \<Rightarrow> 'f \<Rightarrow> (string + unit) \<times> 'f"
  kf_random :: "nat \<Rightarrow> 'f \<Rightarrow> bytes option \<times> 'f"

definition default_key_file :: "string \<Rightarrow> string" where
  "default_key_file keystore_path = keystore_path @ ''.master.key''"

definition resolve_key_file :: "(string \<Rightarrow> string option) \<Rightarrow> string \<Rightarrow> string option \<Rightarrow> string" where
  "resolve_key_file env keystore_path explicit =
     (case explicit of
        Some p \<Rightarrow> p
      | None \<Rightarrow>
          (case env env_store_key_file of
             Some p \<Rightarrow> if str_trim p \<noteq> [] then p else default_key_file keystore_path
           | None \<Rightarrow> default_key_file keystore_path))"

definition parse_hex_key :: "x402_lib \<Rightarrow> string \<Rightarrow> bytes option" where
  "parse_hex_key X s =
     (case hex_decode X (str_trim s) of
        Inl e \<Rightarrow> None
      | Inr b \<Rightarrow> if length b = 32 then Some b else None)"

definition check_key_file_perms :: "'f key_files \<Rightarrow> string \<Rightarrow> 'f \<Rightarrow> keyvault_error + unit" where
  "check_key_file_perms K path f =
     (case kf_mode K path f of
        Inl e \<Rightarrow> Inl (KeyIo path e)
      | Inr raw \<Rightarrow>
          let mode = and raw 0x1FF in
          if and mode 0x3F \<noteq> 0 then Inl (TooPermissive path mode) else Inr ())"

definition newline :: string where
  "newline = [char_of (10 :: nat)]"

definition write_key_file ::
  "x402_lib \<Rightarrow> 'f key_files \<Rightarrow> string \<Rightarrow> bytes \<Rightarrow> 'f \<Rightarrow> (keyvault_error + unit) \<times> 'f" where
  "write_key_file X K path key f =
     try_then (KeyIo path)
       (case path_parent path of
          Some dir \<Rightarrow> if dir = [] then (Inr (), f) else kf_make_dirs K dir f
        | None \<Rightarrow> (Inr (), f)) (\<lambda>u f.
       try_then (KeyIo path) (kf_create_new K 0x180 path f) (\<lambda>u f.
         try_then (KeyIo path) (kf_append K path (hex_encode X key @ newline) f) (\<lambda>u f.
           try_then (KeyIo path) (kf_sync K path f) (\<lambda>u f. (Inr (), f)))))"

definition read_key_file ::
  "x402_lib \<Rightarrow> 'f key_files \<Rightarrow> string \<Rightarrow> 'f \<Rightarrow> keyvault_error + bytes \<times> key_source" where
  "read_key_file X K key_file f =
     (case check_key_file_perms K key_file f of
        Inl e \<Rightarrow> Inl e
      | Inr u \<Rightarrow>
          (case kf_read K key_file f of
             Inl e \<Rightarrow> Inl (KeyIo key_file e)
           | Inr s \<Rightarrow>
               (case parse_hex_key X s of
                  None \<Rightarrow> Inl (BadFileKey key_file)
                | Some k \<Rightarrow> Inr (k, FromFile key_file))))"

definition generate_key ::
  "x402_lib \<Rightarrow> 'f key_files \<Rightarrow> string \<Rightarrow> bool \<Rightarrow> 'f \<Rightarrow> (keyvault_error + bytes \<times> key_source) \<times> 'f"
where
  "generate_key X K key_file allow_generate f =
     (if \<not> allow_generate then (Inl (KeyNotFound key_file), f)
      else
        case kf_random K 32 f of
          (None, f) \<Rightarrow> (Inl KeyRng, f)
        | (Some key, f) \<Rightarrow>
            try_then id (write_key_file X K key_file key f) (\<lambda>u f.
              (Inr (key, Generated key_file), f)))"

definition load_store_key_with ::
  "x402_lib \<Rightarrow> 'f key_files \<Rightarrow> string option \<Rightarrow> string \<Rightarrow> bool \<Rightarrow> 'f
   \<Rightarrow> (keyvault_error + bytes \<times> key_source) \<times> 'f" where
  "load_store_key_with X K env_val key_file allow_generate f =
     (let from_files =
        (if kf_exists K key_file f then (read_key_file X K key_file f, f)
         else generate_key X K key_file allow_generate f)
      in case env_val of
        Some v \<Rightarrow>
          if str_trim v \<noteq> [] then
            ((case parse_hex_key X v of None \<Rightarrow> Inl BadEnvKey | Some k \<Rightarrow> Inr (k, FromEnv)), f)
          else from_files
      | None \<Rightarrow> from_files)"

definition load_store_key ::
  "x402_lib \<Rightarrow> 'f key_files \<Rightarrow> (string \<Rightarrow> string option) \<Rightarrow> string \<Rightarrow> bool \<Rightarrow> 'f
   \<Rightarrow> (keyvault_error + bytes \<times> key_source) \<times> 'f" where
  "load_store_key X K env key_file allow_generate f =
     load_store_key_with X K (env env_store_key) key_file allow_generate f"

section \<open>Opening the store in one call\<close>

text \<open>An open store is the state of its engine with the key it was opened under.\<close>

type_synonym 'w opened = "('w \<times> bytes) \<times> key_source"

datatype open_store_error = OpenKey keyvault_error | OpenFailed store_error

definition open_store ::
  "x402_lib \<Rightarrow> 'f key_files \<Rightarrow> 'w platform \<Rightarrow> 'w files \<Rightarrow> (string \<Rightarrow> string option) \<Rightarrow> string
   \<Rightarrow> 'f \<Rightarrow> 'w disk \<Rightarrow> (open_store_error + 'w opened) \<times> 'f \<times> 'w disk" where
  "open_store X K P F env keystore_path f d =
     (case load_store_key X K env (resolve_key_file env keystore_path None) True f of
        (Inl e, f) \<Rightarrow> (Inl (OpenKey e), f, d)
      | (Inr (key, source), f) \<Rightarrow>
          (case store_open P F keystore_path key d of
             (Inl e, d) \<Rightarrow> (Inl (OpenFailed e), f, d)
           | (Inr w, d) \<Rightarrow> (Inr ((w, key), source), f, d)))"

section \<open>Documented behaviour of the file system\<close>

text \<open>Creating makes a file only where there is none, with at most the given
  mode; a write that fails may leave a prefix; nothing here changes another
  file.\<close>

definition key_files_ok :: "'f key_files \<Rightarrow> ('f \<Rightarrow> string \<Rightarrow> (u32 \<times> string) option) \<Rightarrow> bool" where
  "key_files_ok K files \<longleftrightarrow>
     (\<forall>p f m. kf_mode K p f = Inr m \<longrightarrow> (\<exists>s. files f p = Some (m, s))) \<and>
     (\<forall>p f s. kf_read K p f = Inr s \<longrightarrow> (\<exists>m. files f p = Some (m, s))) \<and>
     (\<forall>p f r f'. kf_make_dirs K p f = (r, f') \<longrightarrow> files f' = files f) \<and>
     (\<forall>m p f f'. kf_create_new K m p f = (Inr (), f') \<longrightarrow>
        files f p = None \<and> (\<exists>u. files f' = (files f)(p \<mapsto> (and m u, [])))) \<and>
     (\<forall>m p f e f'. kf_create_new K m p f = (Inl e, f') \<longrightarrow> files f' = files f) \<and>
     (\<forall>p s f r f'. kf_append K p s f = (r, f') \<longrightarrow>
        (\<forall>m t. files f p = Some (m, t) \<longrightarrow>
           (\<exists>n. files f' = (files f)(p \<mapsto> (m, t @ take n s)) \<and> (r = Inr () \<longrightarrow> length s \<le> n)))) \<and>
     (\<forall>p f r f'. kf_sync K p f = (r, f') \<longrightarrow> files f' = files f) \<and>
     (\<forall>n f r f'. kf_random K n f = (r, f') \<longrightarrow> files f' = files f \<and> (\<forall>b. r = Some b \<longrightarrow> length b = n))"

text \<open>The digits of the hexadecimal form are visible characters.\<close>

definition hex_visible :: "x402_lib \<Rightarrow> bool" where
  "hex_visible X \<longleftrightarrow>
     (\<forall>b. b \<noteq> [] \<longrightarrow> hex_encode X b \<noteq> []) \<and>
     (\<forall>b c. c \<in> set (hex_encode X b) \<longrightarrow> 33 \<le> char_nat c \<and> char_nat c < 127)"

section \<open>The written key reads back\<close>

lemma after_blank_newline: "after_blank (map rev utf8_blanks) (newline @ s) = Some s"
  by (simp add: utf8_blanks_def newline_def strip_prefix_def)

lemma str_trim_line:
  assumes "s \<noteq> []" and "33 \<le> char_nat (hd s)" "char_nat (hd s) < 127"
    and "33 \<le> char_nat (last s)" "char_nat (last s) < 127"
  shows "str_trim (s @ newline) = s"
proof -
  have front: "trim_blanks utf8_blanks (s @ newline) = s @ newline"
    by (rule trim_blanks_visible) (use assms utf8_blanks_edges utf8_blanks_nonempty in fastforce)
  have "trim_blanks (map rev utf8_blanks) (newline @ rev s)
      = trim_blanks (map rev utf8_blanks) (rev s)"
    by (subst trim_blanks.simps) (simp only: after_blank_newline option.case, simp add: newline_def)
  moreover have "rev (s @ newline) = newline @ rev s" by (simp add: newline_def)
  moreover have "str_trim s = s" by (rule str_trim_visible [OF assms])
  moreover have "trim_blanks utf8_blanks s = s"
    by (rule trim_blanks_visible) (use assms utf8_blanks_edges utf8_blanks_nonempty in fastforce)
  ultimately show ?thesis unfolding str_trim_def front by simp
qed

lemma parse_written_key:
  assumes "text_codecs_ok X" and v: "hex_visible X" and "length k = 32"
  shows "parse_hex_key X (hex_encode X k @ newline) = Some k"
proof -
  have "k \<noteq> []" using assms(3) by auto
  with v have ne: "hex_encode X k \<noteq> []" by (simp add: hex_visible_def)
  then have "hd (hex_encode X k) \<in> set (hex_encode X k)" "last (hex_encode X k) \<in> set (hex_encode X k)"
    by simp_all
  with v have "33 \<le> char_nat (hd (hex_encode X k)) \<and> char_nat (hd (hex_encode X k)) < 127
      \<and> 33 \<le> char_nat (last (hex_encode X k)) \<and> char_nat (last (hex_encode X k)) < 127"
    unfolding hex_visible_def by blast
  with str_trim_line [OF ne] have "str_trim (hex_encode X k @ newline) = hex_encode X k" by blast
  with assms(1,3) show ?thesis by (simp add: parse_hex_key_def text_codecs_ok_def)
qed

lemma append_effect:
  assumes "key_files_ok K files" and "kf_append K p s f = (r, f')" and "files f p = Some (m, t)"
  obtains n where "files f' = (files f)(p \<mapsto> (m, t @ take n s))" "r = Inr () \<longrightarrow> length s \<le> n"
proof -
  have "\<forall>p s f r f'. kf_append K p s f = (r, f') \<longrightarrow>
        (\<forall>m t. files f p = Some (m, t) \<longrightarrow>
           (\<exists>n. files f' = (files f)(p \<mapsto> (m, t @ take n s)) \<and> (r = Inr () \<longrightarrow> length s \<le> n)))"
    using assms(1) unfolding key_files_ok_def by (elim conjE)
  from this [rule_format, OF assms(2,3)] that show thesis by (elim exE conjE) blast
qed

text \<open>What writing does to the files: an existing one is not touched; success
  leaves the whole line, readable to the owner only.\<close>

lemma write_key_file_effect:
  assumes K: "key_files_ok K files" and w: "write_key_file X K path key f = (r, f')"
  shows "(\<forall>q. files f q \<noteq> None \<longrightarrow> files f' q = files f q) \<and>
    (r = Inr () \<longrightarrow> files f path = None \<and>
       (\<exists>u. files f' path = Some (and 0x180 u, hex_encode X key @ newline)))"
proof -
  note L = K [unfolded key_files_ok_def]
  let ?dirs = "case path_parent path of
      Some dir \<Rightarrow> if dir = [] then (Inr (), f) else kf_make_dirs K dir f | None \<Rightarrow> (Inr (), f)"
  have dirs: "files f1 = files f" if "?dirs = (r1, f1)" for r1 f1
    using that L by (auto split: option.splits if_splits)
  have sync: "files f2 = files f1" if "kf_sync K path f1 = (r1, f2)" for r1 f1 f2
    using that L by blast
  have fail: "files f2 = files f1" if "kf_create_new K m path f1 = (Inl e, f2)" for m e f1 f2
    using that L by blast
  from w show ?thesis unfolding write_key_file_def
  proof (cases rule: try_then_cases)
    case (err e)
    with dirs show ?thesis by auto
  next
    case (ok u f1)
    note d1 = dirs [OF ok(1)]
    from ok(2) show ?thesis
    proof (cases rule: try_then_cases)
      case (err e)
      with fail d1 show ?thesis by auto
    next
      case (ok u2 f2)
      then have "kf_create_new K 0x180 path f1 = (Inr (), f2)" by simp
      then obtain u where fresh: "files f path = None"
        and c: "files f2 = (files f)(path \<mapsto> (and 0x180 u, []))"
        using L d1 by metis
      have app: "\<exists>n. files f3 = (files f)(path \<mapsto> (and 0x180 u, take n (hex_encode X key @ newline)))
          \<and> (r1 = Inr () \<longrightarrow> length (hex_encode X key @ newline) \<le> n)"
        if "kf_append K path (hex_encode X key @ newline) f2 = (r1, f3)" for r1 f3
      proof -
        have "files f2 path = Some (and 0x180 u, [])" by (simp add: c)
        from append_effect [OF K that this] obtain n where
          "files f3 = (files f2)(path \<mapsto> (and 0x180 u, [] @ take n (hex_encode X key @ newline)))"
          "r1 = Inr () \<longrightarrow> length (hex_encode X key @ newline) \<le> n" .
        then show ?thesis by (intro exI [of _ n]) (simp add: c)
      qed
      from ok(2) show ?thesis
      proof (cases rule: try_then_cases)
        case (err e)
        with app [OF err(1)] fresh show ?thesis by auto
      next
        case (ok u3 f3)
        then obtain n where n: "files f3 = (files f)(path \<mapsto> (and 0x180 u, take n (hex_encode X key @ newline)))"
          "length (hex_encode X key @ newline) \<le> n"
          using app [OF ok(1)] by auto
        have "files f' = files f3"
          using ok(2) by (cases rule: try_then_cases) (auto dest: sync)
        with n fresh show ?thesis by auto
      qed
    qed
  qed
qed
section \<open>The chain as a whole\<close>

lemma random_effect:
  assumes "key_files_ok K files" and "kf_random K n f = (r, f')"
  shows "files f' = files f" and "r = Some b \<Longrightarrow> length b = n"
  using assms unfolding key_files_ok_def by blast+

lemma generate_key_effect:
  assumes K: "key_files_ok K files" and g: "generate_key X K p allow f = (r, f')"
  shows "\<forall>q. files f q \<noteq> None \<longrightarrow> files f' q = files f q"
    and "r = Inr (k, src) \<Longrightarrow> allow \<and> src = Generated p \<and> length k = 32 \<and> files f p = None
      \<and> (\<exists>u. files f' p = Some (and 0x180 u, hex_encode X k @ newline))"
proof -
  have "(\<forall>q. files f q \<noteq> None \<longrightarrow> files f' q = files f q) \<and> (\<forall>k src. r = Inr (k, src) \<longrightarrow>
      allow \<and> src = Generated p \<and> length k = 32 \<and> files f p = None
      \<and> (\<exists>u. files f' p = Some (and 0x180 u, hex_encode X k @ newline)))"
  proof (cases "allow \<and> (\<exists>key. fst (kf_random K 32 f) = Some key)")
    case True
    then obtain key f1 where f1: "kf_random K 32 f = (Some key, f1)" and "allow"
      by (metis prod.collapse)
    with g have t: "try_then id (write_key_file X K p key f1) (\<lambda>u f.
              (Inr (key, Generated p), f)) = (r, f')"
      by (simp add: generate_key_def)
    note R = random_effect(1) [OF K f1] random_effect(2) [OF K f1 refl]
    from t show ?thesis
      by (cases rule: try_then_cases)
        (use R \<open>allow\<close> write_key_file_effect [OF K] in \<open>fastforce+\<close>)
  next
    case False
    then have "(files f' = files f) \<and> (\<exists>e. r = Inl e)"
      using g random_effect(1) [OF K]
      by (cases "kf_random K 32 f") (auto simp: generate_key_def split: if_splits option.splits)
    then show ?thesis by auto
  qed
  then show "\<forall>q. files f q \<noteq> None \<longrightarrow> files f' q = files f q"
    and "r = Inr (k, src) \<Longrightarrow> allow \<and> src = Generated p \<and> length k = 32 \<and> files f p = None
      \<and> (\<exists>u. files f' p = Some (and 0x180 u, hex_encode X k @ newline))" by blast+
qed

lemma read_key_file_Inr:
  assumes K: "key_files_ok K files" and r: "read_key_file X K p f = Inr (k, src)"
  shows "src = FromFile p \<and> (\<exists>m s. files f p = Some (m, s) \<and> and m 0x3F = 0
    \<and> parse_hex_key X s = Some k)"
proof -
  obtain raw s where m: "kf_mode K p f = Inr raw" and perm: "and (and raw 0x1FF) 0x3F = (0 :: u32)"
    and s: "kf_read K p f = Inr s" and k: "parse_hex_key X s = Some k" and src: "src = FromFile p"
    using r by (auto simp: read_key_file_def check_key_file_perms_def Let_def
        split: sum.splits if_splits option.splits)
  obtain t m' where "files f p = Some (raw, t)" "files f p = Some (m', s)"
    using K m s unfolding key_files_ok_def by metis
  moreover have "and raw 0x3F = and (and raw 0x1FF) (0x3F :: u32)"
    by (simp add: and.assoc)
  ultimately show ?thesis using perm k src by auto
qed

text \<open>The outcomes of the chain that give a key.\<close>

lemma load_cases:
  assumes "load_store_key_with X K env_val p allow f = (r, f')"
  obtains (env) v where "env_val = Some v" "str_trim v \<noteq> []" "f' = f"
      "r = (case parse_hex_key X v of None \<Rightarrow> Inl BadEnvKey | Some k \<Rightarrow> Inr (k, FromEnv))"
  | (present) "kf_exists K p f" "f' = f" "read_key_file X K p f = r"
  | (fresh) "\<not> kf_exists K p f" "generate_key X K p allow f = (r, f')"
proof (cases "\<exists>v. env_val = Some v \<and> str_trim v \<noteq> []")
  case True
  then obtain v where v: "env_val = Some v" "str_trim v \<noteq> []" by blast
  have "load_store_key_with X K env_val p allow f =
      ((case parse_hex_key X v of None \<Rightarrow> Inl BadEnvKey | Some k \<Rightarrow> Inr (k, FromEnv)), f)"
    unfolding load_store_key_with_def Let_def v(1) using v(2) by simp
  with assms have "(r, f') = ((case parse_hex_key X v of None \<Rightarrow> Inl BadEnvKey
      | Some k \<Rightarrow> Inr (k, FromEnv)), f)" by (rule trans [OF sym])
  then have "r = (case parse_hex_key X v of None \<Rightarrow> Inl BadEnvKey | Some k \<Rightarrow> Inr (k, FromEnv))"
    "f' = f" unfolding prod.inject by (rule conjunct1, rule conjunct2)
  from env [OF v this(2,1)] show thesis .
next
  case False
  then have l: "load_store_key_with X K env_val p allow f =
      (if kf_exists K p f then (read_key_file X K p f, f) else generate_key X K p allow f)"
    unfolding load_store_key_with_def Let_def by (cases env_val) simp_all
  show thesis
  proof (cases "kf_exists K p f")
    case True
    with l assms have "(read_key_file X K p f, f) = (r, f')" by simp
    then have "f' = f" "read_key_file X K p f = r" by auto
    with True show thesis by (rule present)
  next
    case False
    with l assms have "generate_key X K p allow f = (r, f')" by simp
    with False show thesis by (rule fresh)
  qed
qed

text \<open>C36. The master key does not change under the store. A key that was read from or
  generated into the key file is the key of every later start that uses that
  file, and a start that generates writes only where there was no file,
  readable to the owner alone; no existing file is ever changed. A variable that
  is set decides alone: malformed, it is refused before any file is touched.\<close>

theorem store_key_stable:
  assumes K: "key_files_ok K files" and X: "text_codecs_ok X" "hex_visible X"
    and first: "load_store_key_with X K env1 p allow1 f = (Inr (k, src), f1)"
    and src: "src \<noteq> FromEnv"
    and later: "files f2 p = files f1 p"
    and second: "load_store_key_with X K env2 p allow2 f2 = (r2, f3)"
  shows "(\<forall>q. files f q \<noteq> None \<longrightarrow> files f1 q = files f q)
    \<and> (\<exists>m s. files f1 p = Some (m, s) \<and> and m 0x3F = 0 \<and> parse_hex_key X s = Some k)
    \<and> (src = Generated p \<and> allow1 \<and> files f p = None \<or> src = FromFile p \<and> f1 = f)
    \<and> (\<forall>k2 src2. r2 = Inr (k2, src2) \<longrightarrow> src2 = FromEnv \<or> k2 = k \<and> src2 = FromFile p)
    \<and> (\<forall>v. env2 = Some v \<and> str_trim v \<noteq> [] \<longrightarrow> f3 = f2
         \<and> r2 = (case parse_hex_key X v of None \<Rightarrow> Inl BadEnvKey | Some k \<Rightarrow> Inr (k, FromEnv)))"
proof -
  have one: "(\<forall>q. files f q \<noteq> None \<longrightarrow> files f1 q = files f q)
    \<and> (\<exists>m s. files f1 p = Some (m, s) \<and> and m 0x3F = 0 \<and> parse_hex_key X s = Some k)
    \<and> (src = Generated p \<and> allow1 \<and> files f p = None \<or> src = FromFile p \<and> f1 = f)"
    using first
  proof (cases rule: load_cases)
    case fresh
    from generate_key_effect [OF K fresh(2)] obtain u where
      g: "\<forall>q. files f q \<noteq> None \<longrightarrow> files f1 q = files f q" "allow1" "src = Generated p"
        "length k = 32" "files f p = None"
        "files f1 p = Some (and 0x180 u, hex_encode X k @ newline)" by blast
    have "and (and 0x180 u) 0x3F = and (and 0x180 0x3F) (u :: u32)"
      by (metis and.assoc and.commute)
    then have "and (and 0x180 u) 0x3F = (0 :: u32)" by simp
    with g parse_written_key [OF X g(4)] show ?thesis by blast
  qed (use src in \<open>auto split: option.splits dest: read_key_file_Inr [OF K]\<close>)
  then obtain m s where s: "files f2 p = Some (m, s)" "parse_hex_key X s = Some k"
    using later by auto
  have "src2 = FromEnv \<or> k2 = k \<and> src2 = FromFile p" if r2: "r2 = Inr (k2, src2)" for k2 src2
    using second
  proof (cases rule: load_cases)
    case present
    with r2 read_key_file_Inr [OF K, of X p f2 k2 src2] s show ?thesis by auto
  next
    case fresh
    with r2 generate_key_effect(2) [OF K fresh(2) r2] s show ?thesis by simp
  qed (use r2 in \<open>auto split: option.splits\<close>)
  moreover have "f3 = f2 \<and> r2 = (case parse_hex_key X v of None \<Rightarrow> Inl BadEnvKey | Some k \<Rightarrow> Inr (k, FromEnv))"
    if "env2 = Some v \<and> str_trim v \<noteq> []" for v
    using that second by (auto simp: load_store_key_with_def Let_def)
  ultimately show ?thesis
    using one by (intro conjI allI impI) (elim conjE, assumption | blast)+
qed

section \<open>An example\<close>

type_synonym ref_key_disk = "(string \<times> u32 \<times> string) list"

definition ref_key_files :: "ref_key_disk key_files" where
  "ref_key_files =
     \<lparr> kf_exists = (\<lambda>p f. map_of f p \<noteq> None),
       kf_mode = (\<lambda>p f. case map_of f p of None \<Rightarrow> Inl ''not found'' | Some (m, s) \<Rightarrow> Inr m),
       kf_read = (\<lambda>p f. case map_of f p of None \<Rightarrow> Inl ''not found'' | Some (m, s) \<Rightarrow> Inr s),
       kf_make_dirs = (\<lambda>p f. (Inr (), f)),
       kf_create_new = (\<lambda>m p f.
         if map_of f p = None then (Inr (), (p, m, []) # f) else (Inl ''exists'', f)),
       kf_append = (\<lambda>p s f. case map_of f p of
           None \<Rightarrow> (Inl ''not found'', f) | Some (m, t) \<Rightarrow> (Inr (), (p, m, t @ s) # f)),
       kf_sync = (\<lambda>p f. (Inr (), f)),
       kf_random = (\<lambda>n f. (Some (replicate n 7), f)) \<rparr>"

definition ref_contents :: "ref_key_disk \<Rightarrow> string \<Rightarrow> (u32 \<times> string) option" where
  "ref_contents f p = map_of f p"

lemma ref_contents_Cons: "ref_contents ((p, m, s) # f) = (ref_contents f)(p \<mapsto> (m, s))"
  by (rule ext) (simp add: ref_contents_def)

lemma ref_key_files_ok: "key_files_ok ref_key_files ref_contents"
proof -
  have "\<exists>n. ref_contents f' = (ref_contents f)(p \<mapsto> (m, t @ take n s)) \<and> (r = Inr () \<longrightarrow> length s \<le> n)"
    if "kf_append ref_key_files p s f = (r, f')" and "ref_contents f p = Some (m, t)" for p s f r f' m t
    using that by (intro exI [of _ "length s"])
      (auto simp: ref_key_files_def ref_contents_Cons [symmetric] ref_contents_def)
  moreover have "ref_contents f p = None \<and> (\<exists>u. ref_contents f' = (ref_contents f)(p \<mapsto> (and m u, [])))"
    if "kf_create_new ref_key_files m p f = (Inr (), f')" for m p f f'
    using that by (intro conjI exI [of _ "- 1"])
      (auto simp: ref_key_files_def ref_contents_Cons ref_contents_def split: if_splits)
  moreover have "ref_contents f' = ref_contents f"
    if "kf_create_new ref_key_files m p f = (Inl e, f')" for m p f e f'
    using that by (simp add: ref_key_files_def split: if_splits)
  moreover have "\<exists>s. ref_contents f p = Some (m, s)" if "kf_mode ref_key_files p f = Inr m" for p f m
    using that by (auto simp: ref_key_files_def ref_contents_def split: option.splits)
  moreover have "\<exists>m. ref_contents f p = Some (m, s)" if "kf_read ref_key_files p f = Inr s" for p f s
    using that by (auto simp: ref_key_files_def ref_contents_def split: option.splits)
  ultimately show ?thesis
    unfolding key_files_ok_def by (intro conjI allI impI) (auto simp: ref_key_files_def)
qed

lemma sample_hex_visible: "hex_visible sample_lib"
proof -
  have "char_nat c < 127" if "c \<in> set (letter_encode b)" for b c
  proof -
    have "\<exists>a :: u8. c = char_of (65 + unat a div 16) \<or> c = char_of (65 + unat a mod 16)"
      using that by (auto simp: letter_encode_def)
    then obtain a :: u8 where "c = char_of (65 + unat a div 16) \<or> c = char_of (65 + unat a mod 16)"
      by blast
    then obtain n :: nat where "n < 16" "c = char_of (65 + n)"
      using unat_u8_div16 [of a] mod_less_divisor [of 16 "unat a"] that by fastforce
    then show ?thesis using char_nat_of [of "65 + n"] by simp
  qed
  moreover have "33 \<le> char_nat c" if "c \<in> set (letter_encode b)" for b c
    using letter_encode_visible [OF that] by simp
  moreover have "letter_encode b \<noteq> []" if "b \<noteq> []" for b
    using that by (cases b) (simp_all add: letter_encode_def)
  ultimately show ?thesis by (simp add: hex_visible_def sample_lib_def)
qed

theorem store_key_stable_witness:
  "\<exists>k f1. load_store_key_with sample_lib ref_key_files None ''k'' True [] = (Inr (k, Generated ''k''), f1)
     \<and> (\<forall>k2 src2 f3. load_store_key_with sample_lib ref_key_files None ''k'' True f1
          = (Inr (k2, src2), f3) \<longrightarrow> k2 = k)
     \<and> load_store_key_with sample_lib ref_key_files (Some ''x'') ''k'' True f1 = (Inl BadEnvKey, f1)"
proof -
  let ?load = "load_store_key_with sample_lib ref_key_files"
  define k :: bytes where "k = replicate 32 7"
  have parent: "path_parent ''k'' = Some []" by (simp add: path_parent_def Let_def)
  have "\<exists>f1. ?load None ''k'' True [] = (Inr (k, Generated ''k''), f1)"
    by (simp add: load_store_key_with_def Let_def ref_key_files_def generate_key_def
        write_key_file_def parent k_def)
  then obtain f1 where f1: "?load None ''k'' True [] = (Inr (k, Generated ''k''), f1)" by blast
  note stable = store_key_stable [OF ref_key_files_ok sample_codecs_ok sample_hex_visible f1 _ refl]
  have "k2 = k \<or> src2 = FromEnv"
    if "?load None ''k'' True f1 = (Inr (k2, src2), f3)" for k2 src2 f3
    using stable [OF _ that] by (simp, elim conjE disjE) simp_all
  moreover have "src2 \<noteq> FromEnv"
    if "?load None ''k'' True f1 = (Inr (k2, src2), f3)" for k2 src2 f3
    using that by (auto elim!: load_cases dest: read_key_file_Inr [OF ref_key_files_ok]
        generate_key_effect(2) [OF ref_key_files_ok])
  moreover have "?load (Some ''x'') ''k'' True f1 = (Inl BadEnvKey, f1)"
  proof -
    have "str_trim ''x'' = ''x''" by (simp add: str_trim_visible)
    moreover have "parse_hex_key sample_lib ''x'' = None"
      using calculation by (simp add: parse_hex_key_def sample_lib_def)
    ultimately show ?thesis by (simp add: load_store_key_with_def Let_def)
  qed
  ultimately show ?thesis using f1 by blast
qed

end
