(* ===== verification/Admin_Tool.thy ===== *)
theory Admin_Tool
  imports Operator_Custody Key_Vault Store_Migration
begin

text \<open>
  The administration tool of \<open>gateway/src/bin/citrate-gateway-admin.rs\<close>: the key
  commands on the encrypted store, the in-place migration, and the two operator
  commands. A command yields the lines it prints on standard output or what it
  fails with; the commentary on standard error is not modelled. The parsing of
  the command line, the key-file format and the runtime are parameters.
\<close>

section \<open>Commands\<close>

datatype store_cmd =
    CreateKey string u32 u64
  | RevokeKey string
  | ListKeys
  | SetModelBudget string string string
  | ListModelBudgets string

record dispatch_args =
  da_rpc :: string
  da_chain_id :: u64
  da_pool :: string
  da_keystore :: string
  da_password :: "string option"
  da_password_file :: "string option"
  da_pool_id :: u64
  da_payment_wei :: string
  da_max_price_wei :: "string option"
  da_job_spec :: string

datatype admin_cmd =
    KeystoreCmd store_cmd
  | MigrateEncrypt bool
  | OperatorKeygen string "string option" "string option"
  | OperatorDispatch dispatch_args

datatype admin_error =
    KeyNotSourced keyvault_error
  | KeystoreNotOpened string store_error
  | CommandFailed store_error
  | BadGrains
  | MigrationFailed migrate_error
  | NoPassword
  | PasswordUnreadable string string
  | NotAFilePath
  | DirNotCreated string string
  | KeystoreNotGenerated string
  | KeystoreNotVerified gateway_error
  | BadAddressHex string string
  | BadAddressLength string nat
  | BadPayment
  | BadMaxPrice
  | RuntimeNotStarted string
  | KeystoreNotLoaded gateway_error
  | DispatchFailed gateway_error
  | DispatchStuck

fun error_code :: "admin_error \<Rightarrow> nat" where
  "error_code (KeyNotSourced e) = 2"
| "error_code (KeystoreNotOpened p e) = 2"
| "error_code _ = 1"

definition exit_code :: "admin_error + string list \<Rightarrow> nat" where
  "exit_code r = (case r of Inl e \<Rightarrow> error_code e | Inr out \<Rightarrow> 0)"

record ('f, 'w, 'h) admin =
  ad_lib :: x402_lib
  ad_env :: "string \<Rightarrow> string option"
  ad_key_files :: "'f key_files"
  ad_platform :: "'w platform"
  ad_files :: "'w files"
  ad_keygen :: "string \<Rightarrow> string \<Rightarrow> string \<Rightarrow> 'f \<Rightarrow> (string + unit) \<times> 'f"
  ad_decrypt :: "'f \<Rightarrow> string \<Rightarrow> string \<Rightarrow> string + bytes"
  ad_runtime_error :: "string option"
  ad_rpc :: "'h rpc_transport"

section \<open>Columns\<close>

text \<open>Padding counts the characters of a string, not its bytes.\<close>

definition char_count :: "string \<Rightarrow> nat" where
  "char_count s = length (filter (\<lambda>c. \<not> (128 \<le> char_nat c \<and> char_nat c < 192)) s)"

definition align_left :: "nat \<Rightarrow> string \<Rightarrow> string" where
  "align_left n s = s @ replicate (n - char_count s) (CHR '' '')"

definition align_right :: "nat \<Rightarrow> string \<Rightarrow> string" where
  "align_right n s = replicate (n - char_count s) (CHR '' '') @ s"

definition key_columns :: "string \<Rightarrow> string \<Rightarrow> string \<Rightarrow> string \<Rightarrow> string \<Rightarrow> string" where
  "key_columns status prefix label rps daily =
     align_left 8 status @ ''  '' @ align_left 18 prefix @ ''  '' @ align_left 20 label @ ''  ''
       @ align_right 5 rps @ ''  '' @ align_right 10 daily"

definition key_row :: "string \<times> key_record \<Rightarrow> string" where
  "key_row = (\<lambda>(hash, r).
     key_columns (if kr_revoked r then ''REVOKED'' else ''active'') (take 16 hash) (kr_label r)
       (dec_string (unat (kr_quota_rps r))) (dec_string (unat (kr_daily_quota r))))"

definition key_table :: "(string \<times> key_record) list \<Rightarrow> string list" where
  "key_table rows =
     (if rows = [] then []
      else key_columns ''STATUS'' ''HASH (prefix)'' ''LABEL'' ''RPS'' ''DAILY'' # map key_row rows)"

definition budget_table :: "x402_lib \<Rightarrow> (string \<times> u256) list \<Rightarrow> string list" where
  "budget_table X rows =
     (if rows = [] then []
      else (align_left 28 ''MODEL'' @ ''  '' @ align_right 24 ''REMAINING (grains)'')
        # map (\<lambda>(model, n). align_left 28 model @ ''  '' @ align_right 24 (u256_to_dec X n)) rows)"

section \<open>The key commands\<close>

definition command_result :: "(store_error + 'a) \<Rightarrow> ('a \<Rightarrow> string list) \<Rightarrow> admin_error + string list" where
  "command_result r out = (case r of Inl e \<Rightarrow> Inl (CommandFailed e) | Inr a \<Rightarrow> Inr (out a))"

fun run_store_cmd ::
  "x402_lib \<Rightarrow> 'w platform \<Rightarrow> bytes \<Rightarrow> store_cmd \<Rightarrow> 'w \<Rightarrow> (admin_error + string list) \<times> 'w" where
  "run_store_cmd X P master (CreateKey label quota_rps daily_requests) w =
     (case create_key P master label quota_rps daily_requests w of
        (r, w) \<Rightarrow> (command_result r (\<lambda>id. [id]), w))"
| "run_store_cmd X P master (RevokeKey key_id) w =
     (case revoke_key P master key_id w of (r, w) \<Rightarrow> (command_result r (\<lambda>u. []), w))"
| "run_store_cmd X P master ListKeys w = (command_result (list_records P master w) key_table, w)"
| "run_store_cmd X P master (SetModelBudget key_id model grains) w =
     (case u256_of_dec X grains of
        Inl e \<Rightarrow> (Inl BadGrains, w)
      | Inr amount \<Rightarrow>
          (case set_model_budget P master key_id model amount w of
             (r, w) \<Rightarrow> (command_result r (\<lambda>u. []), w)))"
| "run_store_cmd X P master (ListModelBudgets key_id) w =
     (command_result (get_model_budgets P master key_id w) (budget_table X), w)"

definition source_store_key ::
  "('f, 'w, 'h) admin \<Rightarrow> string \<Rightarrow> string option \<Rightarrow> bool \<Rightarrow> 'f
   \<Rightarrow> (keyvault_error + bytes \<times> key_source) \<times> 'f" where
  "source_store_key A keystore_path key_file_flag allow_generate f =
     load_store_key (ad_lib A) (ad_key_files A) (ad_env A)
       (resolve_key_file (ad_env A) keystore_path key_file_flag) allow_generate f"

definition run_keystore_cmd ::
  "('f, 'w, 'h) admin \<Rightarrow> string \<Rightarrow> string option \<Rightarrow> store_cmd \<Rightarrow> 'f \<Rightarrow> 'w disk
   \<Rightarrow> (admin_error + string list) \<times> 'f \<times> 'w disk" where
  "run_keystore_cmd A keystore_path key_file_flag cmd f d =
     (case source_store_key A keystore_path key_file_flag True f of
        (Inl e, f) \<Rightarrow> (Inl (KeyNotSourced e), f, d)
      | (Inr (master, key_source), f) \<Rightarrow>
          (case store_open (ad_platform A) (ad_files A) keystore_path master d of
             (Inl e, d) \<Rightarrow> (Inl (KeystoreNotOpened keystore_path e), f, d)
           | (Inr w, d) \<Rightarrow>
               (case run_store_cmd (ad_lib A) (ad_platform A) master cmd w of
                  (r, w) \<Rightarrow> (r, f, d(keystore_path \<mapsto> w)))))"

section \<open>The migration command\<close>

definition migration_key ::
  "('f, 'w, 'h) admin \<Rightarrow> string \<Rightarrow> string option \<Rightarrow> bool \<Rightarrow> 'f
   \<Rightarrow> (keyvault_error + bytes option) \<times> 'f" where
  "migration_key A keystore_path key_file_flag dry_run f =
     (case source_store_key A keystore_path key_file_flag (\<not> dry_run) f of
        (Inr (k, src), f) \<Rightarrow> (Inr (Some k), f)
      | (Inl (KeyNotFound path), f) \<Rightarrow> ((if dry_run then Inr None else Inl (KeyNotFound path)), f)
      | (Inl e, f) \<Rightarrow> (Inl e, f))"

definition migrate_encrypt_cmd ::
  "('f, 'w, 'h) admin \<Rightarrow> string \<Rightarrow> string option \<Rightarrow> bool \<Rightarrow> 'f \<Rightarrow> 'w disk
   \<Rightarrow> (admin_error + string list) \<times> 'f \<times> 'w disk" where
  "migrate_encrypt_cmd A keystore_path key_file_flag dry_run f d =
     (case migration_key A keystore_path key_file_flag dry_run f of
        (Inl e, f) \<Rightarrow> (Inl (KeyNotSourced e), f, d)
      | (Inr master, f) \<Rightarrow>
          (case migrate_encrypt (ad_platform A) (ad_files A) keystore_path master dry_run d of
             (Inl e, d) \<Rightarrow> (Inl (MigrationFailed e), f, d)
           | (Inr report, d) \<Rightarrow> (Inr [], f, d)))"

section \<open>The operator commands\<close>

definition resolve_password ::
  "'f key_files \<Rightarrow> string option \<Rightarrow> string option \<Rightarrow> 'f \<Rightarrow> admin_error + string" where
  "resolve_password K password password_file f =
     (case password of
        Some p \<Rightarrow> Inr p
      | None \<Rightarrow>
          (case password_file of
             None \<Rightarrow> Inl NoPassword
           | Some path \<Rightarrow>
               (case kf_read K path f of
                  Inl e \<Rightarrow> Inl (PasswordUnreadable path e)
                | Inr s \<Rightarrow> Inr (str_trim s))))"

text \<open>\<open>Path::file_name\<close>: the last component, if it is a name.\<close>

definition path_file_name :: "string \<Rightarrow> string option" where
  "path_file_name p =
     (let q = tidy_end (rev p);
          name = rev (takeWhile (\<lambda>c. c \<noteq> CHR ''/'') q)
      in if q = [] \<or> q = ''/'' \<or> name = ''.'' \<or> name = ''..'' then None else Some name)"

definition keystore_dir :: "string \<Rightarrow> string" where
  "keystore_dir out =
     (case path_parent out of None \<Rightarrow> ''.'' | Some d \<Rightarrow> if d = [] then ''.'' else d)"

definition operator_keygen ::
  "('f, 'w, 'h) admin \<Rightarrow> string \<Rightarrow> string option \<Rightarrow> string option \<Rightarrow> 'f
   \<Rightarrow> (admin_error + string list) \<times> 'f" where
  "operator_keygen A out password password_file f =
     (case resolve_password (ad_key_files A) password password_file f of
        Inl e \<Rightarrow> (Inl e, f)
      | Inr password \<Rightarrow>
          (case path_file_name out of
             None \<Rightarrow> (Inl NotAFilePath, f)
           | Some name \<Rightarrow>
               try_then (DirNotCreated (keystore_dir out)) (kf_make_dirs (ad_key_files A) (keystore_dir out) f)
                 (\<lambda>u f. try_then KeystoreNotGenerated (ad_keygen A (keystore_dir out) name password f)
                   (\<lambda>u f.
                     ((case encrypted_file_signer (ad_lib A) (ad_decrypt A f) out password
                               :: gateway_error + 'h signer of
                         Inl e \<Rightarrow> Inl (KeystoreNotVerified e)
                       | Inr signer \<Rightarrow> Inr [prefixed_hex (ad_lib A) (h160_bytes (sg_address signer))]), f)))))"

definition parse_h160 :: "x402_lib \<Rightarrow> string \<Rightarrow> admin_error + h160" where
  "parse_h160 X s =
     (case hex_decode X (unprefixed s) of
        Inl e \<Rightarrow> Inl (BadAddressHex s e)
      | Inr b \<Rightarrow> if length b \<noteq> 20 then Inl (BadAddressLength s (length b)) else Inr (word_from_slice b))"

text \<open>What the dispatch command is given, read before anything is signed.\<close>

definition dispatch_amounts ::
  "x402_lib \<Rightarrow> dispatch_args \<Rightarrow> admin_error + h160 \<times> u256 \<times> u256" where
  "dispatch_amounts X a =
     (case parse_h160 X (da_pool a) of
        Inl e \<Rightarrow> Inl e
      | Inr pool \<Rightarrow>
          (case u256_of_dec X (da_payment_wei a) of
             Inl e \<Rightarrow> Inl BadPayment
           | Inr payment \<Rightarrow>
               (case da_max_price_wei a of
                  None \<Rightarrow> Inr (pool, payment, payment)
                | Some s \<Rightarrow>
                    (case u256_of_dec X s of
                       Inl e \<Rightarrow> Inl BadMaxPrice
                     | Inr max_price \<Rightarrow> Inr (pool, payment, max_price)))))"

definition submit_once ::
  "('f, 'w, 'h) admin \<Rightarrow> dispatch_args \<Rightarrow> 'h signer \<Rightarrow> h160 \<Rightarrow> u256 \<Rightarrow> u256 \<Rightarrow> 'h
   \<Rightarrow> (admin_error + string list) \<times> 'h" where
  "submit_once A a signer pool payment max_price h =
     (case new_wallet (ad_lib A) (ad_rpc A) (da_rpc a) signer (da_chain_id a) pool (- 1) 100 h of
        (W, s) \<Rightarrow>
          (case dispatch_pool_compute W (ucast (da_pool_id a)) (as_bytes (da_job_spec a))
                  max_price payment s of
             (Finished (Inr hash), s) \<Rightarrow> (Inr [prefixed_hex (ad_lib A) (h256_bytes hash)], wl_world s)
           | (Finished (Inl e), s) \<Rightarrow> (Inl (DispatchFailed e), wl_world s)
           | (phase, s) \<Rightarrow> (Inl DispatchStuck, wl_world s)))"

definition operator_dispatch ::
  "('f, 'w, 'h) admin \<Rightarrow> dispatch_args \<Rightarrow> 'f \<Rightarrow> 'h \<Rightarrow> (admin_error + string list) \<times> 'h" where
  "operator_dispatch A a f h =
     (case resolve_password (ad_key_files A) (da_password a) (da_password_file a) f of
        Inl e \<Rightarrow> (Inl e, h)
      | Inr password \<Rightarrow>
          (case dispatch_amounts (ad_lib A) a of
             Inl e \<Rightarrow> (Inl e, h)
           | Inr (pool, payment, max_price) \<Rightarrow>
               (case ad_runtime_error A of
                  Some e \<Rightarrow> (Inl (RuntimeNotStarted e), h)
                | None \<Rightarrow>
                    (case encrypted_file_signer (ad_lib A) (ad_decrypt A f) (da_keystore a) password of
                       Inl e \<Rightarrow> (Inl (KeystoreNotLoaded e), h)
                     | Inr signer \<Rightarrow> submit_once A a signer pool payment max_price h))))"

section \<open>The program\<close>

definition admin_main ::
  "('f, 'w, 'h) admin \<Rightarrow> string \<Rightarrow> string option \<Rightarrow> admin_cmd \<Rightarrow> 'f \<Rightarrow> 'w disk \<Rightarrow> 'h
   \<Rightarrow> (admin_error + string list) \<times> 'f \<times> 'w disk \<times> 'h" where
  "admin_main A keystore store_key_file cmd f d h =
     (case cmd of
        OperatorKeygen out password password_file \<Rightarrow>
          (case operator_keygen A out password password_file f of (r, f) \<Rightarrow> (r, f, d, h))
      | OperatorDispatch a \<Rightarrow> (case operator_dispatch A a f h of (r, h) \<Rightarrow> (r, f, d, h))
      | MigrateEncrypt dry_run \<Rightarrow>
          (case migrate_encrypt_cmd A keystore store_key_file dry_run f d of (r, f, d) \<Rightarrow> (r, f, d, h))
      | KeystoreCmd c \<Rightarrow>
          (case run_keystore_cmd A keystore store_key_file c f d of (r, f, d) \<Rightarrow> (r, f, d, h)))"

section \<open>Exit codes\<close>

lemma error_code_2:
  "error_code e = 2 \<longleftrightarrow> (\<exists>k. e = KeyNotSourced k) \<or> (\<exists>p k. e = KeystoreNotOpened p k)"
  by (cases e) simp_all

lemma error_code_pos: "0 < error_code e"
  by (cases e) simp_all

lemma exit_code_cases:
  "exit_code r = 0 \<longleftrightarrow> isl r = False"
  "exit_code r = 2 \<longleftrightarrow> (\<exists>e. r = Inl (KeyNotSourced e)) \<or> (\<exists>p e. r = Inl (KeystoreNotOpened p e))"
  using error_code_pos by (cases r; simp add: exit_code_def error_code_2)+

section \<open>Minting\<close>

text \<open>A minted key is printed once, alone on standard output, and the store has gained
  exactly its record, live and with the quotas asked for.\<close>

theorem created_key_printed:
  assumes "store_good P master hist durable w"
    and "run_store_cmd X P master (CreateKey label rps daily) w = (Inr out, w')"
  shows "store_good P master hist durable w'
    \<and> (\<exists>token rec. out = [token]
        \<and> view P master hist w'
          = (view P master hist w)(record_key (hash_key_id P token) \<mapsto> p_enc_key P rec)
        \<and> kr_label rec = label \<and> \<not> kr_revoked rec \<and> kr_quota_rps rec = rps \<and> kr_daily_quota rec = daily)"
proof -
  obtain token where out: "out = [token]" and c: "create_key P master label rps daily w = (Inr token, w')"
    using assms(2) by (auto simp: command_result_def split: prod.splits sum.splits)
  show ?thesis using create_key_Inr [OF assms(1) c] out by blast
qed

section \<open>A dry run\<close>

lemma source_store_key_no_generate:
  assumes "source_store_key A path flag False f = (r, f')"
  shows "f' = f"
  using assms [unfolded source_store_key_def load_store_key_def]
proof (cases rule: load_cases)
  case fresh
  then show ?thesis by (simp add: generate_key_def)
qed

text \<open>A dry run of the migration leaves the key file as it is, and needs none.\<close>

theorem dry_run_generates_nothing:
  assumes "migrate_encrypt_cmd A path flag True f d = (r, f', d')"
  shows "f' = f \<and> r \<noteq> Inl (KeyNotSourced (KeyNotFound p))"
proof -
  obtain k f1 where src: "source_store_key A path flag False f = (k, f1)" by fastforce
  from source_store_key_no_generate [OF src] have "f1 = f" .
  have "\<exists>m. migration_key A path flag True f = (m, f) \<and> m \<noteq> Inl (KeyNotFound p)"
  proof (cases k)
    case (Inl e)
    with src \<open>f1 = f\<close> show ?thesis by (cases e) (simp_all add: migration_key_def)
  next
    case (Inr ks)
    with src \<open>f1 = f\<close> show ?thesis by (cases ks) (simp add: migration_key_def)
  qed
  then obtain m where m: "migration_key A path flag True f = (m, f)" "m \<noteq> Inl (KeyNotFound p)" by blast
  show ?thesis
  proof (cases m)
    case (Inl e)
    with assms m show ?thesis by (auto simp: migrate_encrypt_cmd_def)
  next
    case (Inr master)
    obtain x d1 where "migrate_encrypt (ad_platform A) (ad_files A) path master True d = (x, d1)"
      by (rule prod.exhaust)
    with assms m Inr show ?thesis by (cases x) (auto simp: migrate_encrypt_cmd_def)
  qed
qed

section \<open>The operator key\<close>

text \<open>The address printed is that of a key file that was read back with the password.\<close>

theorem printed_address_opens:
  assumes "operator_keygen A out password password_file f = (Inr lines, f')"
  shows "\<exists>pw secret a. resolve_password (ad_key_files A) password password_file f = Inr pw
    \<and> ad_decrypt A f' out pw = Inr secret \<and> length secret = 32
    \<and> derive_secp256k1_address (ad_lib A) secret = Some a
    \<and> lines = [prefixed_hex (ad_lib A) (h160_bytes a)]"
proof -
  obtain pw where pw: "resolve_password (ad_key_files A) password password_file f = Inr pw"
    using assms by (auto simp: operator_keygen_def split: sum.splits)
  obtain sg where sg: "encrypted_file_signer (ad_lib A) (ad_decrypt A f') out pw = Inr (sg :: 'c signer)"
    and lines: "lines = [prefixed_hex (ad_lib A) (h160_bytes (sg_address sg))]"
    using assms by (auto simp: operator_keygen_def pw try_then_def split: sum.splits option.splits prod.splits)
  from sg obtain secret where "ad_decrypt A f' out pw = Inr secret" "length secret = 32"
    and local: "local_signer (ad_lib A) secret = Inr sg" by (rule encrypted_file_signer_InrE)
  with pw lines local_signerD(1) [OF local] show ?thesis by blast
qed

section \<open>The dispatch command\<close>

text \<open>The ceiling of the command's wallet is the largest amount there is, so that the
  command is never refused by it: the only errors are those of the chain and of the
  signer.\<close>

definition not_capped :: "gateway_error \<Rightarrow> bool" where
  "not_capped e \<longleftrightarrow> (\<forall>a b. e \<noteq> SpendCapExceeded a b)"

fun uncapped_phase :: "wallet_phase \<Rightarrow> bool" where
  "uncapped_phase (Resyncing e) = not_capped e"
| "uncapped_phase (Resetting e n) = not_capped e"
| "uncapped_phase (Finished (Inl e)) = not_capped e"
| "uncapped_phase p = True"

lemma wallet_rpc_error: "wallet_rpc W meth params s = (Inl e, s') \<Longrightarrow> not_capped e"
  by (auto simp: wallet_rpc_def not_capped_def split: prod.splits sum.splits option.splits)

lemma wallet_number_error: "wallet_number W meth params what s = (Inl e, s') \<Longrightarrow> not_capped e"
  unfolding wallet_number_def
  by (cases rule: try_then_cases)
     (auto dest: wallet_rpc_error simp: not_capped_def split: option.splits)

lemma eth_send_error: "eth_send_raw_transaction W raw s = (Inl e, s') \<Longrightarrow> not_capped e"
  unfolding eth_send_raw_transaction_def
  by (cases rule: try_then_cases)
     (auto dest: wallet_rpc_error simp: not_capped_def split: option.splits sum.splits if_splits)

lemma reserve_nonce_error: "reserve_nonce W s = (Inl e, s') \<Longrightarrow> not_capped e"
  unfolding reserve_nonce_def
  by (cases rule: try_then_cases)
     (auto simp: eth_get_transaction_count_def dest: wallet_number_error split: option.splits)

lemma try_spend_uncapped:
  "wa_ceiling_wei W = - 1 \<Longrightarrow> try_spend W amount block s \<noteq> (Inl e, s')"
  by (simp add: try_spend_def Let_def)

lemma wallet_advance_uncapped:
  assumes "wa_ceiling_wei W = - 1" "uncapped_phase p" "wallet_advance W p s = (p', s')"
  shows "uncapped_phase p'"
proof (cases p)
  case (Reading_Block job)
  with assms(3) show ?thesis
    by (auto simp: eth_block_number_def dest: wallet_number_error split: prod.splits sum.splits)
next
  case (Spending job block)
  with assms(1,3) show ?thesis by (auto simp: try_spend_uncapped split: prod.splits sum.splits)
next
  case (Reserving job)
  with assms(3) show ?thesis by (auto dest: reserve_nonce_error split: prod.splits sum.splits)
next
  case (Pricing job nonce)
  with assms(3) show ?thesis by (auto split: prod.splits)
next
  case (Signing job tx)
  with assms(3) show ?thesis by (auto simp: not_capped_def split: prod.splits sum.splits)
next
  case (Sending tx raw)
  with assms(3) show ?thesis by (auto dest: eth_send_error split: prod.splits sum.splits)
next
  case (Resyncing e)
  with assms(2,3) show ?thesis by (auto split: prod.splits sum.splits)
qed (use assms(2,3) in auto)

lemma wallet_run_uncapped:
  assumes "wa_ceiling_wei W = - 1" "uncapped_phase p"
  shows "uncapped_phase (fst (wallet_run n W p s))"
  using assms(2)
proof (induction n arbitrary: p s)
  case (Suc n)
  obtain p1 s1 where a: "wallet_advance W p s = (p1, s1)" by (rule prod.exhaust)
  from Suc.IH [OF wallet_advance_uncapped [OF assms(1) Suc.prems a]] show ?case by (simp add: a)
qed simp

theorem dispatch_command_uncapped:
  assumes "submit_once A a signer pool payment max_price h = (r, h')"
  shows "r \<noteq> Inl DispatchStuck \<and> r \<noteq> Inl (DispatchFailed (SpendCapExceeded x y))"
proof -
  obtain W s where W: "new_wallet (ad_lib A) (ad_rpc A) (da_rpc a) signer (da_chain_id a) pool (- 1) 100 h = (W, s)"
    by (rule prod.exhaust)
  define job where "job = Pool_Compute (ucast (da_pool_id a)) (as_bytes (da_job_spec a)) max_price payment"
  obtain q s1 where run: "wallet_call W job s = (q, s1)" by (rule prod.exhaust)
  from wallet_call_finishes [of W job s] run obtain res where q: "q = Finished res" by auto
  have "uncapped_phase q"
    using wallet_run_uncapped [of W "job_start job" 8 s] new_wallet_fresh [OF W] run
    by (simp add: wallet_call_def job_def)
  with assms W run show ?thesis
    by (cases res) (auto simp: submit_once_def dispatch_pool_compute_def job_def q not_capped_def)
qed

end
