(* ===== verification/Gateway_Boot.thy ===== *)
theory Gateway_Boot
  imports Member_Keys Batch_Recovery Key_Vault
begin

text \<open>
  Starting the gateway: \<open>gateway/src/main.rs\<close>, the policies and the routers of
  \<open>gateway/src/lib.rs\<close>, and the defaults of \<open>gateway/src/config.rs\<close>. The
  environment is a function of the variable's name. Binding a socket is a
  parameter that gives the address the listener reports; the vendored address
  table is a parameter; logging is left out. A panic at start is an error
  value of its own.
\<close>

section \<open>Outcomes\<close>

datatype boot_error =
    UnknownMode string
  | NoUpstreams
  | BadNumber string string
  | BadFlag string string
  | RpsOutOfRange
  | StoreNotOpened open_store_error
  | BindFailed string
  | ExposedOpenChat
  | BootPanic string

definition then_ok :: "'e + 'a \<Rightarrow> ('a \<Rightarrow> 'e + 'b) \<Rightarrow> 'e + 'b" where
  "then_ok r f = (case r of Inl e \<Rightarrow> Inl e | Inr a \<Rightarrow> f a)"

lemma then_ok_Inr [simp]: "then_ok r f = Inr b \<longleftrightarrow> (\<exists>a. r = Inr a \<and> f a = Inr b)"
  by (cases r) (auto simp: then_ok_def)

section \<open>Values from the environment\<close>

definition env_number :: "(string \<Rightarrow> string option) \<Rightarrow> string \<Rightarrow> u64 \<Rightarrow> boot_error + u64" where
  "env_number env name dflt =
     (case env name of
        None \<Rightarrow> Inr dflt
      | Some raw \<Rightarrow>
          (case parse_uint (2 ^ 64 - 1) (str_trim raw) of
             Some n \<Rightarrow> if 0 < n then Inr (of_nat n) else Inl (BadNumber name raw)
           | None \<Rightarrow> Inl (BadNumber name raw)))"

definition env_number_or_zero :: "(string \<Rightarrow> string option) \<Rightarrow> string \<Rightarrow> u64 \<Rightarrow> boot_error + u64" where
  "env_number_or_zero env name dflt =
     (case env name of
        None \<Rightarrow> Inr dflt
      | Some raw \<Rightarrow>
          (case parse_uint (2 ^ 64 - 1) (str_trim raw) of
             Some n \<Rightarrow> Inr (of_nat n)
           | None \<Rightarrow> Inl (BadNumber name raw)))"

definition env_flag :: "(string \<Rightarrow> string option) \<Rightarrow> string \<Rightarrow> boot_error + bool" where
  "env_flag env name =
     (case env name of
        None \<Rightarrow> Inr False
      | Some raw \<Rightarrow>
          let v = map ascii_lower (str_trim raw) in
          if v \<in> set ['''', ''0'', ''false'', ''no'', ''off''] then Inr False
          else if v \<in> set [''1'', ''true'', ''yes'', ''on''] then Inr True
          else Inl (BadFlag name raw))"

text \<open>A text setting: trimmed, and the default when nothing is left.\<close>

definition env_text :: "(string \<Rightarrow> string option) \<Rightarrow> string \<Rightarrow> string \<Rightarrow> string" where
  "env_text env name dflt =
     (case map_option str_trim (env name) of
        None \<Rightarrow> dflt
      | Some s \<Rightarrow> if s = [] then dflt else s)"

fun split_commas :: "string \<Rightarrow> string list" where
  "split_commas [] = [[]]"
| "split_commas (c # s) =
     (if c = CHR '','' then [] # split_commas s
      else case split_commas s of [] \<Rightarrow> [[c]] | w # ws \<Rightarrow> (c # w) # ws)"

definition url_list :: "string \<Rightarrow> string list" where
  "url_list raw = filter (\<lambda>s. s \<noteq> []) (map str_trim (split_commas raw))"

section \<open>The local proxy\<close>

definition member_key_config_from_env ::
  "(string \<Rightarrow> string option) \<Rightarrow> boot_error + member_key_config" where
  "member_key_config_from_env env =
     then_ok (env_number env ''CITRATE_GATEWAY_MEMBER_RPS'' (ucast (mc_quota_rps member_defaults))) (\<lambda>rps.
     then_ok (if unat rps < 2 ^ 32 then Inr (ucast rps) else Inl RpsOutOfRange) (\<lambda>quota_rps.
     then_ok (env_number env ''CITRATE_GATEWAY_MEMBER_DAILY'' (mc_daily_quota member_defaults)) (\<lambda>daily.
     then_ok (env_number_or_zero env ''CITRATE_GATEWAY_MEMBER_DAILY_POOL''
                (mc_pool_daily member_defaults)) (\<lambda>pool.
     then_ok (env_number env ''CITRATE_GATEWAY_MEMBER_MAX_CONCURRENT''
                (of_nat (mc_max_concurrent member_defaults))) (\<lambda>concurrent.
     then_ok (env_flag env ''CITRATE_GATEWAY_MEMBER_TRUST_XFF'') (\<lambda>trust.
       Inr (member_defaults\<lparr>
         mc_userinfo_url := env_text env ''CITRATE_GATEWAY_MEMBER_USERINFO_URL''
           (mc_userinfo_url member_defaults),
         mc_quota_rps := quota_rps, mc_daily_quota := daily, mc_pool_daily := pool,
         mc_max_concurrent := unat concurrent,
         mc_base_url := env_text env ''CITRATE_GATEWAY_MEMBER_BASE_URL'' (mc_base_url member_defaults),
         mc_model := env_text env ''CITRATE_GATEWAY_MEMBER_MODEL'' (mc_model member_defaults),
         mc_trust_forwarded_for := trust \<rparr>)))))))"

record 'w proxy_boot =
  pb_config :: "'w proxy_config"
  pb_keys :: "'w keystore"
  pb_members :: "member_key_config option"
  pb_address :: ip

definition or_default :: "(string \<Rightarrow> string option) \<Rightarrow> string \<Rightarrow> string \<Rightarrow> string" where
  "or_default env name dflt = (case env name of None \<Rightarrow> dflt | Some v \<Rightarrow> v)"

definition with_members ::
  "member_key_config \<Rightarrow> 'w proxy_config \<times> 'w keystore \<Rightarrow> 'w proxy_config \<times> 'w keystore" where
  "with_members mc pk =
     ((fst pk)\<lparr> px_member_concurrent := Some (mc_max_concurrent mc) \<rparr>,
      set_member_pool_daily (mc_pool_daily mc) (snd pk))"

text \<open>The state of the proxy once the store is open: limits and member keys.\<close>

definition proxy_settings ::
  "x402_lib \<Rightarrow> 'w platform \<Rightarrow> json_codec \<Rightarrow> (string \<Rightarrow> string option) \<Rightarrow> string list \<Rightarrow> 'w \<times> bytes
   \<Rightarrow> boot_error + ('w proxy_config \<times> 'w keystore) \<times> member_key_config option" where
  "proxy_settings X P J env upstreams store =
     then_ok (env_number env ''CITRATE_GATEWAY_MAX_TOKENS'' default_proxy_max_tokens) (\<lambda>tokens.
     then_ok (env_number env ''CITRATE_GATEWAY_MAX_CONCURRENT_PER_KEY''
                (of_nat default_max_concurrent_per_key)) (\<lambda>per_key.
     then_ok (env_number env ''CITRATE_GATEWAY_MAX_CONCURRENT_UPSTREAM''
                (of_nat default_max_concurrent_upstream)) (\<lambda>upstream.
     case local_proxy_new X P (snd store) J upstreams of
       None \<Rightarrow> Inl (BootPanic ''need at least one upstream'')
     | Some cfg \<Rightarrow>
         let stt_subpath = (case map_option str_trim (env ''CITRATE_GATEWAY_STT_SUBPATH'') of
               None \<Rightarrow> None | Some s \<Rightarrow> if s = [] then None else Some s);
             cfg = with_limits tokens (unat per_key) (unat upstream)
               (with_stt (url_list (or_default env ''CITRATE_GATEWAY_STT_URL'' [])) stt_subpath
                 (with_embed_upstreams
                   (url_list (or_default env ''CITRATE_GATEWAY_EMBED_UPSTREAM_URL'' [])) cfg));
             keys = \<lparr> ks_world = fst store, ks_rate = [], ks_member_pool_daily = 0 \<rparr>
         in then_ok (env_flag env ''CITRATE_GATEWAY_MEMBER_KEYS'') (\<lambda>members.
              if \<not> members then Inr ((cfg, keys), None)
              else then_ok (member_key_config_from_env env) (\<lambda>mc.
                     Inr (with_members mc (cfg, keys), Some mc))))))"

text \<open>Binding, and the address the listener reports, may each fail.\<close>

definition listening :: "string + (string + ip) \<Rightarrow> boot_error + ip" where
  "listening b =
     (case b of
        Inl e \<Rightarrow> Inl (BindFailed e)
      | Inr (Inl e) \<Rightarrow> Inl (BindFailed e)
      | Inr (Inr addr) \<Rightarrow> Inr addr)"

definition run_local_proxy ::
  "x402_lib \<Rightarrow> 'f key_files \<Rightarrow> 'w platform \<Rightarrow> 'w files \<Rightarrow> json_codec
   \<Rightarrow> (string \<Rightarrow> string + (string + ip)) \<Rightarrow> (string \<Rightarrow> string option) \<Rightarrow> 'f \<Rightarrow> 'w disk
   \<Rightarrow> (boot_error + 'w proxy_boot) \<times> 'f \<times> 'w disk" where
  "run_local_proxy X K P F J bind env f d =
     (let upstreams = url_list (or_default env ''CITRATE_GATEWAY_UPSTREAM_URL'' ''http://127.0.0.1:8181'')
      in if upstreams = [] then (Inl NoUpstreams, f, d)
      else
        case open_store X K P F env
               (or_default env ''CITRATE_GATEWAY_KEYSTORE_PATH'' ''/var/lib/citrate-gateway/keystore'') f d of
          (Inl e, fd) \<Rightarrow> (Inl (StoreNotOpened e), fd)
        | (Inr (store, source), fd) \<Rightarrow>
            (then_ok (proxy_settings X P J env upstreams store) (\<lambda>((cfg, keys), members).
               then_ok (listening (bind
                 (or_default env ''CITRATE_GATEWAY_LISTEN_ADDR'' ''127.0.0.1:9800''))) (\<lambda>addr.
                 Inr \<lparr> pb_config = cfg, pb_keys = keys, pb_members = members, pb_address = addr \<rparr>)),
             fd))"

section \<open>The policies of the marketplace\<close>

datatype marketplace_store_decision = Durable string | VolatileDevAllowed | RefusedProdVolatile

definition resolve_marketplace_store ::
  "string option \<Rightarrow> string option \<Rightarrow> marketplace_store_decision" where
  "resolve_marketplace_store keystore_path dev_mode =
     (let no_path = if dev_mode = Some ''1'' then VolatileDevAllowed else RefusedProdVolatile
      in case keystore_path of
           Some p \<Rightarrow> if p \<noteq> [] then Durable p else no_path
         | None \<Rightarrow> no_path)"

datatype open_chat_decision = ChatOff | ChatOn | RefusedNotDev

definition resolve_open_chat :: "string option \<Rightarrow> string option \<Rightarrow> open_chat_decision" where
  "resolve_open_chat open_chat dev_mode =
     (if open_chat \<noteq> Some ''1'' then ChatOff
      else if dev_mode = Some ''1'' then ChatOn
      else RefusedNotDev)"

fun open_chat_bind_allowed :: "ip \<Rightarrow> bool" where
  "open_chat_bind_allowed (V4 a b c d) \<longleftrightarrow> a = 127"
| "open_chat_bind_allowed (V6 s0 s1 s2 s3 s4 s5 s6 s7) \<longleftrightarrow>
     is_loopback_v6 [s0, s1, s2, s3, s4, s5, s6, s7]"

definition retired_placeholder_addr :: string where
  "retired_placeholder_addr = ''8951ae72e5479cae28ef7bb3caa4207d5719e24b''"

datatype money_error =
    NotConfigured string
  | NotHex string string string
  | NotTwentyBytes string nat string
  | ZeroAddress string
  | RetiredPlaceholder string

definition validate_money_address :: "x402_lib \<Rightarrow> string \<Rightarrow> string \<Rightarrow> money_error + h160" where
  "validate_money_address X name addr =
     (let trimmed = str_trim addr in
      if trimmed = [] then Inl (NotConfigured name)
      else
        let hex_part = (case strip_prefix ''0x'' trimmed of Some r \<Rightarrow> r | None \<Rightarrow> trimmed) in
        case hex_decode X hex_part of
          Inl e \<Rightarrow> Inl (NotHex name e trimmed)
        | Inr bytes \<Rightarrow>
            if length bytes \<noteq> 20 then Inl (NotTwentyBytes name (length bytes) trimmed)
            else
              let parsed = (word_from_slice bytes :: h160) in
              if parsed = 0 then Inl (ZeroAddress name)
              else if map ascii_lower hex_part = map ascii_lower retired_placeholder_addr
              then Inl (RetiredPlaceholder name)
              else Inr parsed)"

section \<open>The routers\<close>

datatype handler =
    Health | ModelList | Metrics | UsageReport | ChatCompletions | BatchSubmit | BatchGet | BatchOutput

text \<open>What a request passes before it reaches the handler.\<close>

datatype guard = NoGuard | X402Guard | KeyThenX402Guard

type_synonym route = "string \<times> string \<times> handler \<times> guard"

definition free_routes :: "route list" where
  "free_routes =
     [(''GET'', ''/health'', Health, NoGuard), (''GET'', ''/v1/models'', ModelList, NoGuard),
      (''GET'', ''/metrics'', Metrics, NoGuard)]"

definition usage_route :: route where
  "usage_route = (''GET'', ''/v1/usage'', UsageReport, NoGuard)"

definition batch_read_routes :: "route list" where
  "batch_read_routes =
     [(''GET'', ''/v1/batch/:id'', BatchGet, NoGuard),
      (''GET'', ''/v1/batch/:id/output'', BatchOutput, NoGuard)]"

definition inference_routes :: "guard \<Rightarrow> route list" where
  "inference_routes g =
     [(''POST'', ''/v1/chat/completions'', ChatCompletions, g),
      (''POST'', ''/v1/batch'', BatchSubmit, g)]"

definition marketplace_routes :: "bool \<Rightarrow> route list" where
  "marketplace_routes open_chat =
     free_routes @ (if open_chat then inference_routes NoGuard @ batch_read_routes else [])"

definition paid_routes :: "guard \<Rightarrow> route list" where
  "paid_routes g = free_routes @ [usage_route] @ inference_routes g @ batch_read_routes"

text \<open>The addresses a paid router is built with are validated first; a refused
  one is a panic.\<close>

definition money_addresses :: "x402_lib \<Rightarrow> string \<Rightarrow> string \<Rightarrow> boot_error + h160 \<times> h160" where
  "money_addresses X wsalt treasury =
     (case validate_money_address X ''wsalt_address'' wsalt of
        Inl e \<Rightarrow> Inl (BootPanic ''wsalt_address'')
      | Inr w \<Rightarrow>
          (case validate_money_address X ''treasury'' treasury of
             Inl e \<Rightarrow> Inl (BootPanic ''treasury'')
           | Inr t \<Rightarrow> Inr (w, t)))"

section \<open>The marketplace\<close>

definition open_marketplace_store ::
  "x402_lib \<Rightarrow> 'f key_files \<Rightarrow> 'w platform \<Rightarrow> 'w files \<Rightarrow> (string \<Rightarrow> string option) \<Rightarrow> 'f \<Rightarrow> 'w disk
   \<Rightarrow> (boot_error + (string \<times> 'w \<times> bytes) option) \<times> 'f \<times> 'w disk" where
  "open_marketplace_store X K P F env f d =
     (case resolve_marketplace_store (env ''CITRATE_GATEWAY_KEYSTORE_PATH'')
             (env ''CITRATE_GATEWAY_DEV_MODE'') of
        Durable path \<Rightarrow>
          (case open_store X K P F env path f d of
             (Inl e, fd) \<Rightarrow> (Inl (BootPanic ''failed to open durable gateway store''), fd)
           | (Inr ((w, key), source), fd) \<Rightarrow> (Inr (Some (path, w, key)), fd))
      | VolatileDevAllowed \<Rightarrow> (Inr None, f, d)
      | RefusedProdVolatile \<Rightarrow> (Inl (BootPanic ''REFUSING TO START''), f, d))"

record contract_addresses =
  ca_model_registry :: string
  ca_pricing_oracle :: string
  ca_inference_router :: string

record address_table =
  at_contracts :: "(string \<times> string) list"
  at_aa_stack :: "(string \<times> string) list"

definition canonical_address :: "address_table \<Rightarrow> string \<Rightarrow> boot_error + string" where
  "canonical_address T name =
     (case map_of (at_contracts T) name of
        Some a \<Rightarrow> Inr a
      | None \<Rightarrow>
          (case map_of (at_aa_stack T) name of
             Some a \<Rightarrow> Inr a
           | None \<Rightarrow> Inl (BootPanic name)))"

definition contracts_default :: "address_table \<Rightarrow> boot_error + contract_addresses" where
  "contracts_default T =
     then_ok (canonical_address T ''ModelRegistry'') (\<lambda>m.
     then_ok (canonical_address T ''ComputePricingOracle'') (\<lambda>p.
     then_ok (canonical_address T ''InferenceRouter'') (\<lambda>r.
       Inr \<lparr> ca_model_registry = m, ca_pricing_oracle = p, ca_inference_router = r \<rparr>)))"

definition env_contract ::
  "(string \<Rightarrow> string option) \<Rightarrow> address_table \<Rightarrow> string \<Rightarrow> (contract_addresses \<Rightarrow> string)
   \<Rightarrow> boot_error + string" where
  "env_contract env T name field =
     (case env name of
        Some v \<Rightarrow> Inr v
      | None \<Rightarrow> then_ok (contracts_default T) (\<lambda>c. Inr (field c)))"

record gateway_config =
  gc_chain_id :: u64
  gc_rpc_url :: string
  gc_listen_addr :: string
  gc_contracts :: contract_addresses

definition gateway_config_default :: "address_table \<Rightarrow> boot_error + gateway_config" where
  "gateway_config_default T =
     then_ok (contracts_default T) (\<lambda>c.
       Inr \<lparr> gc_chain_id = 40204, gc_rpc_url = ''http://127.0.0.1:8545'',
             gc_listen_addr = ''127.0.0.1:9800'', gc_contracts = c \<rparr>)"

definition marketplace_config ::
  "(string \<Rightarrow> string option) \<Rightarrow> address_table \<Rightarrow> boot_error + gateway_config" where
  "marketplace_config env T =
     then_ok (env_contract env T ''CITRATE_GATEWAY_MODEL_REGISTRY'' ca_model_registry) (\<lambda>m.
     then_ok (env_contract env T ''CITRATE_GATEWAY_PRICING_ORACLE'' ca_pricing_oracle) (\<lambda>p.
     then_ok (env_contract env T ''CITRATE_GATEWAY_INFERENCE_ROUTER'' ca_inference_router) (\<lambda>r.
       Inr \<lparr> gc_chain_id =
               (case Option.bind (env ''CITRATE_GATEWAY_CHAIN_ID'') (parse_uint (2 ^ 64 - 1)) of
                  Some n \<Rightarrow> of_nat n | None \<Rightarrow> 40204),
             gc_rpc_url = or_default env ''CITRATE_GATEWAY_RPC_URL'' ''http://127.0.0.1:8545'',
             gc_listen_addr = or_default env ''CITRATE_GATEWAY_LISTEN_ADDR'' ''127.0.0.1:9800'',
             gc_contracts = \<lparr> ca_model_registry = m, ca_pricing_oracle = p,
                              ca_inference_router = r \<rparr> \<rparr>)))"

text \<open>Everything the paid surface is served from: the routes, the batches over
  the keys, and for a durable store its key and the counts of the recovery.
  \<open>jcodec\<close> is the JSON form of a persisted batch; \<open>spare\<close> is the state a volatile
  store runs on.\<close>

record 'w marketplace =
  mk_routes :: "route list"
  mk_batches :: "'w batch_state"
  mk_master :: "bytes option"
  mk_recovered :: "nat \<times> nat"

type_synonym batch_codec = "(persisted_batch \<Rightarrow> bytes) \<times> (bytes \<Rightarrow> string + persisted_batch)"

definition marketplace_state ::
  "x402_lib \<Rightarrow> 'w platform \<Rightarrow> batch_codec \<Rightarrow> 'w \<Rightarrow> bool \<Rightarrow> (string \<times> 'w \<times> bytes) option \<Rightarrow> 'w disk
   \<Rightarrow> 'w marketplace \<times> 'w disk" where
  "marketplace_state X P jcodec spare open_chat store d =
     (case store of
        None \<Rightarrow>
          (\<lparr> mk_routes = marketplace_routes open_chat,
             mk_batches = \<lparr> bs_keys = keys_new spare, bs_persistent = False, bs_live = [] \<rparr>,
             mk_master = None, mk_recovered = (0, 0) \<rparr>, d)
      | Some (path, w, key) \<Rightarrow>
          let E = \<lparr> be_platform = P, be_master = key, be_lib = X, be_encode = fst jcodec,
                    be_decode = snd jcodec \<rparr>;
              (counts, s) = recover E \<lparr> bs_keys = with_persistent w, bs_persistent = True,
                                         bs_live = [] \<rparr>
          in (\<lparr> mk_routes = marketplace_routes open_chat, mk_batches = s, mk_master = Some key,
                mk_recovered = counts \<rparr>, d(path \<mapsto> as_world (bs_keys s))))"

definition build_router ::
  "x402_lib \<Rightarrow> 'f key_files \<Rightarrow> 'w platform \<Rightarrow> 'w files \<Rightarrow> batch_codec \<Rightarrow> 'w
   \<Rightarrow> (string \<Rightarrow> string option) \<Rightarrow> 'f \<Rightarrow> 'w disk \<Rightarrow> (boot_error + 'w marketplace) \<times> 'f \<times> 'w disk" where
  "build_router X K P F jcodec spare env f d =
     (let open_chat = (resolve_open_chat (env ''CITRATE_GATEWAY_OPEN_CHAT'')
                         (env ''CITRATE_GATEWAY_DEV_MODE'') = ChatOn)
      in case open_marketplace_store X K P F env f d of
           (Inl e, fd) \<Rightarrow> (Inl e, fd)
         | (Inr store, f, d) \<Rightarrow>
             (case marketplace_state X P jcodec spare open_chat store d of
                (m, d) \<Rightarrow> (Inr m, f, d)))"

definition run_marketplace ::
  "x402_lib \<Rightarrow> 'f key_files \<Rightarrow> 'w platform \<Rightarrow> 'w files \<Rightarrow> batch_codec \<Rightarrow> 'w \<Rightarrow> address_table
   \<Rightarrow> (string \<Rightarrow> string + (string + ip)) \<Rightarrow> (string \<Rightarrow> string option) \<Rightarrow> 'f \<Rightarrow> 'w disk
   \<Rightarrow> (boot_error + 'w marketplace \<times> gateway_config \<times> ip) \<times> 'f \<times> 'w disk" where
  "run_marketplace X K P F jcodec spare T bind env f d =
     (case marketplace_config env T of
        Inl e \<Rightarrow> (Inl e, f, d)
      | Inr config \<Rightarrow>
          (case build_router X K P F jcodec spare env f d of
             (Inl e, fd) \<Rightarrow> (Inl e, fd)
           | (Inr m, fd) \<Rightarrow>
               (case listening (bind (gc_listen_addr config)) of
                  Inl e \<Rightarrow> (Inl e, fd)
                | Inr addr \<Rightarrow>
                    if resolve_open_chat (env ''CITRATE_GATEWAY_OPEN_CHAT'')
                         (env ''CITRATE_GATEWAY_DEV_MODE'') = ChatOn
                       \<and> \<not> open_chat_bind_allowed addr
                    then (Inl ExposedOpenChat, fd)
                    else (Inr (m, config, addr), fd))))"

datatype 'w booted = Proxy "'w proxy_boot" | Market "'w marketplace" gateway_config ip

definition gateway_main ::
  "x402_lib \<Rightarrow> 'f key_files \<Rightarrow> 'w platform \<Rightarrow> 'w files \<Rightarrow> json_codec \<Rightarrow> batch_codec \<Rightarrow> 'w \<Rightarrow> address_table
   \<Rightarrow> (string \<Rightarrow> string + (string + ip)) \<Rightarrow> (string \<Rightarrow> string option) \<Rightarrow> 'f \<Rightarrow> 'w disk
   \<Rightarrow> (boot_error + 'w booted) \<times> 'f \<times> 'w disk" where
  "gateway_main X K P F J jcodec spare T bind env f d =
     (let mode = or_default env ''CITRATE_GATEWAY_MODE'' ''marketplace'' in
      if mode = ''local-proxy'' then
        (case run_local_proxy X K P F J bind env f d of
           (r, fd) \<Rightarrow> (map_sum id Proxy r, fd))
      else if mode = ''marketplace'' \<or> mode = [] then
        (case run_marketplace X K P F jcodec spare T bind env f d of
           (r, fd) \<Rightarrow> (map_sum id (\<lambda>(m, c, a). Market m c a) r, fd))
      else (Inl (UnknownMode mode), f, d))"

section \<open>What a started gateway serves\<close>

lemma settle_durably_backend:
  "bs_persistent (snd (settle_durably E i k p a b s)) = bs_persistent s
   \<and> as_backend (bs_keys (snd (settle_durably E i k p a b s))) = as_backend (bs_keys s)"
  by (cases k; cases "0 < a") (auto simp: settle_durably_def on_store_def split: prod.splits)

lemma recover_one_backend:
  "bs_persistent (snd (recover_one E i pb s)) = bs_persistent s
   \<and> as_backend (bs_keys (snd (recover_one E i pb s))) = as_backend (bs_keys s)"
  by (simp add: recover_one_def Let_def settle_durably_backend)

lemma recover_rows_backend:
  "bs_persistent (snd (recover_rows E rows m c s)) = bs_persistent s
   \<and> as_backend (bs_keys (snd (recover_rows E rows m c s))) = as_backend (bs_keys s)"
proof (induction E rows m c s rule: recover_rows.induct)
  case (2 E i b rows m c s)
  then show ?case
    using recover_one_backend [of E i _ s]
    by (auto split: sum.split prod.split) (metis snd_conv)+
qed simp

lemma recover_backend:
  "recover E s = (n, s') \<Longrightarrow> bs_persistent s' = bs_persistent s
     \<and> as_backend (bs_keys s') = as_backend (bs_keys s)"
  using recover_rows_backend [of E _ 0 0 s]
  by (auto simp: recover_def split: if_splits sum.splits) (metis snd_conv)+

text \<open>The store a marketplace runs on.\<close>

definition store_policy_met :: "(string \<Rightarrow> string option) \<Rightarrow> 'w marketplace \<Rightarrow> bool" where
  "store_policy_met env m \<longleftrightarrow>
     (if bs_persistent (mk_batches m)
      then as_backend (bs_keys (mk_batches m)) = PersistentBackend \<and> mk_master m \<noteq> None
        \<and> (\<exists>p. env ''CITRATE_GATEWAY_KEYSTORE_PATH'' = Some p \<and> p \<noteq> [])
      else env ''CITRATE_GATEWAY_DEV_MODE'' = Some ''1''
        \<and> env ''CITRATE_GATEWAY_KEYSTORE_PATH'' \<in> {None, Some []})"

definition inference_handler :: "handler \<Rightarrow> bool" where
  "inference_handler h \<longleftrightarrow> h = ChatCompletions \<or> h = BatchSubmit"

lemma build_router_policy:
  assumes "build_router X K P F jcodec spare env f d = (Inr m, fd)"
  shows "store_policy_met env m \<and> mk_routes m = marketplace_routes
    (env ''CITRATE_GATEWAY_OPEN_CHAT'' = Some ''1'' \<and> env ''CITRATE_GATEWAY_DEV_MODE'' = Some ''1'')"
proof -
  let ?open = "resolve_open_chat (env ''CITRATE_GATEWAY_OPEN_CHAT'')
    (env ''CITRATE_GATEWAY_DEV_MODE'') = ChatOn"
  have oc: "?open = (env ''CITRATE_GATEWAY_OPEN_CHAT'' = Some ''1''
      \<and> env ''CITRATE_GATEWAY_DEV_MODE'' = Some ''1'')"
    by (simp add: resolve_open_chat_def)
  obtain store f1 d1 d2 where o: "open_marketplace_store X K P F env f d = (Inr store, f1, d1)"
    and m: "marketplace_state X P jcodec spare ?open store d1 = (m, d2)"
    using assms by (auto simp: build_router_def Let_def split: prod.splits sum.splits)
  show ?thesis
  proof (cases store)
    case None
    then have "resolve_marketplace_store (env ''CITRATE_GATEWAY_KEYSTORE_PATH'')
        (env ''CITRATE_GATEWAY_DEV_MODE'') = VolatileDevAllowed"
      using o by (auto simp: open_marketplace_store_def
          split: marketplace_store_decision.splits prod.splits sum.splits)
    then have "env ''CITRATE_GATEWAY_DEV_MODE'' = Some ''1''
        \<and> env ''CITRATE_GATEWAY_KEYSTORE_PATH'' \<in> {None, Some []}"
      by (auto simp: resolve_marketplace_store_def Let_def split: option.splits if_splits)
    then show ?thesis
      using m None oc by (auto simp: marketplace_state_def store_policy_met_def)
  next
    case (Some st)
    obtain path w key where st: "st = (path, w, key)" by (cases st)
    have "resolve_marketplace_store (env ''CITRATE_GATEWAY_KEYSTORE_PATH'')
        (env ''CITRATE_GATEWAY_DEV_MODE'') = Durable path"
      using o Some st by (auto simp: open_marketplace_store_def
          split: marketplace_store_decision.splits prod.splits sum.splits)
    then have p: "env ''CITRATE_GATEWAY_KEYSTORE_PATH'' = Some path \<and> path \<noteq> []"
      by (auto simp: resolve_marketplace_store_def Let_def split: option.splits if_splits)
    show ?thesis
      using m Some st oc p
      by (auto simp: marketplace_state_def store_policy_met_def with_persistent_def Let_def
          dest!: recover_backend split: prod.splits)
  qed
qed

text \<open>What the local proxy starts with.\<close>

definition proxy_policy_met :: "'w proxy_boot \<Rightarrow> bool" where
  "proxy_policy_met b \<longleftrightarrow>
     px_upstreams (pb_config b) \<noteq> [] \<and> 1 \<le> px_max_tokens (pb_config b)
     \<and> 1 \<le> px_max_concurrent_per_key (pb_config b) \<and> 1 \<le> px_max_concurrent_upstream (pb_config b)
     \<and> px_member_concurrent (pb_config b) = map_option mc_max_concurrent (pb_members b)
     \<and> (\<forall>mc. pb_members b = Some mc \<longrightarrow> 0 < mc_quota_rps mc \<and> 0 < mc_daily_quota mc
          \<and> ks_member_pool_daily (pb_keys b) = mc_pool_daily mc)"

lemma unat_of_nat_u64: "k < 2 ^ 64 \<Longrightarrow> unat (of_nat k :: u64) = k"
  by (simp add: unsigned_of_nat take_bit_nat_eq_self)

lemma env_number_pos:
  assumes "env_number env name dflt = Inr n" and "0 < dflt"
  shows "0 < n"
proof (cases "env name")
  case (Some raw)
  then obtain k where k: "parse_uint (2 ^ 64 - 1) (str_trim raw) = Some k" "0 < k" "n = of_nat k"
    using assms(1) by (auto simp: env_number_def split: option.splits if_splits)
  then have "k < 2 ^ 64"
    by (auto simp: parse_uint_def Let_def split: if_splits option.splits)
  with k have "unat n = k" by (simp only: unat_of_nat_u64)
  with k(2) show ?thesis by (auto simp: word_gt_0)
qed (use assms in \<open>simp add: env_number_def\<close>)

lemma member_config_limits:
  assumes "member_key_config_from_env env = Inr mc"
  shows "0 < mc_quota_rps mc \<and> 0 < mc_daily_quota mc"
proof -
  obtain rps daily where
    rps: "env_number env ''CITRATE_GATEWAY_MEMBER_RPS'' (ucast (mc_quota_rps member_defaults)) = Inr rps"
      "unat rps < 2 ^ 32" "mc_quota_rps mc = ucast rps"
    and daily: "env_number env ''CITRATE_GATEWAY_MEMBER_DAILY'' (mc_daily_quota member_defaults) = Inr daily"
      "mc_daily_quota mc = daily"
    using assms by (auto simp: member_key_config_from_env_def split: if_splits)
  have "0 < rps" using env_number_pos [OF rps(1)] by (simp add: member_defaults_def)
  moreover have "unat (ucast rps :: u32) = unat rps"
    using rps(2) by (simp add: unsigned_ucast_eq take_bit_nat_eq_self)
  ultimately have "(0 :: u32) < ucast rps" by (metis unat_0 unat_eq_zero word_gt_0)
  moreover have "0 < daily" using env_number_pos [OF daily(1)] by (simp add: member_defaults_def)
  ultimately show ?thesis using rps(3) daily(2) by simp
qed

lemma configured_upstreams:
  "px_upstreams (with_limits t k u cfg) = px_upstreams cfg"
  "px_upstreams (with_stt us sub cfg) = px_upstreams cfg"
  "px_upstreams (with_embed_upstreams es cfg) = px_upstreams cfg"
  by (simp_all add: with_limits_def with_stt_def with_embed_upstreams_def Let_def split: option.split)

lemma configured_members:
  "px_member_concurrent (with_limits t k u cfg) = px_member_concurrent cfg"
  "px_member_concurrent (with_stt us sub cfg) = px_member_concurrent cfg"
  "px_member_concurrent (with_embed_upstreams es cfg) = px_member_concurrent cfg"
  by (simp_all add: with_limits_def with_stt_def with_embed_upstreams_def Let_def split: option.split)

lemma configured_limits:
  "1 \<le> px_max_tokens (with_limits t k u cfg)" "1 \<le> px_max_concurrent_per_key (with_limits t k u cfg)"
  "1 \<le> px_max_concurrent_upstream (with_limits t k u cfg)"
  by (simp_all add: with_limits_def max.coboundedI2)

lemma fresh_proxy:
  "upstreams \<noteq> [] \<Longrightarrow> \<exists>cfg. local_proxy_new X P m J upstreams = Some cfg
     \<and> px_upstreams cfg = upstreams \<and> px_member_concurrent cfg = None"
  by (simp add: local_proxy_new_def)

lemma proxy_settings_policy:
  assumes p: "proxy_settings X P J env upstreams store = Inr ((cfg, keys), members)"
    and "upstreams \<noteq> []"
  shows "proxy_policy_met \<lparr> pb_config = cfg, pb_keys = keys, pb_members = members, pb_address = a \<rparr>"
proof -
  obtain cfg0 where new: "local_proxy_new X P (snd store) J upstreams = Some cfg0"
    and cfg0: "px_upstreams cfg0 = upstreams" "px_member_concurrent cfg0 = None"
    using fresh_proxy [OF assms(2)] by blast
  obtain t k u us sub es cfg1 keys1 flag where
    cfg1: "cfg1 = with_limits t k u (with_stt us sub (with_embed_upstreams es cfg0))"
    and rest: "(if \<not> flag then Inr ((cfg1, keys1), None)
       else then_ok (member_key_config_from_env env) (\<lambda>mc.
              Inr (with_members mc (cfg1, keys1), Some mc))) = Inr ((cfg, keys), members)"
    using p unfolding proxy_settings_def then_ok_Inr new option.case Let_def by blast
  note C = configured_upstreams configured_members configured_limits configured_limits [simplified]
  show ?thesis
  proof (cases flag)
    case True
    then obtain mc where "member_key_config_from_env env = Inr mc"
      and "cfg = cfg1\<lparr> px_member_concurrent := Some (mc_max_concurrent mc) \<rparr>"
      and "keys = set_member_pool_daily (mc_pool_daily mc) keys1" and "members = Some mc"
      using rest by (auto simp: with_members_def)
    with member_config_limits [of env mc] show ?thesis
      using cfg0 assms(2) by (simp add: proxy_policy_met_def cfg1 set_member_pool_daily_def C)
  next
    case False
    with rest cfg0 assms(2) show ?thesis by (auto simp: proxy_policy_met_def cfg1 C)
  qed
qed

text \<open>C31. A gateway that has started serves no unpaid inference to the network: the
  marketplace mounts the chat and batch routes only when open chat and the
  development mode are both asked for and it listens on the loopback; its money
  store is durable and encrypted whenever a path is configured, and volatile
  only in development mode. The local proxy has an upstream, and no limit of it
  or of its member keys is zero.\<close>

theorem boot_fails_closed:
  assumes started: "gateway_main X K P F J jcodec spare T bind env f d = (Inr b, fd)"
  shows "case b of
      Market m config addr \<Rightarrow>
        store_policy_met env m
        \<and> (\<forall>(meth, p, h, g) \<in> set (mk_routes m). inference_handler h \<longrightarrow>
             env ''CITRATE_GATEWAY_OPEN_CHAT'' = Some ''1''
             \<and> env ''CITRATE_GATEWAY_DEV_MODE'' = Some ''1'' \<and> open_chat_bind_allowed addr)
    | Proxy pb \<Rightarrow> proxy_policy_met pb"
proof (cases b)
  case (Market m config addr)
  then obtain fd0 where r: "run_marketplace X K P F jcodec spare T bind env f d = (Inr (m, config, addr), fd0)"
    using started by (auto simp: gateway_main_def Let_def split: prod.splits if_splits sum.splits)
      (auto simp: map_sum_def split: sum.splits)
  then obtain fd1 where br: "build_router X K P F jcodec spare env f d = (Inr m, fd1)"
    and guarded: "\<not> (resolve_open_chat (env ''CITRATE_GATEWAY_OPEN_CHAT'')
        (env ''CITRATE_GATEWAY_DEV_MODE'') = ChatOn \<and> \<not> open_chat_bind_allowed addr)"
    by (auto simp: run_marketplace_def split: sum.splits prod.splits if_splits)
  from build_router_policy [OF br] guarded show ?thesis
    unfolding Market
    by (auto simp: marketplace_routes_def free_routes_def inference_handler_def resolve_open_chat_def
        split: if_splits)
next
  case (Proxy pb)
  then obtain fd0 where r: "run_local_proxy X K P F J bind env f d = (Inr pb, fd0)"
    using started by (auto simp: gateway_main_def Let_def split: prod.splits if_splits sum.splits)
      (auto simp: map_sum_def split: sum.splits)
  then obtain upstreams store cfg keys members a where "upstreams \<noteq> []"
    and "proxy_settings X P J env upstreams store = Inr ((cfg, keys), members)"
    and "pb = \<lparr> pb_config = cfg, pb_keys = keys, pb_members = members, pb_address = a \<rparr>"
    by (auto simp: run_local_proxy_def Let_def split: sum.splits prod.splits if_splits)
  with proxy_settings_policy show ?thesis unfolding Proxy by fastforce
qed

text \<open>The routers of the library take payment on every route that infers.\<close>

theorem paid_routes_guarded:
  "(meth, p, h, g) \<in> set (paid_routes guard) \<Longrightarrow> inference_handler h \<Longrightarrow> g = guard"
  by (auto simp: paid_routes_def free_routes_def usage_route_def inference_routes_def
      batch_read_routes_def inference_handler_def)

lemma strip_prefix_Some: "strip_prefix p s = Some r \<Longrightarrow> s = p @ r"
  unfolding strip_prefix_def by (metis append_take_drop_id option.distinct(1) option.inject)

text \<open>An accepted money address is the twenty bytes that were written, is not
  zero, and is not the placeholder in any spelling.\<close>

theorem money_address_explicit:
  assumes "validate_money_address X name addr = Inr a"
  shows "a \<noteq> 0 \<and> (\<exists>h bs. (str_trim addr = h \<or> str_trim addr = ''0x'' @ h) \<and> hex_decode X h = Inr bs
    \<and> length bs = 20 \<and> h160_bytes a = bs
    \<and> map ascii_lower h \<noteq> map ascii_lower retired_placeholder_addr)"
proof -
  define h where "h = (case strip_prefix ''0x'' (str_trim addr) of Some r \<Rightarrow> r | None \<Rightarrow> str_trim addr)"
  have "str_trim addr = h \<or> str_trim addr = ''0x'' @ h"
    unfolding h_def by (cases "strip_prefix ''0x'' (str_trim addr)") (auto dest: strip_prefix_Some)
  moreover obtain bs where "hex_decode X h = Inr bs" "length bs = 20" "a = word_from_slice bs"
    "a \<noteq> 0" "map ascii_lower h \<noteq> map ascii_lower retired_placeholder_addr"
    using assms unfolding validate_money_address_def Let_def h_def [symmetric]
    by (simp split: sum.splits if_splits)
  ultimately show ?thesis using h160_bytes_from_slice by blast
qed

section \<open>An example\<close>

definition sample_env :: "string \<Rightarrow> string option" where
  "sample_env = [''CITRATE_GATEWAY_DEV_MODE'' \<mapsto> ''1'', ''CITRATE_GATEWAY_OPEN_CHAT'' \<mapsto> ''1'']"

definition sample_addresses :: address_table where
  "sample_addresses =
     \<lparr> at_contracts = [(''ModelRegistry'', ''0x01''), (''ComputePricingOracle'', ''0x02''),
                       (''InferenceRouter'', ''0x03'')], at_aa_stack = [] \<rparr>"

definition sample_codec :: batch_codec where
  "sample_codec = ((\<lambda>b. []), (\<lambda>bs. Inl ''none''))"

lemma sample_marketplace_boot:
  "\<exists>m config fd. gateway_main sample_lib ref_key_files ref_platform ref_files J sample_codec ref_start
       sample_addresses (\<lambda>a. Inr (Inr (V4 127 0 0 1))) sample_env [] (\<lambda>p. None)
     = (Inr (Market m config (V4 127 0 0 1)), fd)
   \<and> (''POST'', ''/v1/chat/completions'', ChatCompletions, NoGuard) \<in> set (mk_routes m)"
proof -
  have env: "sample_env ''CITRATE_GATEWAY_DEV_MODE'' = Some ''1''"
    "sample_env ''CITRATE_GATEWAY_OPEN_CHAT'' = Some ''1''"
    "sample_env n = None" if "n \<notin> {''CITRATE_GATEWAY_DEV_MODE'', ''CITRATE_GATEWAY_OPEN_CHAT''}" for n
    using that by (auto simp: sample_env_def)
  obtain config where c: "marketplace_config sample_env sample_addresses = Inr config"
    by (simp add: marketplace_config_def env_contract_def env(3) contracts_default_def
        canonical_address_def sample_addresses_def then_ok_def)
  have oc: "resolve_open_chat (sample_env ''CITRATE_GATEWAY_OPEN_CHAT'')
      (sample_env ''CITRATE_GATEWAY_DEV_MODE'') = ChatOn"
    unfolding resolve_open_chat_def by (simp add: sample_env_def)
  have st: "resolve_marketplace_store (sample_env ''CITRATE_GATEWAY_KEYSTORE_PATH'')
      (sample_env ''CITRATE_GATEWAY_DEV_MODE'') = VolatileDevAllowed"
    unfolding resolve_marketplace_store_def by (simp add: sample_env_def)
  obtain m fd where br: "build_router sample_lib ref_key_files ref_platform ref_files sample_codec
      ref_start sample_env [] (\<lambda>p. None) = (Inr m, fd)" and m: "mk_routes m = marketplace_routes True"
    by (simp add: build_router_def oc open_marketplace_store_def st marketplace_state_def)
  have mode: "or_default sample_env ''CITRATE_GATEWAY_MODE'' ''marketplace'' = ''marketplace''"
    by (simp add: or_default_def sample_env_def)
  have "run_marketplace sample_lib ref_key_files ref_platform ref_files sample_codec ref_start
       sample_addresses (\<lambda>a. Inr (Inr (V4 127 0 0 1))) sample_env [] (\<lambda>p. None)
     = (Inr (m, config, V4 127 0 0 1), fd)"
    unfolding run_marketplace_def c sum.case br prod.case oc
    by (simp add: listening_def)
  then show ?thesis
    unfolding gateway_main_def mode Let_def by (simp add: m marketplace_routes_def inference_routes_def)
qed

theorem boot_fails_closed_witness:
  "\<exists>m config fd. gateway_main sample_lib ref_key_files ref_platform ref_files sample_json sample_codec
       ref_start sample_addresses (\<lambda>a. Inr (Inr (V4 127 0 0 1))) sample_env [] (\<lambda>p. None)
     = (Inr (Market m config (V4 127 0 0 1)), fd)
   \<and> store_policy_met sample_env m
   \<and> sample_env ''CITRATE_GATEWAY_DEV_MODE'' = Some ''1''"
proof -
  obtain m config fd where b: "gateway_main sample_lib ref_key_files ref_platform ref_files sample_json
       sample_codec ref_start sample_addresses (\<lambda>a. Inr (Inr (V4 127 0 0 1))) sample_env [] (\<lambda>p. None)
     = (Inr (Market m config (V4 127 0 0 1)), fd)"
    and r: "(''POST'', ''/v1/chat/completions'', ChatCompletions, NoGuard) \<in> set (mk_routes m)"
    using sample_marketplace_boot by blast
  from boot_fails_closed [OF b] r b show ?thesis by (fastforce simp: inference_handler_def)
qed

end
