(* ===== verification/Paid_Stack.thy ===== *)
theory Paid_Stack
  imports Gateway_Boot Chain_Rpc
begin

text \<open>
  The paid routers: the builder of the payment layer
  (\<open>crates/x402-axum/src/layer.rs\<close>, \<open>nonce.rs\<close>), the two routers of
  \<open>gateway/src/lib.rs\<close> that mount it, and what a request passes in them. In the
  second the bearer-key layer stands in front of the payment layer; the theorem
  of this theory is that the two together take payment for a request once.
\<close>

section \<open>The builder of the payment layer\<close>

definition parse_addr :: "x402_lib \<Rightarrow> string \<Rightarrow> h160 option" where
  "parse_addr X addr =
     (case hex_decode X (case strip_prefix ''0x'' addr of Some s \<Rightarrow> s | None \<Rightarrow> addr) of
        Inl e \<Rightarrow> None
      | Inr bytes \<Rightarrow> if length bytes \<noteq> 20 then None else Some (word_from_slice bytes))"

record 'w x402_builder =
  xb_chain_id :: "u64 option"
  xb_facilitator_address :: "h160 option"
  xb_wsalt_address :: "h160 option"
  xb_treasury :: "h160 option"
  xb_rpc_url :: "string option"
  xb_pricing :: "(request \<Rightarrow> bytes \<Rightarrow> 'w \<Rightarrow> (pricing_error + u256) \<times> 'w) option"
  xb_chain :: "'w chain_client option"
  xb_operator_secret :: "bytes option"
  xb_gas_price_wei :: "u64 option"
  xb_gas_limit :: "u64 option"
  xb_challenge_ttl_secs :: "u64 option"
  xb_receipt_timeout_secs :: "u64 option"

definition x402_builder_new :: "'w x402_builder" where
  "x402_builder_new =
     \<lparr> xb_chain_id = None, xb_facilitator_address = None, xb_wsalt_address = None,
       xb_treasury = None, xb_rpc_url = None, xb_pricing = None, xb_chain = None,
       xb_operator_secret = None, xb_gas_price_wei = None, xb_gas_limit = None,
       xb_challenge_ttl_secs = None, xb_receipt_timeout_secs = None \<rparr>"

text \<open>The setters; an address that does not parse unsets its field.\<close>

definition set_chain_id :: "u64 \<Rightarrow> 'w x402_builder \<Rightarrow> 'w x402_builder" where
  "set_chain_id n b = b\<lparr> xb_chain_id := Some n \<rparr>"

definition set_facilitator_address :: "x402_lib \<Rightarrow> string \<Rightarrow> 'w x402_builder \<Rightarrow> 'w x402_builder" where
  "set_facilitator_address X addr b = b\<lparr> xb_facilitator_address := parse_addr X addr \<rparr>"

definition set_wsalt_address :: "x402_lib \<Rightarrow> string \<Rightarrow> 'w x402_builder \<Rightarrow> 'w x402_builder" where
  "set_wsalt_address X addr b = b\<lparr> xb_wsalt_address := parse_addr X addr \<rparr>"

definition set_treasury :: "x402_lib \<Rightarrow> string \<Rightarrow> 'w x402_builder \<Rightarrow> 'w x402_builder" where
  "set_treasury X addr b = b\<lparr> xb_treasury := parse_addr X addr \<rparr>"

definition set_rpc_url :: "string \<Rightarrow> 'w x402_builder \<Rightarrow> 'w x402_builder" where
  "set_rpc_url url b = b\<lparr> xb_rpc_url := Some url \<rparr>"

definition set_pricing ::
  "(request \<Rightarrow> bytes \<Rightarrow> 'w \<Rightarrow> (pricing_error + u256) \<times> 'w) \<Rightarrow> 'w x402_builder \<Rightarrow> 'w x402_builder" where
  "set_pricing pricing b = b\<lparr> xb_pricing := Some pricing \<rparr>"

definition set_challenge_ttl_secs :: "u64 \<Rightarrow> 'w x402_builder \<Rightarrow> 'w x402_builder" where
  "set_challenge_ttl_secs n b = b\<lparr> xb_challenge_ttl_secs := Some n \<rparr>"

definition set_receipt_timeout_secs :: "u64 \<Rightarrow> 'w x402_builder \<Rightarrow> 'w x402_builder" where
  "set_receipt_timeout_secs n b = b\<lparr> xb_receipt_timeout_secs := Some n \<rparr>"

definition operator_secret_bytes :: "bytes \<Rightarrow> 'w x402_builder \<Rightarrow> 'w x402_builder" where
  "operator_secret_bytes secret b = b\<lparr> xb_operator_secret := Some secret \<rparr>"

definition set_chain_client :: "'w chain_client \<Rightarrow> 'w x402_builder \<Rightarrow> 'w x402_builder" where
  "set_chain_client chain b = b\<lparr> xb_chain := Some chain \<rparr>"

definition set_gas_price_wei :: "u64 \<Rightarrow> 'w x402_builder \<Rightarrow> 'w x402_builder" where
  "set_gas_price_wei n b = b\<lparr> xb_gas_price_wei := Some n \<rparr>"

definition set_gas_limit :: "u64 \<Rightarrow> 'w x402_builder \<Rightarrow> 'w x402_builder" where
  "set_gas_limit n b = b\<lparr> xb_gas_limit := Some n \<rparr>"

lemmas builder_setters = set_chain_id_def set_facilitator_address_def set_wsalt_address_def
  set_treasury_def set_rpc_url_def set_pricing_def set_challenge_ttl_secs_def
  set_receipt_timeout_secs_def operator_secret_bytes_def set_chain_client_def set_gas_price_wei_def
  set_gas_limit_def

definition operator_secret_hex :: "x402_lib \<Rightarrow> string \<Rightarrow> 'w x402_builder \<Rightarrow> 'w x402_builder" where
  "operator_secret_hex X s b =
     (case hex_decode X (case strip_prefix ''0x'' s of Some r \<Rightarrow> r | None \<Rightarrow> s) of
        Inl e \<Rightarrow> b
      | Inr bytes \<Rightarrow> if length bytes = 32 then b\<lparr> xb_operator_secret := Some bytes \<rparr> else b)"

text \<open>The operating system as the layer uses it, and the client it makes when
  none is given.\<close>

record 'w x402_host =
  xh_now :: "'w \<Rightarrow> u64 \<times> 'w"
  xh_fill_random :: "nat \<Rightarrow> 'w \<Rightarrow> bytes option \<times> 'w"
  xh_http_client :: "string \<Rightarrow> 'w chain_client"

text \<open>The HTTP client of \<open>Chain_Rpc\<close>. A call whose request never completes does not
  return, and neither does the payment layer that awaits it; nothing is said here
  of what it would return.\<close>

definition http_chain_client :: "x402_lib \<Rightarrow> 'w rpc_transport \<Rightarrow> string \<Rightarrow> 'w chain_client" where
  "http_chain_client X R url =
     \<lparr> verify_offline = (\<lambda>input w. the (http_verify_offline X R url input w)),
       get_nonce = (\<lambda>a w. the (http_get_nonce X R url a w)),
       send_raw_tx = (\<lambda>raw w. the (http_send_raw_tx X R url raw w)),
       wait_for_receipt = (\<lambda>h t w. the (http_wait_for_receipt X R url h t w)) \<rparr>"

definition nonce_source_new :: "'w x402_host \<Rightarrow> 'w \<Rightarrow> (string + bytes \<times> u64) \<times> 'w" where
  "nonce_source_new H w =
     (case xh_fill_random H 32 w of
        (None, w) \<Rightarrow> (Inl nonce_entropy_error, w)
      | (Some process_id, w) \<Rightarrow> (Inr (process_id, 0), w))"

definition required :: "string \<Rightarrow> 'a option \<Rightarrow> x402_error + 'a" where
  "required field v =
     (case v of None \<Rightarrow> Inl (InternalError (field @ '' not set'')) | Some a \<Rightarrow> Inr a)"

definition or_unset :: "'a option \<Rightarrow> 'a \<Rightarrow> 'a" where
  "or_unset v dflt = (case v of None \<Rightarrow> dflt | Some a \<Rightarrow> a)"

definition bind_ok :: "'e + 'a \<Rightarrow> ('a \<Rightarrow> 'e + 'b) \<Rightarrow> 'e + 'b" where
  "bind_ok r f = (case r of Inl e \<Rightarrow> Inl e | Inr a \<Rightarrow> f a)"

lemma bind_ok_Inr [simp]: "bind_ok r f = Inr b \<longleftrightarrow> (\<exists>a. r = Inr a \<and> f a = Inr b)"
  by (cases r) (auto simp: bind_ok_def)

definition x402_build_config ::
  "x402_lib \<Rightarrow> 'w x402_host \<Rightarrow> 'w x402_builder \<Rightarrow> x402_error + 'w x402_config" where
  "x402_build_config X H b =
     bind_ok (required ''chain_id'' (xb_chain_id b)) (\<lambda>chain_id.
     bind_ok (required ''facilitator_address'' (xb_facilitator_address b)) (\<lambda>facilitator.
     bind_ok (required ''wsalt_address'' (xb_wsalt_address b)) (\<lambda>wsalt.
     bind_ok (required ''treasury'' (xb_treasury b)) (\<lambda>treasury.
     bind_ok (required ''rpc_url'' (xb_rpc_url b)) (\<lambda>rpc_url.
     bind_ok (required ''pricing'' (xb_pricing b)) (\<lambda>pricing.
     bind_ok (required ''operator_secret'' (xb_operator_secret b)) (\<lambda>secret.
     bind_ok (case derive_secp256k1_address X secret of
                None \<Rightarrow> Inl (InternalError ''invalid operator_secret: not a valid scalar'')
              | Some a \<Rightarrow> Inr a) (\<lambda>operator_address.
       Inr \<lparr> cf_chain_id = chain_id, cf_facilitator_address = facilitator,
             cf_wsalt_address = wsalt, cf_treasury = treasury, cf_pricing = pricing,
             cf_chain = or_unset (xb_chain b) (xh_http_client H rpc_url),
             cf_operator_secret = secret, cf_operator_address = operator_address,
             cf_gas_price_wei = or_unset (xb_gas_price_wei b) 1000000000,
             cf_gas_limit = or_unset (xb_gas_limit b) 200000,
             cf_challenge_ttl_secs = or_unset (xb_challenge_ttl_secs b) 300,
             cf_receipt_timeout_secs = or_unset (xb_receipt_timeout_secs b) 10,
             cf_now = xh_now H, cf_fill_random = xh_fill_random H \<rparr>))))))))"

definition x402_build ::
  "x402_lib \<Rightarrow> 'w x402_host \<Rightarrow> 'w x402_builder \<Rightarrow> 'w
   \<Rightarrow> (x402_error + 'w x402_config \<times> 'w x402_state) \<times> 'w" where
  "x402_build X H b w =
     (case x402_build_config X H b of
        Inl e \<Rightarrow> (Inl e, w)
      | Inr cfg \<Rightarrow>
          (case nonce_source_new H w of
             (Inl e, w) \<Rightarrow> (Inl (InternalError (''nonce source unavailable: '' @ e)), w)
           | (Inr (process_id, c0), w) \<Rightarrow>
               (Inr (cfg, \<lparr> st_ledger = ledger_new default_max_outstanding,
                            st_process_id = process_id, st_counter = c0, st_world = w,
                            st_trace = [] \<rparr>), w)))"

section \<open>The routers\<close>

definition default_paid_model :: string where
  "default_paid_model = ''llama-3.1-8b''"

text \<open>What the two routers are built from: the configuration, the chain client,
  the operator's secret, the facilitator, the two money addresses as text, and
  the pricing strategy for a default model.\<close>

record 'w router_args =
  ra_config :: gateway_config
  ra_chain :: "'w chain_client"
  ra_operator_secret :: bytes
  ra_facilitator :: h160
  ra_wsalt :: string
  ra_treasury :: string
  ra_pricing :: "string \<Rightarrow> request \<Rightarrow> bytes \<Rightarrow> 'w \<Rightarrow> (pricing_error + u256) \<times> 'w"

definition router_layer :: "x402_lib \<Rightarrow> 'w router_args \<Rightarrow> h160 \<Rightarrow> h160 \<Rightarrow> 'w x402_builder" where
  "router_layer X A wsalt treasury =
     set_chain_client (ra_chain A) (operator_secret_bytes (ra_operator_secret A)
       (set_pricing (ra_pricing A default_paid_model) (set_rpc_url (gc_rpc_url (ra_config A))
         (set_treasury X (hex_addr X treasury) (set_wsalt_address X (hex_addr X wsalt)
           (set_facilitator_address X (hex_addr X (ra_facilitator A))
             (set_chain_id (gc_chain_id (ra_config A)) x402_builder_new)))))))"

type_synonym 'w paid_router = "route list \<times> 'w x402_config \<times> 'w x402_state"

definition paid_router ::
  "guard \<Rightarrow> x402_lib \<Rightarrow> 'w x402_host \<Rightarrow> 'w router_args \<Rightarrow> 'w \<Rightarrow> (boot_error + 'w paid_router) \<times> 'w" where
  "paid_router g X H A w =
     (case money_addresses X (ra_wsalt A) (ra_treasury A) of
        Inl e \<Rightarrow> (Inl e, w)
      | Inr (wsalt, treasury) \<Rightarrow>
          (case x402_build X H (router_layer X A wsalt treasury) w of
             (Inl e, w) \<Rightarrow> (Inl (BootPanic ''X402Layer build (smoke config valid)''), w)
           | (Inr (cfg, st), w) \<Rightarrow> (Inr (paid_routes g, cfg, st), w)))"

definition build_router_with ::
  "x402_lib \<Rightarrow> 'w x402_host \<Rightarrow> 'w router_args \<Rightarrow> 'w \<Rightarrow> (boot_error + 'w paid_router) \<times> 'w" where
  "build_router_with = paid_router X402Guard"

text \<open>The second router also has the bearer-key layer, which prices a request with
  the same strategy.\<close>

definition build_router_with_auth ::
  "x402_lib \<Rightarrow> 'w x402_host \<Rightarrow> 'w router_args \<Rightarrow> 'w
   \<Rightarrow> (boot_error + 'w paid_router
        \<times> (request \<Rightarrow> bytes \<Rightarrow> 'w \<Rightarrow> (pricing_error + u256) \<times> 'w)) \<times> 'w" where
  "build_router_with_auth X H A w =
     (case paid_router KeyThenX402Guard X H A w of
        (Inl e, w) \<Rightarrow> (Inl e, w)
      | (Inr r, w) \<Rightarrow> (Inr (r, ra_pricing A default_paid_model), w))"

section \<open>A request through both layers\<close>

text \<open>The calls of the key store on the state of the payment layer.\<close>

definition on_world :: "('w, 'd) key_api \<Rightarrow> ('w x402_state, 'd) key_api" where
  "on_world K =
     \<lparr> ka_get = (\<lambda>k st. ka_get K k (st_world st)),
       ka_debit = (\<lambda>k a. ask (ka_debit K k a)),
       ka_refund = (\<lambda>k a. ask (ka_refund K k a)) \<rparr>"

definition keyed_call ::
  "x402_lib \<Rightarrow> (string \<Rightarrow> json option) \<Rightarrow> 'w x402_config \<Rightarrow> ('w, 'd) key_api
   \<Rightarrow> (request \<Rightarrow> bytes \<Rightarrow> 'w \<Rightarrow> (pricing_error + u256) \<times> 'w)
   \<Rightarrow> (request \<Rightarrow> 'w \<Rightarrow> ('e + response) \<times> 'w) \<Rightarrow> request \<Rightarrow> 'w x402_state
   \<Rightarrow> ('e + response) \<times> 'w x402_state" where
  "keyed_call X parse cfg K key_pricing handler req st =
     api_key_call X parse (on_world K) (\<lambda>req body. ask (key_pricing req body))
       (x402_call X cfg handler) req st"

section \<open>What the routers are configured with\<close>

lemma parse_written_addr: "text_codecs_ok X \<Longrightarrow> parse_addr X (hex_addr X a) = Some a"
  by (simp add: parse_addr_def hex_addr_def strip_prefix_def text_codecs_ok_def)

text \<open>A paid router takes payment on every route that infers, to the treasury it
  was given, in the token it was given, and neither is zero; it starts with no
  outstanding challenge.\<close>

theorem paid_router_config:
  assumes X: "text_codecs_ok X" and r: "paid_router g X H A w = (Inr (routes, cfg, st), w')"
  shows "validate_money_address X ''wsalt_address'' (ra_wsalt A) = Inr (cf_wsalt_address cfg)
    \<and> validate_money_address X ''treasury'' (ra_treasury A) = Inr (cf_treasury cfg)
    \<and> cf_facilitator_address cfg = ra_facilitator A \<and> cf_treasury cfg \<noteq> 0 \<and> cf_wsalt_address cfg \<noteq> 0
    \<and> derive_secp256k1_address X (cf_operator_secret cfg) = Some (cf_operator_address cfg)
    \<and> routes = paid_routes g \<and> st_ledger st = ledger_new default_max_outstanding \<and> st_trace st = []"
proof -
  obtain wsalt treasury where m: "validate_money_address X ''wsalt_address'' (ra_wsalt A) = Inr wsalt"
      "validate_money_address X ''treasury'' (ra_treasury A) = Inr treasury"
    and b: "x402_build X H (router_layer X A wsalt treasury) w = (Inr (cfg, st), w')"
      "routes = paid_routes g"
    using r by (auto simp: paid_router_def money_addresses_def split: sum.splits prod.splits)
  have "x402_build_config X H (router_layer X A wsalt treasury) = Inr cfg"
    and "st_ledger st = ledger_new default_max_outstanding" "st_trace st = []"
    using b(1) by (auto simp: x402_build_def split: sum.splits prod.splits)
  moreover have "wsalt \<noteq> 0" "treasury \<noteq> 0"
    using money_address_explicit [OF m(1)] money_address_explicit [OF m(2)] by blast+
  ultimately show ?thesis
    using m b(2) parse_written_addr [OF X]
    by (auto simp: x402_build_config_def router_layer_def builder_setters required_def or_unset_def
        split: option.splits)
qed

section \<open>One payment per request\<close>

text \<open>What the bearer-key layer finds for a request with a usable key: its record,
  the price, and the state after the price was asked.\<close>

definition keyed ::
  "x402_lib \<Rightarrow> ('w, 'd) key_api \<Rightarrow> (request \<Rightarrow> bytes \<Rightarrow> 'w \<Rightarrow> (pricing_error + u256) \<times> 'w)
   \<Rightarrow> request \<Rightarrow> 'w \<Rightarrow> string \<Rightarrow> api_key_record \<Rightarrow> u256 \<Rightarrow> 'w \<Rightarrow> bool" where
  "keyed X K key_pricing req w k rec price w0 \<longleftrightarrow>
     extract_bearer (rq_headers req) = Some k \<and> ka_get K k w = Some rec \<and> \<not> ak_revoked rec
     \<and> (\<exists>body. buffer_request_body X req = Inr body \<and> key_pricing req body w = (Inr price, w0))"

text \<open>The key pays: its balance covered the price, the debit succeeded, the handler
  ran with the mark of the key, and the payment layer kept no trace of it.\<close>

definition paid_by_key ::
  "x402_lib \<Rightarrow> ('w, 'd) key_api \<Rightarrow> (request \<Rightarrow> bytes \<Rightarrow> 'w \<Rightarrow> (pricing_error + u256) \<times> 'w)
   \<Rightarrow> (request \<Rightarrow> 'w \<Rightarrow> ('e + response) \<times> 'w) \<Rightarrow> request
   \<Rightarrow> 'w x402_state \<Rightarrow> 'e + response \<Rightarrow> 'w x402_state \<Rightarrow> bool" where
  "paid_by_key X K key_pricing handler req st r st' \<longleftrightarrow>
     (\<exists>k rec price n w w1. keyed X K key_pricing req (st_world st) k rec price w
        \<and> price \<le> ak_balance_grains rec \<and> ka_debit K k price w = (Inr n, w1)
        \<and> fst (handler (mark_key_paid rec k price req) w1) = r
        \<and> st_trace st' = st_trace st \<and> st_ledger st' = st_ledger st)"

text \<open>The request was refused before the handler and before the payment layer.\<close>

definition refused_outright ::
  "'w x402_state \<Rightarrow> 'e + response \<Rightarrow> 'w x402_state \<Rightarrow> bool" where
  "refused_outright st r st' \<longleftrightarrow>
     (\<exists>resp. r = Inr resp \<and> rs_status resp \<in> {400, 401})
     \<and> st_trace st' = st_trace st \<and> st_ledger st' = st_ledger st"

text \<open>The payment layer answered the request as it came: without a bearer key from
  the very state, with one from the state after a balance that was too small or
  a debit that failed.\<close>

definition left_to_x402 ::
  "x402_lib \<Rightarrow> 'w x402_config \<Rightarrow> ('w, 'd) key_api
   \<Rightarrow> (request \<Rightarrow> bytes \<Rightarrow> 'w \<Rightarrow> (pricing_error + u256) \<times> 'w)
   \<Rightarrow> (request \<Rightarrow> 'w \<Rightarrow> ('e + response) \<times> 'w)
   \<Rightarrow> request \<Rightarrow> 'w x402_state \<Rightarrow> 'e + response \<Rightarrow> 'w x402_state \<Rightarrow> bool" where
  "left_to_x402 X cfg K key_pricing handler req st r st' \<longleftrightarrow>
     (\<exists>st1 r1. x402_call X cfg handler req st1 = (r1, st')
        \<and> st_trace st1 = st_trace st \<and> st_ledger st1 = st_ledger st
        \<and> map_sum id rs_status r = map_sum id rs_status r1
        \<and> (case extract_bearer (rq_headers req) of
             None \<Rightarrow> st1 = st
           | Some k \<Rightarrow>
               (\<exists>rec price w. keyed X K key_pricing req (st_world st) k rec price w
                  \<and> (ak_balance_grains rec < price \<and> st_world st1 = w
                     \<or> (\<exists>e. ka_debit K k price w = (Inl e, st_world st1))))))"

lemma hint_status: "rs_status (attach_deposit_hint X parse resp a) = rs_status resp"
  by (simp add: attach_deposit_hint_def Let_def split: option.split)

lemma ask_snd: "st_trace (snd (ask f st)) = st_trace st" "st_ledger (snd (ask f st)) = st_ledger st"
  using askD [of f st "fst (ask f st)" "snd (ask f st)"] by simp_all

lemma settle_on_world:
  "st_trace (settle_api_key_response (on_world K) k price resp st) = st_trace st
   \<and> st_ledger (settle_api_key_response (on_world K) k price resp st) = st_ledger st"
  by (simp add: settle_api_key_response_def on_world_def ask_snd split: option.split)

lemma unfunded_left:
  assumes u: "unfunded_call X parse (x402_call X cfg handler) req a st1 = (r, st')"
  shows "\<exists>r1. x402_call X cfg handler req st1 = (r1, st')
    \<and> map_sum id rs_status r = map_sum id rs_status r1"
  using u by (auto simp: unfunded_call_def hint_status split: prod.splits sum.splits)

lemma funded_by_key:
  assumes kd: "keyed X K key_pricing req (st_world st) k rec price (st_world st0)"
    and le: "price \<le> ak_balance_grains rec"
    and d: "ask (ka_debit K k price) st0 = (Inr n, st1)"
    and keep: "st_trace st0 = st_trace st" "st_ledger st0 = st_ledger st"
    and f: "funded_call (on_world K) (x402_call X cfg handler) req rec k price st1 = (r, st')"
  shows "paid_by_key X K key_pricing handler req st r st'"
proof -
  let ?req = "mark_key_paid rec k price req"
  obtain w1 where w1: "ka_debit K k price (st_world st0) = (Inr n, w1)" "st_world st1 = w1"
    using ask_state(5) [OF d] by auto
  have x: "x402_call X cfg handler ?req st1 = ask (handler ?req) st1"
    by (simp add: x402_call_def mark_key_paid_def)
  obtain y st2 where y: "ask (handler ?req) st1 = (y, st2)" by fastforce
  then have "fst (handler ?req w1) = y"
    using ask_state(5) [OF y] w1(2) by auto
  moreover have "r = y \<and> st_trace st' = st_trace st2 \<and> st_ledger st' = st_ledger st2"
    using f settle_on_world [of K k price _ st2] unfolding funded_call_def x y by (cases y) auto
  ultimately show ?thesis
    unfolding paid_by_key_def using kd le w1(1) askD [OF d] askD [OF y] keep by metis
qed

text \<open>The requests the two layers see together, from the bearer key on.\<close>

lemma keyed_call_known:
  assumes kd: "extract_bearer (rq_headers req) = Some k" "ka_get K k (st_world st) = Some rec"
      "\<not> ak_revoked rec" "buffer_request_body X req = Inr body"
    and p: "ask (key_pricing req body) st = (Inr price, st0)"
    and call: "keyed_call X parse cfg K key_pricing handler req st = (r, st')"
  shows "paid_by_key X K key_pricing handler req st r st' \<or> left_to_x402 X cfg K key_pricing handler req st r st'"
proof -
  note p0 = askD [OF p]
  have keyed: "keyed X K key_pricing req (st_world st) k rec price (st_world st0)"
    using kd ask_state(5) [OF p] by (auto simp: keyed_def)
  obtain dr st1 where d: "ask (ka_debit K k price) st0 = (dr, st1)" by fastforce
  have left: "left_to_x402 X cfg K key_pricing handler req st r st'"
    if "unfunded_call X parse (x402_call X cfg handler) req (ak_deposit_address rec) st2 = (r, st')"
      and "st_trace st2 = st_trace st" "st_ledger st2 = st_ledger st"
      and "ak_balance_grains rec < price \<and> st_world st2 = st_world st0
        \<or> (\<exists>e. ka_debit K k price (st_world st0) = (Inl e, st_world st2))" for st2
    using unfunded_left [OF that(1)] that(2-4) keyed
    unfolding left_to_x402_def kd(1) option.case by blast
  show ?thesis
  proof (cases "ak_balance_grains rec < price")
    case True
    with call kd p
    have "unfunded_call X parse (x402_call X cfg handler) req (ak_deposit_address rec) st0 = (r, st')"
      by (simp add: keyed_call_def api_key_call_def on_world_def)
    from left [OF this] p0 True show ?thesis by blast
  next
    case False
    show ?thesis
    proof (cases dr)
      case (Inl e)
      with call kd p False d
      have u: "unfunded_call X parse (x402_call X cfg handler) req (ak_deposit_address rec) st1 = (r, st')"
        by (simp add: keyed_call_def api_key_call_def on_world_def)
      have "ka_debit K k price (st_world st0) = (Inl e, st_world st1)"
        using ask_state(5) [OF d] Inl by auto
      with left [OF u] p0 askD [OF d] show ?thesis by auto
    next
      case (Inr n)
      with call kd p False d
      have "funded_call (on_world K) (x402_call X cfg handler) req rec k price st1 = (r, st')"
        by (simp add: keyed_call_def api_key_call_def on_world_def)
      from funded_by_key [OF keyed _ d [unfolded Inr] _ _ this] p0 False show ?thesis by auto
    qed
  qed
qed

text \<open>C14. A request passes exactly one till. Either a funded key pays: its balance
  covered the price and was debited, the handler ran under that mark, and the
  payment layer submitted nothing and used no challenge; or the request was
  refused before the handler; or the payment layer alone answered it, and no
  debit of the key had succeeded.\<close>

theorem one_payment_per_request:
  assumes fresh: "rq_paid req = None"
    and call: "keyed_call X parse cfg K key_pricing handler req st = (r, st')"
  shows "paid_by_key X K key_pricing handler req st r st' \<or> refused_outright st r st'
    \<or> left_to_x402 X cfg K key_pricing handler req st r st'"
proof (cases "extract_bearer (rq_headers req)")
  case None
  then have "x402_call X cfg handler req st = (r, st')"
    using call by (simp add: keyed_call_def api_key_call_def)
  then have "left_to_x402 X cfg K key_pricing handler req st r st'"
    unfolding left_to_x402_def None by auto
  then show ?thesis by blast
next
  case (Some k)
  have refused: "refused_outright st (Inr (key_401 X m)) st" "refused_outright st (Inr (key_400 X m)) st1"
    if "st_trace st1 = st_trace st" "st_ledger st1 = st_ledger st" for m st1
    using that by (simp_all add: refused_outright_def key_401_def key_400_def json_response_def)
  consider (unknown) m where "(r, st') = (Inr (key_401 X m), st)"
    | (body) m where "(r, st') = (Inr (key_400 X m), st)"
    | (known) rec body where "ka_get K k (st_world st) = Some rec" "buffer_request_body X req = Inr body"
        "\<not> ak_revoked rec"
    using call Some
    by (auto simp: keyed_call_def api_key_call_def on_world_def split: option.splits sum.splits if_splits)
  then show ?thesis
  proof cases
    case known
    obtain p st0 where p: "ask (key_pricing req body) st = (p, st0)" by fastforce
    show ?thesis
    proof (cases p)
      case (Inl e)
      then have "(r, st') = (Inr (key_400 X (pricing_display e)), st0)"
        using call Some known p by (simp add: keyed_call_def api_key_call_def on_world_def)
      with refused(2) askD [OF p] show ?thesis by blast
    next
      case (Inr price)
      with keyed_call_known [OF Some known(1,3,2) _ call] p show ?thesis by blast
    qed
  qed (use refused in blast)+
qed

text \<open>A request with a funded key over the memory store: the key pays, and no
  transaction is sent.\<close>

definition keyed_config :: "ref_world key_store x402_config" where
  "keyed_config =
     \<lparr> cf_chain_id = 40204, cf_facilitator_address = 1, cf_wsalt_address = 2, cf_treasury = 3,
       cf_pricing = (\<lambda>req body w. (Inr 40, w)),
       cf_chain = \<lparr> verify_offline = (\<lambda>b w. (Inr None, w)), get_nonce = (\<lambda>a w. (Inr 0, w)),
         send_raw_tx = (\<lambda>b w. (Inr 0, w)), wait_for_receipt = (\<lambda>h t w. (Inl SettlePendingTimeout, w)) \<rparr>,
       cf_operator_secret = replicate 32 1, cf_operator_address = 4, cf_gas_price_wei = 1,
       cf_gas_limit = 1, cf_challenge_ttl_secs = 300, cf_receipt_timeout_secs = 10,
       cf_now = (\<lambda>w. (0, w)), cf_fill_random = (\<lambda>n w. (None, w)) \<rparr>"

definition keyed_state :: "ref_world key_store x402_state" where
  "keyed_state =
     \<lparr> st_ledger = ledger_new 4, st_process_id = [], st_counter = 0,
       st_world = sample_memory_store, st_trace = [] \<rparr>"

theorem one_payment_per_request_witness:
  "\<exists>r st'. keyed_call sample_lib (\<lambda>s. None) keyed_config (store_api ref_platform ref_master)
       (\<lambda>req body w. (Inr 40, w)) sample_key_handler sample_key_request keyed_state = (r, st')
     \<and> rs_status (projr r) = 200
     \<and> paid_by_key sample_lib (store_api ref_platform ref_master) (\<lambda>req body w. (Inr 40, w))
         sample_key_handler sample_key_request keyed_state r st'"
proof -
  let ?K = "store_api ref_platform ref_master"
  let ?h = "hash_key_id ref_platform sample_key"
  define rec where "rec = \<lparr> ak_label = ''ci'', ak_balance_grains = 100 :: u256,
    ak_deposit_address = 7 :: h160, ak_revoked = False, ak_backing = Salt, ak_created_at = 7 :: u64,
    ak_model_budgets = [] \<rparr>"
  have s: "sample_memory_store = \<lparr> as_backend = MemoryBackend [(?h, rec)], as_world = ref_start \<rparr>"
    by (simp add: sample_memory_store_def rec_def)
  have bearer: "extract_bearer (rq_headers sample_key_request) = Some sample_key"
    by (simp add: extract_bearer_def sample_key_request_def header_to_str_def strip_prefix_def
        sample_key_trim sample_key_def of_char_def)
  have get: "keys_get ref_platform ref_master sample_key sample_memory_store = Some rec"
    by (simp add: keys_get_def s)
  have body: "buffer_request_body sample_lib sample_key_request = Inr [1, 2, 3]"
    by (simp add: buffer_request_body_def sample_key_request_def max_pricing_body_bytes_def)
  define s1 where "s1 = set_memory [(?h, rec\<lparr> ak_balance_grains := 60 \<rparr>)] sample_memory_store"
  have d: "keys_debit ref_platform ref_master sample_key 40 sample_memory_store = (Inr 60, s1)"
    by (simp add: keys_debit_def s s1_def rec_def Let_def)
  obtain r st' where c: "keyed_call sample_lib (\<lambda>s. None) keyed_config ?K
       (\<lambda>req body w. (Inr 40, w)) sample_key_handler sample_key_request keyed_state = (r, st')"
    by fastforce
  have fresh: "rq_paid sample_key_request = None" by (simp add: sample_key_request_def)
  note one = one_payment_per_request [OF fresh c]
  have st: "st_world keyed_state = sample_memory_store" by (simp add: keyed_state_def)
  have r: "rs_status (projr r) = 200 \<and> r = fst (sample_key_handler
      (mark_key_paid rec sample_key 40 sample_key_request) s1)"
    using c bearer get body d
    by (auto simp: keyed_call_def api_key_call_def on_world_def store_api_def st ask_def
        funded_call_def x402_call_def mark_key_paid_def sample_key_handler_def rec_def
        split: prod.splits)
  have "\<not> left_to_x402 sample_lib keyed_config ?K (\<lambda>req body w. (Inr 40, w)) sample_key_handler
      sample_key_request keyed_state r st'"
    using bearer get d by (auto simp: left_to_x402_def keyed_def st store_api_def rec_def)
  moreover have "\<not> refused_outright keyed_state r st'"
    using r by (auto simp: refused_outright_def)
  ultimately show ?thesis using c r one by blast
qed

end
