(* ===== verification/Model_Catalogue.thy ===== *)
theory Model_Catalogue
  imports Gateway_Types Rust_Text X402_Wire
begin

text \<open>
  The free endpoints: the list of models of \<open>gateway/src/models.rs\<close> and the
  health probe of \<open>gateway/src/health.rs\<close>. The chain queries are those of
  \<open>Gateway_Types\<close>; the clock, the environment and the commit baked in by the
  build are parameters.
\<close>

section \<open>Models\<close>

record listed_model =
  me_id :: string
  me_object :: string
  me_owned_by :: string
  me_created :: u64

definition strip_pool_prefix :: "string \<Rightarrow> string" where
  "strip_pool_prefix name = (case strip_prefix ''pool-'' name of Some r \<Rightarrow> r | None \<Rightarrow> name)"

definition listed_model_of :: "x402_lib \<Rightarrow> u64 \<Rightarrow> model_info \<Rightarrow> listed_model" where
  "listed_model_of X now m =
     \<lparr> me_id = mi_name m, me_object = ''model'',
       me_owned_by = ''0x'' @ hex_encode X (h160_bytes (mi_owner m)), me_created = now \<rparr>"

definition listed_pool :: "u64 \<Rightarrow> pool_entry \<Rightarrow> listed_model" where
  "listed_pool now p =
     \<lparr> me_id = ''pool-'' @ strip_pool_prefix (po_name p), me_object = ''model'',
       me_owned_by = ''pool:'' @ dec_string (unat (po_pool_id p)), me_created = now \<rparr>"

text \<open>\<open>unwrap_or_default\<close>: a failed query lists nothing.\<close>

definition or_empty :: "'e + 'a list \<Rightarrow> 'a list" where
  "or_empty r = (case r of Inl e \<Rightarrow> [] | Inr xs \<Rightarrow> xs)"

definition models_handler ::
  "x402_lib \<Rightarrow> 's chain_queries \<Rightarrow> ('s \<Rightarrow> u64 \<times> 's) \<Rightarrow> 's \<Rightarrow> listed_model list \<times> 's" where
  "models_handler X Q clock s =
     (case clock s of (now, s) \<Rightarrow>
      case list_models Q s of (models, s) \<Rightarrow>
      case list_pools Q 0 s of (pools, s) \<Rightarrow>
        (map (listed_model_of X now) (filter mi_is_active (or_empty models))
         @ map (listed_pool now) (or_empty pools), s))"

definition models_response :: "listed_model list \<Rightarrow> json" where
  "models_response entries =
     JObj [(''object'', JStr ''list''),
       (''data'', JArr (map (\<lambda>e. JObj [(''id'', JStr (me_id e)), (''object'', JStr (me_object e)),
          (''owned_by'', JStr (me_owned_by e)), (''created'', JUint (unat (me_created e)))]) entries))]"

section \<open>Health\<close>

fun first_set :: "(string \<Rightarrow> string option) \<Rightarrow> string list \<Rightarrow> string option" where
  "first_set env [] = None"
| "first_set env (k # ks) =
     (case map_option str_trim (env k) of
        Some v \<Rightarrow> if v \<noteq> [] then Some v else first_set env ks
      | None \<Rightarrow> first_set env ks)"

definition git_sha :: "(string \<Rightarrow> string option) \<Rightarrow> string \<Rightarrow> string" where
  "git_sha env baked =
     (case first_set env [''GIT_SHA'', ''SOURCE_COMMIT''] of Some v \<Rightarrow> v | None \<Rightarrow> baked)"

definition health_handler :: "(string \<Rightarrow> string option) \<Rightarrow> string \<Rightarrow> json" where
  "health_handler env baked = JObj [(''ok'', JBool True), (''sha'', JStr (git_sha env baked))]"

section \<open>What is listed\<close>

text \<open>A listed entry is an active model or a pool, every active model is listed
  under its own name and owner, and a source that fails only empties its part.\<close>

theorem catalogue_lists_active:
  assumes "models_handler X Q clock s = (entries, s')"
    and "clock s = (now, s1)" "list_models Q s1 = (models, s2)" "list_pools Q 0 s2 = (pools, s3)"
  shows "(e \<in> set entries \<longleftrightarrow>
      (\<exists>m \<in> set (or_empty models). mi_is_active m \<and> e = listed_model_of X now m)
      \<or> (\<exists>p \<in> set (or_empty pools). e = listed_pool now p))
    \<and> length entries = length (filter mi_is_active (or_empty models)) + length (or_empty pools)"
  using assms by (auto simp: models_handler_def)

text \<open>A pool is never listed with a doubled prefix of its own making, and its
  name is found again behind the prefix.\<close>

theorem pool_names_once:
  "me_id (listed_pool now (p\<lparr> po_name := ''pool-'' @ name \<rparr>)) = ''pool-'' @ name
   \<and> strip_pool_prefix (me_id (listed_pool now p)) = strip_pool_prefix (po_name p)"
  by (simp add: listed_pool_def strip_pool_prefix_def strip_prefix_def)

end
