(* ===== verification/Telemetry.thy ===== *)
theory Telemetry
  imports X402_Layer Rust_Text "HOL-Library.Multiset"
begin

text \<open>
  What an operator can observe: the counters hook of the payment layer
  (\<open>crates/x402-axum/src/observability.rs\<close>) and the \<open>/metrics\<close> endpoint with its
  operator token (\<open>gateway/src/metrics.rs\<close>). The recorder that renders the counters
  is a parameter.
\<close>

section \<open>The counters hook\<close>

record counters =
  ct_settlements :: u64
  ct_rejections :: u64
  ct_nonce_replayed :: u64
  ct_invalid_sig :: u64
  ct_expired :: u64
  ct_budget :: u64
  ct_malformed :: u64
  ct_insufficient_balance :: u64
  ct_other :: u64

definition counters_new :: counters where
  "counters_new =
     \<lparr> ct_settlements = 0, ct_rejections = 0, ct_nonce_replayed = 0, ct_invalid_sig = 0,
       ct_expired = 0, ct_budget = 0, ct_malformed = 0, ct_insufficient_balance = 0, ct_other = 0 \<rparr>"

definition count_settled :: "settled_event \<Rightarrow> counters \<Rightarrow> counters" where
  "count_settled ev c = c\<lparr> ct_settlements := ct_settlements c + 1 \<rparr>"

definition count_rejected :: "rejected_event \<Rightarrow> counters \<Rightarrow> counters" where
  "count_rejected ev c =
     (let c = c\<lparr> ct_rejections := ct_rejections c + 1 \<rparr>; r = re_reason ev
      in if r = ''nonce replayed'' then c\<lparr> ct_nonce_replayed := ct_nonce_replayed c + 1 \<rparr>
         else if r = ''signature invalid'' then c\<lparr> ct_invalid_sig := ct_invalid_sig c + 1 \<rparr>
         else if r = ''expired'' then c\<lparr> ct_expired := ct_expired c + 1 \<rparr>
         else if r = ''budget cap exceeded'' then c\<lparr> ct_budget := ct_budget c + 1 \<rparr>
         else if r = ''malformed payment header'' \<or> r = ''payment required''
              then c\<lparr> ct_malformed := ct_malformed c + 1 \<rparr>
         else if r = ''insufficient balance''
              then c\<lparr> ct_insufficient_balance := ct_insufficient_balance c + 1 \<rparr>
         else c\<lparr> ct_other := ct_other c + 1 \<rparr>)"

record rejection_breakdown =
  rb_nonce_replayed :: u64
  rb_invalid_signature :: u64
  rb_expired :: u64
  rb_budget_exceeded :: u64
  rb_malformed :: u64
  rb_insufficient_balance :: u64
  rb_other :: u64

definition rejections_by_reason :: "counters \<Rightarrow> rejection_breakdown" where
  "rejections_by_reason c =
     \<lparr> rb_nonce_replayed = ct_nonce_replayed c, rb_invalid_signature = ct_invalid_sig c,
       rb_expired = ct_expired c, rb_budget_exceeded = ct_budget c, rb_malformed = ct_malformed c,
       rb_insufficient_balance = ct_insufficient_balance c, rb_other = ct_other c \<rparr>"

text \<open>The hook on an effect of the layer.\<close>

fun observe :: "effect \<Rightarrow> counters \<Rightarrow> counters" where
  "observe (TxSent raw) c = c"
| "observe (OnSettled ev) c = count_settled ev c"
| "observe (OnRejected ev) c = count_rejected ev c"

definition is_settled :: "effect \<Rightarrow> bool" where
  "is_settled e \<longleftrightarrow> (\<exists>ev. e = OnSettled ev)"

definition rejected_for :: "(string \<Rightarrow> bool) \<Rightarrow> effect \<Rightarrow> bool" where
  "rejected_for R e \<longleftrightarrow> (\<exists>ev. e = OnRejected ev \<and> R (re_reason ev))"

definition tally :: "(effect \<Rightarrow> bool) \<Rightarrow> effect list \<Rightarrow> u64" where
  "tally p es = of_nat (length (filter p es))"

definition named_reasons :: "string set" where
  "named_reasons = {''nonce replayed'', ''signature invalid'', ''expired'', ''budget cap exceeded'',
     ''malformed payment header'', ''payment required'', ''insufficient balance''}"

lemma observe_fold:
  "fold observe es c =
     \<lparr> ct_settlements = ct_settlements c + tally is_settled es,
       ct_rejections = ct_rejections c + tally (rejected_for (\<lambda>r. True)) es,
       ct_nonce_replayed = ct_nonce_replayed c + tally (rejected_for (\<lambda>r. r = ''nonce replayed'')) es,
       ct_invalid_sig = ct_invalid_sig c + tally (rejected_for (\<lambda>r. r = ''signature invalid'')) es,
       ct_expired = ct_expired c + tally (rejected_for (\<lambda>r. r = ''expired'')) es,
       ct_budget = ct_budget c + tally (rejected_for (\<lambda>r. r = ''budget cap exceeded'')) es,
       ct_malformed = ct_malformed c
         + tally (rejected_for (\<lambda>r. r = ''malformed payment header'' \<or> r = ''payment required'')) es,
       ct_insufficient_balance = ct_insufficient_balance c
         + tally (rejected_for (\<lambda>r. r = ''insufficient balance'')) es,
       ct_other = ct_other c + tally (rejected_for (\<lambda>r. r \<notin> named_reasons)) es \<rparr>"
proof (induction es arbitrary: c)
  case Nil
  show ?case by (simp add: tally_def)
next
  case (Cons e es)
  show ?case
  proof (cases e)
    case (TxSent raw)
    with Cons show ?thesis by (simp add: tally_def is_settled_def rejected_for_def)
  next
    case (OnSettled ev)
    with Cons show ?thesis
      by (simp add: tally_def is_settled_def rejected_for_def count_settled_def add_ac)
  next
    case (OnRejected ev)
    with Cons show ?thesis
      by (simp add: tally_def is_settled_def rejected_for_def count_rejected_def named_reasons_def
          Let_def add_ac)
  qed
qed

text \<open>Whatever the layer reports, the settlements and the rejections are counted one by
  one, and the reasons of the breakdown add up to the total (as machine words), in
  whatever order the calls that share the hook reach it.\<close>

theorem counters_add_up:
  "ct_settlements (fold observe es counters_new) = tally is_settled es
   \<and> ct_rejections (fold observe es counters_new) = tally (rejected_for (\<lambda>r. True)) es
   \<and> (let b = rejections_by_reason (fold observe es counters_new) in
        rb_nonce_replayed b + rb_invalid_signature b + rb_expired b + rb_budget_exceeded b
        + rb_malformed b + rb_insufficient_balance b + rb_other b
          = ct_rejections (fold observe es counters_new))"
proof -
  have "tally (rejected_for (\<lambda>r. r = ''nonce replayed'')) es + tally (rejected_for (\<lambda>r. r = ''signature invalid'')) es
      + tally (rejected_for (\<lambda>r. r = ''expired'')) es + tally (rejected_for (\<lambda>r. r = ''budget cap exceeded'')) es
      + tally (rejected_for (\<lambda>r. r = ''malformed payment header'' \<or> r = ''payment required'')) es
      + tally (rejected_for (\<lambda>r. r = ''insufficient balance'')) es
      + tally (rejected_for (\<lambda>r. r \<notin> named_reasons)) es = tally (rejected_for (\<lambda>r. True)) es"
  proof (induction es)
    case (Cons e es)
    then show ?case
      by (cases e) (auto simp: tally_def rejected_for_def named_reasons_def algebra_simps)
  qed (simp add: tally_def)
  then show ?thesis by (simp add: observe_fold counters_new_def rejections_by_reason_def Let_def)
qed

lemma tally_mset: "mset es = mset fs \<Longrightarrow> tally p es = tally p fs"
  unfolding tally_def by (metis mset_filter size_mset)

theorem counters_order_free:
  "mset es = mset fs \<Longrightarrow> fold observe es c = fold observe fs c"
  by (simp add: observe_fold tally_mset [of es fs])

section \<open>The metrics token\<close>

definition env_metrics_token :: string where
  "env_metrics_token = ''CITRATE_GATEWAY_METRICS_TOKEN''"

text \<open>Equality of bytes without an early exit.\<close>

definition ct_eq :: "bytes \<Rightarrow> bytes \<Rightarrow> bool" where
  "ct_eq a b \<longleftrightarrow> length a = length b \<and> fold (\<lambda>(x, y) d. d OR (x XOR y)) (zip a b) 0 = 0"

datatype metrics_auth = Serve | Unconfigured | Unauthorized

definition metrics_auth_decision :: "string option \<Rightarrow> string option \<Rightarrow> metrics_auth" where
  "metrics_auth_decision expected presented =
     (case map_option str_trim expected of
        None \<Rightarrow> Unconfigured
      | Some tok \<Rightarrow>
          if tok = [] then Unconfigured
          else
            case presented of
              None \<Rightarrow> Unauthorized
            | Some p \<Rightarrow> if ct_eq (as_bytes p) (as_bytes tok) then Serve else Unauthorized)"

definition metrics_bearer :: "(string \<times> string) list \<Rightarrow> string option" where
  "metrics_bearer headers =
     (case Option.bind (map_of headers ''authorization'') header_to_str of
        None \<Rightarrow> None
      | Some raw \<Rightarrow>
          (case (case strip_prefix ''Bearer '' raw of
                   Some t \<Rightarrow> Some t | None \<Rightarrow> strip_prefix ''bearer '' raw) of
             None \<Rightarrow> None
           | Some t \<Rightarrow> let s = str_trim t in if s = [] then None else Some s))"

lemma word_xor_zero: "x XOR y = 0 \<longleftrightarrow> x = (y :: u8)"
  by (metis xor.assoc xor.right_neutral xor_self_eq)

lemma or_xor_fold:
  "fold (\<lambda>(x, y) d. d OR (x XOR y)) xs d = (0 :: u8) \<longleftrightarrow> d = 0 \<and> (\<forall>(x, y) \<in> set xs. x = y)"
  by (induction xs arbitrary: d) (auto simp: or_eq_0_iff word_xor_zero)

lemma ct_eq_iff: "ct_eq a b \<longleftrightarrow> a = b"
proof
  assume "ct_eq a b"
  then have "length a = length b" "\<forall>(x, y) \<in> set (zip a b). x = y"
    by (auto simp: ct_eq_def or_xor_fold)
  then show "a = b" by (induction a b rule: list_induct2) auto
qed (auto simp: ct_eq_def or_xor_fold in_set_zip)

section \<open>The recorder\<close>

record 'h recorder =
  rc_build :: 'h
  rc_describe :: "string \<Rightarrow> string \<Rightarrow> 'h \<Rightarrow> 'h"
  rc_count :: "string \<Rightarrow> (string \<times> string) list \<Rightarrow> u64 \<Rightarrow> 'h \<Rightarrow> 'h"
  rc_render :: "'h \<Rightarrow> string"

definition described :: "(string \<times> string) list" where
  "described =
     [(''gateway_chat_requests_total'', ''Chat completion requests handled, labelled by outcome''),
      (''gateway_batch_submissions_total'', ''/v1/batch submissions accepted''),
      (''gateway_api_key_requests_total'', ''API-key layer decisions, labelled by outcome''),
      (''gateway_usage_rows_emitted_total'', ''Usage rows emitted to UsageStore''),
      (''gateway_provider_dispatch_failures_total'', ''Provider dispatch failures (pre-failover)'')]"

definition outcome :: "string \<Rightarrow> (string \<times> string) list" where
  "outcome v = [(''outcome'', v)]"

definition preset :: "(string \<times> (string \<times> string) list) list" where
  "preset =
     [(''gateway_chat_requests_total'', outcome ''success''),
      (''gateway_chat_requests_total'', outcome ''error''),
      (''gateway_batch_submissions_total'', []),
      (''gateway_api_key_requests_total'', outcome ''funded''),
      (''gateway_api_key_requests_total'', outcome ''exhausted''),
      (''gateway_api_key_requests_total'', outcome ''unknown''),
      (''gateway_api_key_requests_total'', outcome ''revoked''),
      (''gateway_usage_rows_emitted_total'', []),
      (''gateway_provider_dispatch_failures_total'', [])]"

definition describe_metrics :: "'h recorder \<Rightarrow> 'h \<Rightarrow> 'h" where
  "describe_metrics R h =
     fold (\<lambda>(name, labels). rc_count R name labels 0) preset
       (fold (\<lambda>(name, help). rc_describe R name help) described h)"

definition install_recorder :: "'h recorder \<Rightarrow> 'h option \<Rightarrow> 'h option" where
  "install_recorder R cell =
     (case cell of Some h \<Rightarrow> Some h | None \<Rightarrow> Some (describe_metrics R (rc_build R)))"

definition plain_reply :: "nat \<Rightarrow> string \<Rightarrow> string \<Rightarrow> response" where
  "plain_reply code content_type body =
     \<lparr> rs_status = code, rs_headers = [(''content-type'', content_type)], rs_body = body,
       rs_body_broken = False, rs_charge = None \<rparr>"

definition metrics_handler ::
  "'h recorder \<Rightarrow> (string \<Rightarrow> string option) \<Rightarrow> (string \<times> string) list \<Rightarrow> 'h option \<Rightarrow> response" where
  "metrics_handler R env headers cell =
     (let utf8 = ''text/plain; charset=utf-8'' in
      case metrics_auth_decision (env env_metrics_token) (metrics_bearer headers) of
        Serve \<Rightarrow>
          (case cell of
             Some h \<Rightarrow> plain_reply 200 ''text/plain; version=0.0.4'' (rc_render R h)
           | None \<Rightarrow> plain_reply 503 utf8 ''metrics recorder not installed'')
      | Unauthorized \<Rightarrow>
          plain_reply 401 utf8 ''Authorization: Bearer <operator metrics token> required''
      | Unconfigured \<Rightarrow>
          plain_reply 401 utf8
            ''/metrics is disabled: set CITRATE_GATEWAY_METRICS_TOKEN to enable it'')"

text \<open>The counters are rendered exactly for the configured, non-blank token; every other
  caller gets a fixed text.\<close>

theorem metrics_guarded:
  "rs_status (metrics_handler R env headers cell) = 200 \<longleftrightarrow>
     (\<exists>t. env env_metrics_token = Some t \<and> str_trim t \<noteq> []
        \<and> metrics_bearer headers = Some (str_trim t) \<and> cell \<noteq> None)"
  by (auto simp: metrics_handler_def metrics_auth_decision_def ct_eq_iff plain_reply_def Let_def
      split: option.splits if_splits)

lemma recorder_installed_once:
  "install_recorder R (install_recorder R cell) = install_recorder R cell
   \<and> (cell \<noteq> None \<longrightarrow> install_recorder R cell = cell)"
  by (auto simp: install_recorder_def split: option.split)

end
