(* ===== verification/Divergences.thy ===== *)
theory Divergences
  imports Key_Vault Store_Migration Member_Keys Key_Backends Dispatch Proxy_Requests
begin

text \<open>
  Where the code and what is said of it part: each theorem states what the code does
  at a place where a comment, a message or the other backend says otherwise. The
  two managers of the operator wallet have theirs in \<open>Operator_Wallet\<close>, the guard
  of provider addresses in \<open>Dispatch\<close>.
\<close>

text \<open>\<open>types.rs\<close> and \<open>error.rs\<close> speak of 265 bytes in the payment header; a header is
  decoded only at 233, and 265 is the length of the precompile's input.\<close>

theorem header_payload_is_233_bytes:
  "decode_header X h = Inr p \<Longrightarrow> length (to_bytes p) = 233
     \<and> length (precompile_input X cfg p) = 265"
  by (simp add: payload_bytes_def precompile_input_def)

text \<open>A payment below the price is answered 402 but reported to the hook as a 500: the
  reason is an internal error, counted under none of the payment reasons.\<close>

theorem underpayment_reported_as_500:
  "rejected (InternalError (price_shortfall X offered price)) payer
      = OnRejected \<lparr> re_reason = ''internal error'', re_http_status = 500, re_payer = payer \<rparr>
   \<and> rs_status (build_402_response X c why detail) = 402"
  by (simp add: rejected_def build_402_response_def json_response_def)

text \<open>A maximum of zero still admits the first issuance of a window: the maximum is
  compared with the count of a window that exists.\<close>

theorem zero_maximum_admits_one:
  assumes "map_of (li_ips L) ip = None" "map_of (li_accounts L) account = None"
  shows "fst (reserve (cfg\<lparr> mc_account_daily_max := 0, mc_ip_hourly_max := 0 \<rparr>) account ip now L) = Inr ()"
  using assms by (simp add: reserve_def ip_blocked_def account_blocked_def)

text \<open>\<open>sibling\<close> of a path that ends in a slash is a path below it.\<close>

theorem sibling_of_slashed_path:
  "starts_with (p @ ''/'') (sibling (p @ ''/'') suffix)"
  by (simp add: sibling_def)

text \<open>When the second rename of the migration fails, there is no store at its path any
  more: it is at the backup path, although the tool reports the source untouched.\<close>

theorem failed_swap_moves_store:
  assumes "renames_ok F" "clean_path path" "clean_path (backup_path F path)" "path \<noteq> backup_path F path"
    and "fs_rename F path (backup_path F path) d = (Inr (), d1)"
    and "fs_rename F staging path d1 = (Inl e, d2)"
  shows "swap_in F path staging n counts d = (Inl (MigIo staging e), d2)
    \<and> d2 path = None \<and> d2 (backup_path F path) = d path"
proof -
  have "d1 path = None" "d1 (backup_path F path) = d path"
    using assms(1) assms(5) assms(2-4) unfolding renames_ok_def by blast+
  moreover have "d2 = d1" using assms(1,6) unfolding renames_ok_def by blast
  ultimately show ?thesis using assms(5,6) by (simp add: swap_in_def)
qed

text \<open>A budget for a key that does not exist is refused by the backend in memory, and
  written by the one on disk.\<close>

theorem model_budget_refused_in_memory:
  "as_backend s = MemoryBackend m \<Longrightarrow> map_of m (hash_key_id P k) = None \<Longrightarrow>
     keys_set_model_budget P master k model n s = (Inl DebitUnknown, s)"
  by (simp add: keys_set_model_budget_def)

theorem model_budget_written_on_disk:
  assumes "as_backend s = PersistentBackend"
    and "put_val P master (mbudget_key (hash_key_id P k) model) (u256_to_be_bytes n) True (as_world s) = (Inr (), w)"
  shows "keys_set_model_budget P master k model n s = (Inr (), s\<lparr> as_world := w \<rparr>)"
  using assms by (simp add: keys_set_model_budget_def set_model_budget_def)

text \<open>With more generations than tokens in the cap, the generations may use more than
  the cap together: one each.\<close>

theorem more_generations_than_cap:
  "unat cap < g \<Longrightarrow> g * generation_budget cap g = g \<and> unat cap < g * generation_budget cap g"
  by (simp add: generation_budget_def)

text \<open>The loser of a race for the key file fails; it does not read the winner's file.\<close>

theorem key_file_race_fails:
  assumes "path_parent p = Some []" "kf_random K 32 f = (Some key, f1)" "kf_create_new K 0x180 p f1 = (Inl e, f2)"
  shows "generate_key X K p True f = (Inl (KeyIo p e), f2)"
  using assms by (simp add: generate_key_def write_key_file_def)

end
