(* ===== verification/Spec2Isabelle.thy ===== *)
theory Spec2Isabelle
  imports X402_Client Model_Budgets Reference_Batches Member_Keys Usage Admin_Tool Paid_Stack
    Model_Catalogue Telemetry Divergences
begin

text \<open>
  The inference gateway: a verification development for the crates \<open>src/gateway\<close>
  (the HTTP gateway in front of model providers) and \<open>src/crates/x402-axum\<close> (the
  payment middleware and its client).

  The program. A request for a completion or a batch is paid in one of two ways.
  Without a key it meets the payment layer, which answers 402 with a challenge;
  the client signs a transfer over it, the layer validates the signed payment,
  serves, and settles on the chain what was served. With a bearer key the price
  is debited from the key's balance, and what the answer did not cost is given
  back. A paid request goes to the best provider or pool the chain knows, with
  failover; a batch runs as a task that outlives its request and holds the
  payment in escrow until its slots are terminal. In local-proxy mode the gateway
  instead forwards requests to local model servers under metered keys. Keys,
  balances, quotas and batches live in one encrypted key-value store. The
  operator wallet submits transactions of its own, a tool administers the store,
  and \<open>main\<close> puts all of it together from the environment.

  Shared theories. \<open>Prelude\<close> (words with saturating and checked arithmetic, byte
  codecs, association lists for hash maps, the \<open>try_then\<close> of Rust's question
  mark, JSON values, the locale \<open>codec\<close>), \<open>Rust_Text\<close> (trimming, prefixes, numbers),
  \<open>Gateway_Types\<close> (\<open>error.rs\<close>, \<open>openai.rs\<close>), \<open>Civil_Date\<close> (the date of \<open>usage.rs\<close>
  against a calendar), \<open>Platform\<close> (what \<open>keystore.rs\<close> takes from RocksDB, the
  cipher, the clock and the serializers) and \<open>Reference_Platform\<close> (an instance
  that behaves as documented).

  Payment, \<open>crates/x402-axum/src\<close>. \<open>Ledger\<close>: \<open>ledger.rs\<close>, the issued nonces with
  eviction and quota; a challenge is used once. \<open>X402_Wire\<close>: \<open>error.rs\<close>, \<open>types.rs\<close>,
  \<open>header.rs\<close>, \<open>digest.rs\<close>, \<open>challenge.rs\<close>, \<open>calldata.rs\<close>, \<open>receipt.rs\<close>; payloads and
  headers round-trip. \<open>X402_Layer\<close>: \<open>nonce.rs\<close>, \<open>keys.rs\<close>, \<open>sign_tx.rs\<close>, \<open>pricing.rs\<close>
  and the service of \<open>layer.rs\<close>; a transaction is submitted only for a validated
  payment whose handler answered 2xx. \<open>X402_Client\<close>: \<open>client.rs\<close>; what the layer
  issues the client can pay, and it pays within its cap. \<open>Chain_Rpc\<close>: \<open>chain.rs\<close>;
  the wait for a receipt ends when its requests complete. \<open>Telemetry\<close>: \<open>observability.rs\<close>, and
  \<open>gateway/src/metrics.rs\<close>.

  Money and keys, \<open>keystore.rs\<close> and \<open>auth.rs\<close>. \<open>Sealed_Store\<close>: encryption at rest;
  a value opens only where it was sealed. \<open>Balances\<close>: debits, refunds and the
  settled markers of batches, conserved across restarts. \<open>Api_Keys\<close>: metered keys,
  daily quotas, the pool of members, rate limits, rotation, also beside keys an
  interrupted issuance left unmapped. \<open>Key_Backends\<close>:
  \<open>ApiKeyStore\<close> over both backends, which refine one abstract set of accounts, but
  for rows the durable store cannot read or write.
  \<open>Api_Key_Layer\<close>: the bearer-key layer. \<open>Model_Budgets\<close>: the budget of a key per
  model. \<open>Member_Keys\<close>: \<open>member_keys.rs\<close>. \<open>Usage\<close>: \<open>usage.rs\<close>. \<open>Key_Vault\<close>: \<open>keyvault.rs\<close>.
  \<open>Store_Migration\<close>: \<open>migrate.rs\<close>, as a refinement: the migrated store has exactly
  the rows of the plaintext one.

  Requests. \<open>Dispatch\<close>: \<open>selection.rs\<close>, \<open>provider.rs\<close>; what the endpoint guard keeps
  out, and the one form of address it does not look into. \<open>Chain_Queries\<close>: \<open>queries.rs\<close>, with
  its caches and its ABI decoding on arbitrary answers. \<open>Chat\<close>: \<open>chat.rs\<close>, \<open>pricing.rs\<close>.
  \<open>Batch\<close>, \<open>Batch_Escrow\<close>, \<open>Batch_Recovery\<close>, \<open>Reference_Batches\<close>: \<open>batch.rs\<close> from submission
  over its task and the read endpoints to boot recovery. \<open>Proxy_Requests\<close>,
  \<open>Local_Proxy\<close>: \<open>local_proxy.rs\<close>. \<open>Model_Catalogue\<close>: \<open>models.rs\<close>, \<open>health.rs\<close>.

  Composition. \<open>Gateway_Boot\<close>: \<open>main.rs\<close>, \<open>config.rs\<close> and the policies and routers of
  \<open>lib.rs\<close>. \<open>Paid_Stack\<close>: the builder of the payment layer, the paid routers, and the
  two layers one behind the other: a request passes one till. \<open>Operator_Wallet\<close>:
  \<open>signer.rs\<close>, calls as interleaved tasks. \<open>Operator_Custody\<close>: the signers and
  \<open>from_env\<close>. \<open>Admin_Tool\<close>: \<open>bin/citrate-gateway-admin.rs\<close>. \<open>Divergences\<close>: what the code
  does where a comment says otherwise.

  How code becomes definitions. Structs are records and enums datatypes; integers
  are words of their width, and an operation that Rust checks, saturates or wraps
  does the same here. Strings are lists of UTF-8 bytes. An operation that can fail
  yields a sum, \<open>Inl\<close> the error; one that can panic yields an option, \<open>None\<close> the panic.
  A panic at start is an error of its own, \<open>BootPanic\<close>. State is passed explicitly. A
  handler is one definition with its guards in the order of the code. Where the
  code awaits while others run, the wallet and the proxy are step relations over
  tasks, whose invariants hold in every interleaving; a batch is followed through
  the inductive set of the records it can have; and the caches of the queries take
  what other tasks did in the meantime as an argument. Code of
  other crates - RocksDB, AES-GCM, the hash, the curve, hex, base64 and JSON text,
  HTTP, clocks, randomness, file system, provider, identity provider, chain - is a
  record of functions that the definitions take as argument; what is relied on is
  a named predicate (\<open>platform_ok\<close>, \<open>text_codecs_ok\<close>, \<open>files_ok\<close>, \<open>key_files_ok\<close>,
  \<open>prints_parse\<close>, \<open>recovers_key\<close> and the like), and a theorem that assumes one has a
  witness on an instance that has it.

  Interfaces. A locale stands where several operations share a contract, and each is
  interpreted on the code's model: \<open>codec\<close> (the payload), \<open>nonce_store\<close> (the ledger),
  \<open>kv_store\<close> (sealed values), \<open>money_store\<close> (durable balances, and again both backends
  of \<open>ApiKeyStore\<close>), \<open>window_counter\<close> and its extension \<open>quota_counter\<close> (rate, daily and
  pool limits, the proxy's quota, the two issuance limits), \<open>permits\<close> (per key and
  upstream), \<open>budget_store\<close> (model budgets), \<open>grants\<close> (the wallet's amounts and nonces).

  Bounds and fuel. Recursion is structural or has a measure, with two exceptions.
  The wait for a receipt is a \<open>partial_function\<close> over option; the property says that
  it returns, and when, if its requests complete, and that a request which is never
  answered - the client sets no timeout - is the only way it does not. A wallet call run alone has fuel 8, the number of its
  awaits; \<open>wallet_call_finishes\<close> shows that this suffices. Failover tries at most
  the providers there are. Sizes are bounded where the code bounds them: 8
  generations in a request, the ledger's capacity, the caps on bodies.

  Not modelled. The build script, which asks git for a commit. The log lines, the
  commentary the tool prints on standard error, and the increments of the
  Prometheus counters in the handlers, which nothing reads back; the recorder is a
  parameter. \<open>Debug\<close> instances and forwarding instances. The framing of server-sent
  events beyond the sequence of events. Timing: a timeout is an outcome the
  environment may choose; a call of the client without a timeout may also not return,
  which is \<open>None\<close> in \<open>Chain_Rpc\<close> and a task that takes no further step in
  \<open>Operator_Wallet\<close>. The scheduling inside the store's engine: an operation
  that holds a lock is one step. The parsing of command lines, and the retry
  policy of the HTTP library. Tests are not part of the program.
\<close>

end
